(* ===== verification/Prelude.thy ===== *)
theory Prelude
  imports Main
begin

text \<open>
  Shared vocabulary of the development. A C string is modelled by the list of the bytes
  before its terminator, a pointer into it by the remaining suffix, and \<open>*p == 0\<close> by the
  empty suffix. Bytes are HOL characters; \<open>byte c\<close> is the value \<open>(unsigned char)c\<close>.
  The theory holds the character classes of \<open>ctype.h\<close> in the C locale, the case-insensitive
  comparison \<open>_stricmp\<close>, the searching functions of \<open>string.h\<close> that the program calls, and
  the lemmas on prefixes and suffixes that the scanners share.
\<close>

named_theorems scan_length \<open>a scanner never returns more input than it was given\<close>
named_theorems char_class \<open>definitions of the character classes\<close>

text \<open>The largest value of \<open>unsigned long long\<close>.\<close>

definition ULLONG_MAX :: nat where
  "ULLONG_MAX = 2 ^ 64 - 1"

abbreviation byte :: "char \<Rightarrow> nat" where
  "byte c \<equiv> of_char c"

abbreviation NUL :: char where "NUL \<equiv> CHR 0x00"
abbreviation TAB :: char where "TAB \<equiv> CHR 0x09"
abbreviation LF :: char where "LF \<equiv> CHR 0x0A"
abbreviation CR :: char where "CR \<equiv> CHR 0x0D"
abbreviation SPC :: char where "SPC \<equiv> CHR 0x20"
abbreviation DQUOTE :: char where "DQUOTE \<equiv> CHR 0x22"
abbreviation BSLASH :: char where "BSLASH \<equiv> CHR 0x5C"
abbreviation SLASH :: char where "SLASH \<equiv> CHR 0x2F"

text \<open>A C string holds no terminator among its bytes.\<close>

definition cstring :: "string \<Rightarrow> bool" where
  "cstring s \<longleftrightarrow> NUL \<notin> set s"

lemma cstring_simps [simp]:
  "cstring []" "cstring (c # s) \<longleftrightarrow> c \<noteq> NUL \<and> cstring s" "cstring (s @ t) \<longleftrightarrow> cstring s \<and> cstring t"
  by (auto simp: cstring_def)

subsection \<open>Character classes\<close>

definition is_digit :: "char \<Rightarrow> bool" where
  "is_digit c \<longleftrightarrow> 48 \<le> byte c \<and> byte c \<le> 57"

definition is_upper :: "char \<Rightarrow> bool" where
  "is_upper c \<longleftrightarrow> 65 \<le> byte c \<and> byte c \<le> 90"

definition is_lower :: "char \<Rightarrow> bool" where
  "is_lower c \<longleftrightarrow> 97 \<le> byte c \<and> byte c \<le> 122"

definition is_alpha :: "char \<Rightarrow> bool" where
  "is_alpha c \<longleftrightarrow> is_upper c \<or> is_lower c"

definition is_alnum :: "char \<Rightarrow> bool" where
  "is_alnum c \<longleftrightarrow> is_alpha c \<or> is_digit c"

definition to_lower :: "char \<Rightarrow> char" where
  "to_lower c = (if is_upper c then char_of (byte c + 32) else c)"

definition digit_val :: "char \<Rightarrow> nat" where
  "digit_val c = byte c - 48"

lemmas class_defs [char_class] =
  is_digit_def is_upper_def is_lower_def is_alpha_def is_alnum_def

lemma byte_less_256 [simp]: "byte c < 256"
  using of_char_eq_iff by simp

lemma byte_char_of [simp]: "n < 256 \<Longrightarrow> byte (char_of n) = n"
  by simp

lemma byte_eq_iff: "byte c = byte d \<longleftrightarrow> c = d"
  by simp

lemma digit_val_le: "is_digit c \<Longrightarrow> digit_val c \<le> 9"
  by (auto simp: is_digit_def digit_val_def)

lemma byte_to_lower: "byte (to_lower c) = (if is_upper c then byte c + 32 else byte c)"
  by (simp add: to_lower_def is_upper_def)

lemma is_upper_to_lower [simp]: "\<not> is_upper (to_lower c)"
  by (auto simp: is_upper_def byte_to_lower)

lemma to_lower_idem [simp]: "to_lower (to_lower c) = to_lower c"
  using is_upper_to_lower [of c] by (simp add: to_lower_def [of "to_lower c"])

subsection \<open>Comparison of strings\<close>

text \<open>
  \<open>strcmp\<close> compares unsigned bytes and a proper prefix is smaller; only the sign of the C
  result is used, so the model returns \<open>-1\<close>, \<open>0\<close> or \<open>1\<close>. \<open>_stricmp\<close> compares the strings
  in lower case; \<open>_strnicmp\<close> at most a given number of bytes of both.
\<close>

fun strcmp :: "string \<Rightarrow> string \<Rightarrow> int" where
  "strcmp [] [] = 0"
| "strcmp [] (_ # _) = -1"
| "strcmp (_ # _) [] = 1"
| "strcmp (a # x) (b # y) =
     (if byte a < byte b then -1 else if byte b < byte a then 1 else strcmp x y)"

definition lower :: "string \<Rightarrow> string" where
  "lower s = map to_lower s"

definition stricmp :: "string \<Rightarrow> string \<Rightarrow> int" where
  "stricmp a b = strcmp (lower a) (lower b)"

definition strieq :: "string \<Rightarrow> string \<Rightarrow> bool" where
  "strieq a b \<longleftrightarrow> lower a = lower b"

definition strnieq :: "nat \<Rightarrow> string \<Rightarrow> string \<Rightarrow> bool" where
  "strnieq n a b \<longleftrightarrow> lower (take n a) = lower (take n b)"

definition starts_with :: "string \<Rightarrow> string \<Rightarrow> bool" where
  "starts_with pre s \<longleftrightarrow> take (length pre) s = pre"

lemma length_lower [simp]: "length (lower s) = length s"
  by (simp add: lower_def)

lemma lower_Nil [simp]: "lower [] = []"
  by (simp add: lower_def)

lemma lower_append [simp]: "lower (a @ b) = lower a @ lower b"
  by (simp add: lower_def)

lemma strcmp_eq_0 [simp]: "strcmp a b = 0 \<longleftrightarrow> a = b"
  by (induction a b rule: strcmp.induct) (auto simp: not_less antisym dest: byte_eq_iff [THEN iffD1])

lemma strcmp_refl: "strcmp a a = 0"
  by simp

lemma strcmp_range: "strcmp a b = -1 \<or> strcmp a b = 0 \<or> strcmp a b = 1"
  by (induction a b rule: strcmp.induct) auto

lemma strcmp_swap: "strcmp b a = - strcmp a b"
  by (induction a b rule: strcmp.induct) auto

lemma strcmp_trans: "strcmp a b \<le> 0 \<Longrightarrow> strcmp b c \<le> 0 \<Longrightarrow> strcmp a c \<le> 0"
proof (induction a b arbitrary: c rule: strcmp.induct)
  case (4 a x b y)
  show ?case
  proof (cases c)
    case Nil
    with "4.prems" show ?thesis by simp
  next
    case (Cons d z)
    have ab: "byte a \<le> byte b" and bd: "byte b \<le> byte d"
      using "4.prems" Cons by (auto split: if_splits)
    show ?thesis
    proof (cases "byte a < byte d")
      case True
      with Cons show ?thesis by simp
    next
      case False
      with ab bd have "byte a = byte b" "byte b = byte d" by linarith+
      with "4.prems" "4.IH" [of z] Cons show ?thesis by simp
    qed
  qed
next
  case (2 b y)
  then show ?case by (cases c) auto
next
  case 1
  then show ?case by simp
next
  case (3 a x)
  then show ?case by simp
qed

lemma stricmp_eq_0 [simp]: "stricmp a b = 0 \<longleftrightarrow> strieq a b"
  by (simp add: stricmp_def strieq_def)

lemma strieq_refl [simp]: "strieq a a"
  by (simp add: strieq_def)

lemma strieq_sym: "strieq a b \<longleftrightarrow> strieq b a"
  by (auto simp: strieq_def)

lemma strieq_trans: "strieq a b \<Longrightarrow> strieq b c \<Longrightarrow> strieq a c"
  by (simp add: strieq_def)

lemma strieq_length: "strieq a b \<Longrightarrow> length a = length b"
  unfolding strieq_def by (metis length_lower)

lemma starts_with_iff: "starts_with pre s \<longleftrightarrow> (\<exists>r. s = pre @ r)"
  unfolding starts_with_def by (metis append_eq_conv_conj append_take_drop_id)

subsection \<open>Searching\<close>

text \<open>
  \<open>strchr s c\<close>: the suffix of \<open>s\<close> from the first \<open>c\<close>, or \<open>None\<close>; \<open>strcspn\<close> as the split of
  \<open>s\<close> before the first byte of a set; \<open>strstr\<close>: the suffix from the first occurrence.
\<close>

fun strchr :: "char \<Rightarrow> string \<Rightarrow> string option" where
  "strchr c [] = None"
| "strchr c (x # s) = (if x = c then Some (x # s) else strchr c s)"

definition strcspn_take :: "char set \<Rightarrow> string \<Rightarrow> string" where
  "strcspn_take S s = takeWhile (\<lambda>c. c \<notin> S) s"

definition strcspn_drop :: "char set \<Rightarrow> string \<Rightarrow> string" where
  "strcspn_drop S s = dropWhile (\<lambda>c. c \<notin> S) s"

fun strstr :: "string \<Rightarrow> string \<Rightarrow> string option" where
  "strstr pat [] = (if pat = [] then Some [] else None)"
| "strstr pat (x # s) = (if starts_with pat (x # s) then Some (x # s) else strstr pat s)"

text \<open>\<open>*p == c\<close> for a byte other than the terminator.\<close>

definition at :: "char \<Rightarrow> string \<Rightarrow> bool" where
  "at c p \<longleftrightarrow> (case p of [] \<Rightarrow> False | x # _ \<Rightarrow> x = c)"

definition at_class :: "(char \<Rightarrow> bool) \<Rightarrow> string \<Rightarrow> bool" where
  "at_class P p \<longleftrightarrow> (case p of [] \<Rightarrow> False | x # _ \<Rightarrow> P x)"

lemma at_simps [simp]: "\<not> at c []" "at c (x # p) \<longleftrightarrow> x = c"
  by (auto simp: at_def)

lemma at_class_simps [simp]: "\<not> at_class P []" "at_class P (x # p) \<longleftrightarrow> P x"
  by (auto simp: at_class_def)

lemma at_iff: "at c p \<longleftrightarrow> (\<exists>q. p = c # q)"
  by (cases p) auto

lemma at_class_iff: "at_class P p \<longleftrightarrow> (\<exists>c q. p = c # q \<and> P c)"
  by (cases p) auto

lemma strchr_None_iff: "strchr c s = None \<longleftrightarrow> c \<notin> set s"
  by (induction s) auto

lemma strchr_Some: "strchr c s = Some t \<Longrightarrow> \<exists>a r. s = a @ c # r \<and> t = c # r \<and> c \<notin> set a"
proof (induction s)
  case (Cons x s)
  show ?case
  proof (cases "x = c")
    case True
    with Cons.prems show ?thesis by fastforce
  next
    case False
    with Cons obtain a r where "s = a @ c # r" "t = c # r" "c \<notin> set a" by auto
    with False show ?thesis by (intro exI [of _ "x # a"] exI [of _ r]) auto
  qed
qed simp

lemma strchr_append: "c \<notin> set a \<Longrightarrow> strchr c (a @ c # r) = Some (c # r)"
  by (induction a) auto

lemma strcspn_append [simp]: "strcspn_take S s @ strcspn_drop S s = s"
  by (simp add: strcspn_take_def strcspn_drop_def)

lemma strstr_Some: "strstr pat s = Some t \<Longrightarrow> \<exists>a r. s = a @ t \<and> t = pat @ r"
proof (induction s)
  case (Cons x s)
  show ?case
  proof (cases "starts_with pat (x # s)")
    case True
    with Cons.prems show ?thesis by (auto simp: starts_with_iff)
  next
    case False
    with Cons obtain a r where "s = a @ t" "t = pat @ r" by auto
    then show ?thesis by (intro exI [of _ "x # a"] exI [of _ r]) auto
  qed
qed (auto split: if_splits)

lemma strstr_length [scan_length]: "strstr pat s = Some t \<Longrightarrow> length t \<le> length s"
  by (auto dest: strstr_Some)

lemma dropWhile_length [scan_length]: "length (dropWhile P s) \<le> length s"
  by (rule length_dropWhile_le)

subsection \<open>Decimal numbers\<close>

text \<open>The conversion \<open>%u\<close>, \<open>%lu\<close>, \<open>%llu\<close> of an unsigned value, and the value of a run of digits.\<close>

fun decimal :: "nat \<Rightarrow> string" where
  "decimal n = (if n < 10 then [char_of (48 + n)] else decimal (n div 10) @ [char_of (48 + n mod 10)])"

declare decimal.simps [simp del]

definition dec_value :: "string \<Rightarrow> nat" where
  "dec_value d = foldl (\<lambda>r c. 10 * r + digit_val c) 0 d"

definition canonical_digits :: "string \<Rightarrow> bool" where
  "canonical_digits d \<longleftrightarrow> d \<noteq> [] \<and> list_all is_digit d \<and> (hd d = CHR ''0'' \<longrightarrow> d = ''0'')"

lemma dec_value_simps [simp]:
  "dec_value [] = 0" "dec_value (d @ [c]) = 10 * dec_value d + digit_val c"
  by (simp_all add: dec_value_def)

lemma digit_char:
  "n < 10 \<Longrightarrow> is_digit (char_of (48 + n))" "n < 10 \<Longrightarrow> digit_val (char_of (48 + n)) = n"
  by (simp_all add: is_digit_def digit_val_def)

lemma char_of_digit_val: "is_digit c \<Longrightarrow> char_of (48 + digit_val c) = c"
  by (auto simp: is_digit_def digit_val_def)

lemma decimal_not_Nil [simp]: "decimal n \<noteq> []"
  by (subst decimal.simps) simp

lemma decimal_digits: "list_all is_digit (decimal n)"
  by (induction n rule: decimal.induct) (subst decimal.simps, simp add: digit_char)

lemma dec_value_decimal [simp]: "dec_value (decimal n) = n"
proof (induction n rule: decimal.induct)
  case (1 n)
  show ?case
  proof (cases "n < 10")
    case True
    then show ?thesis using dec_value_simps(2) [of "[]"] by (subst decimal.simps) (simp add: digit_char)
  next
    case False
    with 1 show ?thesis by (subst decimal.simps) (simp add: digit_char)
  qed
qed

lemma hd_decimal: "0 < n \<Longrightarrow> hd (decimal n) \<noteq> CHR ''0''"
proof (induction n rule: decimal.induct)
  case (1 n)
  show ?case
  proof (cases "n < 10")
    case True
    then have "digit_val (char_of (48 + n)) \<noteq> digit_val (CHR ''0'')"
      using 1(2) by (simp only: digit_char) (simp add: digit_val_def)
    with True show ?thesis by (subst decimal.simps) auto
  next
    case False
    with 1(1) have "hd (decimal (n div 10)) \<noteq> CHR ''0''" by simp
    with False show ?thesis by (subst decimal.simps) simp
  qed
qed

lemma canonical_decimal: "canonical_digits (decimal n)"
proof (cases "n = 0")
  case True
  then show ?thesis by (subst decimal.simps) (simp add: canonical_digits_def is_digit_def)
next
  case False
  then show ?thesis using hd_decimal [of n] decimal_digits [of n] by (simp add: canonical_digits_def)
qed

lemma decimal_0: "decimal 0 = ''0''"
  using char_of_digit_val [of "CHR ''0''"]
  by (subst decimal.simps) (simp add: digit_val_def is_digit_def)

lemma decimal_dec_value: "canonical_digits d \<Longrightarrow> decimal (dec_value d) = d"
proof (induction d rule: rev_induct)
  case (snoc c d)
  show ?case
  proof (cases "d = []")
    case True
    with snoc have "is_digit c" by (simp add: canonical_digits_def)
    with True show ?thesis
      using dec_value_simps(2) [of "[]" c] digit_val_le [of c] char_of_digit_val [of c]
      by (subst decimal.simps) simp
  next
    case False
    with snoc.prems have d: "canonical_digits d" "is_digit c" "hd d \<noteq> CHR ''0''"
      by (auto simp: canonical_digits_def)
    then have "0 < dec_value d"
      using snoc.IH decimal_0 by (cases "dec_value d") auto
    with d snoc.IH show ?thesis
      using digit_val_le [of c] char_of_digit_val [of c] by (subst decimal.simps) auto
  qed
qed (simp add: canonical_digits_def)

lemma is_digit_zero [simp]: "is_digit (CHR ''0'')"
  by (simp add: is_digit_def)

lemma takeWhile_digits: "list_all is_digit d \<Longrightarrow> \<not> at_class is_digit q
    \<Longrightarrow> takeWhile is_digit (d @ q) = d \<and> dropWhile is_digit (d @ q) = q"
  by (induction d) (cases q; auto)+

subsection \<open>Bounded buffers\<close>

text \<open>\<open>snprintf\<close> into a buffer with a check of the result, and \<open>strcpy_s\<close>: the text and its
  terminator must fit \<open>cap\<close> bytes.\<close>

definition fits :: "nat \<Rightarrow> string \<Rightarrow> string option" where
  "fits cap s = (if length s < cap then Some s else None)"

lemma fits_Some [simp]: "fits cap s = Some t \<longleftrightarrow> t = s \<and> length s < cap"
  by (auto simp: fits_def)

text \<open>The loops that cut a trailing separator down to a given length.\<close>

function trim_trailing :: "char \<Rightarrow> nat \<Rightarrow> string \<Rightarrow> string" where
  "trim_trailing c least s =
     (if length s > least \<and> last s = c then trim_trailing c least (butlast s) else s)"
  by pat_completeness auto
termination
  by (relation "measure (\<lambda>(c, least, s). length s)") auto

declare trim_trailing.simps [simp del]

lemma trim_trailing_prefix: "\<exists>n. s = trim_trailing c least s @ replicate n c"
proof (induction c least s rule: trim_trailing.induct)
  case (1 c least s)
  show ?case
  proof (cases "length s > least \<and> last s = c")
    case True
    with 1 obtain n where "butlast s = trim_trailing c least (butlast s) @ replicate n c" by blast
    moreover have "s = butlast s @ [c]" using True by (metis append_butlast_last_id list.size(3) not_less_zero)
    ultimately have "s = trim_trailing c least s @ replicate (Suc n) c"
      using True by (metis append.assoc replicate_append_same replicate_Suc trim_trailing.simps)
    then show ?thesis by blast
  next
    case False
    then show ?thesis by (subst trim_trailing.simps) (intro exI [of _ 0], auto)
  qed
qed

lemma trim_trailing_id: "length s \<le> least \<or> last s \<noteq> c \<Longrightarrow> trim_trailing c least s = s"
  by (subst trim_trailing.simps) auto

lemma trim_trailing_step:
  "length s > least \<and> last s = c \<Longrightarrow> trim_trailing c least s = trim_trailing c least (butlast s)"
  by (subst trim_trailing.simps) simp

lemma trim_trailing_last: "length (trim_trailing c least s) \<le> least \<or> last (trim_trailing c least s) \<noteq> c"
proof (induction c least s rule: trim_trailing.induct)
  case (1 c least s)
  show ?case
  proof (cases "length s > least \<and> last s = c")
    case True
    with 1 show ?thesis by (simp only: trim_trailing_step [OF True])
  next
    case False
    then have "trim_trailing c least s = s" by (intro trim_trailing_id) auto
    with False show ?thesis by auto
  qed
qed

lemma trim_trailing_length: "min least (length s) \<le> length (trim_trailing c least s)"
proof (induction c least s rule: trim_trailing.induct)
  case (1 c least s)
  show ?case
  proof (cases "length s > least \<and> last s = c")
    case True
    with 1 have "min least (length (butlast s)) \<le> length (trim_trailing c least s)"
      by (simp only: trim_trailing_step [OF True])
    moreover have "length (butlast s) \<ge> least" using True unfolding length_butlast by linarith
    ultimately show ?thesis by (simp add: min_def)
  next
    case False
    then have "trim_trailing c least s = s" by (intro trim_trailing_id) auto
    then show ?thesis by simp
  qed
qed

lemma trim_trailing_set: "set (trim_trailing c least s) \<subseteq> set s"
  using trim_trailing_prefix [of s c least] by (metis set_append Un_upper1)

end
