(* ===== verification/Json_Input.thy ===== *)
theory Json_Input
  imports Prelude
begin

text \<open>
  The lexical helpers of \<open>wpm/json_input.c\<close>: whitespace, the decoding of one string into a
  bounded buffer, skipping one value, the iterative grammar check and the lookup of root
  fields. A cursor \<open>const char **\<close> is the remaining input, returned when the C code stores it.
\<close>

subsection \<open>Whitespace and hexadecimal digits\<close>

definition is_json_ws :: "char \<Rightarrow> bool" where
  "is_json_ws c \<longleftrightarrow> c = SPC \<or> c = TAB \<or> c = CR \<or> c = LF"

definition wpm_json_space :: "string \<Rightarrow> string" where
  "wpm_json_space p = dropWhile is_json_ws p"

definition hex_digit :: "char \<Rightarrow> nat option" where
  "hex_digit c =
     (if is_digit c then Some (byte c - 48)
      else if 97 \<le> byte c \<and> byte c \<le> 102 then Some (byte c - 97 + 10)
      else if 65 \<le> byte c \<and> byte c \<le> 70 then Some (byte c - 65 + 10)
      else None)"

text \<open>The loop of \<open>json_hex4\<close>; \<open>(result << 4) | digit\<close> is \<open>16 * result + digit\<close>, since
  \<open>digit < 16\<close> and four digits fit the 32 bits of \<open>unsigned long\<close>.\<close>

fun json_hex_loop :: "nat \<Rightarrow> nat \<Rightarrow> string \<Rightarrow> (nat \<times> string) option" where
  "json_hex_loop 0 result p = Some (result, p)"
| "json_hex_loop (Suc i) result [] = None"
| "json_hex_loop (Suc i) result (c # p) =
     (case hex_digit c of
        None \<Rightarrow> None
      | Some d \<Rightarrow> json_hex_loop i (16 * result + d) p)"

definition json_hex4 :: "string \<Rightarrow> (nat \<times> string) option" where
  "json_hex4 p = json_hex_loop 4 0 p"

subsection \<open>Decoding one string\<close>

text \<open>The code point after \<open>\u\<close>, with surrogate pairs; a zero is refused when there is an
  output buffer.\<close>

definition json_codepoint :: "bool \<Rightarrow> string \<Rightarrow> (nat \<times> string) option" where
  "json_codepoint out p =
     (case json_hex4 p of
        None \<Rightarrow> None
      | Some (cp, q) \<Rightarrow>
          if cp = 0 \<and> out then None
          else if 0xd800 \<le> cp \<and> cp \<le> 0xdbff then
            (case q of
               b # u # r \<Rightarrow>
                 if b = BSLASH \<and> u = CHR ''u'' then
                   (case json_hex4 r of
                      None \<Rightarrow> None
                    | Some (low, r') \<Rightarrow>
                        if low < 0xdc00 \<or> low > 0xdfff then None
                        else Some (0x10000 + (cp - 0xd800) * 1024 + (low - 0xdc00), r'))
                 else None
             | _ \<Rightarrow> None)
          else if 0xdc00 \<le> cp \<and> cp \<le> 0xdfff then None
          else Some (cp, q))"

text \<open>The bytes of a code point: \<open>0xc0 | (cp >> 6)\<close> and so on, as sums of disjoint bits.\<close>

definition utf8_bytes :: "nat \<Rightarrow> nat list" where
  "utf8_bytes cp =
     (if cp < 0x80 then [cp]
      else if cp < 0x800 then [0xc0 + cp div 64, 0x80 + cp mod 64]
      else if cp < 0x10000 then [0xe0 + cp div 4096, 0x80 + cp div 64 mod 64, 0x80 + cp mod 64]
      else [0xf0 + cp div 262144, 0x80 + cp div 4096 mod 64, 0x80 + cp div 64 mod 64,
            0x80 + cp mod 64])"

definition utf8_chars :: "nat \<Rightarrow> string" where
  "utf8_chars cp = map char_of (utf8_bytes cp)"

definition simple_escape :: "char \<Rightarrow> char option" where
  "simple_escape c =
     (if c = DQUOTE then Some DQUOTE
      else if c = BSLASH then Some BSLASH
      else if c = SLASH then Some SLASH
      else if c = CHR ''b'' then Some (CHR 0x08)
      else if c = CHR ''f'' then Some (CHR 0x0C)
      else if c = CHR ''n'' then Some LF
      else if c = CHR ''r'' then Some CR
      else if c = CHR ''t'' then Some TAB
      else None)"

lemma json_hex_loop_length [scan_length]:
  "json_hex_loop i result p = Some (v, q) \<Longrightarrow> length p = length q + i"
  by (induction i result p rule: json_hex_loop.induct) (auto split: option.splits)

lemma json_codepoint_length [scan_length]:
  "json_codepoint out p = Some (v, q) \<Longrightarrow> length q < length p"
  by (auto simp: json_codepoint_def json_hex4_def split: option.splits if_splits list.splits
      dest!: json_hex_loop_length)

text \<open>
  The loop of \<open>wpm_json_read_string\<close> after the opening quote. \<open>n\<close> counts the bytes already
  stored, \<open>cap\<close> is the capacity. The result holds the bytes written by the rest of the loop
  (also when it fails, since the C code stores them before it notices) and, on success, the
  input after the closing quote.
\<close>

function json_scan :: "bool \<Rightarrow> nat \<Rightarrow> nat \<Rightarrow> string \<Rightarrow> string \<times> string option" where
  "json_scan out cap n [] = ([], None)"
| "json_scan out cap n (c # q) =
     (if c = DQUOTE then ([], Some q)
      else if byte c < 0x20 then ([], None)
      else if c = BSLASH then
        (case q of
           [] \<Rightarrow> ([], None)
         | e # r \<Rightarrow>
             if e = CHR ''u'' then
               (case json_codepoint out r of
                  None \<Rightarrow> ([], None)
                | Some (cp, r') \<Rightarrow>
                    let bytes = utf8_chars cp in
                    if length bytes \<ge> cap \<or> n \<ge> cap - length bytes then ([], None)
                    else (case json_scan out cap (n + length bytes) r' of
                            (w, t) \<Rightarrow> (bytes @ w, t)))
             else
               (case simple_escape e of
                  None \<Rightarrow> ([], None)
                | Some d \<Rightarrow>
                    if n + 1 \<ge> cap then ([], None)
                    else (case json_scan out cap (n + 1) r of (w, t) \<Rightarrow> (d # w, t))))
      else if n + 1 \<ge> cap then ([], None)
      else (case json_scan out cap (n + 1) q of (w, t) \<Rightarrow> (c # w, t)))"
  by pat_completeness auto
termination
  by (relation "measure (\<lambda>(out, cap, n, p). length p)")
     (auto dest: json_codepoint_length)

definition wpm_json_read_string :: "bool \<Rightarrow> nat \<Rightarrow> string \<Rightarrow> string \<times> string option" where
  "wpm_json_read_string out cap s =
     (case wpm_json_space s of
        [] \<Rightarrow> ([], None)
      | c # q \<Rightarrow> if c = DQUOTE then json_scan out cap 0 q else ([], None))"

text \<open>\<open>(size_t)-1\<close> on the 64-bit targets; a call without an output buffer passes it.\<close>

definition SIZE_MAX :: nat where
  "SIZE_MAX = 2 ^ 64 - 1"

definition json_skip_string :: "string \<Rightarrow> string option" where
  "json_skip_string s = snd (wpm_json_read_string False SIZE_MAX s)"

lemma json_scan_length [scan_length]:
  "snd (json_scan out cap n p) = Some q \<Longrightarrow> length q < length p"
proof (induction out cap n p rule: json_scan.induct)
  case (2 out cap n c q')
  then show ?case
    by (auto simp: Let_def split: if_splits list.splits option.splits prod.splits
        dest!: json_codepoint_length) fastforce+
qed simp

lemma wpm_json_space_length [scan_length]: "length (wpm_json_space p) \<le> length p"
  by (simp add: wpm_json_space_def length_dropWhile_le)

lemma read_string_length [scan_length]:
  "snd (wpm_json_read_string out cap s) = Some q \<Longrightarrow> length q + 1 < length s"
  using wpm_json_space_length [of s]
  by (auto simp: wpm_json_read_string_def split: list.splits if_splits dest!: json_scan_length)

lemma json_skip_string_length [scan_length]:
  "json_skip_string s = Some q \<Longrightarrow> length q + 1 < length s"
  using read_string_length by (auto simp: json_skip_string_def)

text \<open>Everything stored fits the capacity with room for the terminator, also on failure.\<close>

lemma json_scan_bound: "n < cap \<Longrightarrow> n + length (fst (json_scan out cap n p)) < cap"
proof (induction out cap n p rule: json_scan.induct)
  case (2 out cap n c q')
  then show ?case
    by (auto simp: Let_def case_prod_beta add.assoc [symmetric] split: list.splits option.splits)
qed simp

lemma read_string_bound: "0 < cap \<Longrightarrow> length (fst (wpm_json_read_string out cap p)) < cap"
  using json_scan_bound [of 0 cap out] by (auto simp: wpm_json_read_string_def split: list.splits)

subsection \<open>Skipping one value\<close>

text \<open>The loop of \<open>wpm_json_value_end\<close> over depth, quote flag and cursor.\<close>

fun json_value_loop :: "nat \<Rightarrow> bool \<Rightarrow> string \<Rightarrow> nat \<times> bool \<times> string" where
  "json_value_loop depth quote [] = (depth, quote, [])"
| "json_value_loop depth True (c # p) =
     (if c = BSLASH \<and> p \<noteq> [] then json_value_loop depth True (tl p)
      else json_value_loop depth (c \<noteq> DQUOTE) p)"
| "json_value_loop depth False (c # p) =
     (if c = DQUOTE then json_value_loop depth True p
      else if c = CHR ''{'' \<or> c = CHR ''['' then json_value_loop (depth + 1) False p
      else if c = CHR ''}'' \<or> c = CHR '']'' then
        (if depth = 0 then (0, False, c # p) else json_value_loop (depth - 1) False p)
      else if c = CHR '','' \<and> depth = 0 then (0, False, c # p)
      else json_value_loop depth False p)"

definition wpm_json_value_end :: "string \<Rightarrow> bool \<times> string" where
  "wpm_json_value_end s =
     (case json_value_loop 0 False (wpm_json_space s) of
        (depth, quote, p) \<Rightarrow> (depth = 0 \<and> \<not> quote, p))"

lemma json_value_loop_length [scan_length]:
  "length (snd (snd (json_value_loop depth quote p))) \<le> length p"
proof (induction depth quote p rule: json_value_loop.induct)
  case (2 depth c p)
  then show ?case by (cases p) (simp_all add: le_SucI)
next
  case (3 depth c p)
  then show ?case
    by (cases "depth = 0"; simp add: le_SucI; intro impI; simp add: le_SucI)
qed simp

lemma value_end_length [scan_length]: "length (snd (wpm_json_value_end s)) \<le> length s"
  using json_value_loop_length [of 0 False "wpm_json_space s"] wpm_json_space_length [of s]
  by (auto simp: wpm_json_value_end_def split: prod.splits)

subsection \<open>Grammar admission\<close>

definition wpm_json_content :: "string \<Rightarrow> string" where
  "wpm_json_content text =
     wpm_json_space (if starts_with [CHR 0xEF, CHR 0xBB, CHR 0xBF] text then drop 3 text else text)"

definition json_digits :: "string \<Rightarrow> string option" where
  "json_digits p = (if at_class is_digit p then Some (dropWhile is_digit p) else None)"

text \<open>The number branch of \<open>wpm_json_document_valid\<close>: sign, integer part, fraction, exponent.\<close>

definition json_number_int :: "string \<Rightarrow> string option" where
  "json_number_int p =
     (let p = (if at (CHR ''-'') p then tl p else p) in
      if at (CHR ''0'') p then Some (tl p) else json_digits p)"

definition json_number_frac :: "string \<Rightarrow> string option" where
  "json_number_frac p = (if at (CHR ''.'') p then json_digits (tl p) else Some p)"

definition json_number_exp :: "string \<Rightarrow> string option" where
  "json_number_exp p =
     (if at (CHR ''e'') p \<or> at (CHR ''E'') p then
        (let q = tl p in json_digits (if at (CHR ''+'') q \<or> at (CHR ''-'') q then tl q else q))
      else Some p)"

definition json_number :: "string \<Rightarrow> string option" where
  "json_number p =
     Option.bind (json_number_int p) (\<lambda>q. Option.bind (json_number_frac q) json_number_exp)"

definition json_scalar :: "string \<Rightarrow> string option" where
  "json_scalar p =
     (if at DQUOTE p then json_skip_string p
      else if at (CHR ''-'') p \<or> at_class is_digit p then json_number p
      else if starts_with ''true'' p then Some (drop 4 p)
      else if starts_with ''false'' p then Some (drop 5 p)
      else if starts_with ''null'' p then Some (drop 4 p)
      else None)"

datatype json_state =
    ROOT_VALUE | ROOT_END | OBJECT_FIRST | OBJECT_KEY | OBJECT_COLON | OBJECT_VALUE
  | OBJECT_END | ARRAY_FIRST | ARRAY_VALUE | ARRAY_END

text \<open>
  One iteration of the \<open>for (;;)\<close> loop. The array \<open>states[0..depth]\<close> is a list with
  \<open>states[depth]\<close> first. \<open>Inl v\<close> is a \<open>break\<close> with \<open>valid = v\<close>, \<open>Inr\<close> a \<open>continue\<close>.
\<close>

definition after_value :: "json_state \<Rightarrow> json_state" where
  "after_value state =
     (if state = ROOT_VALUE then ROOT_END
      else if state = OBJECT_VALUE then OBJECT_END else ARRAY_END)"

definition json_dispatch ::
  "nat \<Rightarrow> json_state \<Rightarrow> json_state list \<Rightarrow> string \<Rightarrow> bool + json_state list \<times> string" where
  "json_dispatch capacity state below p =
     (if state = ROOT_END then Inl (p = [])
      else if state = OBJECT_FIRST \<or> state = OBJECT_KEY then
        (if state = OBJECT_FIRST \<and> at (CHR ''}'') p then Inr (below, tl p)
         else (case json_skip_string p of
                 None \<Rightarrow> Inl False
               | Some q \<Rightarrow> Inr (OBJECT_COLON # below, q)))
      else if state = OBJECT_COLON then
        (if at (CHR '':'') p then Inr (OBJECT_VALUE # below, tl p) else Inl False)
      else if state = OBJECT_END \<or> state = ARRAY_END then
        (if at (if state = OBJECT_END then CHR ''}'' else CHR '']'') p then Inr (below, tl p)
         else if at (CHR '','') p then
           Inr ((if state = OBJECT_END then OBJECT_KEY else ARRAY_VALUE) # below, tl p)
         else Inl False)
      else if state = ARRAY_FIRST \<and> at (CHR '']'') p then Inr (below, tl p)
      else if at (CHR ''{'') p \<or> at (CHR ''['') p then
        (if length below + 1 \<ge> capacity then Inl False
         else Inr ((if at (CHR ''{'') p then OBJECT_FIRST else ARRAY_FIRST)
                   # after_value state # below, tl p))
      else (case json_scalar p of
              None \<Rightarrow> Inl False
            | Some q \<Rightarrow> Inr (after_value state # below, q)))"

definition json_step ::
  "nat \<Rightarrow> json_state list \<Rightarrow> string \<Rightarrow> bool + json_state list \<times> string" where
  "json_step capacity states text =
     (case states of
        [] \<Rightarrow> Inl False
      | state # below \<Rightarrow> json_dispatch capacity state below (wpm_json_space text))"

lemma json_digits_length [scan_length]: "json_digits p = Some q \<Longrightarrow> length q < length p"
  using length_dropWhile_le [of is_digit]
  by (auto simp: json_digits_def at_class_iff le_imp_less_Suc split: if_splits)

lemma json_number_length [scan_length]: "json_number p = Some q \<Longrightarrow> length q < length p"
proof -
  assume "json_number p = Some q"
  then obtain a b where a: "json_number_int p = Some a" and b: "json_number_frac a = Some b"
    and q: "json_number_exp b = Some q"
    by (auto simp: json_number_def bind_eq_Some_conv)
  have "length a < length p"
    using a by (auto simp: json_number_int_def at_iff Let_def split: if_splits
        dest!: json_digits_length)
  moreover have "length b \<le> length a"
    using b by (auto simp: json_number_frac_def at_iff split: if_splits dest!: json_digits_length)
  moreover have "length q \<le> length b"
    using q by (auto simp: json_number_exp_def at_iff Let_def split: if_splits
        dest!: json_digits_length)
  ultimately show ?thesis by simp
qed

lemma json_scalar_length [scan_length]: "json_scalar p = Some q \<Longrightarrow> length q < length p"
  by (auto simp: json_scalar_def starts_with_iff split: if_splits
      dest!: json_number_length json_skip_string_length)

lemma tl_length: "at c p \<Longrightarrow> length (tl p) < length p"
  by (auto simp: at_iff)

lemma json_step_length [scan_length]:
  "json_step capacity states text = Inr (states', q) \<Longrightarrow> length q < length text"
proof -
  assume step: "json_step capacity states text = Inr (states', q)"
  have "length q < length (wpm_json_space text)"
    using step
    by (auto simp: json_step_def json_dispatch_def at_iff split: list.splits if_splits option.splits
        dest!: json_scalar_length json_skip_string_length)
  with wpm_json_space_length [of "text"] show ?thesis by simp
qed

function json_run :: "nat \<Rightarrow> json_state list \<Rightarrow> string \<Rightarrow> bool" where
  "json_run capacity states text =
     (case json_step capacity states text of
        Inl valid \<Rightarrow> valid
      | Inr (states', p) \<Rightarrow> json_run capacity states' p)"
  by pat_completeness auto
termination
  by (relation "measure (\<lambda>(capacity, states, text). length text)") (auto dest: json_step_length)

declare json_run.simps [simp del]

definition wpm_json_document_valid :: "string \<Rightarrow> bool" where
  "wpm_json_document_valid text =
     (let p = wpm_json_content text in json_run (length p + 1) [ROOT_VALUE] p)"

subsection \<open>Root fields\<close>

text \<open>
  A member key read into a buffer of \<open>cap\<close> bytes. A key that does not fit, or holds an escaped
  NUL, is skipped and stands as the empty string.
\<close>

definition json_key :: "nat \<Rightarrow> string \<Rightarrow> (string \<times> string) option" where
  "json_key cap p =
     (case wpm_json_read_string True cap p of
        (key, Some q) \<Rightarrow> Some (key, q)
      | (_, None) \<Rightarrow> map_option (Pair []) (json_skip_string p))"

lemma json_key_length [scan_length]: "json_key cap p = Some (key, q) \<Longrightarrow> length q + 1 < length p"
  using read_string_length [of True cap p] json_skip_string_length [of p]
  by (auto simp: json_key_def split: prod.splits option.splits)

text \<open>The loop of \<open>wpm_json_field\<close>; \<open>None\<close> is \<open>NULL\<close>.\<close>

function json_field_loop :: "string \<Rightarrow> string \<Rightarrow> string option" where
  "json_field_loop wanted p0 =
     (let p = wpm_json_space p0 in
      if p = [] \<or> at (CHR ''}'') p then None
      else (case json_key 32 p of
              None \<Rightarrow> None
            | Some (key, q) \<Rightarrow>
                let q1 = wpm_json_space q in
                if \<not> at (CHR '':'') q1 then None
                else
                  let v = wpm_json_space (tl q1) in
                  if key = wanted then Some v
                  else
                    let r = wpm_json_space (snd (wpm_json_value_end v)) in
                    if \<not> at (CHR '','') r then None
                    else json_field_loop wanted (tl r)))"
  by pat_completeness auto
termination
proof (relation "measure (\<lambda>(wanted, p). length p)", goal_cases)
  case (2 wanted p0 p x key q q1 v r)
  have "length (tl r) < length r" using 2 tl_length by blast
  also have "length r \<le> length (snd (wpm_json_value_end v))"
    unfolding \<open>r = _\<close> by (rule wpm_json_space_length)
  also have "\<dots> \<le> length v" by (rule value_end_length)
  also have "length v \<le> length q1"
    unfolding \<open>v = _\<close> using wpm_json_space_length [of "tl q1"] by simp
  also have "length q1 \<le> length q"
    unfolding \<open>q1 = _\<close> by (rule wpm_json_space_length)
  also have "length q < length p"
    using \<open>json_key _ p = _\<close> \<open>(key, q) = x\<close> json_key_length by fastforce
  also have "length p \<le> length p0"
    unfolding \<open>p = _\<close> by (rule wpm_json_space_length)
  finally show ?case by simp
qed simp

declare json_field_loop.simps [simp del]

definition wpm_json_field :: "string \<Rightarrow> string \<Rightarrow> string option" where
  "wpm_json_field text wanted =
     (let p = wpm_json_content text in
      if at (CHR ''{'') p then json_field_loop wanted (tl p) else None)"

text \<open>The loop of \<open>wpm_json_unique_field\<close>, with the final test \<open>*p == '}'\<close>.\<close>

function json_unique_loop :: "string \<Rightarrow> string option \<Rightarrow> string \<Rightarrow> string option" where
  "json_unique_loop name result p0 =
     (let p = wpm_json_space p0 in
      if p = [] then None
      else if at (CHR ''}'') p then result
      else (case json_key 128 p of
              None \<Rightarrow> None
            | Some (key, q) \<Rightarrow>
                let q1 = wpm_json_space q in
                if \<not> at (CHR '':'') q1 then None
                else
                  let v = wpm_json_space (tl q1) in
                  if key = name \<and> result \<noteq> None then None
                  else
                    let result' = (if key = name then Some v else result);
                        e = wpm_json_value_end v in
                    if \<not> fst e then None
                    else
                      let r = wpm_json_space (snd e) in
                      if \<not> at (CHR '','') r then (if at (CHR ''}'') r then result' else None)
                      else json_unique_loop name result' (tl r)))"
  by pat_completeness auto
termination
proof (relation "measure (\<lambda>(name, result, p). length p)", goal_cases)
  case (2 name result p0 p x key q q1 v result' e r)
  have "length (tl r) < length r" using 2 tl_length by blast
  also have "length r \<le> length (snd e)"
    unfolding \<open>r = _\<close> by (rule wpm_json_space_length)
  also have "length (snd e) \<le> length v"
    unfolding \<open>e = _\<close> by (rule value_end_length)
  also have "length v \<le> length q1"
    unfolding \<open>v = _\<close> using wpm_json_space_length [of "tl q1"] by simp
  also have "length q1 \<le> length q"
    unfolding \<open>q1 = _\<close> by (rule wpm_json_space_length)
  also have "length q < length p"
    using \<open>json_key _ p = _\<close> \<open>(key, q) = x\<close> json_key_length by fastforce
  also have "length p \<le> length p0"
    unfolding \<open>p = _\<close> by (rule wpm_json_space_length)
  finally show ?case by simp
qed simp

declare json_unique_loop.simps [simp del]

definition wpm_json_unique_field :: "string \<Rightarrow> string \<Rightarrow> string option" where
  "wpm_json_unique_field document name =
     (let p = wpm_json_content document in
      if at (CHR ''{'') p then json_unique_loop name None (tl p) else None)"

subsection \<open>The version number one\<close>

text \<open>One run of digits of \<open>wpm_json_version_one\<close>: \<open>position\<close> and the place \<open>nonzero\<close> of the only
  digit other than zero, which must be a one (\<open>-1\<close> before it is seen).\<close>

fun one_digits :: "int \<Rightarrow> int \<Rightarrow> string \<Rightarrow> (int \<times> int \<times> string) option" where
  "one_digits position nonzero [] = Some (position, nonzero, [])"
| "one_digits position nonzero (c # p) =
     (if is_digit c then
        (if c \<noteq> CHR ''0'' then
           (if c \<noteq> CHR ''1'' \<or> nonzero \<ge> 0 then None else one_digits (position + 1) position p)
         else one_digits (position + 1) nonzero p)
      else Some (position, nonzero, c # p))"

fun one_exponent :: "int \<Rightarrow> string \<Rightarrow> (int \<times> string) option" where
  "one_exponent e [] = Some (e, [])"
| "one_exponent e (c # p) =
     (if is_digit c then
        (let digit = int (byte c) - 48 in
         if e > (4 * 1024 * 1024 - digit) div 10 then None else one_exponent (e * 10 + digit) p)
      else Some (e, c # p))"

definition json_version_value :: "string \<Rightarrow> bool" where
  "json_version_value value =
     (if \<not> at_class is_digit value then False
      else
      (case one_digits 0 (-1) value of
         None \<Rightarrow> False
       | Some (integer_digits, nonzero, p) \<Rightarrow>
           if integer_digits > 1 \<and> at (CHR ''0'') value then False
           else
           (case (if at (CHR ''.'') p then
                    (if at_class is_digit (tl p) then one_digits integer_digits nonzero (tl p)
                     else None)
                  else Some (integer_digits, nonzero, p)) of
              None \<Rightarrow> False
            | Some (position, nonzero', q) \<Rightarrow>
                (case (if at (CHR ''e'') q \<or> at (CHR ''E'') q then
                         (let r = tl q;
                              signed = (at (CHR ''-'') r \<or> at (CHR ''+'') r);
                              sign = (if at (CHR ''-'') r then -1 else 1);
                              r' = (if signed then tl r else r) in
                          if at_class is_digit r'
                          then map_option (\<lambda>(e, t). (sign * e, t)) (one_exponent 0 r')
                          else None)
                       else Some (0, q)) of
                   None \<Rightarrow> False
                 | Some (exponent, t) \<Rightarrow>
                     let u = wpm_json_space t in
                     nonzero' \<ge> 0 \<and> integer_digits - nonzero' - 1 + exponent = 0
                     \<and> (at (CHR '','') u \<or> at (CHR ''}'') u)))))"

definition wpm_json_version_one :: "string \<Rightarrow> bool" where
  "wpm_json_version_one text =
     (case wpm_json_field text ''version'' of
        None \<Rightarrow> False
      | Some value \<Rightarrow> json_version_value value)"

end
