(* ===== verification/Json_Grammar.thy ===== *)
theory Json_Grammar
  imports Json_Input
begin

text \<open>
  The JSON grammar as an inductive definition over words, independent of the cursor code, and
  the proof that the explicit-stack machine \<open>wpm_json_document_valid\<close> accepts exactly the words
  of the grammar.
\<close>

subsection \<open>The grammar\<close>

definition json_blank :: "string \<Rightarrow> bool" where
  "json_blank w \<longleftrightarrow> list_all is_json_ws w"

definition is_hex :: "char \<Rightarrow> bool" where
  "is_hex c \<longleftrightarrow> hex_digit c \<noteq> None"

definition hex_value :: "string \<Rightarrow> nat" where
  "hex_value h = foldl (\<lambda>r c. 16 * r + the (hex_digit c)) 0 h"

definition hex_quad :: "string \<Rightarrow> bool" where
  "hex_quad h \<longleftrightarrow> length h = 4 \<and> list_all is_hex h"

definition high_surrogate :: "nat \<Rightarrow> bool" where
  "high_surrogate v \<longleftrightarrow> 0xd800 \<le> v \<and> v \<le> 0xdbff"

definition low_surrogate :: "nat \<Rightarrow> bool" where
  "low_surrogate v \<longleftrightarrow> 0xdc00 \<le> v \<and> v \<le> 0xdfff"

text \<open>The characters between the quotes of a string.\<close>

inductive json_body :: "string \<Rightarrow> bool" where
  body_nil: "json_body []"
| body_char: "\<lbrakk> 0x20 \<le> byte c; c \<noteq> DQUOTE; c \<noteq> BSLASH; json_body s \<rbrakk> \<Longrightarrow> json_body (c # s)"
| body_escape: "\<lbrakk> simple_escape e = Some d; json_body s \<rbrakk> \<Longrightarrow> json_body (BSLASH # e # s)"
| body_unicode: "\<lbrakk> hex_quad h; \<not> high_surrogate (hex_value h); \<not> low_surrogate (hex_value h);
     json_body s \<rbrakk> \<Longrightarrow> json_body (BSLASH # CHR ''u'' # h @ s)"
| body_pair: "\<lbrakk> hex_quad h; high_surrogate (hex_value h); hex_quad l; low_surrogate (hex_value l);
     json_body s \<rbrakk> \<Longrightarrow> json_body (BSLASH # CHR ''u'' # h @ BSLASH # CHR ''u'' # l @ s)"

definition json_quoted :: "string \<Rightarrow> string" where
  "json_quoted b = DQUOTE # b @ [DQUOTE]"

lemma length_json_quoted [simp]: "length (json_quoted b) = length b + 2"
  by (simp add: json_quoted_def)

definition digits :: "string \<Rightarrow> bool" where
  "digits d \<longleftrightarrow> d \<noteq> [] \<and> list_all is_digit d"

definition json_int :: "string \<Rightarrow> bool" where
  "json_int w \<longleftrightarrow>
     (\<exists>s d. w = s @ d \<and> (s = [] \<or> s = ''-'') \<and> (d = ''0'' \<or> digits d \<and> hd d \<noteq> CHR ''0''))"

definition json_frac :: "string \<Rightarrow> bool" where
  "json_frac w \<longleftrightarrow> w = [] \<or> (\<exists>d. w = CHR ''.'' # d \<and> digits d)"

definition json_exp :: "string \<Rightarrow> bool" where
  "json_exp w \<longleftrightarrow> w = [] \<or>
     (\<exists>e s d. w = e # s @ d \<and> (e = CHR ''e'' \<or> e = CHR ''E'') \<and>
        (s = [] \<or> s = ''+'' \<or> s = ''-'') \<and> digits d)"

definition json_num :: "string \<Rightarrow> bool" where
  "json_num w \<longleftrightarrow> (\<exists>i f e. w = i @ f @ e \<and> json_int i \<and> json_frac f \<and> json_exp e)"

inductive json_value :: "string \<Rightarrow> bool"
  and json_members :: "string \<Rightarrow> bool"
  and json_elements :: "string \<Rightarrow> bool" where
  v_string: "json_body b \<Longrightarrow> json_value (json_quoted b)"
| v_number: "json_num w \<Longrightarrow> json_value w"
| v_true: "json_value ''true''"
| v_false: "json_value ''false''"
| v_null: "json_value ''null''"
| v_object_empty: "json_blank w \<Longrightarrow> json_value (CHR ''{'' # w @ ''}'')"
| v_object: "json_members m \<Longrightarrow> json_value (CHR ''{'' # m @ ''}'')"
| v_array_empty: "json_blank w \<Longrightarrow> json_value (CHR ''['' # w @ '']'')"
| v_array: "json_elements e \<Longrightarrow> json_value (CHR ''['' # e @ '']'')"
| m_one: "\<lbrakk> json_blank a; json_body k; json_blank b; json_blank c; json_value v; json_blank d \<rbrakk>
    \<Longrightarrow> json_members (a @ json_quoted k @ b @ CHR '':'' # c @ v @ d)"
| m_more: "\<lbrakk> json_blank a; json_body k; json_blank b; json_blank c; json_value v; json_blank d;
     json_members m \<rbrakk>
    \<Longrightarrow> json_members (a @ json_quoted k @ b @ CHR '':'' # c @ v @ d @ CHR '','' # m)"
| e_one: "\<lbrakk> json_blank a; json_value v; json_blank d \<rbrakk> \<Longrightarrow> json_elements (a @ v @ d)"
| e_more: "\<lbrakk> json_blank a; json_value v; json_blank d; json_elements e \<rbrakk>
    \<Longrightarrow> json_elements (a @ v @ d @ CHR '','' # e)"

text \<open>A document: an optional byte order mark and one value between blanks.\<close>

definition json_text :: "string \<Rightarrow> bool" where
  "json_text t \<longleftrightarrow> (\<exists>a v b. t = a @ v @ b \<and> json_blank a \<and> json_value v \<and> json_blank b)"

definition bom :: string where
  "bom = [CHR 0xEF, CHR 0xBB, CHR 0xBF]"

definition json_document :: "string \<Rightarrow> bool" where
  "json_document t \<longleftrightarrow> (if starts_with bom t then json_text (drop 3 t) else json_text t)"

subsection \<open>Blanks\<close>

lemma json_blank_simps [simp]:
  "json_blank []" "json_blank (a @ b) \<longleftrightarrow> json_blank a \<and> json_blank b"
  "json_blank (c # w) \<longleftrightarrow> is_json_ws c \<and> json_blank w"
  by (simp_all add: json_blank_def)

lemma space_blank [simp]: "json_blank w \<Longrightarrow> wpm_json_space (w @ p) = wpm_json_space p"
  by (induction w) (auto simp: wpm_json_space_def)

lemma space_all_blank: "json_blank w \<Longrightarrow> wpm_json_space w = []"
  using space_blank [of w "[]"] by (simp add: wpm_json_space_def)

lemma space_idem [simp]: "wpm_json_space (wpm_json_space p) = wpm_json_space p"
  unfolding wpm_json_space_def by (rule dropWhile_idem)

lemma space_split: "\<exists>w. json_blank w \<and> p = w @ wpm_json_space p"
proof -
  have "json_blank (takeWhile is_json_ws p)"
    by (auto simp: json_blank_def list_all_iff dest: set_takeWhileD)
  then show ?thesis
    by (intro exI [of _ "takeWhile is_json_ws p"]) (simp add: wpm_json_space_def)
qed

lemma space_nonblank [simp]: "\<not> is_json_ws c \<Longrightarrow> wpm_json_space (c # p) = c # p"
  by (simp add: wpm_json_space_def)

lemma space_empty_iff: "wpm_json_space w = [] \<longleftrightarrow> json_blank w"
  by (simp add: wpm_json_space_def json_blank_def list_all_iff)

subsection \<open>Strings\<close>

lemma json_hex_loop_iff:
  "json_hex_loop i r p = Some (v, q) \<longleftrightarrow>
     (\<exists>h. p = h @ q \<and> length h = i \<and> list_all is_hex h
        \<and> v = foldl (\<lambda>r c. 16 * r + the (hex_digit c)) r h)"
proof (induction i r p arbitrary: v q rule: json_hex_loop.induct)
  case (3 i r c p)
  show ?case
  proof (cases "hex_digit c")
    case None
    then have "\<not> is_hex c" by (simp add: is_hex_def)
    with None show ?thesis by (auto simp: length_Suc_conv)
  next
    case (Some d)
    then have "is_hex c" by (simp add: is_hex_def)
    with Some 3 [of d] show ?thesis by (force simp: length_Suc_conv)
  qed
qed (auto simp: length_Suc_conv)

lemma json_hex4_iff:
  "json_hex4 p = Some (v, q) \<longleftrightarrow> (\<exists>h. p = h @ q \<and> hex_quad h \<and> v = hex_value h)"
  by (auto simp: json_hex4_def json_hex_loop_iff hex_quad_def hex_value_def)

lemma hex_digit_less: "hex_digit c = Some d \<Longrightarrow> d < 16"
  by (auto simp: hex_digit_def is_digit_def split: if_splits)

lemma hex_quad_append_eq:
  "hex_quad h \<Longrightarrow> hex_quad h' \<Longrightarrow> h @ p = h' @ p' \<longleftrightarrow> h = h' \<and> p = p'"
  by (simp add: hex_quad_def)

text \<open>The number of stored bytes never exceeds the number of consumed ones.\<close>

lemma utf8_chars_length: "length (utf8_chars cp) \<le> 4"
  by (simp add: utf8_chars_def utf8_bytes_def)

lemma json_codepoint_hex:
  assumes "hex_quad h" "\<not> high_surrogate (hex_value h)" "\<not> low_surrogate (hex_value h)"
    and "out \<longrightarrow> hex_value h \<noteq> 0"
  shows "json_codepoint out (h @ p) = Some (hex_value h, p)"
proof -
  have "json_hex4 (h @ p) = Some (hex_value h, p)"
    using assms(1) by (auto simp: json_hex4_iff)
  with assms(2-4) show ?thesis
    by (auto simp: json_codepoint_def high_surrogate_def low_surrogate_def)
qed

lemma json_codepoint_pair:
  assumes "hex_quad h" "high_surrogate (hex_value h)" "hex_quad l" "low_surrogate (hex_value l)"
  shows "\<exists>cp. json_codepoint out (h @ BSLASH # CHR ''u'' # l @ p) = Some (cp, p)"
proof -
  have "json_hex4 (h @ BSLASH # CHR ''u'' # l @ p) = Some (hex_value h, BSLASH # CHR ''u'' # l @ p)"
    using assms(1) by (auto simp: json_hex4_iff)
  moreover have "json_hex4 (l @ p) = Some (hex_value l, p)"
    using assms(3) by (auto simp: json_hex4_iff)
  moreover have "hex_value h \<noteq> 0"
    using assms(2) by (simp add: high_surrogate_def)
  ultimately show ?thesis
    using assms(2,4) by (simp add: json_codepoint_def high_surrogate_def low_surrogate_def)
qed

lemma json_codepoint_cases:
  assumes "json_codepoint out p = Some (cp, q)"
  obtains h where "p = h @ q" "hex_quad h" "\<not> high_surrogate (hex_value h)"
      "\<not> low_surrogate (hex_value h)" "cp = hex_value h" "out \<longrightarrow> cp \<noteq> 0"
  | h l where "p = h @ BSLASH # CHR ''u'' # l @ q" "hex_quad h" "high_surrogate (hex_value h)"
      "hex_quad l" "low_surrogate (hex_value l)"
      "cp = 0x10000 + (hex_value h - 0xd800) * 1024 + (hex_value l - 0xdc00)"
proof -
  from assms obtain v r where h4: "json_hex4 p = Some (v, r)"
    by (auto simp: json_codepoint_def split: option.splits)
  then obtain h where h: "p = h @ r" "hex_quad h" "v = hex_value h"
    by (auto simp: json_hex4_iff)
  show thesis
  proof (cases "high_surrogate v")
    case True
    with assms h4 obtain s low where s: "r = BSLASH # CHR ''u'' # s"
      "json_hex4 s = Some (low, q)" "low_surrogate low"
      "cp = 0x10000 + (v - 0xd800) * 1024 + (low - 0xdc00)"
      by (auto simp: json_codepoint_def high_surrogate_def low_surrogate_def
          split: if_splits list.splits option.splits)
    then obtain l where "s = l @ q" "hex_quad l" "low = hex_value l"
      by (auto simp: json_hex4_iff)
    with h s True that(2) show thesis by simp
  next
    case False
    with assms h4 have "r = q" "cp = v" "\<not> low_surrogate v" "out \<longrightarrow> cp \<noteq> 0"
      by (auto simp: json_codepoint_def high_surrogate_def low_surrogate_def split: if_splits)
    with h False that(1) show thesis by simp
  qed
qed

lemma json_scan_sound:
  "snd (json_scan out cap n p) = Some q \<Longrightarrow> \<exists>b. p = b @ DQUOTE # q \<and> json_body b"
proof (induction out cap n p rule: json_scan.induct)
  case (2 out cap n c p)
  consider "c = DQUOTE" | "c = BSLASH" | "c \<noteq> DQUOTE" "c \<noteq> BSLASH" by blast
  then show ?case
  proof cases
    case 1
    with "2.prems" show ?thesis by (auto intro: body_nil)
  next
    case 2
    then obtain e r where p: "p = e # r"
      using "2.prems" by (auto split: list.splits)
    show ?thesis
    proof (cases "e = CHR ''u''")
      case True
      with 2 p "2.prems" obtain cp r' where cp: "json_codepoint out r = Some (cp, r')"
        by (auto split: option.splits)
      with 2 p True "2.prems" "2.IH"(1) [of e r "(cp, r')" cp r'] obtain b where
        b: "r' = b @ DQUOTE # q" "json_body b"
        by (auto simp: Let_def split: if_splits prod.splits)
      from cp show ?thesis
      proof (cases rule: json_codepoint_cases)
        case (1 h)
        with 2 p True b show ?thesis
          by (intro exI [of _ "BSLASH # CHR ''u'' # h @ b"]) (simp add: body_unicode)
      next
        case (2 h l)
        with \<open>c = BSLASH\<close> p True b show ?thesis
          by (intro exI [of _ "BSLASH # CHR ''u'' # h @ BSLASH # CHR ''u'' # l @ b"])
             (simp add: body_pair)
      qed
    next
      case False
      with 2 p "2.prems" obtain d where d: "simple_escape e = Some d"
        by (auto split: option.splits)
      with 2 p False "2.prems" "2.IH"(2) [of e r d] obtain b where "r = b @ DQUOTE # q" "json_body b"
        by (auto split: if_splits prod.splits)
      with 2 p d show ?thesis
        by (intro exI [of _ "BSLASH # e # b"]) (simp add: body_escape)
    qed
  next
    case 3
    with "2.prems" have c: "0x20 \<le> byte c" by (auto split: if_splits)
    with 3 "2.prems" "2.IH"(3) obtain b where "p = b @ DQUOTE # q" "json_body b"
      by (auto split: if_splits prod.splits)
    with 3 c show ?thesis by (intro exI [of _ "c # b"]) (simp add: body_char)
  qed
qed simp

lemma simple_escape_not_u: "simple_escape e = Some d \<Longrightarrow> e \<noteq> CHR ''u''"
  by (auto simp: simple_escape_def)

lemma json_scan_complete:
  "json_body b \<Longrightarrow> n + length b < cap \<Longrightarrow> snd (json_scan False cap n (b @ DQUOTE # q)) = Some q"
proof (induction b arbitrary: n rule: json_body.induct)
  case (body_unicode h s)
  have "length (utf8_chars (hex_value h)) \<le> 4" by (rule utf8_chars_length)
  moreover have "length h = 4" using body_unicode(1) by (simp add: hex_quad_def)
  ultimately show ?case
    using body_unicode body_unicode.IH [of "n + length (utf8_chars (hex_value h))"]
    by (simp add: json_codepoint_hex Let_def case_prod_beta)
next
  case (body_pair h l s)
  then obtain cp where cp:
    "json_codepoint False (h @ BSLASH # CHR ''u'' # l @ s @ DQUOTE # q) = Some (cp, s @ DQUOTE # q)"
    using json_codepoint_pair by blast
  have "length (utf8_chars cp) \<le> 4" by (rule utf8_chars_length)
  moreover have "length h = 4" "length l = 4"
    using body_pair(1,3) by (simp_all add: hex_quad_def)
  ultimately show ?case
    using cp body_pair.prems body_pair.IH [of "n + length (utf8_chars cp)"]
    by (simp add: Let_def case_prod_beta)
next
  case (body_escape e d s)
  then show ?case
    using body_escape.IH [of "n + 1"]
    by (simp add: simple_escape_not_u case_prod_beta)
next
  case (body_char c s)
  then show ?case
    using body_char.IH [of "n + 1"] by (simp add: case_prod_beta)
qed simp

lemma quote_not_blank [simp]: "\<not> is_json_ws DQUOTE"
  by (simp add: is_json_ws_def)

lemma json_skip_string_sound:
  "json_skip_string p = Some q \<Longrightarrow> \<exists>w b. p = w @ json_quoted b @ q \<and> json_blank w \<and> json_body b"
proof -
  assume "json_skip_string p = Some q"
  then obtain r where r: "wpm_json_space p = DQUOTE # r" "snd (json_scan False SIZE_MAX 0 r) = Some q"
    by (auto simp: json_skip_string_def wpm_json_read_string_def split: list.splits if_splits)
  obtain b where "r = b @ DQUOTE # q" "json_body b"
    using json_scan_sound [OF r(2)] by blast
  moreover obtain w where "json_blank w" "p = w @ wpm_json_space p"
    using space_split by blast
  ultimately show ?thesis
    using r(1) by (intro exI [of _ w] exI [of _ b]) (simp add: json_quoted_def)
qed

lemma json_skip_string_complete:
  "json_body b \<Longrightarrow> length b < SIZE_MAX \<Longrightarrow> json_skip_string (json_quoted b @ q) = Some q"
  using json_scan_complete [of b 0 SIZE_MAX q]
  by (simp add: json_skip_string_def wpm_json_read_string_def json_quoted_def)

subsection \<open>Numbers and literals\<close>

text \<open>What may follow a number: nothing that would extend it.\<close>

definition number_stop :: "string \<Rightarrow> bool" where
  "number_stop q \<longleftrightarrow> \<not> at_class is_digit q \<and> \<not> at (CHR ''.'') q \<and> \<not> at (CHR ''e'') q \<and> \<not> at (CHR ''E'') q"

lemma at_digit:
  "at_class is_digit p \<Longrightarrow> \<not> at (CHR ''-'') p \<and> \<not> at (CHR ''+'') p \<and> \<not> at DQUOTE p
     \<and> \<not> at (CHR ''{'') p \<and> \<not> at (CHR ''['') p \<and> \<not> at (CHR '']'') p"
  by (cases p) (auto simp: is_digit_def)

lemma digits_at: "digits d \<Longrightarrow> at_class is_digit (d @ q)"
  by (cases d) (auto simp: digits_def)

lemma json_digits_sound: "json_digits p = Some q \<Longrightarrow> \<exists>d. p = d @ q \<and> digits d"
proof -
  assume *: "json_digits p = Some q"
  then have "at_class is_digit p" "q = dropWhile is_digit p"
    by (auto simp: json_digits_def split: if_splits)
  then show ?thesis
    by (intro exI [of _ "takeWhile is_digit p"])
       (auto simp: digits_def at_class_iff list_all_iff dest: set_takeWhileD)
qed

lemma json_digits_complete:
  "digits d \<Longrightarrow> \<not> at_class is_digit q \<Longrightarrow> json_digits (d @ q) = Some q"
proof -
  assume d: "digits d" and q: "\<not> at_class is_digit q"
  have "dropWhile is_digit (d @ q) = dropWhile is_digit q"
    using d by (simp add: digits_def list_all_iff)
  moreover have "dropWhile is_digit q = q" using q by (cases q) auto
  ultimately show ?thesis using digits_at [OF d] by (simp add: json_digits_def)
qed

lemma json_number_int_sound: "json_number_int p = Some q \<Longrightarrow> \<exists>w. p = w @ q \<and> json_int w"
proof -
  assume *: "json_number_int p = Some q"
  define s where "s = (if at (CHR ''-'') p then ''-'' else [])"
  define p' where "p' = (if at (CHR ''-'') p then tl p else p)"
  have p: "p = s @ p'" by (auto simp: s_def p'_def at_iff)
  have s: "s = [] \<or> s = ''-''" by (simp add: s_def)
  show ?thesis
  proof (cases "at (CHR ''0'') p'")
    case True
    with * have "p' = ''0'' @ q" by (auto simp: json_number_int_def p'_def at_iff)
    with p s show ?thesis
      by (intro exI [of _ "s @ ''0''"]) (auto simp: json_int_def)
  next
    case False
    with * have "json_digits p' = Some q" by (simp add: json_number_int_def p'_def)
    then obtain d where d: "p' = d @ q" "digits d" using json_digits_sound by blast
    with False have "hd d \<noteq> CHR ''0''" by (cases d) (auto simp: digits_def)
    with p s d show ?thesis
      by (intro exI [of _ "s @ d"]) (auto simp: json_int_def)
  qed
qed

lemma json_number_int_complete:
  assumes "json_int w" "\<not> at_class is_digit q"
  shows "json_number_int (w @ q) = Some q"
proof -
  obtain s d where w: "w = s @ d" and s: "s = [] \<or> s = ''-''"
    and d: "d = ''0'' \<or> digits d \<and> hd d \<noteq> CHR ''0''"
    using assms(1) by (auto simp: json_int_def)
  have nodash: "\<not> at (CHR ''-'') (d @ q)"
    using d digits_at [of d q] at_digit by auto
  have "json_number_int (d @ q) = Some q" using d
  proof
    assume "d = ''0''"
    then show ?thesis by (simp add: json_number_int_def)
  next
    assume dd: "digits d \<and> hd d \<noteq> CHR ''0''"
    then have "\<not> at (CHR ''0'') (d @ q)" by (cases d) (auto simp: digits_def)
    with nodash dd show ?thesis
      by (simp add: json_number_int_def json_digits_complete assms(2))
  qed
  moreover have "json_number_int (''-'' @ d @ q) = json_number_int (d @ q)"
    using nodash by (simp add: json_number_int_def)
  ultimately show ?thesis using s w by auto
qed

lemma json_number_frac_sound: "json_number_frac p = Some q \<Longrightarrow> \<exists>w. p = w @ q \<and> json_frac w"
proof (cases "at (CHR ''.'') p")
  case True
  assume "json_number_frac p = Some q"
  with True obtain d where "tl p = d @ q" "digits d"
    using json_digits_sound by (auto simp: json_number_frac_def)
  with True show ?thesis
    by (intro exI [of _ "CHR ''.'' # d"]) (auto simp: json_frac_def at_iff)
next
  case False
  assume "json_number_frac p = Some q"
  with False show ?thesis by (simp add: json_number_frac_def json_frac_def)
qed

lemma json_number_exp_sound: "json_number_exp p = Some q \<Longrightarrow> \<exists>w. p = w @ q \<and> json_exp w"
proof (cases "at (CHR ''e'') p \<or> at (CHR ''E'') p")
  case True
  assume *: "json_number_exp p = Some q"
  from True obtain e r where p: "p = e # r" "e = CHR ''e'' \<or> e = CHR ''E''"
    by (auto simp: at_iff)
  define s where "s = (if at (CHR ''+'') r \<or> at (CHR ''-'') r then take 1 r else [])"
  define t where "t = (if at (CHR ''+'') r \<or> at (CHR ''-'') r then tl r else r)"
  have r: "r = s @ t" "s = [] \<or> s = ''+'' \<or> s = ''-''"
    by (auto simp: s_def t_def at_iff)
  have "json_digits t = Some q" using * p by (auto simp: json_number_exp_def t_def Let_def)
  then obtain d where "t = d @ q" "digits d" using json_digits_sound by blast
  with p r show ?thesis
    by (intro exI [of _ "e # s @ d"]) (auto simp: json_exp_def)
next
  case False
  assume "json_number_exp p = Some q"
  with False show ?thesis by (simp add: json_number_exp_def json_exp_def)
qed

lemma json_number_sound: "json_number p = Some q \<Longrightarrow> \<exists>w. p = w @ q \<and> json_num w"
proof -
  assume "json_number p = Some q"
  then obtain a b where a: "json_number_int p = Some a" "json_number_frac a = Some b"
    "json_number_exp b = Some q"
    by (auto simp: json_number_def bind_eq_Some_conv)
  obtain i where "p = i @ a" "json_int i" using json_number_int_sound [OF a(1)] by blast
  moreover obtain f where "a = f @ b" "json_frac f" using json_number_frac_sound [OF a(2)] by blast
  moreover obtain e where "b = e @ q" "json_exp e" using json_number_exp_sound [OF a(3)] by blast
  ultimately have "p = (i @ f @ e) @ q \<and> json_num (i @ f @ e)"
    unfolding json_num_def by auto
  then show ?thesis by blast
qed

lemma json_exp_complete:
  assumes "json_exp e" "number_stop q"
  shows "json_number_exp (e @ q) = Some q"
proof (cases "e = []")
  case True
  with assms(2) show ?thesis by (simp add: json_number_exp_def number_stop_def)
next
  case False
  with assms(1) obtain c s d where e: "e = c # s @ d" "c = CHR ''e'' \<or> c = CHR ''E''"
    "s = [] \<or> s = ''+'' \<or> s = ''-''" "digits d"
    by (auto simp: json_exp_def)
  have "\<not> at (CHR ''+'') (d @ q) \<and> \<not> at (CHR ''-'') (d @ q)"
    using at_digit [OF digits_at [OF e(4), of q]] by simp
  moreover have "json_digits (d @ q) = Some q"
    using json_digits_complete [OF e(4)] assms(2) by (simp add: number_stop_def)
  ultimately show ?thesis
    using e by (auto simp: json_number_exp_def)
qed

lemma json_exp_stops: "json_exp e \<Longrightarrow> number_stop q \<Longrightarrow> \<not> at_class is_digit (e @ q) \<and> \<not> at (CHR ''.'') (e @ q)"
  by (cases e) (auto simp: json_exp_def number_stop_def is_digit_def)

lemma json_frac_complete:
  assumes "json_frac f" "json_exp e" "number_stop q"
  shows "json_number_frac (f @ e @ q) = Some (e @ q)"
proof (cases "f = []")
  case True
  with json_exp_stops [OF assms(2,3)] show ?thesis by (simp add: json_number_frac_def)
next
  case False
  with assms(1) obtain d where "f = CHR ''.'' # d" "digits d" by (auto simp: json_frac_def)
  with json_exp_stops [OF assms(2,3)] show ?thesis
    by (simp add: json_number_frac_def json_digits_complete)
qed

lemma json_number_complete: "json_num w \<Longrightarrow> number_stop q \<Longrightarrow> json_number (w @ q) = Some q"
proof -
  assume "json_num w" and q: "number_stop q"
  then obtain i f e where w: "w = i @ f @ e" "json_int i" "json_frac f" "json_exp e"
    by (auto simp: json_num_def)
  have "\<not> at_class is_digit (f @ e @ q)"
    using json_exp_stops [OF w(4) q] w(3) by (auto simp: json_frac_def is_digit_def)
  then have "json_number_int (i @ f @ e @ q) = Some (f @ e @ q)"
    by (rule json_number_int_complete [OF w(2)])
  then show ?thesis
    using w q by (simp add: json_number_def json_frac_complete json_exp_complete)
qed

lemma json_num_start: "json_num w \<Longrightarrow> \<exists>c r. w = c # r \<and> (c = CHR ''-'' \<or> is_digit c)"
proof -
  assume "json_num w"
  then obtain i f e where w: "w = i @ f @ e" "json_int i" by (auto simp: json_num_def)
  then obtain s d where i: "i = s @ d" "s = [] \<or> s = ''-''" "d = ''0'' \<or> digits d"
    by (auto simp: json_int_def)
  have "is_digit (CHR ''0'')" by (simp add: is_digit_def)
  with i(3) obtain c r where "d = c # r" "is_digit c"
    by (cases d) (auto simp: digits_def)
  with w i(1,2) show ?thesis by auto
qed

subsection \<open>What remains to be read in a state of the machine\<close>

definition takes_value :: "json_state \<Rightarrow> bool" where
  "takes_value s \<longleftrightarrow> s = ROOT_VALUE \<or> s = OBJECT_VALUE \<or> s = ARRAY_FIRST \<or> s = ARRAY_VALUE"

inductive json_rest :: "json_state list \<Rightarrow> string \<Rightarrow> bool" where
  rest_end: "json_blank w \<Longrightarrow> json_rest (ROOT_END # below) w"
| rest_value: "\<lbrakk> takes_value s; json_blank w; json_value v; json_rest (after_value s # below) r \<rbrakk>
    \<Longrightarrow> json_rest (s # below) (w @ v @ r)"
| rest_array_empty: "\<lbrakk> json_blank w; json_rest below r \<rbrakk>
    \<Longrightarrow> json_rest (ARRAY_FIRST # below) (w @ CHR '']'' # r)"
| rest_object_empty: "\<lbrakk> json_blank w; json_rest below r \<rbrakk>
    \<Longrightarrow> json_rest (OBJECT_FIRST # below) (w @ CHR ''}'' # r)"
| rest_key: "\<lbrakk> s = OBJECT_FIRST \<or> s = OBJECT_KEY; json_blank w; json_body k;
      json_rest (OBJECT_COLON # below) r \<rbrakk>
    \<Longrightarrow> json_rest (s # below) (w @ json_quoted k @ r)"
| rest_colon: "\<lbrakk> json_blank w; json_rest (OBJECT_VALUE # below) r \<rbrakk>
    \<Longrightarrow> json_rest (OBJECT_COLON # below) (w @ CHR '':'' # r)"
| rest_object_close: "\<lbrakk> json_blank w; json_rest below r \<rbrakk>
    \<Longrightarrow> json_rest (OBJECT_END # below) (w @ CHR ''}'' # r)"
| rest_object_more: "\<lbrakk> json_blank w; json_rest (OBJECT_KEY # below) r \<rbrakk>
    \<Longrightarrow> json_rest (OBJECT_END # below) (w @ CHR '','' # r)"
| rest_array_close: "\<lbrakk> json_blank w; json_rest below r \<rbrakk>
    \<Longrightarrow> json_rest (ARRAY_END # below) (w @ CHR '']'' # r)"
| rest_array_more: "\<lbrakk> json_blank w; json_rest (ARRAY_VALUE # below) r \<rbrakk>
    \<Longrightarrow> json_rest (ARRAY_END # below) (w @ CHR '','' # r)"

text \<open>The members still to come in an object, and the elements in an array, split off.\<close>

definition object_tail :: "json_state list \<Rightarrow> string \<Rightarrow> bool" where
  "object_tail below p \<longleftrightarrow>
     (\<exists>w r. json_blank w \<and> json_rest below r \<and>
        (p = w @ CHR ''}'' # r \<or> (\<exists>m. json_members m \<and> p = w @ CHR '','' # m @ CHR ''}'' # r)))"

definition array_tail :: "json_state list \<Rightarrow> string \<Rightarrow> bool" where
  "array_tail below p \<longleftrightarrow>
     (\<exists>w r. json_blank w \<and> json_rest below r \<and>
        (p = w @ CHR '']'' # r \<or> (\<exists>e. json_elements e \<and> p = w @ CHR '','' # e @ CHR '']'' # r)))"

fun rest_spec :: "json_state \<Rightarrow> json_state list \<Rightarrow> string \<Rightarrow> bool" where
  "rest_spec OBJECT_END below p = object_tail below p"
| "rest_spec OBJECT_VALUE below p =
     (\<exists>c v t. json_blank c \<and> json_value v \<and> p = c @ v @ t \<and> object_tail below t)"
| "rest_spec OBJECT_COLON below p =
     (\<exists>b c v t. json_blank b \<and> json_blank c \<and> json_value v \<and> p = b @ CHR '':'' # c @ v @ t
        \<and> object_tail below t)"
| "rest_spec OBJECT_KEY below p =
     (\<exists>m r. json_members m \<and> json_rest below r \<and> p = m @ CHR ''}'' # r)"
| "rest_spec OBJECT_FIRST below p =
     (\<exists>m r. (json_members m \<or> json_blank m) \<and> json_rest below r \<and> p = m @ CHR ''}'' # r)"
| "rest_spec ARRAY_END below p = array_tail below p"
| "rest_spec ARRAY_VALUE below p =
     (\<exists>e r. json_elements e \<and> json_rest below r \<and> p = e @ CHR '']'' # r)"
| "rest_spec ARRAY_FIRST below p =
     (\<exists>e r. (json_elements e \<or> json_blank e) \<and> json_rest below r \<and> p = e @ CHR '']'' # r)"
| "rest_spec ROOT_END below p = json_blank p"
| "rest_spec ROOT_VALUE below p = json_text p"

lemma members_tail:
  assumes "json_blank a" "json_body k" "json_blank b" "json_blank c" "json_value v" "object_tail below t"
  shows "\<exists>m r. json_members m \<and> json_rest below r
           \<and> a @ json_quoted k @ b @ CHR '':'' # c @ v @ t = m @ CHR ''}'' # r"
proof -
  obtain w r where w: "json_blank w" "json_rest below r"
    and t: "t = w @ CHR ''}'' # r \<or> (\<exists>m. json_members m \<and> t = w @ CHR '','' # m @ CHR ''}'' # r)"
    using assms(6) by (auto simp: object_tail_def)
  from t show ?thesis
  proof
    assume "t = w @ CHR ''}'' # r"
    then show ?thesis
      using m_one [OF assms(1-5) w(1)] w(2)
      by (intro exI [of _ "a @ json_quoted k @ b @ CHR '':'' # c @ v @ w"] exI [of _ r]) simp
  next
    assume "\<exists>m. json_members m \<and> t = w @ CHR '','' # m @ CHR ''}'' # r"
    then obtain m where "json_members m" "t = w @ CHR '','' # m @ CHR ''}'' # r" by blast
    then show ?thesis
      using m_more [OF assms(1-5) w(1)] w(2)
      by (intro exI [of _ "a @ json_quoted k @ b @ CHR '':'' # c @ v @ w @ CHR '','' # m"]
          exI [of _ r]) simp
  qed
qed

lemma elements_tail:
  assumes "json_blank a" "json_value v" "array_tail below t"
  shows "\<exists>e r. json_elements e \<and> json_rest below r \<and> a @ v @ t = e @ CHR '']'' # r"
proof -
  obtain w r where w: "json_blank w" "json_rest below r"
    and t: "t = w @ CHR '']'' # r \<or> (\<exists>e. json_elements e \<and> t = w @ CHR '','' # e @ CHR '']'' # r)"
    using assms(3) by (auto simp: array_tail_def)
  from t show ?thesis
  proof
    assume "t = w @ CHR '']'' # r"
    then show ?thesis
      using e_one [OF assms(1,2) w(1)] w(2)
      by (intro exI [of _ "a @ v @ w"] exI [of _ r]) simp
  next
    assume "\<exists>e. json_elements e \<and> t = w @ CHR '','' # e @ CHR '']'' # r"
    then obtain e where "json_elements e" "t = w @ CHR '','' # e @ CHR '']'' # r" by blast
    then show ?thesis
      using e_more [OF assms(1,2) w(1)] w(2)
      by (intro exI [of _ "a @ v @ w @ CHR '','' # e"] exI [of _ r]) simp
  qed
qed

lemma json_rest_spec: "json_rest (s # below) p \<Longrightarrow> rest_spec s below p"
proof (induction "s # below" p arbitrary: s below rule: json_rest.induct)
  case (rest_value s w v below r)
  then consider "s = ROOT_VALUE" | "s = OBJECT_VALUE" | "s = ARRAY_FIRST" | "s = ARRAY_VALUE"
    by (auto simp: takes_value_def)
  then show ?case
  proof cases
    case 1
    with rest_value show ?thesis by (auto simp: after_value_def json_text_def)
  next
    case 2
    with rest_value show ?thesis by (auto simp: after_value_def)
  next
    case 3
    with rest_value have "array_tail below r" by (simp add: after_value_def)
    from elements_tail [OF rest_value(2,3) this] 3 show ?thesis by auto
  next
    case 4
    with rest_value have "array_tail below r" by (simp add: after_value_def)
    from elements_tail [OF rest_value(2,3) this] 4 show ?thesis by auto
  qed
next
  case (rest_key s w k below r)
  then obtain b c v t where r: "json_blank b" "json_blank c" "json_value v"
    "r = b @ CHR '':'' # c @ v @ t" "object_tail below t"
    by auto
  from members_tail [OF rest_key(2,3) r(1-3,5)] obtain m q where
    m: "json_members m" "json_rest below q" "w @ json_quoted k @ r = m @ CHR ''}'' # q"
    unfolding r(4) by blast
  from rest_key(1) show ?case
    by (rule disjE) (use m in \<open>simp; blast\<close>)+
next
  case (rest_colon w below r)
  then obtain c v t where "json_blank c" "json_value v" "r = c @ v @ t" "object_tail below t"
    by auto
  with rest_colon(1) show ?case
    by (simp only: rest_spec.simps)
       (intro exI [of _ w] exI [of _ c] exI [of _ v] exI [of _ t] conjI; simp)
qed (auto simp: object_tail_def array_tail_def)

subsection \<open>The machine accepts only words of the grammar\<close>

lemma json_scalar_sound: "json_scalar p = Some q \<Longrightarrow> \<exists>v. p = v @ q \<and> json_value v" if "wpm_json_space p = p"
proof -
  assume *: "json_scalar p = Some q"
  consider "at DQUOTE p" | "\<not> at DQUOTE p" "json_number p = Some q"
    | "p = ''true'' @ q" | "p = ''false'' @ q" | "p = ''null'' @ q"
    using * by (auto simp: json_scalar_def starts_with_iff split: if_splits)
  then show ?thesis
  proof cases
    case 1
    with * have "json_skip_string p = Some q" by (simp add: json_scalar_def)
    then obtain w b where p: "p = w @ json_quoted b @ q" "json_blank w" "json_body b"
      using json_skip_string_sound by blast
    have "w = []"
      using 1 p(1,2) by (cases w) auto
    with p show ?thesis by (auto intro: v_string)
  next
    case 2
    then show ?thesis using json_number_sound by (blast intro: v_number)
  qed (auto intro: v_true v_false v_null)
qed

lemma json_step_sound:
  assumes step: "json_step cap (s # below) t = Inr (states, q)" and rest: "json_rest states q"
  shows "json_rest (s # below) t"
proof -
  obtain w where w: "json_blank w" "t = w @ wpm_json_space t" using space_split by blast
  define p where "p = wpm_json_space t"
  have t: "t = w @ p" using w(2) by (simp add: p_def)
  have pp: "wpm_json_space p = p" by (simp add: p_def)
  have step': "json_dispatch cap s below p = Inr (states, q)"
    using step by (simp add: json_step_def p_def)
  then have "s \<noteq> ROOT_END" by (auto simp: json_dispatch_def)
  then consider (first) "s = OBJECT_FIRST" "at (CHR ''}'') p"
    | (key) "s = OBJECT_FIRST \<or> s = OBJECT_KEY" "\<not> (s = OBJECT_FIRST \<and> at (CHR ''}'') p)"
    | (colon) "s = OBJECT_COLON" | (oend) "s = OBJECT_END" | (aend) "s = ARRAY_END"
    | (afirst) "s = ARRAY_FIRST" "at (CHR '']'') p"
    | (val) "takes_value s" "\<not> (s = ARRAY_FIRST \<and> at (CHR '']'') p)"
    by (cases s) (auto simp: takes_value_def)
  then show ?thesis
  proof cases
    case first
    with step' have "p = CHR ''}'' # q" "states = below"
      by (auto simp: json_dispatch_def at_iff)
    with first rest w(1) show ?thesis by (auto simp: t intro: rest_object_empty)
  next
    case key
    then obtain r where r: "json_skip_string p = Some r" "states = OBJECT_COLON # below" "q = r"
      using step' by (auto simp: json_dispatch_def split: option.splits)
    then obtain w' b where b: "p = w' @ json_quoted b @ r" "json_blank w'" "json_body b"
      using json_skip_string_sound by blast
    have "json_rest (s # below) ((w @ w') @ json_quoted b @ r)"
      using key(1) w(1) b(2,3) rest r by (intro rest_key) auto
    then show ?thesis using t b(1) by simp
  next
    case colon
    with step' rest w(1) show ?thesis
      by (auto simp: json_dispatch_def at_iff t intro: rest_colon split: if_splits)
  next
    case oend
    with step' rest w(1) show ?thesis
      by (auto simp: json_dispatch_def at_iff t split: if_splits
          intro: rest_object_close rest_object_more)
  next
    case aend
    with step' rest w(1) show ?thesis
      by (auto simp: json_dispatch_def at_iff t split: if_splits
          intro: rest_array_close rest_array_more)
  next
    case afirst
    with step' rest w(1) show ?thesis
      by (auto simp: json_dispatch_def at_iff t intro: rest_array_empty)
  next
    case val
    have "\<exists>v r. p = v @ r \<and> json_value v \<and> json_rest (after_value s # below) r"
    proof (cases "at (CHR ''{'') p \<or> at (CHR ''['') p")
      case True
      then obtain c r where cr: "p = c # r" "c = CHR ''{'' \<or> c = CHR ''[''" by (auto simp: at_iff)
      have "states = (if c = CHR ''{'' then OBJECT_FIRST else ARRAY_FIRST) # after_value s # below"
        "q = r"
        using step' val cr
        by (auto simp: json_dispatch_def takes_value_def split: if_splits)
      with rest have *: "rest_spec (if c = CHR ''{'' then OBJECT_FIRST else ARRAY_FIRST) (after_value s # below) r"
        using json_rest_spec by auto
      show ?thesis
      proof (cases "c = CHR ''{''")
        case True
        with * obtain m r' where m: "json_members m \<or> json_blank m"
          "json_rest (after_value s # below) r'" "r = m @ CHR ''}'' # r'"
          by auto
        from m(1) have "json_value (CHR ''{'' # m @ ''}'')" by (auto intro: v_object v_object_empty)
        with m True cr show ?thesis
          by (intro exI [of _ "CHR ''{'' # m @ ''}''"] exI [of _ r']) simp
      next
        case False
        with * obtain e r' where e: "json_elements e \<or> json_blank e"
          "json_rest (after_value s # below) r'" "r = e @ CHR '']'' # r'"
          by auto
        from e(1) have "json_value (CHR ''['' # e @ '']'')" by (auto intro: v_array v_array_empty)
        with e False cr show ?thesis
          by (intro exI [of _ "CHR ''['' # e @ '']''"] exI [of _ r']) simp
      qed
    next
      case False
      with step' val obtain r where "json_scalar p = Some r" "states = after_value s # below" "q = r"
        by (auto simp: json_dispatch_def takes_value_def split: if_splits option.splits)
      with rest json_scalar_sound [OF pp] show ?thesis by blast
    qed
    then show ?thesis
      using val(1) w(1) t by (auto intro: rest_value)
  qed
qed

lemma json_run_sound: "json_run cap states t \<Longrightarrow> states \<noteq> [] \<Longrightarrow> json_rest states t"
proof (induction cap states t rule: json_run.induct)
  case (1 cap states t)
  obtain s below where st: "states = s # below" using "1.prems"(2) by (cases states) auto
  show ?case
  proof (cases "json_step cap states t")
    case (Inl v)
    with "1.prems"(1) have v: "v" by (simp add: json_run.simps [of cap states t])
    with Inl st have "s = ROOT_END \<and> wpm_json_space t = []"
      by (auto simp: json_step_def json_dispatch_def split: if_splits option.splits)
    then show ?thesis
      using st space_empty_iff by (auto intro: rest_end)
  next
    case (Inr a)
    then obtain states' q where a: "json_step cap states t = Inr (states', q)" by (cases a) auto
    have run: "json_run cap states' q"
      using "1.prems"(1) a by (simp add: json_run.simps [of cap states t])
    have "states' \<noteq> []"
    proof
      assume "states' = []"
      with run show False by (simp add: json_run.simps json_step_def)
    qed
    with "1.IH" [OF a refl] run have "json_rest states' q" by simp
    with json_step_sound a st show ?thesis by blast
  qed
qed

lemma value_start: "json_value v \<Longrightarrow> \<exists>c r. v = c # r \<and> \<not> is_json_ws c \<and> c \<noteq> CHR '']''"
proof (erule json_value.cases, goal_cases)
  case (2 w)
  then obtain c r where "v = c # r" "c = CHR ''-'' \<or> is_digit c" using json_num_start by blast
  then show ?case by (auto simp: is_json_ws_def is_digit_def)
qed (auto simp: json_quoted_def is_json_ws_def)

lemma value_space [simp]: "json_value v \<Longrightarrow> wpm_json_space (v @ p) = v @ p"
  using value_start by fastforce

lemma json_text_space: "json_text (wpm_json_space t) \<longleftrightarrow> json_text t"
proof
  assume "json_text (wpm_json_space t)"
  moreover obtain w where "json_blank w" "t = w @ wpm_json_space t" using space_split by blast
  ultimately show "json_text t"
    unfolding json_text_def by (metis append.assoc json_blank_simps(2))
next
  assume "json_text t"
  then obtain a v b where t: "t = a @ v @ b" "json_blank a" "json_value v" "json_blank b"
    by (auto simp: json_text_def)
  then show "json_text (wpm_json_space t)"
    unfolding json_text_def by (intro exI [of _ "[]"] exI [of _ v] exI [of _ b]) simp
qed

subsection \<open>Every word of the grammar is accepted\<close>

lemma json_run_space: "json_run cap states (wpm_json_space t) = json_run cap states t"
proof -
  have "json_step cap states (wpm_json_space t) = json_step cap states t"
    by (simp add: json_step_def split: list.split)
  then show ?thesis
    by (simp add: json_run.simps [of cap states t] json_run.simps [of cap states "wpm_json_space t"])
qed

lemma json_run_blank [simp]: "json_blank w \<Longrightarrow> json_run cap states (w @ t) = json_run cap states t"
  by (metis json_run_space space_blank)

lemma json_run_step:
  "json_step cap states t = Inr (states', q) \<Longrightarrow> json_run cap states t = json_run cap states' q"
  by (simp add: json_run.simps [of cap states t])

lemma json_scalar_string: "json_body b \<Longrightarrow> length b < SIZE_MAX \<Longrightarrow> json_scalar (json_quoted b @ q) = Some q"
  using json_skip_string_complete by (simp add: json_scalar_def json_quoted_def)

lemma json_scalar_number:
  assumes "json_num w" "number_stop q"
  shows "json_scalar (w @ q) = Some q"
proof -
  obtain c r where c: "w = c # r" "c = CHR ''-'' \<or> is_digit c" using json_num_start [OF assms(1)] by blast
  then have "c \<noteq> DQUOTE" by (auto simp: is_digit_def)
  with c json_number_complete [OF assms] show ?thesis by (auto simp: json_scalar_def)
qed

lemma json_scalar_literal:
  "json_scalar (''true'' @ q) = Some q" "json_scalar (''false'' @ q) = Some q"
  "json_scalar (''null'' @ q) = Some q"
  by (simp_all add: json_scalar_def starts_with_def is_digit_def)

text \<open>A scalar in a state that takes a value moves to the state after the value.\<close>

lemma json_step_scalar:
  assumes "takes_value s" "json_scalar (v @ q) = Some q" "json_value v"
    and "\<not> at (CHR ''{'') v" "\<not> at (CHR ''['') v"
  shows "json_step cap (s # below) (v @ q) = Inr (after_value s # below, q)"
proof -
  obtain c r where "v = c # r" "\<not> is_json_ws c" "c \<noteq> CHR '']''"
    using value_start [OF assms(3)] by blast
  with assms(4,5) have "\<not> at (CHR '']'') (v @ q)" "\<not> at (CHR ''{'') (v @ q)" "\<not> at (CHR ''['') (v @ q)"
    by simp_all
  then have "json_dispatch cap s below (v @ q) = Inr (after_value s # below, q)"
    using assms(1,2) by (cases s) (simp_all add: json_dispatch_def takes_value_def)
  then show ?thesis using assms(3) by (simp add: json_step_def)
qed

lemma json_step_open:
  assumes "takes_value s" "c = CHR ''{'' \<or> c = CHR ''[''" "length below + 1 < cap"
  shows "json_step cap (s # below) (c # q)
       = Inr ((if c = CHR ''{'' then OBJECT_FIRST else ARRAY_FIRST) # after_value s # below, q)"
  using assms by (auto simp: json_step_def json_dispatch_def takes_value_def is_json_ws_def)

lemma number_stop_blank: "json_blank d \<Longrightarrow> number_stop q \<Longrightarrow> number_stop (d @ q)"
  by (cases d) (auto simp: number_stop_def is_json_ws_def is_digit_def)

lemma number_stop_punct [simp]:
  "number_stop []" "number_stop (CHR '','' # q)" "number_stop (CHR ''}'' # q)" "number_stop (CHR '']'' # q)"
  by (simp_all add: number_stop_def is_digit_def)

lemma json_run_member:
  assumes "json_body k" "json_blank b" "json_blank c" "s = OBJECT_FIRST \<or> s = OBJECT_KEY"
    and "length k < SIZE_MAX"
  shows "json_run cap (s # below) (json_quoted k @ b @ CHR '':'' # c @ t)
       = json_run cap (OBJECT_VALUE # below) t"
proof -
  have "wpm_json_space (json_quoted k @ u) = json_quoted k @ u" for u by (simp add: json_quoted_def)
  then have "json_run cap (s # below) (json_quoted k @ u) = json_run cap (OBJECT_COLON # below) u" for u
    using json_skip_string_complete [OF assms(1,5), of u] assms(4)
    by (intro json_run_step) (auto simp: json_step_def json_dispatch_def json_quoted_def)
  moreover have "json_run cap (OBJECT_COLON # below) (CHR '':'' # u) = json_run cap (OBJECT_VALUE # below) u" for u
    by (rule json_run_step) (simp add: json_step_def json_dispatch_def is_json_ws_def)
  ultimately show ?thesis using assms(2,3) by simp
qed

lemma json_run_after:
  "json_run cap (OBJECT_END # below) (CHR ''}'' # r) = json_run cap below r"
  "json_run cap (OBJECT_END # below) (CHR '','' # r) = json_run cap (OBJECT_KEY # below) r"
  "json_run cap (ARRAY_END # below) (CHR '']'' # r) = json_run cap below r"
  "json_run cap (ARRAY_END # below) (CHR '','' # r) = json_run cap (ARRAY_VALUE # below) r"
  "json_run cap (OBJECT_FIRST # below) (CHR ''}'' # r) = json_run cap below r"
  "json_run cap (ARRAY_FIRST # below) (CHR '']'' # r) = json_run cap below r"
  by (rule json_run_step; simp add: json_step_def json_dispatch_def is_json_ws_def)+

lemma json_run_complete:
  "json_value v \<Longrightarrow> (\<And>s below r. \<lbrakk> takes_value s; number_stop r; length below + length v < cap;
      length v < SIZE_MAX \<rbrakk> \<Longrightarrow> json_run cap (s # below) (v @ r) = json_run cap (after_value s # below) r)"
  "json_members m \<Longrightarrow> (\<And>s below r. \<lbrakk> s = OBJECT_FIRST \<or> s = OBJECT_KEY; length below + length m < cap;
      length m < SIZE_MAX \<rbrakk> \<Longrightarrow> json_run cap (s # below) (m @ CHR ''}'' # r) = json_run cap below r)"
  "json_elements e \<Longrightarrow> (\<And>s below r. \<lbrakk> s = ARRAY_FIRST \<or> s = ARRAY_VALUE; length below + length e < cap;
      length e < SIZE_MAX \<rbrakk> \<Longrightarrow> json_run cap (s # below) (e @ CHR '']'' # r) = json_run cap below r)"
proof (induction rule: json_value_json_members_json_elements.inducts)
  case (v_string b)
  then show ?case
    by (intro json_run_step json_step_scalar json_scalar_string json_value_json_members_json_elements.v_string)
       (simp_all add: json_quoted_def)
next
  case (v_number w)
  then obtain c t where "w = c # t" "c = CHR ''-'' \<or> is_digit c" using json_num_start by blast
  with v_number show ?case
    by (intro json_run_step json_step_scalar json_scalar_number
        json_value_json_members_json_elements.v_number) (auto simp: is_digit_def)
next
  case v_true
  then show ?case
    by (intro json_run_step json_step_scalar json_scalar_literal
        json_value_json_members_json_elements.v_true) simp_all
next
  case v_false
  then show ?case
    by (intro json_run_step json_step_scalar json_scalar_literal
        json_value_json_members_json_elements.v_false) simp_all
next
  case v_null
  then show ?case
    by (intro json_run_step json_step_scalar json_scalar_literal
        json_value_json_members_json_elements.v_null) simp_all
next
  case (v_object_empty w)
  then show ?case by (simp add: json_run_step [OF json_step_open] json_run_after)
next
  case (v_object m)
  then show ?case by (simp add: json_run_step [OF json_step_open])
next
  case (v_array_empty w)
  then show ?case by (simp add: json_run_step [OF json_step_open] json_run_after)
next
  case (v_array e)
  then show ?case by (simp add: json_run_step [OF json_step_open])
next
  case (m_one a k b c v d)
  then show ?case
    by (simp add: json_run_member number_stop_blank takes_value_def after_value_def json_run_after)
next
  case (m_more a k b c v d m)
  then show ?case
    by (simp add: json_run_member number_stop_blank takes_value_def after_value_def json_run_after)
next
  case (e_one a v d)
  then show ?case
    by (auto simp: number_stop_blank takes_value_def after_value_def json_run_after)
next
  case (e_more a v d e)
  then show ?case
    by (auto simp: number_stop_blank takes_value_def after_value_def json_run_after)
qed

lemma document_valid_run:
  assumes "u = (if starts_with bom t then drop 3 t else t)" "p = wpm_json_space u"
  shows "wpm_json_document_valid t \<longleftrightarrow> json_run (length p + 1) [ROOT_VALUE] p"
    and "json_document t \<longleftrightarrow> json_text p" and "length p \<le> length t"
proof -
  have u: "wpm_json_content t = wpm_json_space u"
    by (simp add: wpm_json_content_def assms(1) bom_def)
  show "wpm_json_document_valid t \<longleftrightarrow> json_run (length p + 1) [ROOT_VALUE] p"
    by (simp only: wpm_json_document_valid_def Let_def u assms(2))
  show "json_document t \<longleftrightarrow> json_text p"
    using json_text_space [of u] by (auto simp: json_document_def assms)
  show "length p \<le> length t"
    using wpm_json_space_length [of u] by (simp add: assms split: if_splits)
qed

lemma document_valid_sound: "wpm_json_document_valid t \<Longrightarrow> json_document t"
  using document_valid_run(1,2) [OF refl refl] json_rest_spec [OF json_run_sound] by fastforce

lemma document_valid_complete:
  assumes "json_document t" "length t < SIZE_MAX"
  shows "wpm_json_document_valid t"
proof -
  define u where "u = (if starts_with bom t then drop 3 t else t)"
  define p where "p = wpm_json_space u"
  note run = document_valid_run [OF u_def p_def]
  obtain a v b where p: "p = a @ v @ b" "json_blank a" "json_value v" "json_blank b"
    using run(2) assms(1) by (auto simp: json_text_def)
  have "json_run (length p + 1) [ROOT_VALUE] p = json_run (length p + 1) [ROOT_END] b"
    using json_run_complete(1) [OF p(3), of ROOT_VALUE b "[]" "length p + 1"] p run(3) assms(2)
      number_stop_blank [of b "[]"]
    by (simp add: takes_value_def after_value_def)
  also have "\<dots>"
    using space_all_blank [OF p(4)] by (simp add: json_run.simps json_step_def json_dispatch_def)
  finally show ?thesis using run(1) by simp
qed



end
