(* ===== verification/Redact.thy ===== *)
theory Redact
  imports Prelude
begin

text \<open>
  The shared text filter \<open>wpm_redact_text\<close> of \<open>wpm/logging.c\<close>: it removes terminal escape
  sequences and control bytes, URI user information and the values of protected fields, in
  place. The in-place buffer is the returned string; \<open>memmove\<close> of a tail is concatenation.
\<close>

subsection \<open>Terminal bytes\<close>

abbreviation ESC :: char where "ESC \<equiv> CHR 0x1B"
abbreviation BEL :: char where "BEL \<equiv> CHR 0x07"

fun skip_osc :: "string \<Rightarrow> string" where
  "skip_osc [] = []"
| "skip_osc (c # p) =
     (if c = BEL then p
      else if c = ESC \<and> at BSLASH p then tl p
      else skip_osc p)"

definition skip_escape :: "string \<Rightarrow> string" where
  "skip_escape p =
     (if at (CHR ''['') p
      then drop 1 (dropWhile (\<lambda>c. \<not> (64 \<le> byte c \<and> byte c \<le> 126)) (tl p))
      else if at (CHR '']'') p then skip_osc (tl p)
      else p)"

definition printable :: "char \<Rightarrow> bool" where
  "printable c \<longleftrightarrow> 32 \<le> byte c \<or> c = LF \<or> c = CR \<or> c = TAB"

lemma skip_osc_length [scan_length]: "length (skip_osc p) \<le> length p"
  by (induction p rule: skip_osc.induct) (auto simp: at_iff)

lemma skip_escape_length [scan_length]: "length (skip_escape p) \<le> length p"
proof -
  have "length (drop 1 (dropWhile P (tl p))) \<le> length p" for P :: "char \<Rightarrow> bool"
    using length_dropWhile_le [of P "tl p"] by simp
  moreover have "length (skip_osc (tl p)) \<le> length p"
    using skip_osc_length [of "tl p"] by simp
  ultimately show ?thesis by (simp add: skip_escape_def)
qed

function strip_controls :: "string \<Rightarrow> string" where
  "strip_controls [] = []"
| "strip_controls (c # p) =
     (if c = ESC then strip_controls (skip_escape p)
      else if printable c then c # strip_controls p
      else strip_controls p)"
  by pat_completeness auto
termination
  by (relation "measure length") (auto simp: le_imp_less_Suc skip_escape_length)

subsection \<open>User information of a URI\<close>

definition authority_end :: "char set" where
  "authority_end = set ''/?# '' \<union> {TAB, CR, LF}"

definition after_last :: "char \<Rightarrow> string \<Rightarrow> string" where
  "after_last c s = rev (takeWhile (\<lambda>x. x \<noteq> c) (rev s))"

definition drop_userinfo :: "string \<Rightarrow> string" where
  "drop_userinfo p =
     (let authority = strcspn_take authority_end p in
      if CHR ''@'' \<in> set authority
      then after_last (CHR ''@'') authority @ strcspn_drop authority_end p
      else p)"

lemma after_last_length: "length (after_last c s) \<le> length s"
  using length_takeWhile_le [of "\<lambda>x. x \<noteq> c" "rev s"] by (simp add: after_last_def)

lemma drop_userinfo_length [scan_length]: "length (drop_userinfo p) \<le> length p"
proof -
  have "length p = length (strcspn_take authority_end p) + length (strcspn_drop authority_end p)"
    by (metis strcspn_append length_append)
  then show ?thesis
    using after_last_length [of "CHR ''@''" "strcspn_take authority_end p"]
    by (simp add: drop_userinfo_def Let_def)
qed

text \<open>The \<open>strstr\<close> loop: after a match the search resumes at the authority.\<close>

function strip_userinfo :: "string \<Rightarrow> string" where
  "strip_userinfo [] = []"
| "strip_userinfo (c # p) =
     (if starts_with ''://'' (c # p)
      then ''://'' @ strip_userinfo (drop_userinfo (drop 3 (c # p)))
      else c # strip_userinfo p)"
  by pat_completeness auto
termination
proof (relation "measure length", goal_cases)
  case (2 c p)
  have "length (drop_userinfo (drop 3 (c # p))) \<le> length (drop 3 (c # p))"
    by (rule drop_userinfo_length)
  then show ?case by simp
qed simp_all

subsection \<open>Protected fields\<close>

definition protected_fields :: "string list" where
  "protected_fields = [''secret-key='', ''password='', ''token='', ''access_token='', ''api_key='']"

text \<open>The test of \<open>wpm_find_protected_field\<close> at one position.\<close>

definition field_at :: "string \<Rightarrow> string \<Rightarrow> bool" where
  "field_at field s \<longleftrightarrow> lower (take (length field) s) = field"

definition value_end :: "char set" where
  "value_end = set ''& '' \<union> {TAB, CR, LF, DQUOTE, CHR 0x27}"

fun skip_quoted :: "char \<Rightarrow> string \<Rightarrow> string" where
  "skip_quoted quote [] = []"
| "skip_quoted quote (c # p) =
     (if c = quote then c # p
      else if c = BSLASH \<and> p \<noteq> [] then skip_quoted quote (tl p)
      else skip_quoted quote p)"

text \<open>The value after a field: the bytes kept in front of it (an opening quote), and its end.\<close>

definition field_value :: "string \<Rightarrow> string \<times> string \<times> string" where
  "field_value v =
     (case v of
        [] \<Rightarrow> ([], [], [])
      | q # r \<Rightarrow> if q = DQUOTE \<or> q = CHR 0x27 then ([q], r, skip_quoted q r)
                else ([], v, strcspn_drop value_end v))"

definition mask_value :: "string \<Rightarrow> string \<times> string" where
  "mask_value v =
     (case field_value v of
        (kept, value, rest) \<Rightarrow> (kept @ (if length rest < length value then ''*'' else []), rest))"

lemma skip_quoted_length [scan_length]: "length (skip_quoted q p) \<le> length p"
proof (induction q p rule: skip_quoted.induct)
  case (2 q c p)
  then show ?case by (cases p) auto
qed simp

lemma strcspn_drop_length [scan_length]: "length (strcspn_drop S p) \<le> length p"
  by (simp add: strcspn_drop_def length_dropWhile_le)

lemma mask_value_length [scan_length]:
  "mask_value v = (w, rest) \<Longrightarrow> length w + length rest \<le> length v"
  using strcspn_drop_length [of value_end v]
  by (cases v)
     (auto simp: mask_value_def field_value_def split: if_splits dest: le_antisym
       intro: skip_quoted_length simp: skip_quoted_length Suc_leI le_SucI)

function redact_field :: "string \<Rightarrow> string \<Rightarrow> string" where
  "redact_field field [] = []"
| "redact_field field (c # p) =
     (if field \<noteq> [] \<and> field_at field (c # p)
      then (case mask_value (drop (length field) (c # p)) of
              (w, rest) \<Rightarrow> take (length field) (c # p) @ w @ redact_field field rest)
      else c # redact_field field p)"
  by pat_completeness auto
termination
proof (relation "measure (\<lambda>(f, s). length s)", goal_cases)
  case (2 field c p w rest)
  have "length rest \<le> length (drop (length field) (c # p))"
    using mask_value_length [of "drop (length field) (c # p)" w rest] 2(2) by simp
  with 2(1) show ?case by (cases field) auto
qed simp_all

definition redact_fields :: "string list \<Rightarrow> string \<Rightarrow> string" where
  "redact_fields fields s = fold redact_field fields s"

definition wpm_redact_text :: "string \<Rightarrow> string" where
  "wpm_redact_text text = redact_fields protected_fields (strip_userinfo (strip_controls text))"

subsection \<open>The filter only shortens, and leaves no terminal byte\<close>

lemma strip_controls_length: "length (strip_controls s) \<le> length s"
proof (induction s rule: strip_controls.induct)
  case (2 c p)
  then show ?case using skip_escape_length [of p] by (auto simp: le_SucI)
qed simp

lemma strip_userinfo_length: "length (strip_userinfo s) \<le> length s"
proof (induction s rule: strip_userinfo.induct)
  case (2 c p)
  show ?case
  proof (cases "starts_with ''://'' (c # p)")
    case True
    then have "3 \<le> length (c # p)" by (auto simp: starts_with_iff)
    with True 2(1) drop_userinfo_length [of "drop 3 (c # p)"] show ?thesis by simp
  next
    case False
    with 2(2) show ?thesis by simp
  qed
qed simp

lemma field_at_length: "field_at f s \<Longrightarrow> length f \<le> length s"
  unfolding field_at_def by (metis length_lower length_take min.cobounded1)

lemma redact_field_length: "length (redact_field f s) \<le> length s"
proof (induction f s rule: redact_field.induct)
  case (2 f c p)
  show ?case
  proof (cases "f \<noteq> [] \<and> field_at f (c # p)")
    case True
    obtain w rest where m: "mask_value (drop (length f) (c # p)) = (w, rest)" by fastforce
    have "length (redact_field f rest) \<le> length rest" using 2(1) [OF True] m by fastforce
    with mask_value_length [OF m] field_at_length [of f "c # p"] True m show ?thesis by simp
  next
    case False
    with 2(2) show ?thesis by auto
  qed
qed simp

lemma redact_fields_length: "length (redact_fields fs s) \<le> length s"
  unfolding redact_fields_def
  by (induction fs arbitrary: s) (auto intro: le_trans redact_field_length)

lemma strip_controls_printable: "c \<in> set (strip_controls s) \<Longrightarrow> printable c"
  by (induction s rule: strip_controls.induct) (auto split: if_splits)

text \<open>A text with nothing to remove: printable, without \<open>=\<close> and without \<open>@\<close>.\<close>

definition unfiltered :: "string \<Rightarrow> bool" where
  "unfiltered s \<longleftrightarrow> list_all printable s \<and> CHR ''='' \<notin> set s \<and> CHR ''@'' \<notin> set s"

lemma strip_controls_id: "list_all printable s \<Longrightarrow> strip_controls s = s"
  by (induction s) (auto simp: printable_def)

lemma strip_userinfo_id: "CHR ''@'' \<notin> set s \<Longrightarrow> strip_userinfo s = s"
proof (induction s rule: strip_userinfo.induct)
  case (2 c p)
  show ?case
  proof (cases "starts_with ''://'' (c # p)")
    case True
    then obtain r where r: "c # p = ''://'' @ r" by (auto simp: starts_with_iff)
    then have "set r \<subseteq> set (c # p)" by auto
    moreover have "set (strcspn_take S q) \<subseteq> set q" for S q
      by (metis UnI1 set_append strcspn_append subsetI)
    ultimately have "CHR ''@'' \<notin> set (strcspn_take authority_end r)" using "2.prems" by blast
    then have "drop_userinfo (drop 3 (c # p)) = drop 3 (c # p)" by (simp add: r drop_userinfo_def Let_def)
    moreover have "CHR ''@'' \<notin> set (drop 3 (c # p))" using "2.prems" in_set_dropD by metis
    ultimately have "strip_userinfo (c # p) = ''://'' @ drop 3 (c # p)" using True "2.IH"(1) by simp
    then show ?thesis by (simp add: r)
  next
    case False
    with 2 show ?thesis by simp
  qed
qed simp

lemma to_lower_equals: "to_lower c = CHR ''='' \<longleftrightarrow> c = CHR ''=''"
proof -
  have "byte (CHR ''='') = 61" by simp
  then have "to_lower c = CHR ''='' \<Longrightarrow> byte c = 61"
    using byte_to_lower [of c] by (auto simp: is_upper_def split: if_splits)
  then show ?thesis using \<open>byte (CHR ''='') = 61\<close> byte_eq_iff [of c "CHR ''=''"]
    by (auto simp: to_lower_def is_upper_def)
qed

lemma redact_field_id: "CHR ''='' \<in> set f \<Longrightarrow> CHR ''='' \<notin> set s \<Longrightarrow> redact_field f s = s"
proof (induction s)
  case (Cons c s)
  have "\<not> field_at f (c # s)"
  proof
    assume "field_at f (c # s)"
    then have "CHR ''='' \<in> set (lower (take (length f) (c # s)))" using Cons.prems(1) by (simp add: field_at_def)
    then have "CHR ''='' \<in> set (take (length f) (c # s))" by (auto simp: lower_def) (metis to_lower_equals)
    with Cons.prems(2) show False using in_set_takeD by metis
  qed
  with Cons show ?case by simp
qed simp

lemma redact_text_id: "unfiltered s \<Longrightarrow> wpm_redact_text s = s"
  by (simp add: unfiltered_def wpm_redact_text_def redact_fields_def protected_fields_def strip_controls_id
      strip_userinfo_id redact_field_id)

lemma set_strcspn_drop: "set (strcspn_drop S p) \<subseteq> set p"
  by (auto simp: strcspn_drop_def dest: set_dropWhileD)

lemma set_drop_userinfo: "set (drop_userinfo p) \<subseteq> set p"
  by (auto simp: drop_userinfo_def after_last_def strcspn_take_def Let_def
      dest!: set_takeWhileD set_mp [OF set_strcspn_drop])

lemma set_strip_userinfo: "set (strip_userinfo s) \<subseteq> set s"
proof (induction s rule: strip_userinfo.induct)
  case (2 c p)
  show ?case
  proof (cases "starts_with ''://'' (c # p)")
    case True
    then obtain r where cp: "c # p = ''://'' @ r" by (auto simp: starts_with_iff)
    have "set (strip_userinfo (drop_userinfo r)) \<subseteq> set r"
      using 2(1) [OF True] set_drop_userinfo [of r] cp by fastforce
    with True cp show ?thesis by auto
  next
    case False
    with 2(2) show ?thesis by auto
  qed
qed simp

lemma set_skip_quoted: "set (skip_quoted q p) \<subseteq> set p"
proof (induction q p rule: skip_quoted.induct)
  case (2 q c p)
  then show ?case by (cases p) auto
qed simp

lemma set_mask_value: "mask_value v = (w, rest) \<Longrightarrow> set w \<union> set rest \<subseteq> insert (CHR ''*'') (set v)"
  using set_strcspn_drop [of value_end v] set_skip_quoted
  by (cases v) (fastforce simp: mask_value_def field_value_def split: if_splits)+

lemma set_redact_field: "set (redact_field f s) \<subseteq> insert (CHR ''*'') (set s)"
proof (induction f s rule: redact_field.induct)
  case (2 f c p)
  show ?case
  proof (cases "f \<noteq> [] \<and> field_at f (c # p)")
    case True
    obtain w rest where m: "mask_value (drop (length f) (c # p)) = (w, rest)" by fastforce
    have "set (redact_field f rest) \<subseteq> insert (CHR ''*'') (set rest)"
      using 2(1) [OF True] m by fastforce
    moreover have "set (take (length f) (c # p)) \<subseteq> set (c # p)"
      "set (drop (length f) (c # p)) \<subseteq> set (c # p)"
      by (rule set_take_subset, rule set_drop_subset)
    ultimately show ?thesis using set_mask_value [OF m] True m by auto
  next
    case False
    with 2(2) show ?thesis by auto
  qed
qed simp

lemma set_redact_fields: "set (redact_fields fs s) \<subseteq> insert (CHR ''*'') (set s)"
  unfolding redact_fields_def
proof (induction fs arbitrary: s)
  case (Cons f fs)
  from Cons [of "redact_field f s"] set_redact_field [of f s] show ?case by auto
qed auto

lemma redact_text_length: "length (wpm_redact_text text) \<le> length text"
proof -
  have "length (wpm_redact_text text) \<le> length (strip_userinfo (strip_controls text))"
    unfolding wpm_redact_text_def by (rule redact_fields_length)
  also have "\<dots> \<le> length (strip_controls text)" by (rule strip_userinfo_length)
  also have "\<dots> \<le> length text" by (rule strip_controls_length)
  finally show ?thesis .
qed

lemma redact_text_printable: "c \<in> set (wpm_redact_text text) \<Longrightarrow> printable c"
proof -
  assume c: "c \<in> set (wpm_redact_text text)"
  have "set (wpm_redact_text text) \<subseteq> insert (CHR ''*'') (set (strip_controls text))"
    using set_redact_fields set_strip_userinfo unfolding wpm_redact_text_def by fastforce
  with c show ?thesis using strip_controls_printable by (fastforce simp: printable_def)
qed

text \<open>The shared filter never lengthens the text it is given, so filtering in place stays
  inside the caller's buffer.\<close>

theorem redact_text_shortens: "length (wpm_redact_text text) \<le> length text"
  by (rule redact_text_length)

text \<open>No byte below space other than newline, carriage return and tab survives the filter, in
  particular no escape byte, so no CSI or OSC sequence reaches a log or a terminal.\<close>

theorem redact_text_no_terminal_bytes:
  "set (wpm_redact_text text) \<inter> {c. byte c < 32 \<and> c \<noteq> LF \<and> c \<noteq> CR \<and> c \<noteq> TAB} = {}"
  by (auto dest: redact_text_printable simp: printable_def)

subsection \<open>No user information is left\<close>

definition no_userinfo :: "string \<Rightarrow> bool" where
  "no_userinfo s \<longleftrightarrow>
     (\<forall>a b. s = a @ ''://'' @ b \<longrightarrow> CHR ''@'' \<notin> set (strcspn_take authority_end b))"

text \<open>A pass either leaves its input as it is or changes it only behind the first marker.\<close>

lemma strip_userinfo_first:
  "strip_userinfo s = s \<or>
     (\<exists>a v v'. s = a @ ''://'' @ v \<and> strip_userinfo s = a @ ''://'' @ v')"
proof (induction s rule: strip_userinfo.induct)
  case (2 c p)
  show ?case
  proof (cases "starts_with ''://'' (c # p)")
    case True
    then obtain r where "c # p = ''://'' @ r" by (auto simp: starts_with_iff)
    with True show ?thesis
      by (intro disjI2 exI [of _ "[]"] exI [of _ r] exI [of _ "strip_userinfo (drop_userinfo r)"]) auto
  next
    case False
    from 2(2) [OF False] show ?thesis
    proof
      assume "\<exists>a v v'. p = a @ ''://'' @ v \<and> strip_userinfo p = a @ ''://'' @ v'"
      then obtain a v v' where "p = a @ ''://'' @ v" "strip_userinfo p = a @ ''://'' @ v'" by blast
      with False show ?thesis
        by (intro disjI2 exI [of _ "c # a"] exI [of _ v] exI [of _ v']) auto
    qed (use False in simp)
  qed
qed simp

lemma authority_slash [simp]: "strcspn_take authority_end (a @ SLASH # v) = strcspn_take authority_end a"
proof -
  have "SLASH \<in> authority_end" by (simp add: authority_end_def)
  then show ?thesis by (induction a) (auto simp: strcspn_take_def)
qed

lemma authority_strip: "strcspn_take authority_end (strip_userinfo s) = strcspn_take authority_end s"
proof -
  consider "strip_userinfo s = s"
    | a v v' where "s = a @ ''://'' @ v" "strip_userinfo s = a @ ''://'' @ v'"
    using strip_userinfo_first by blast
  then show ?thesis
  proof cases
    case 2
    then show ?thesis
      using authority_slash [of "a @ '':''" "SLASH # v"] authority_slash [of "a @ '':''" "SLASH # v'"]
      by simp
  qed simp
qed

lemma after_last_notin: "c \<notin> set (after_last c s)"
  by (auto simp: after_last_def dest: set_takeWhileD)

lemma strcspn_take_append:
  "set a \<inter> S = {} \<Longrightarrow> strcspn_take S (a @ p) = a @ strcspn_take S p"
  unfolding strcspn_take_def by (rule takeWhile_append2) auto

lemma drop_userinfo_authority: "CHR ''@'' \<notin> set (strcspn_take authority_end (drop_userinfo p))"
proof (cases "CHR ''@'' \<in> set (strcspn_take authority_end p)")
  case True
  let ?a = "after_last (CHR ''@'') (strcspn_take authority_end p)"
  have "set ?a \<subseteq> set (strcspn_take authority_end p)"
    by (auto simp: after_last_def dest!: set_takeWhileD)
  moreover have "set (strcspn_take authority_end p) \<inter> authority_end = {}"
    by (auto simp: strcspn_take_def dest: set_takeWhileD)
  ultimately have "set ?a \<inter> authority_end = {}" by blast
  moreover have "strcspn_take authority_end (strcspn_drop authority_end p) = []"
    unfolding strcspn_take_def strcspn_drop_def by (induction p) auto
  ultimately show ?thesis
    using True after_last_notin by (simp add: drop_userinfo_def strcspn_take_append)
next
  case False
  then show ?thesis by (simp add: drop_userinfo_def)
qed

lemma no_userinfo_Cons:
  assumes "no_userinfo p" "\<not> starts_with ''://'' (c # p)"
  shows "no_userinfo (c # p)"
  unfolding no_userinfo_def
proof (intro allI impI)
  fix a b
  assume *: "c # p = a @ ''://'' @ b"
  show "CHR ''@'' \<notin> set (strcspn_take authority_end b)"
  proof (cases a)
    case Nil
    with * assms(2) show ?thesis by (simp add: starts_with_iff)
  next
    case (Cons d a')
    with * have "p = a' @ ''://'' @ b" by simp
    with assms(1) show ?thesis by (auto simp: no_userinfo_def)
  qed
qed

lemma no_userinfo_marker:
  assumes "no_userinfo r" "CHR ''@'' \<notin> set (strcspn_take authority_end r)"
  shows "no_userinfo (''://'' @ r)"
  unfolding no_userinfo_def
proof (intro allI impI)
  fix a b
  assume *: "''://'' @ r = a @ ''://'' @ b"
  show "CHR ''@'' \<notin> set (strcspn_take authority_end b)"
  proof (cases "length a \<le> 2")
    case True
    then have "a = [] \<or> (\<exists>x. a = [x]) \<or> (\<exists>x y. a = [x, y])"
      by (cases a rule: remdups_adj.cases) auto
    with * assms(2) show ?thesis by auto
  next
    case False
    have "r = drop 3 (''://'' @ r)" by simp
    also have "\<dots> = drop 3 a @ ''://'' @ b" unfolding * using False by simp
    finally show ?thesis using assms(1) unfolding no_userinfo_def by blast
  qed
qed

lemma strip_userinfo_clean: "no_userinfo (strip_userinfo s)"
proof (induction s rule: strip_userinfo.induct)
  case 1
  show ?case by (simp add: no_userinfo_def)
next
  case (2 c p)
  show ?case
  proof (cases "starts_with ''://'' (c # p)")
    case True
    have "CHR ''@'' \<notin> set (strcspn_take authority_end
        (strip_userinfo (drop_userinfo (drop 3 (c # p)))))"
      unfolding authority_strip by (rule drop_userinfo_authority)
    from no_userinfo_marker [OF 2(1) [OF True] this] True show ?thesis by simp
  next
    case False
    have "\<not> starts_with ''://'' (c # strip_userinfo p)"
    proof -
      consider "strip_userinfo p = p"
        | a v v' where "p = a @ ''://'' @ v" "strip_userinfo p = a @ ''://'' @ v'"
        using strip_userinfo_first by blast
      then show ?thesis
      proof cases
        case 1
        with False show ?thesis by simp
      next
        case 2
        then have "take 3 (c # strip_userinfo p) = take 3 (c # p)"
          by (simp add: take_Cons')
        moreover have "length ''://'' = 3" by simp
        ultimately show ?thesis using False unfolding starts_with_def by metis
      qed
    qed
    with no_userinfo_Cons 2(2) [OF False] False show ?thesis by simp
  qed
qed

subsection \<open>No protected value is left\<close>

text \<open>
  What may follow a protected field: nothing, a delimiter, or one asterisk; inside quotes
  nothing or one asterisk up to the closing quote or the end of the text.
\<close>

definition masked :: "string \<Rightarrow> bool" where
  "masked v \<longleftrightarrow>
     (case v of
        [] \<Rightarrow> True
      | c # r \<Rightarrow>
          if c = DQUOTE \<or> c = CHR 0x27 then
            (r = [] \<or> hd r = c \<or> hd r = CHR ''*'' \<and> (tl r = [] \<or> hd (tl r) = c))
          else c \<in> value_end \<or> c = CHR ''*'' \<and> (r = [] \<or> hd r \<in> value_end))"

definition all_masked :: "string \<Rightarrow> string \<Rightarrow> bool" where
  "all_masked f s \<longleftrightarrow> (\<forall>a b. s = a @ b \<and> field_at f b \<longrightarrow> masked (drop (length f) b))"

text \<open>The shape of a protected field: lower case, three bytes or more, its only \<open>=\<close> at the end.\<close>

definition field_name :: "string \<Rightarrow> bool" where
  "field_name f \<longleftrightarrow> 3 \<le> length f \<and> last f = CHR ''='' \<and> CHR ''='' \<notin> set (butlast f)
     \<and> hd f \<noteq> DQUOTE \<and> hd f \<noteq> CHR 0x27 \<and> hd f \<noteq> CHR ''*''"

lemma protected_field_names: "list_all field_name protected_fields"
  by (simp add: protected_fields_def field_name_def)

lemma masked_first3: "3 \<le> length m \<Longrightarrow> masked (d @ m @ v) \<longleftrightarrow> masked (d @ m @ v')"
  by (cases d rule: remdups_adj.cases; cases m rule: remdups_adj.cases)
     (auto simp: masked_def neq_Nil_conv hd_append tl_append split: list.splits)

lemma skip_quoted_stop: "skip_quoted q p = [] \<or> hd (skip_quoted q p) = q"
proof (induction q p rule: skip_quoted.induct)
  case (2 q c p)
  then show ?case by (cases p) auto
qed simp

lemma strcspn_drop_stop: "strcspn_drop S p = [] \<or> hd (strcspn_drop S p) \<in> S"
  by (induction p) (auto simp: strcspn_drop_def)

lemma redact_field_hd: "field_name f \<Longrightarrow> s \<noteq> [] \<Longrightarrow> redact_field f s \<noteq> [] \<and> hd (redact_field f s) = hd s"
  by (cases s) (auto simp: field_name_def split: prod.splits)

lemma mask_value_masked:
  assumes "field_name f" "mask_value v = (w, rest)"
  shows "masked (w @ redact_field f rest)"
proof (cases "v \<noteq> [] \<and> (hd v = DQUOTE \<or> hd v = CHR 0x27)")
  case True
  then obtain q r where v: "v = q # r" "q = DQUOTE \<or> q = CHR 0x27" by (cases v) auto
  then have rest: "rest = skip_quoted q r" and w: "w = [q] @ (if length rest < length r then ''*'' else [])"
    using assms(2) by (auto simp: mask_value_def field_value_def)
  have "redact_field f rest = [] \<or> hd (redact_field f rest) = q"
    using skip_quoted_stop [of q r] redact_field_hd [OF assms(1), of rest] rest
    by (cases "rest = []") auto
  with v(2) w show ?thesis by (auto simp: masked_def)
next
  case False
  then have rest: "rest = strcspn_drop value_end v" and w: "w = (if length rest < length v then ''*'' else [])"
    using assms(2) by (auto simp: mask_value_def field_value_def strcspn_drop_def split: list.splits)
  have stop: "redact_field f rest = [] \<or> hd (redact_field f rest) \<in> value_end"
    using strcspn_drop_stop [of value_end v] redact_field_hd [OF assms(1), of rest] rest
    by (cases "rest = []") auto
  show ?thesis
  proof (cases "length rest < length v")
    case True
    with stop w show ?thesis by (auto simp: masked_def value_end_def)
  next
    case len: False
    then have "rest = v"
      using rest by (metis strcspn_append length_append not_less_iff_gr_or_eq add_cancel_right_left
          append_Nil length_0_conv strcspn_drop_length trans_less_add2 le_neq_implies_less)
    then have "redact_field f rest = [] \<or> hd (redact_field f rest) = hd v"
      using redact_field_hd [OF assms(1), of rest] by (cases "rest = []") auto
    with stop w len False \<open>rest = v\<close> show ?thesis
      by (cases "redact_field f rest") (auto simp: masked_def)
  qed
qed

lemma field_at_split: "field_at f b \<longleftrightarrow> (\<exists>m v. b = m @ v \<and> length m = length f \<and> lower m = f)"
proof
  assume *: "field_at f b"
  then have "b = take (length f) b @ drop (length f) b" "length (take (length f) b) = length f"
    using field_at_length by auto
  with * show "\<exists>m v. b = m @ v \<and> length m = length f \<and> lower m = f"
    unfolding field_at_def by blast
qed (auto simp: field_at_def)

lemma redact_field_first:
  assumes f: "field_name f"
  shows "redact_field f s = s \<or>
     (\<exists>a m v v'. s = a @ m @ v \<and> lower m = f \<and> redact_field f s = a @ m @ v' \<and> masked v')"
proof (induction s)
  case (Cons c p)
  show ?case
  proof (cases "field_at f (c # p)")
    case True
    then obtain m v where m: "c # p = m @ v" "length m = length f" "lower m = f"
      by (auto simp: field_at_split)
    obtain w rest where w: "mask_value v = (w, rest)" by fastforce
    have "f \<noteq> []" using f by (auto simp: field_name_def)
    with True have "redact_field f (c # p) = (case mask_value (drop (length f) (c # p)) of
        (w, rest) \<Rightarrow> take (length f) (c # p) @ w @ redact_field f rest)"
      by simp
    then have "redact_field f (c # p) = m @ w @ redact_field f rest"
      unfolding m(1) using m(2) w by simp
    with m mask_value_masked [OF f w] show ?thesis by (metis append_Nil)
  next
    case False
    then have "redact_field f (c # p) = c # redact_field f p" by simp
    with Cons show ?thesis by (metis append_Cons)
  qed
qed simp

lemma equals_align:
  assumes f: "field_name f" and at: "lower (take (length f) (x @ m @ v)) = f"
    and x: "length x < length f"
    and m: "m \<noteq> []" "last (lower m) = CHR ''=''" "CHR ''='' \<notin> set (butlast (lower m))"
  shows "length f = length x + length m"
proof (rule ccontr)
  assume ne: "length f \<noteq> length x + length m"
  have nth_m: "f ! (length x + i) = lower m ! i" if "i < length m" "length x + i < length f" for i
  proof -
    have "f ! (length x + i) = lower (take (length f) (x @ m @ v)) ! (length x + i)" using at by simp
    also have "\<dots> = to_lower ((x @ m @ v) ! (length x + i))"
      using that by (simp add: lower_def del: map_append take_append nth_append_length_plus)
    also have "\<dots> = lower m ! i" using that by (simp add: lower_def nth_append)
    finally show ?thesis .
  qed
  have lf: "f ! (length f - 1) = CHR ''=''"
    using f x by (metis field_name_def last_conv_nth list.size(3) not_less_zero)
  have lm: "lower m ! (length m - 1) = CHR ''=''"
    using m by (metis last_conv_nth length_0_conv length_lower)
  show False
  proof (cases "length f < length x + length m")
    case True
    let ?i = "length f - 1 - length x"
    have i: "?i < length m - 1" "length x + ?i = length f - 1" "length f - 1 < length f"
      using True x by linarith+
    with nth_m [of ?i] lf have "lower m ! ?i = CHR ''=''" by simp
    with i have "CHR ''='' \<in> set (butlast (lower m))"
      by (auto simp: in_set_conv_nth nth_butlast intro!: exI [of _ ?i])
    with m(3) show False by simp
  next
    case False
    let ?k = "length x + (length m - 1)"
    have k: "?k < length f - 1" using False ne m(1) by (cases m) auto
    with nth_m [of "length m - 1"] lm m(1) have "f ! ?k = CHR ''=''" by (cases m) auto
    with k have "CHR ''='' \<in> set (butlast f)"
      by (auto simp: in_set_conv_nth nth_butlast intro!: exI [of _ ?k])
    with f show False by (simp add: field_name_def)
  qed
qed

lemma field_suffix:
  assumes "field_name g" "lower m = g" "m = a @ n" "n \<noteq> []"
  shows "last (lower n) = CHR ''=''" "CHR ''='' \<notin> set (butlast (lower n))"
proof -
  have g: "g = lower a @ lower n" using assms by simp
  have "lower n \<noteq> []" using assms(4) by (simp add: lower_def)
  with g assms(1) show "last (lower n) = CHR ''=''" "CHR ''='' \<notin> set (butlast (lower n))"
    by (auto simp: field_name_def butlast_append)
qed

lemma all_masked_Cons:
  "all_masked f p \<Longrightarrow> (field_at f (c # p) \<Longrightarrow> masked (drop (length f) (c # p))) \<Longrightarrow> all_masked f (c # p)"
  unfolding all_masked_def by (metis append_eq_Cons_conv)

lemma all_masked_suffix: "all_masked f (a @ p) \<Longrightarrow> all_masked f p"
  unfolding all_masked_def by (metis append.assoc)

lemma all_masked_append:
  assumes f: "field_name f" and g: "field_name g" "lower m = g" and u: "masked u" "all_masked f u"
  shows "all_masked f (m @ u)"
  unfolding all_masked_def
proof (intro allI impI, elim conjE)
  fix a b
  assume ab: "m @ u = a @ b" and at: "field_at f b"
  show "masked (drop (length f) b)"
  proof (cases "length m \<le> length a")
    case True
    with ab obtain a' where "u = a' @ b" by (auto simp: append_eq_append_conv_if)
    with u(2) at show ?thesis by (auto simp: all_masked_def)
  next
    case False
    with ab obtain n where n: "m = a @ n" "n \<noteq> []" "b = n @ u"
      by (auto simp: append_eq_append_conv_if)
        (metis append_take_drop_id drop_eq_Nil not_le)
    have "length f = length ([] :: string) + length n"
      using equals_align [OF f, of "[]" n u] at n f field_suffix [OF g n(1,2)]
      by (fastforce simp: field_at_def field_name_def)
    with n u(1) show ?thesis by simp
  qed
qed

lemma skip_quoted_drop: "\<exists>n. skip_quoted q p = drop n p"
proof (induction q p rule: skip_quoted.induct)
  case (2 q c p)
  show ?case
  proof (cases "c = q")
    case True
    then show ?thesis by (intro exI [of _ 0]) simp
  next
    case False
    show ?thesis
    proof (cases "c = BSLASH \<and> p \<noteq> []")
      case True
      with False 2(1) obtain n where "skip_quoted q (tl p) = drop n (tl p)" by blast
      with True False show ?thesis by (intro exI [of _ "Suc (Suc n)"]) (simp add: drop_Suc)
    next
      case noesc: False
      with False 2(2) obtain n where "skip_quoted q p = drop n p" by blast
      with noesc False show ?thesis by (intro exI [of _ "Suc n"]) auto
    qed
  qed
qed simp

lemma suffix_mask_value: "mask_value v = (w, rest) \<Longrightarrow> \<exists>n. rest = drop n v"
proof -
  assume m: "mask_value v = (w, rest)"
  show ?thesis
  proof (cases "v \<noteq> [] \<and> (hd v = DQUOTE \<or> hd v = CHR 0x27)")
    case True
    then obtain q r where "v = q # r" "rest = skip_quoted q r"
      using m by (cases v) (auto simp: mask_value_def field_value_def)
    with skip_quoted_drop [of q r] show ?thesis by (metis drop_Suc_Cons)
  next
    case False
    then have "rest = strcspn_drop value_end v"
      using m by (cases v) (auto simp: mask_value_def field_value_def strcspn_drop_def)
    then show ?thesis unfolding strcspn_drop_def dropWhile_eq_drop by blast
  qed
qed

lemma all_masked_kept:
  assumes "field_name f" "mask_value v = (w, rest)" "all_masked f r"
  shows "all_masked f (w @ r)"
proof -
  have no: "\<not> field_at f (c # p)" if "c = DQUOTE \<or> c = CHR 0x27 \<or> c = CHR ''*''" for c p
  proof -
    have "to_lower c = c" using that by (auto simp: to_lower_def is_upper_def)
    with that assms(1) show ?thesis by (cases f) (auto simp: field_at_def field_name_def lower_def)
  qed
  have "set w \<subseteq> {DQUOTE, CHR 0x27, CHR ''*''}"
    using assms(2) by (cases v) (auto simp: mask_value_def field_value_def split: if_splits)
  then show ?thesis
  proof (induction w)
    case (Cons c w)
    then show ?case using no [of c "w @ r"] by (auto intro: all_masked_Cons)
  qed (use assms(3) in simp)
qed

lemma redact_field_masks_head:
  assumes f: "field_name f" and g: "field_name g" and no: "\<not> field_at g (c # p)"
    and old: "f = g \<or> all_masked f (c # p)" and at: "field_at f (c # redact_field g p)"
  shows "masked (drop (length f) (c # redact_field g p))"
proof -
  from redact_field_first [OF g, of p] show ?thesis
  proof
    assume "redact_field g p = p"
    with at old no show ?thesis by (auto simp: all_masked_def dest: spec [of _ "[]"])
  next
    assume "\<exists>a m v v'. p = a @ m @ v \<and> lower m = g \<and> redact_field g p = a @ m @ v' \<and> masked v'"
    then obtain a m v v' where p: "p = a @ m @ v" "lower m = g" "redact_field g p = a @ m @ v'"
      "masked v'" by blast
    have m3: "3 \<le> length m" using g p(2) by (metis field_name_def length_lower)
    show ?thesis
    proof (cases "length f \<le> length (c # a)")
      case True
      have drop: "drop (length f) ((c # a) @ m @ u) = drop (length f) (c # a) @ m @ u" for u
        using True by (simp del: append_Cons)
      have "take (length f) ((c # a) @ m @ u) = take (length f) (c # a)" for u
        using True by (simp del: append_Cons)
      moreover have "c # redact_field g p = (c # a) @ m @ v'" "c # p = (c # a) @ m @ v"
        using p by simp_all
      ultimately have take: "take (length f) (c # redact_field g p) = take (length f) (c # p)"
        by (simp only:)
      have "field_at f (c # p)" using at unfolding field_at_def take .
      with old no have "masked (drop (length f) (c # p))"
        by (auto simp: all_masked_def dest: spec [of _ "[]"])
      with masked_first3 [OF m3, of "drop (length f) (c # a)" v v'] drop [of v] drop [of v'] p
      show ?thesis by simp
    next
      case False
      have "m \<noteq> []" using m3 by auto
      then have "length f = length (c # a) + length m"
        using equals_align [OF f, of "c # a" m v'] at False p field_suffix [OF g p(2), of "[]" m]
        by (simp add: field_at_def)
      with p show ?thesis by simp
    qed
  qed
qed

lemma all_masked_redact_field:
  "field_name f \<Longrightarrow> field_name g \<Longrightarrow> f = g \<or> all_masked f s \<Longrightarrow> all_masked f (redact_field g s)"
proof (induction g s rule: redact_field.induct)
  case (1 g)
  then show ?case by (auto simp: all_masked_def field_at_def field_name_def lower_def)
next
  case (2 g c p)
  show ?case
  proof (cases "g \<noteq> [] \<and> field_at g (c # p)")
    case True
    then obtain m v where m: "c # p = m @ v" "length m = length g" "lower m = g"
      by (auto simp: field_at_split)
    obtain w rest where w: "mask_value v = (w, rest)" by fastforce
    then obtain n where n: "rest = drop n v" using suffix_mask_value by blast
    have "c # p = (m @ take n v) @ rest" using m(1) n by simp
    then have "f = g \<or> all_masked f rest" using "2.prems"(3) by (metis all_masked_suffix)
    then have rest: "all_masked f (redact_field g rest)"
      using "2.IH"(1) [OF True] "2.prems" m w by simp
    have "redact_field g (c # p) = (case mask_value (drop (length g) (c # p)) of
        (w, rest) \<Rightarrow> take (length g) (c # p) @ w @ redact_field g rest)"
      using True by simp
    then have "redact_field g (c # p) = m @ w @ redact_field g rest"
      unfolding m(1) using m(2) w by simp
    moreover have "all_masked f (w @ redact_field g rest)"
      using all_masked_kept [OF "2.prems"(1) w rest] .
    moreover have "masked (w @ redact_field g rest)"
      using mask_value_masked [OF "2.prems"(2) w] .
    ultimately show ?thesis
      using all_masked_append [OF "2.prems"(1,2) m(3)] by simp
  next
    case False
    have "g \<noteq> []" using "2.prems"(2) by (auto simp: field_name_def)
    with False have no: "\<not> field_at g (c # p)" by simp
    have "f = g \<or> all_masked f p"
      using "2.prems"(3) all_masked_suffix [of f "[c]" p] by auto
    then have "all_masked f (redact_field g p)" using "2.IH"(2) False "2.prems" by simp
    then have "all_masked f (c # redact_field g p)"
      using redact_field_masks_head [OF "2.prems"(1,2) no "2.prems"(3)] by (rule all_masked_Cons)
    with no show ?thesis by simp
  qed
qed

lemma all_masked_fold:
  "list_all field_name fs \<Longrightarrow> field_name f \<Longrightarrow> f \<in> set fs \<or> all_masked f s
     \<Longrightarrow> all_masked f (fold redact_field fs s)"
proof (induction fs arbitrary: s)
  case (Cons g fs)
  then have "f \<in> set fs \<or> all_masked f (redact_field g s)"
    using all_masked_redact_field by auto
  with Cons show ?case by simp
qed simp

text \<open>C2: after the filter every occurrence of a protected field name (in any letter case) is
  followed by nothing, a delimiter or a single asterisk: no key, password or token value is
  left in a message that reaches the console, the log or a JSON document.\<close>

theorem redact_text_masks_fields:
  "\<forall>f. f \<in> set protected_fields \<longrightarrow> all_masked f (wpm_redact_text text)"
proof (intro allI impI)
  fix f
  assume f: "f \<in> set protected_fields"
  with protected_field_names have "field_name f" by (auto simp: list_all_iff)
  with f protected_field_names show "all_masked f (wpm_redact_text text)"
    unfolding wpm_redact_text_def redact_fields_def by (intro all_masked_fold) simp_all
qed

theorem redact_text_masks_fields_witness:
  "''token='' \<in> set protected_fields
   \<and> all_masked ''token='' (wpm_redact_text ''TOKEN=b'')
   \<and> wpm_redact_text ''TOKEN=b'' = ''TOKEN=*''"
proof -
  have f: "''token='' \<in> set protected_fields" by (simp add: protected_fields_def)
  then have "all_masked ''token='' (wpm_redact_text ''TOKEN=b'')"
    using redact_text_masks_fields by blast
  moreover have "wpm_redact_text ''TOKEN=b'' = ''TOKEN=*''"
    by code_simp
  ultimately show ?thesis using f by blast
qed

text \<open>The user information pass leaves no \<open>@\<close> in the authority of any URI of its result.\<close>

theorem userinfo_pass_removes_credentials: "no_userinfo (strip_userinfo s)"
  by (rule strip_userinfo_clean)

end
