(* ===== verification/Json_Output.thy ===== *)
theory Json_Output
  imports Json_Grammar Redact
begin

text \<open>
  The JSON writer of \<open>wpm/json_output.c\<close>: validation of UTF-8, escaping of one string after the
  shared filter, and the bounded capture of events with its rendering as an array.
\<close>

subsection \<open>UTF-8\<close>

definition utf8_lead :: "nat \<Rightarrow> (nat \<times> nat \<times> nat) option" where
  "utf8_lead v =
     (if 0xc2 \<le> v \<and> v \<le> 0xdf then Some (v mod 32, 0x80, 1)
      else if 0xe0 \<le> v \<and> v \<le> 0xef then Some (v mod 16, 0x800, 2)
      else if 0xf0 \<le> v \<and> v \<le> 0xf4 then Some (v mod 8, 0x10000, 3)
      else None)"

fun utf8_tail :: "nat \<Rightarrow> nat \<Rightarrow> string \<Rightarrow> (nat \<times> string) option" where
  "utf8_tail 0 v p = Some (v, p)"
| "utf8_tail (Suc remaining) v [] = None"
| "utf8_tail (Suc remaining) v (c # p) =
     (if byte c < 0x80 \<or> byte c > 0xbf then None
      else utf8_tail remaining (64 * v + byte c mod 64) p)"

lemma utf8_tail_length [scan_length]:
  "utf8_tail remaining v p = Some (u, q) \<Longrightarrow> length p = length q + remaining"
  by (induction remaining v p rule: utf8_tail.induct) (auto split: if_splits)

function json_utf8 :: "string \<Rightarrow> bool" where
  "json_utf8 [] = True"
| "json_utf8 (c # p) =
     (if byte c < 0x80 then json_utf8 p
      else (case utf8_lead (byte c) of
              None \<Rightarrow> False
            | Some (v0, minimum, remaining) \<Rightarrow>
                (case utf8_tail remaining v0 p of
                   None \<Rightarrow> False
                 | Some (v, q) \<Rightarrow>
                     if v < minimum \<or> v > 0x10ffff \<or> 0xd800 \<le> v \<and> v \<le> 0xdfff then False
                     else json_utf8 q)))"
  by pat_completeness auto
termination
  by (relation "measure length") (auto dest: utf8_tail_length)

text \<open>The specification: the encodings of Unicode scalar values, one after the other, by the
  encoder that the reader uses for \<open>\u\<close> escapes.\<close>

definition scalar_value :: "nat \<Rightarrow> bool" where
  "scalar_value v \<longleftrightarrow> v \<le> 0x10ffff \<and> \<not> (0xd800 \<le> v \<and> v \<le> 0xdfff)"

definition utf8_text :: "string \<Rightarrow> bool" where
  "utf8_text s \<longleftrightarrow> (\<exists>vs. list_all scalar_value vs \<and> s = concat (map utf8_chars vs))"

text \<open>Decoding with the bits of the code point as separate variables.\<close>

lemma json_utf8_step:
  assumes "\<not> byte c < 0x80" "utf8_lead (byte c) = Some (v0, minimum, remaining)"
    and "utf8_tail remaining v0 p = Some (v, q)" "minimum \<le> v" "scalar_value v"
  shows "json_utf8 (c # p) = json_utf8 q"
  using assms by (auto simp: scalar_value_def)

lemma utf8_lead_values:
  "2 \<le> h \<Longrightarrow> h < 32 \<Longrightarrow> utf8_lead (192 + h) = Some (h, 0x80, 1)"
  "h < 16 \<Longrightarrow> utf8_lead (224 + h) = Some (h, 0x800, 2)"
  "h \<le> 4 \<Longrightarrow> utf8_lead (240 + h) = Some (h, 0x10000, 3)"
proof -
  assume "2 \<le> h" "h < 32"
  then obtain r where "h = r" "2 \<le> r" "r < 32" by simp
  then show "utf8_lead (192 + h) = Some (h, 0x80, 1)"
    using mod_mult_self3 [of 6 32 r] by (simp add: utf8_lead_def del: mod_mult_self3)
next
  assume "h < 16"
  then show "utf8_lead (224 + h) = Some (h, 0x800, 2)"
    using mod_mult_self3 [of 14 16 h] by (simp add: utf8_lead_def del: mod_mult_self3)
next
  assume "h \<le> 4"
  then show "utf8_lead (240 + h) = Some (h, 0x10000, 3)"
    using mod_mult_self3 [of 30 8 h] by (simp add: utf8_lead_def del: mod_mult_self3)
qed

lemma utf8_tail_step:
  "byte c = 128 + m \<Longrightarrow> m < 64 \<Longrightarrow> utf8_tail (Suc r) v (c # p) = utf8_tail r (64 * v + m) p"
proof -
  assume c: "byte c = 128 + m" and m: "m < 64"
  have "(128 + m) mod 64 = m" using m mod_mult_self3 [of 2 64 m] by simp
  with m show ?thesis unfolding utf8_tail.simps(3) c by simp
qed

lemma json_utf8_two:
  assumes "byte c = 192 + h" "byte d = 128 + m" "2 \<le> h" "h < 32" "m < 64"
  shows "json_utf8 (c # d # q) = json_utf8 q"
proof (rule json_utf8_step)
  show "utf8_lead (byte c) = Some (h, 0x80, 1)" using assms by (simp only: utf8_lead_values)
  show "utf8_tail 1 h (d # q) = Some (64 * h + m, q)"
    using assms by (simp only: One_nat_def utf8_tail_step utf8_tail.simps(1))
qed (use assms in \<open>simp_all add: scalar_value_def\<close>)

lemma json_utf8_three:
  assumes "byte c = 224 + h" "byte d = 128 + i" "byte e = 128 + m" "h < 16" "i < 64" "m < 64"
    and "v = 64 * (64 * h + i) + m" "0x800 \<le> v" "scalar_value v"
  shows "json_utf8 (c # d # e # q) = json_utf8 q"
proof (rule json_utf8_step)
  show "utf8_lead (byte c) = Some (h, 0x800, 2)" using assms by (simp only: utf8_lead_values)
  show "utf8_tail 2 h (d # e # q) = Some (v, q)"
    using assms by (simp only: numeral_2_eq_2 utf8_tail_step utf8_tail.simps(1))
qed (use assms in simp_all)

lemma json_utf8_four:
  assumes "byte c = 240 + h" "byte d = 128 + i" "byte e = 128 + j" "byte f = 128 + m"
    and "h \<le> 4" "i < 64" "j < 64" "m < 64"
    and "v = 64 * (64 * (64 * h + i) + j) + m" "0x10000 \<le> v" "scalar_value v"
  shows "json_utf8 (c # d # e # f # q) = json_utf8 q"
proof (rule json_utf8_step)
  show "utf8_lead (byte c) = Some (h, 0x10000, 3)" using assms by (simp only: utf8_lead_values)
  show "utf8_tail 3 h (d # e # f # q) = Some (v, q)"
    using assms by (simp only: numeral_3_eq_3 utf8_tail_step utf8_tail.simps(1))
qed (use assms in simp_all)

lemma six_bits:
  fixes v :: nat
  shows "v = 64 * (v div 64) + v mod 64"
    and "v div 64 = 64 * (v div 4096) + v div 64 mod 64"
    and "v div 4096 = 64 * (v div 262144) + v div 4096 mod 64"
proof -
  show "v = 64 * (v div 64) + v mod 64" for v :: nat by simp
  from this [of "v div 64"] show "v div 64 = 64 * (v div 4096) + v div 64 mod 64"
    by (simp add: div_mult2_eq [symmetric])
  from \<open>\<And>v. v = 64 * (v div 64) + v mod 64\<close> [of "v div 4096"]
  show "v div 4096 = 64 * (v div 262144) + v div 4096 mod 64"
    by (simp add: div_mult2_eq [symmetric])
qed

lemma json_utf8_scalar:
  assumes v: "scalar_value v"
  shows "json_utf8 (utf8_chars v @ q) = json_utf8 q"
proof -
  consider "v < 0x80" | "0x80 \<le> v" "v < 0x800" | "0x800 \<le> v" "v < 0x10000" | "0x10000 \<le> v"
    by linarith
  then show ?thesis
  proof cases
    case 1
    then show ?thesis by (simp add: utf8_chars_def utf8_bytes_def)
  next
    case 2
    then have "utf8_chars v @ q = char_of (192 + v div 64) # char_of (128 + v mod 64) # q"
      by (simp add: utf8_chars_def utf8_bytes_def)
    moreover have "2 \<le> v div 64" "v div 64 < 32" using 2 by auto
    ultimately show ?thesis
      using json_utf8_two [of "char_of (192 + v div 64)" "v div 64" "char_of (128 + v mod 64)" "v mod 64" q]
      by simp
  next
    case 3
    then have "utf8_chars v @ q
        = char_of (224 + v div 4096) # char_of (128 + v div 64 mod 64) # char_of (128 + v mod 64) # q"
      by (simp add: utf8_chars_def utf8_bytes_def)
    moreover have d: "v div 4096 < 16" using 3 by auto
    have e: "v = 64 * (64 * (v div 4096) + v div 64 mod 64) + v mod 64"
      unfolding six_bits(2) [symmetric] by (rule six_bits(1))
    have "json_utf8 (char_of (224 + v div 4096) # char_of (128 + v div 64 mod 64)
        # char_of (128 + v mod 64) # q) = json_utf8 q"
      by (rule json_utf8_three [OF _ _ _ _ _ _ e]; (rule v | use 3 d in simp))
    ultimately show ?thesis by simp
  next
    case 4
    then have "utf8_chars v @ q = char_of (240 + v div 262144) # char_of (128 + v div 4096 mod 64)
        # char_of (128 + v div 64 mod 64) # char_of (128 + v mod 64) # q"
      by (simp add: utf8_chars_def utf8_bytes_def)
    moreover have d: "v div 262144 \<le> 4" using v by (auto simp: scalar_value_def)
    have e: "v = 64 * (64 * (64 * (v div 262144) + v div 4096 mod 64) + v div 64 mod 64)
        + v mod 64"
      unfolding six_bits(3) [symmetric] six_bits(2) [symmetric] by (rule six_bits(1))
    have "json_utf8 (char_of (240 + v div 262144) # char_of (128 + v div 4096 mod 64)
        # char_of (128 + v div 64 mod 64) # char_of (128 + v mod 64) # q) = json_utf8 q"
      by (rule json_utf8_four [OF _ _ _ _ _ _ _ _ e]; (rule v | use 4 d in simp))
    ultimately show ?thesis by simp
  qed
qed


lemma utf8_tail_Suc:
  assumes "utf8_tail (Suc r) v p = Some (u, q)"
  obtains m p' where "p = char_of (128 + m) # p'" "m < 64" "utf8_tail r (64 * v + m) p' = Some (u, q)"
proof -
  obtain c p' where p: "p = c # p'" using assms by (cases p) auto
  with assms have c: "128 \<le> byte c" "byte c \<le> 191"
    and t: "utf8_tail r (64 * v + byte c mod 64) p' = Some (u, q)"
    by (auto split: if_splits)
  from c obtain m where m: "byte c = 128 + m" "m < 64"
    using that le_Suc_ex by fastforce
  have mod: "(128 + m) mod 64 = m" using m(2) mod_mult_self3 [of 2 64 m] by simp
  have "c = char_of (128 + m)" using m(1) by (metis char_of_char)
  then show thesis using that p m(2) t [unfolded m(1) mod] by blast
qed

lemma utf8_lead_cases:
  assumes "utf8_lead (byte c) = Some (v, minimum, remaining)"
  obtains (two) "c = char_of (192 + v)" "v < 32" "minimum = 0x80" "remaining = 1"
  | (three) "c = char_of (224 + v)" "v < 16" "minimum = 0x800" "remaining = 2"
  | (four) "c = char_of (240 + v)" "v \<le> 4" "minimum = 0x10000" "remaining = 3"
proof -
  have "byte c = 192 + v \<and> v < 32 \<and> minimum = 0x80 \<and> remaining = 1
      \<or> byte c = 224 + v \<and> v < 16 \<and> minimum = 0x800 \<and> remaining = 2
      \<or> byte c = 240 + v \<and> v \<le> 4 \<and> minimum = 0x10000 \<and> remaining = 3"
  proof -
    consider "0xc2 \<le> byte c" "byte c \<le> 0xdf" | "0xe0 \<le> byte c" "byte c \<le> 0xef"
      | "0xf0 \<le> byte c" "byte c \<le> 0xf4"
      using assms by (auto simp: utf8_lead_def split: if_splits)
    then show ?thesis
    proof cases
      case 1
      then obtain h where h: "byte c = 192 + h" "2 \<le> h" "h < 32" using le_Suc_ex by fastforce
      with assms utf8_lead_values(1) [of h] show ?thesis by simp
    next
      case 2
      then obtain h where h: "byte c = 224 + h" "h < 16" using le_Suc_ex by fastforce
      with assms utf8_lead_values(2) [of h] show ?thesis by simp
    next
      case 3
      then obtain h where h: "byte c = 240 + h" "h \<le> 4" using le_Suc_ex by fastforce
      with assms utf8_lead_values(3) [of h] show ?thesis by simp
    qed
  qed
  then show thesis using two three four by (metis char_of_char)
qed

lemma digit_split:
  fixes a m :: nat
  assumes "m < 64"
  shows "(64 * a + m) mod 64 = m" "(64 * a + m) div 64 = a"
  using assms by simp_all

lemma utf8_multibyte:
  assumes "utf8_lead (byte c) = Some (v0, minimum, remaining)"
    and "utf8_tail remaining v0 p = Some (v, q)" "minimum \<le> v" "v \<le> 0x10ffff"
  shows "c # p = utf8_chars v @ q"
  using assms(1)
proof (cases rule: utf8_lead_cases)
  case two
  with assms(2) obtain m where p: "p = char_of (128 + m) # q" and m: "m < 64" and v: "v = 64 * v0 + m"
    by (auto elim: utf8_tail_Suc)
  have "v < 0x800" using v m two by simp
  moreover have "v div 64 = v0" "v mod 64 = m" using v m by (simp_all add: digit_split)
  ultimately show ?thesis using p two assms(3) by (simp add: utf8_chars_def utf8_bytes_def)
next
  case three
  with assms(2) obtain i m where p: "p = char_of (128 + i) # char_of (128 + m) # q"
    and m: "i < 64" "m < 64" and v: "v = 64 * (64 * v0 + i) + m"
    by (auto elim!: utf8_tail_Suc simp: numeral_2_eq_2)
  have "v < 0x10000" using v m three by simp
  moreover have d: "v div 64 = 64 * v0 + i" "v mod 64 = m" unfolding v using m(2) by (rule digit_split)+
  moreover have "v div 4096 = v0" using d(1) m(1) digit_split(2) [of i v0] by (simp add: div_mult2_eq [of v 64 64, simplified])
  moreover have "v div 64 mod 64 = i" unfolding d(1) using m(1) by (rule digit_split)
  ultimately show ?thesis using p three assms(3) by (simp add: utf8_chars_def utf8_bytes_def)
next
  case four
  with assms(2) obtain i j m where p: "p = char_of (128 + i) # char_of (128 + j) # char_of (128 + m) # q"
    and m: "i < 64" "j < 64" "m < 64" and v: "v = 64 * (64 * (64 * v0 + i) + j) + m"
    by (auto elim!: utf8_tail_Suc simp: numeral_3_eq_3)
  have d: "v div 64 = 64 * (64 * v0 + i) + j" "v mod 64 = m" unfolding v using m(3) by (rule digit_split)+
  moreover have j: "v div 64 mod 64 = j" unfolding d(1) using m(2) by (rule digit_split)
  moreover have e: "v div 4096 = 64 * v0 + i"
    using d(1) m(2) digit_split(2) [of j "64 * v0 + i"] by (simp add: div_mult2_eq [of v 64 64, simplified])
  moreover have "v div 4096 mod 64 = i" unfolding e using m(1) by (rule digit_split)
  moreover have "v div 262144 = v0"
    using e m(1) digit_split(2) [of i v0] by (simp add: div_mult2_eq [of v 4096 64, simplified])
  ultimately show ?thesis using p four assms(3) by (simp add: utf8_chars_def utf8_bytes_def)
qed

lemma utf8_text_append:
  assumes "scalar_value v" "utf8_text q" shows "utf8_text (utf8_chars v @ q)"
proof -
  obtain vs where "list_all scalar_value vs" "q = concat (map utf8_chars vs)"
    using assms(2) by (auto simp: utf8_text_def)
  with assms(1) show ?thesis unfolding utf8_text_def by (intro exI [of _ "v # vs"]) simp
qed

lemma json_utf8_sound: "json_utf8 s \<Longrightarrow> utf8_text s"
proof (induction s rule: json_utf8.induct)
  case 1
  then show ?case by (auto simp: utf8_text_def intro: exI [of _ "[]"])
next
  case (2 c p)
  show ?case
  proof (cases "byte c < 0x80")
    case True
    then have "utf8_chars (byte c) = [c]" by (simp add: utf8_chars_def utf8_bytes_def)
    moreover have "scalar_value (byte c)" using True by (simp add: scalar_value_def)
    ultimately show ?thesis using utf8_text_append [of "byte c" p] 2 True by simp
  next
    case False
    then obtain v0 minimum remaining where l: "utf8_lead (byte c) = Some (v0, minimum, remaining)"
      using "2.prems" by (auto split: option.splits)
    moreover obtain v q where t: "utf8_tail remaining v0 p = Some (v, q)"
      using "2.prems" False l by (auto split: option.splits)
    moreover have v: "minimum \<le> v" "scalar_value v" and q: "json_utf8 q"
      using "2.prems" False l t by (auto simp: scalar_value_def split: if_splits)
    ultimately have "utf8_text q" using "2.IH"(2) [OF False] by (simp add: scalar_value_def not_less)
    moreover have "c # p = utf8_chars v @ q"
      using utf8_multibyte [OF l t] v by (simp add: scalar_value_def)
    ultimately show ?thesis using v utf8_text_append by simp
  qed
qed

lemma json_utf8_complete: "list_all scalar_value vs \<Longrightarrow> json_utf8 (concat (map utf8_chars vs))"
  by (induction vs) (simp_all add: json_utf8_scalar)

text \<open>The validator accepts exactly the byte strings that are the concatenated UTF-8 encodings
  of Unicode scalar values: no overlong form, no surrogate, nothing above U+10FFFF, no cut
  sequence.\<close>

theorem json_utf8_iff: "json_utf8 s \<longleftrightarrow> utf8_text s"
  using json_utf8_sound json_utf8_complete by (auto simp: utf8_text_def)

definition wpm_json_utf8_valid :: "string option \<Rightarrow> bool" where
  "wpm_json_utf8_valid text = (case text of None \<Rightarrow> False | Some s \<Rightarrow> json_utf8 s)"

subsection \<open>Escaping one string\<close>

text \<open>The four digits of \<open>%04x\<close> for a value below 65536.\<close>

definition lower_hex_digit :: "nat \<Rightarrow> char" where
  "lower_hex_digit d = char_of (if d < 10 then 48 + d else 87 + d)"

definition format_04x :: "nat \<Rightarrow> string" where
  "format_04x v = map lower_hex_digit
     [v div 4096 mod 16, v div 256 mod 16, v div 16 mod 16, v mod 16]"

definition json_escape_char :: "char \<Rightarrow> string" where
  "json_escape_char c =
     (if c = DQUOTE \<or> c = BSLASH then [BSLASH, c]
      else if byte c < 0x20 then [BSLASH, CHR ''u''] @ format_04x (byte c)
      else [c])"

definition json_escape :: "string \<Rightarrow> string" where
  "json_escape s = concat (map json_escape_char s)"

text \<open>\<open>None\<close> is a \<open>NULL\<close> argument or result. Allocation is taken to succeed.\<close>

definition wpm_json_encode_string :: "string option \<Rightarrow> string option" where
  "wpm_json_encode_string text =
     (case text of
        None \<Rightarrow> Some ''null''
      | Some s \<Rightarrow>
          if length s > (SIZE_MAX - 3) div 6 then None
          else
            let safe = wpm_redact_text s in
            if \<not> json_utf8 safe then None
            else Some (DQUOTE # json_escape safe @ [DQUOTE]))"

text \<open>The bytes written and the success flag; \<open>stream_error\<close> is \<open>ferror\<close> of the stream.\<close>

definition wpm_json_write_string :: "bool \<Rightarrow> string option \<Rightarrow> string \<times> bool" where
  "wpm_json_write_string stream_error text =
     (case wpm_json_encode_string text of
        None \<Rightarrow> (''null'', False)
      | Some encoded \<Rightarrow> (encoded, \<not> stream_error))"

lemma json_escape_simps [simp]:
  "json_escape [] = []" "json_escape (c # s) = json_escape_char c @ json_escape s"
  by (simp_all add: json_escape_def)

lemma json_escape_char_length: "length (json_escape_char c) \<le> 6"
  by (simp add: json_escape_char_def format_04x_def)

lemma json_escape_length: "length (json_escape s) \<le> 6 * length s"
proof (induction s)
  case (Cons c s)
  then show ?case using json_escape_char_length [of c] by simp
qed simp

text \<open>Each control character checked against the reader, by evaluation.\<close>

lemma control_codes:
  "list_all (\<lambda>v. hex_quad (format_04x v) \<and> hex_value (format_04x v) = v) [0..<32]"
  by (simp add: upt_conv_Cons format_04x_def lower_hex_digit_def hex_quad_def hex_value_def
      is_hex_def hex_digit_def is_digit_def)

lemma control_escape:
  "byte c < 32 \<Longrightarrow> hex_quad (format_04x (byte c)) \<and> hex_value (format_04x (byte c)) = byte c"
  using control_codes unfolding list_all_iff by simp

lemma json_escape_body: "json_body (json_escape s)"
proof (induction s)
  case (Cons c s)
  consider "c = DQUOTE \<or> c = BSLASH" | "\<not> (c = DQUOTE \<or> c = BSLASH)" "byte c < 0x20"
    | "\<not> (c = DQUOTE \<or> c = BSLASH)" "\<not> byte c < 0x20" by blast
  then show ?case
  proof cases
    case 1
    then have "simple_escape c = Some c" by (auto simp: simple_escape_def)
    with Cons body_escape show ?thesis using 1 by (simp add: json_escape_char_def)
  next
    case 2
    then have "json_body (BSLASH # CHR ''u'' # format_04x (byte c) @ json_escape s)"
      using control_escape [of c] Cons
      by (intro body_unicode) (auto simp: high_surrogate_def low_surrogate_def)
    with 2 show ?thesis by (simp add: json_escape_char_def)
  next
    case 3
    with Cons body_char show ?thesis by (simp add: json_escape_char_def)
  qed
qed (simp add: body_nil)

lemma json_encode_quoted:
  "wpm_json_encode_string (Some s) = Some e \<Longrightarrow> e = json_quoted (json_escape (wpm_redact_text s))"
  by (auto simp: wpm_json_encode_string_def json_quoted_def Let_def split: if_splits)

lemma json_encode_short:
  "length s \<le> 1000 \<Longrightarrow> wpm_redact_text s = s' \<Longrightarrow> json_utf8 s'
    \<Longrightarrow> wpm_json_encode_string (Some s) = Some (json_quoted (json_escape s'))"
  by (simp add: wpm_json_encode_string_def SIZE_MAX_def json_quoted_def)

text \<open>The encoder stays inside the buffer of \<open>length * 6 + 3\<close> bytes that it allocates
  (the terminator takes the last one).\<close>

theorem encode_string_fits_buffer:
  "wpm_json_encode_string (Some s) = Some e \<Longrightarrow> length e + 1 \<le> length s * 6 + 3"
  using json_escape_length [of "wpm_redact_text s"] Redact.redact_text_length [of s]
  by (auto dest!: json_encode_quoted)

theorem encode_string_fits_buffer_witness:
  "length (json_quoted (json_escape [LF, CHR ''a''])) + 1 \<le> length [LF, CHR ''a''] * 6 + 3"
proof -
  have "wpm_redact_text [LF, CHR ''a''] = [LF, CHR ''a'']" by code_simp
  then have "wpm_json_encode_string (Some [LF, CHR ''a''])
      = Some (json_quoted (json_escape [LF, CHR ''a'']))"
    by (intro json_encode_short) simp_all
  then show ?thesis by (rule encode_string_fits_buffer)
qed

lemma scan_escaped_char:
  assumes "printable c" "n + 1 < cap"
  shows "json_scan True cap n (json_escape_char c @ r)
    = (case json_scan True cap (n + 1) r of (w, t) \<Rightarrow> (c # w, t))"
proof -
  consider "c = DQUOTE \<or> c = BSLASH" | "\<not> (c = DQUOTE \<or> c = BSLASH)" "byte c < 0x20"
    | "\<not> (c = DQUOTE \<or> c = BSLASH)" "\<not> byte c < 0x20" by blast
  then show ?thesis
  proof cases
    case 1
    then have "simple_escape c = Some c" "c \<noteq> CHR ''u''" by (auto simp: simple_escape_def)
    with 1 assms show ?thesis by (simp add: json_escape_char_def)
  next
    case 2
    have "json_hex4 (format_04x (byte c) @ r) = Some (byte c, r)"
      using control_escape [of c] 2 by (auto simp: json_hex4_iff hex_quad_def)
    moreover have "byte c \<noteq> 0" using assms(1) by (auto simp: printable_def)
    ultimately have "json_codepoint True (format_04x (byte c) @ r) = Some (byte c, r)"
      using 2 by (simp add: json_codepoint_def)
    moreover have "utf8_chars (byte c) = [c]" using 2 by (simp add: utf8_chars_def utf8_bytes_def)
    moreover have "\<not> cap - Suc 0 \<le> n" "\<not> cap \<le> Suc 0" using assms(2) by simp_all
    ultimately show ?thesis using 2 assms by (simp add: json_escape_char_def Let_def)
  next
    case 3
    with assms show ?thesis by (simp add: json_escape_char_def)
  qed
qed

lemma scan_escaped:
  "list_all printable s \<Longrightarrow> n + length s < cap
    \<Longrightarrow> json_scan True cap n (json_escape s @ DQUOTE # r) = (s, Some r)"
proof (induction s arbitrary: n)
  case (Cons c s)
  then have "json_scan True cap n (json_escape_char c @ json_escape s @ DQUOTE # r)
      = (case json_scan True cap (n + 1) (json_escape s @ DQUOTE # r) of (w, t) \<Rightarrow> (c # w, t))"
    by (intro scan_escaped_char) simp_all
  with Cons.IH [of "n + 1"] Cons.prems show ?case by simp
qed simp

text \<open>C3: whatever the writer encodes, the reader of \<open>json_input.c\<close> decodes to the filtered
  text, into every buffer with room for it and its terminator, and stops after the closing
  quote.\<close>

theorem encode_read_round_trip:
  assumes "wpm_json_encode_string (Some s) = Some e" "length (wpm_redact_text s) < cap"
  shows "wpm_json_read_string True cap (e @ r) = (wpm_redact_text s, Some r)"
proof -
  have "list_all printable (wpm_redact_text s)"
    using Redact.redact_text_printable [of _ s] by (auto simp: list_all_iff)
  then have "json_scan True cap 0 (json_escape (wpm_redact_text s) @ DQUOTE # r)
      = (wpm_redact_text s, Some r)"
    using assms(2) by (intro scan_escaped) simp_all
  with json_encode_quoted [OF assms(1)] show ?thesis
    by (simp add: wpm_json_read_string_def json_quoted_def)
qed

theorem encode_read_round_trip_witness:
  "wpm_json_read_string True 8 (json_quoted (json_escape [CHR ''a'', BSLASH, LF]) @ '',1'')
     = ([CHR ''a'', BSLASH, LF], Some '',1'')"
proof -
  have r: "wpm_redact_text [CHR ''a'', BSLASH, LF] = [CHR ''a'', BSLASH, LF]" by code_simp
  then have "wpm_json_encode_string (Some [CHR ''a'', BSLASH, LF])
      = Some (json_quoted (json_escape [CHR ''a'', BSLASH, LF]))"
    by (intro json_encode_short) simp_all
  moreover have "length (wpm_redact_text [CHR ''a'', BSLASH, LF]) < 8" unfolding r by simp
  ultimately have "wpm_json_read_string True 8 (json_quoted (json_escape [CHR ''a'', BSLASH, LF]) @ '',1'')
      = (wpm_redact_text [CHR ''a'', BSLASH, LF], Some '',1'')"
    by (rule encode_read_round_trip)
  then show ?thesis unfolding r .
qed

subsection \<open>Captured events\<close>

datatype wpm_event_class =
    WPM_EVENT_INFO | WPM_EVENT_PROGRESS | WPM_EVENT_SUCCESS | WPM_EVENT_WARNING
  | WPM_EVENT_ERROR | WPM_EVENT_PROMPT | WPM_EVENT_SCRIPT | WPM_EVENT_RESULT | WPM_EVENT_DEBUG

record json_event =
  kind :: wpm_event_class
  code :: string
  operation :: string
  phase :: string
  event_text :: string

text \<open>The static state: \<open>events[0..event_count)\<close>, the completeness flag and whether
  \<open>capture_event\<close> is the installed sink.\<close>

record json_capture =
  events :: "json_event list"
  events_complete :: bool
  capturing :: bool

definition EVENTS_MAX :: nat where
  "EVENTS_MAX = 32"

text \<open>\<open>allocated\<close> says whether \<open>malloc\<close> returned memory for the copy.\<close>

definition capture_event :: "bool \<Rightarrow> json_event \<Rightarrow> json_capture \<Rightarrow> json_capture" where
  "capture_event allocated event st =
     (if length (events st) = EVENTS_MAX then st\<lparr>events_complete := False\<rparr>
      else if \<not> allocated then st\<lparr>events_complete := False\<rparr>
      else st\<lparr>events := events st @ [event]\<rparr>)"

definition wpm_json_events_begin :: "json_capture \<Rightarrow> json_capture" where
  "wpm_json_events_begin st = \<lparr>events = [], events_complete = True, capturing = True\<rparr>"

fun class_name :: "wpm_event_class \<Rightarrow> string" where
  "class_name WPM_EVENT_INFO = ''info''"
| "class_name WPM_EVENT_PROGRESS = ''progress''"
| "class_name WPM_EVENT_SUCCESS = ''success''"
| "class_name WPM_EVENT_WARNING = ''warning''"
| "class_name WPM_EVENT_ERROR = ''error''"
| "class_name WPM_EVENT_PROMPT = ''prompt''"
| "class_name WPM_EVENT_SCRIPT = ''script''"
| "class_name WPM_EVENT_RESULT = ''result''"
| "class_name WPM_EVENT_DEBUG = ''debug''"

definition json_field_out :: "bool \<Rightarrow> string \<Rightarrow> string \<Rightarrow> string \<times> bool" where
  "json_field_out stream_error label value =
     (case wpm_json_write_string stream_error (Some value) of
        (w, ok) \<Rightarrow> (json_quoted label @ '':'' @ w, ok))"

text \<open>One event as an object: its bytes and whether all five strings were encoded.\<close>

definition json_event_out :: "bool \<Rightarrow> json_event \<Rightarrow> string \<times> bool" where
  "json_event_out stream_error event =
     (let fields = map (\<lambda>(label, value). json_field_out stream_error label value)
            [(''severity'', class_name (kind event)), (''code'', code event),
             (''operation'', operation event), (''phase'', phase event),
             (''message'', event_text event)] in
      (CHR ''{'' # fst (hd fields) @ concat (map (\<lambda>f. CHR '','' # fst f) (tl fields)) @ ''}'',
       list_all snd fields))"

fun json_events_out :: "bool \<Rightarrow> json_event list \<Rightarrow> string \<times> bool" where
  "json_events_out stream_error [] = ([], True)"
| "json_events_out stream_error [event] = json_event_out stream_error event"
| "json_events_out stream_error (event # others) =
     (fst (json_event_out stream_error event) @ CHR '','' # fst (json_events_out stream_error others),
      snd (json_event_out stream_error event) \<and> snd (json_events_out stream_error others))"

text \<open>Bytes on standard output, the result and the state afterwards.\<close>

definition wpm_json_events_end :: "bool \<Rightarrow> json_capture \<Rightarrow> string \<times> bool \<times> json_capture" where
  "wpm_json_events_end stream_error st =
     (case json_events_out stream_error (events st) of
        (w, ok) \<Rightarrow>
          (CHR ''['' # w @ '']'',
           (events_complete st \<and> ok) \<and> \<not> stream_error,
           \<lparr>events = [], events_complete = events_complete st \<and> ok, capturing = False\<rparr>))"

lemma json_encode_value:
  "wpm_json_encode_string text = Some e \<Longrightarrow> json_value e"
proof (cases "text")
  case None
  then show "wpm_json_encode_string text = Some e \<Longrightarrow> json_value e"
    using v_null by (auto simp: wpm_json_encode_string_def)
next
  case (Some s)
  then show "wpm_json_encode_string text = Some e \<Longrightarrow> json_value e"
    using v_string [OF json_escape_body] by (auto dest!: json_encode_quoted)
qed

lemma json_write_value: "json_value (fst (wpm_json_write_string stream_error text))"
  using json_encode_value v_null by (auto simp: wpm_json_write_string_def split: option.splits)

lemma json_member_one:
  "json_body k \<Longrightarrow> json_value v \<Longrightarrow> json_members (json_quoted k @ CHR '':'' # v)"
  using m_one [of "[]" k "[]" "[]" v "[]"] by simp

lemma json_member_more:
  "json_body k \<Longrightarrow> json_value v \<Longrightarrow> json_members m
    \<Longrightarrow> json_members (json_quoted k @ CHR '':'' # v @ CHR '','' # m)"
  using m_more [of "[]" k "[]" "[]" v "[]" m] by simp

lemma json_label_body:
  "list_all (\<lambda>c. 0x20 \<le> byte c \<and> c \<noteq> DQUOTE \<and> c \<noteq> BSLASH) s \<Longrightarrow> json_body s"
  by (induction s) (auto intro: body_nil body_char)

lemma json_event_value: "json_value (fst (json_event_out stream_error event))"
proof -
  have l: "json_body ''severity''" "json_body ''code''" "json_body ''operation''"
    "json_body ''phase''" "json_body ''message''"
    by (rule json_label_body, simp)+
  note v = json_write_value [of stream_error]
  have "json_members (fst (hd fields) @ concat (map (\<lambda>f. CHR '','' # fst f) (tl fields)))"
    if "fields = map (\<lambda>(label, value). json_field_out stream_error label value)
            [(''severity'', class_name (kind event)), (''code'', code event),
             (''operation'', operation event), (''phase'', phase event),
             (''message'', event_text event)]" for fields
    unfolding that using l v
    by (simp add: json_field_out_def case_prod_beta json_member_one json_member_more)
  from v_object [OF this [OF refl]] show ?thesis unfolding json_event_out_def Let_def by simp
qed

lemma json_events_elements:
  "es \<noteq> [] \<Longrightarrow> json_elements (fst (json_events_out stream_error es))"
proof (induction stream_error es rule: json_events_out.induct)
  case (2 stream_error event)
  then show ?case using e_one [of "[]" _ "[]"] json_event_value by simp
next
  case (3 stream_error event e es)
  then show ?case
    using e_more [of "[]" _ "[]"] json_event_value [of stream_error event]
    by simp
qed simp

lemma json_events_ok:
  "snd (json_events_out stream_error es) \<longleftrightarrow> list_all (\<lambda>e. snd (json_event_out stream_error e)) es"
  by (induction stream_error es rule: json_events_out.induct) auto

lemma capture_fold:
  "length (events st) \<le> EVENTS_MAX \<Longrightarrow>
     events (fold (capture_event True) es st) = take EVENTS_MAX (events st @ es)
   \<and> (events_complete (fold (capture_event True) es st)
        \<longleftrightarrow> events_complete st \<and> length (events st @ es) \<le> EVENTS_MAX)"
proof (induction es arbitrary: st)
  case (Cons e es)
  show ?case
  proof (cases "length (events st) = EVENTS_MAX")
    case True
    with Cons.IH [of "capture_event True e st"] show ?thesis by (simp add: capture_event_def)
  next
    case False
    with Cons.prems Cons.IH [of "capture_event True e st"] show ?thesis
      by (simp add: capture_event_def)
  qed
qed simp

text \<open>The array of captured events is well formed JSON whatever the texts hold, also when one of
  them cannot be encoded (it stands as \<open>null\<close> and the result is failure).\<close>

theorem events_end_valid_json: "json_value (fst (wpm_json_events_end stream_error st))"
proof (cases "events st = []")
  case True
  then show ?thesis
    using v_array_empty [of "[]"] by (simp add: wpm_json_events_end_def)
next
  case False
  then show ?thesis
    using v_array json_events_elements by (simp add: wpm_json_events_end_def case_prod_beta)
qed

text \<open>Between \<open>wpm_json_events_begin\<close> and \<open>wpm_json_events_end\<close> the first 32 events are kept in
  order, and success is reported exactly when there were no more and each could be encoded.\<close>

theorem events_capture_complete:
  "let st = fold (capture_event True) es (wpm_json_events_begin st0) in
     events st = take 32 es
   \<and> fst (snd (wpm_json_events_end False st))
       = (length es \<le> 32 \<and> list_all (\<lambda>e. snd (json_event_out False e)) es)"
proof -
  define st where "st = fold (capture_event True) es (wpm_json_events_begin st0)"
  have st: "events st = take 32 es" "events_complete st \<longleftrightarrow> length es \<le> 32"
    using capture_fold [of "wpm_json_events_begin st0" es]
    by (simp_all add: st_def wpm_json_events_begin_def EVENTS_MAX_def)
  then have "fst (snd (wpm_json_events_end False st))
      = (length es \<le> 32 \<and> list_all (\<lambda>e. snd (json_event_out False e)) (take 32 es))"
    by (simp add: wpm_json_events_end_def case_prod_beta json_events_ok)
  with st show ?thesis unfolding st_def [symmetric] Let_def by auto
qed

end
