(* ===== verification/Comparison.thy ===== *)
theory Comparison
  imports Prelude "HOL-Library.Multiset"
begin

text \<open>
  The interface of the three-way comparison functions of the program (\<open>strcmp\<close>,
  \<open>identifier_compare\<close>, \<open>semver_compare_parsed\<close>, the record orders): a total preorder given by
  the sign of an \<open>int\<close>. The locale holds what a client may use; the lemmas after it build such
  functions from others, as the code does by chaining comparisons.
\<close>

locale comparator =
  fixes cmp :: "'a \<Rightarrow> 'a \<Rightarrow> int"
  assumes cmp_range: "cmp a b = -1 \<or> cmp a b = 0 \<or> cmp a b = 1"
    and cmp_swap: "cmp b a = - cmp a b"
    and cmp_trans: "cmp a b \<le> 0 \<Longrightarrow> cmp b c \<le> 0 \<Longrightarrow> cmp a c \<le> 0"
begin

lemma refl [simp]: "cmp a a = 0"
  using cmp_swap [of a a] by simp

lemma swap_le: "0 \<le> cmp a b \<longleftrightarrow> cmp b a \<le> 0"
  using cmp_swap [of a b] by simp

lemma swap_less: "0 < cmp a b \<longleftrightarrow> cmp b a < 0"
  using cmp_swap [of a b] by simp

lemma eq_sym: "cmp a b = 0 \<longleftrightarrow> cmp b a = 0"
  using cmp_swap [of a b] by simp

lemma total: "cmp a b \<le> 0 \<or> cmp b a \<le> 0"
  using cmp_swap [of a b] by linarith

lemma eq_trans: "cmp a b = 0 \<Longrightarrow> cmp b c = 0 \<Longrightarrow> cmp a c = 0"
  using cmp_trans [of a b c] cmp_trans [of c b a] cmp_swap [of a b] cmp_swap [of b c]
    cmp_swap [of a c] by linarith

lemma less_le_trans: "cmp a b < 0 \<Longrightarrow> cmp b c \<le> 0 \<Longrightarrow> cmp a c < 0"
  using cmp_trans [of a b c] cmp_trans [of b c a] cmp_swap [of a c] cmp_swap [of a b] by linarith

lemma le_less_trans: "cmp a b \<le> 0 \<Longrightarrow> cmp b c < 0 \<Longrightarrow> cmp a c < 0"
  using cmp_trans [of a b c] cmp_trans [of c a b] cmp_swap [of a c] cmp_swap [of b c] by linarith

lemma less_trans: "cmp a b < 0 \<Longrightarrow> cmp b c < 0 \<Longrightarrow> cmp a c < 0"
  using less_le_trans [of a b c] by simp

lemma eq_left: "cmp a b = 0 \<Longrightarrow> cmp a c = cmp b c"
  using cmp_trans [of b a c] cmp_trans [of a b c] cmp_trans [of c a b] cmp_trans [of c b a]
    cmp_swap [of a b] cmp_swap [of a c] cmp_swap [of b c] cmp_range [of a c] cmp_range [of b c]
  by linarith

end

text \<open>The loop that keeps the best element seen so far; a later equal one does not replace it.\<close>

definition pick :: "('a \<Rightarrow> 'a \<Rightarrow> int) \<Rightarrow> 'a \<Rightarrow> 'a option \<Rightarrow> 'a option" where
  "pick cmp x best = (case best of None \<Rightarrow> Some x | Some b \<Rightarrow> if cmp x b > 0 then Some x else best)"

definition pick_best :: "('a \<Rightarrow> 'a \<Rightarrow> int) \<Rightarrow> 'a list \<Rightarrow> 'a option" where
  "pick_best cmp xs = fold (pick cmp) xs None"

context comparator
begin

lemma pick_from:
  "fold (pick cmp) xs (Some b) = Some m \<Longrightarrow> m \<in> insert b (set xs) \<and> (\<forall>x \<in> insert b (set xs). cmp x m \<le> 0)"
proof (induction xs arbitrary: b)
  case (Cons x xs)
  show ?case
  proof (cases "cmp x b > 0")
    case True
    with Cons have m: "m \<in> insert x (set xs)" "\<forall>y \<in> insert x (set xs). cmp y m \<le> 0"
      by (auto simp: pick_def)
    have "cmp b x \<le> 0" using True swap_less by simp
    with m(2) have "cmp b m \<le> 0" using cmp_trans by blast
    with m show ?thesis by auto
  next
    case False
    with Cons have m: "m \<in> insert b (set xs)" "\<forall>y \<in> insert b (set xs). cmp y m \<le> 0"
      by (auto simp: pick_def)
    have "cmp x m \<le> 0" using False m(2) cmp_trans [of x b m] by simp
    with m show ?thesis by auto
  qed
qed simp

lemma pick_from_Some: "\<exists>m. fold (pick cmp) xs (Some b) = Some m"
  by (induction xs arbitrary: b) (auto simp: pick_def)

lemma pick_best_None [simp]: "pick_best cmp xs = None \<longleftrightarrow> xs = []"
  using pick_from_Some by (cases xs) (auto simp: pick_best_def pick_def)

lemma pick_best_Some:
  "pick_best cmp xs = Some m \<Longrightarrow> m \<in> set xs \<and> (\<forall>x \<in> set xs. cmp x m \<le> 0)"
  using pick_from by (cases xs) (auto simp: pick_best_def pick_def)

end

definition chain :: "('a \<Rightarrow> 'a \<Rightarrow> int) \<Rightarrow> ('a \<Rightarrow> 'a \<Rightarrow> int) \<Rightarrow> 'a \<Rightarrow> 'a \<Rightarrow> int" where
  "chain c d a b = (if c a b \<noteq> 0 then c a b else d a b)"

definition compare_nat :: "nat \<Rightarrow> nat \<Rightarrow> int" where
  "compare_nat a b = (if a < b then -1 else if b < a then 1 else 0)"

definition compare_int :: "int \<Rightarrow> int \<Rightarrow> int" where
  "compare_int a b = (if a < b then -1 else if b < a then 1 else 0)"

fun compare_list :: "('a \<Rightarrow> 'a \<Rightarrow> int) \<Rightarrow> 'a list \<Rightarrow> 'a list \<Rightarrow> int" where
  "compare_list c [] [] = 0"
| "compare_list c [] (_ # _) = -1"
| "compare_list c (_ # _) [] = 1"
| "compare_list c (a # x) (b # y) = (if c a b \<noteq> 0 then c a b else compare_list c x y)"

lemma comparator_chain:
  assumes c: "comparator c" and d: "comparator d"
  shows "comparator (chain c d)"
proof
  fix x y z
  show "chain c d x y = -1 \<or> chain c d x y = 0 \<or> chain c d x y = 1"
    using comparator.cmp_range [OF c, of x y] comparator.cmp_range [OF d, of x y]
    by (auto simp: chain_def)
  show "chain c d y x = - chain c d x y"
    using comparator.cmp_swap [OF c, of x y] comparator.cmp_swap [OF d, of x y]
    by (simp add: chain_def)
  assume a: "chain c d x y \<le> 0" and b: "chain c d y z \<le> 0"
  then have le: "c x y \<le> 0" "c y z \<le> 0" by (auto simp: chain_def split: if_splits)
  show "chain c d x z \<le> 0"
  proof (cases "c x y = 0 \<and> c y z = 0")
    case True
    then have "d x y \<le> 0" "d y z \<le> 0" using a b by (auto simp: chain_def)
    moreover have "c x z = 0" using True comparator.eq_trans [OF c] by blast
    ultimately show ?thesis using comparator.cmp_trans [OF d] by (simp add: chain_def)
  next
    case False
    then have "c x z < 0"
      using le comparator.less_le_trans [OF c] comparator.le_less_trans [OF c]
      by (metis order_le_less)
    then show ?thesis by (simp add: chain_def)
  qed
qed

lemma comparator_key: "comparator c \<Longrightarrow> comparator (\<lambda>a b. c (f a) (f b))"
  unfolding comparator_def by blast

lemma comparator_nat: "comparator compare_nat"
  by unfold_locales (auto simp: compare_nat_def split: if_splits)

lemma comparator_int: "comparator compare_int"
  by unfold_locales (auto simp: compare_int_def split: if_splits)

lemma comparator_flip: "comparator c \<Longrightarrow> comparator (\<lambda>a b. c b a)"
  unfolding comparator_def by metis

lemma comparator_list:
  assumes c: "comparator c"
  shows "comparator (compare_list c)"
proof
  fix x y z :: "'a list"
  show "compare_list c x y = -1 \<or> compare_list c x y = 0 \<or> compare_list c x y = 1"
    using comparator.cmp_range [OF c] by (induction c x y rule: compare_list.induct) auto
  show "compare_list c y x = - compare_list c x y"
    using c
  proof (induction c x y rule: compare_list.induct)
    case (4 c a x b y)
    then show ?case using comparator.cmp_swap [of c a b] by auto
  qed auto
  show "compare_list c x y \<le> 0 \<Longrightarrow> compare_list c y z \<le> 0 \<Longrightarrow> compare_list c x z \<le> 0"
  proof (induction x arbitrary: y z)
    case Nil
    then show ?case by (cases z) auto
  next
    case (Cons a x)
    then obtain b y' where y: "y = b # y'" by (cases y) auto
    with Cons.prems obtain d z' where z: "z = d # z'" by (cases z) auto
    have le: "c a b \<le> 0" "c b d \<le> 0" using Cons.prems y z by (auto split: if_splits)
    show ?case
    proof (cases "c a b = 0 \<and> c b d = 0")
      case True
      then have "c a d = 0" using comparator.eq_trans [OF c] by blast
      with True Cons.prems Cons.IH [of y' z'] y z show ?thesis by auto
    next
      case False
      then have "c a d < 0"
        using le comparator.less_le_trans [OF c] comparator.le_less_trans [OF c]
        by (metis order_le_less)
      with y z show ?thesis by simp
    qed
  qed
qed

interpretation bytes: comparator strcmp
  using strcmp_range strcmp_swap strcmp_trans by unfold_locales

lemma comparator_strcmp: "comparator strcmp"
  by (rule bytes.comparator_axioms)

text \<open>The extension of a comparison by an absent value that is greater than all others.\<close>

fun compare_absent_last :: "('a \<Rightarrow> 'a \<Rightarrow> int) \<Rightarrow> 'a option \<Rightarrow> 'a option \<Rightarrow> int" where
  "compare_absent_last c None None = 0"
| "compare_absent_last c None (Some _) = 1"
| "compare_absent_last c (Some _) None = -1"
| "compare_absent_last c (Some a) (Some b) = c a b"

lemma comparator_absent_last:
  assumes c: "comparator c"
  shows "comparator (compare_absent_last c)"
proof
  fix x y z :: "'a option"
  show "compare_absent_last c x y = -1 \<or> compare_absent_last c x y = 0 \<or> compare_absent_last c x y = 1"
    using comparator.cmp_range [OF c, of "the x" "the y"] by (cases x; cases y) simp_all
  show "compare_absent_last c y x = - compare_absent_last c x y"
    using comparator.cmp_swap [OF c, of "the x" "the y"] by (cases x; cases y) simp_all
  show "compare_absent_last c x y \<le> 0 \<Longrightarrow> compare_absent_last c y z \<le> 0
      \<Longrightarrow> compare_absent_last c x z \<le> 0"
    using comparator.cmp_trans [OF c, of "the x" "the y" "the z"]
    by (cases x; cases y; cases z) simp_all
qed

subsection \<open>Sorting\<close>

text \<open>\<open>qsort\<close> of the C library. The order of equal elements, which the standard leaves open, is
  their order in the input here; no property uses it.\<close>

fun insert_by :: "('a \<Rightarrow> 'a \<Rightarrow> int) \<Rightarrow> 'a \<Rightarrow> 'a list \<Rightarrow> 'a list" where
  "insert_by cmp x [] = [x]"
| "insert_by cmp x (y # ys) = (if cmp x y \<le> 0 then x # y # ys else y # insert_by cmp x ys)"

definition qsort :: "('a \<Rightarrow> 'a \<Rightarrow> int) \<Rightarrow> 'a list \<Rightarrow> 'a list" where
  "qsort cmp xs = foldr (insert_by cmp) xs []"

lemma qsort_simps [simp]: "qsort cmp [] = []" "qsort cmp (x # xs) = insert_by cmp x (qsort cmp xs)"
  by (simp_all add: qsort_def)

lemma set_insert_by [simp]: "set (insert_by cmp x ys) = insert x (set ys)"
  by (induction ys) auto

lemma length_insert_by [simp]: "length (insert_by cmp x ys) = Suc (length ys)"
  by (induction ys) auto

lemma mset_insert_by [simp]: "mset (insert_by cmp x ys) = add_mset x (mset ys)"
  by (induction ys) auto

lemma set_qsort [simp]: "set (qsort cmp xs) = set xs"
  by (induction xs) auto

lemma length_qsort [simp]: "length (qsort cmp xs) = length xs"
  by (induction xs) auto

lemma mset_qsort [simp]: "mset (qsort cmp xs) = mset xs"
  by (induction xs) auto

lemma list_all_qsort [simp]: "list_all P (qsort cmp xs) \<longleftrightarrow> list_all P xs"
  by (simp add: list_all_iff)

context comparator
begin

lemma sorted_insert_by:
  "sorted_wrt (\<lambda>a b. cmp a b \<le> 0) ys \<Longrightarrow> sorted_wrt (\<lambda>a b. cmp a b \<le> 0) (insert_by cmp x ys)"
proof (induction ys)
  case (Cons y ys)
  show ?case
  proof (cases "cmp x y \<le> 0")
    case True
    with Cons.prems cmp_trans show ?thesis by fastforce
  next
    case False
    then have "cmp y x \<le> 0" using total by blast
    with False Cons show ?thesis by auto
  qed
qed simp

lemma sorted_qsort: "sorted_wrt (\<lambda>a b. cmp a b \<le> 0) (qsort cmp xs)"
  by (induction xs) (simp_all add: sorted_insert_by)

end

end
