(* ===== verification/Semver.thy ===== *)
theory Semver
  imports Comparison
begin

text \<open>
  Versions (\<open>wpm/repository.c\<close>, 1973-2156): the parser of semantic versions with its guard
  against overflow of \<open>unsigned long long\<close>, and their precedence.
\<close>

subsection \<open>Parsing\<close>

record semver =
  major :: nat
  minor :: nat
  patch :: nat
  prerelease :: "string option"

text \<open>The digit loop of \<open>parse_number\<close>; \<open>None\<close> is the overflow guard.\<close>

fun number_loop :: "nat \<Rightarrow> string \<Rightarrow> (nat \<times> string) option" where
  "number_loop result [] = Some (result, [])"
| "number_loop result (c # p) =
     (if is_digit c then
        (if result > (ULLONG_MAX - digit_val c) div 10 then None
         else number_loop (result * 10 + digit_val c) p)
      else Some (result, c # p))"

definition parse_number :: "string \<Rightarrow> (nat \<times> string) option" where
  "parse_number p =
     (if \<not> at_class is_digit p then None
      else if at (CHR ''0'') p \<and> at_class is_digit (tl p) then None
      else number_loop 0 p)"

definition identifier_char :: "char \<Rightarrow> bool" where
  "identifier_char c \<longleftrightarrow> is_alnum c \<or> c = CHR ''-''"

text \<open>The outer loop of \<open>valid_identifiers\<close>, one identifier per step.\<close>

function valid_identifiers :: "bool \<Rightarrow> string \<Rightarrow> bool" where
  "valid_identifiers pre [] = True"
| "valid_identifiers pre (c # p) =
     (let ident = takeWhile (\<lambda>x. x \<noteq> CHR ''.'') (c # p);
          after = dropWhile (\<lambda>x. x \<noteq> CHR ''.'') (c # p) in
      if \<not> list_all identifier_char ident then False
      else if ident = [] \<or> pre \<and> list_all is_digit ident \<and> length ident > 1 \<and> hd ident = CHR ''0''
      then False
      else valid_identifiers pre (drop 1 after))"
  by pat_completeness auto
termination
proof (relation "measure (\<lambda>(pre, p). length p)", goal_cases)
  case (2 pre c p ident after)
  have "length after \<le> length (c # p)" unfolding \<open>after = _\<close> by (rule length_dropWhile_le)
  moreover have "length ident + length after = length (c # p)"
    unfolding \<open>ident = _\<close> \<open>after = _\<close> by (metis length_append takeWhile_dropWhile_id)
  moreover have "ident \<noteq> []" using 2 by blast
  then have "0 < length ident" by simp
  ultimately show ?case by simp
qed simp

text \<open>After the patch number: the prerelease runs to a plus or the end, the build metadata to the
  end, and nothing else may follow.\<close>

definition semver_finish :: "nat \<Rightarrow> nat \<Rightarrow> nat \<Rightarrow> string \<Rightarrow> semver option" where
  "semver_finish x y z p =
     (let pre = (if at (CHR ''-'') p then Some (takeWhile (\<lambda>c. c \<noteq> CHR ''+'') (tl p)) else None);
          q = (if at (CHR ''-'') p then dropWhile (\<lambda>c. c \<noteq> CHR ''+'') (tl p) else p);
          plus = (if at (CHR ''+'') q then Some (tl q) else None);
          r = (if at (CHR ''+'') q then [] else q) in
      if r \<noteq> [] then None
      else if (case pre of None \<Rightarrow> False | Some i \<Rightarrow> i = [] \<or> \<not> valid_identifiers True i) then None
      else if (case plus of None \<Rightarrow> False | Some i \<Rightarrow> i = [] \<or> \<not> valid_identifiers False i) then None
      else Some \<lparr>major = x, minor = y, patch = z, prerelease = pre\<rparr>)"

text \<open>A number followed by a dot.\<close>

definition parse_dotted :: "string \<Rightarrow> (nat \<times> string) option" where
  "parse_dotted p =
     (case parse_number p of
        None \<Rightarrow> None
      | Some (n, q) \<Rightarrow> if at (CHR ''.'') q then Some (n, tl q) else None)"

text \<open>\<open>NULL\<close> is \<open>None\<close>.\<close>

definition semver_parse :: "string option \<Rightarrow> semver option" where
  "semver_parse input =
     (case input of
        None \<Rightarrow> None
      | Some t \<Rightarrow>
          (case parse_dotted t of
             None \<Rightarrow> None
           | Some (x, p1) \<Rightarrow>
               (case parse_dotted p1 of
                  None \<Rightarrow> None
                | Some (y, p2) \<Rightarrow>
                    (case parse_number p2 of
                       None \<Rightarrow> None
                     | Some (z, p) \<Rightarrow> semver_finish x y z p))))"

definition wpm_repo_version_is_valid :: "string option \<Rightarrow> bool" where
  "wpm_repo_version_is_valid version = (semver_parse version \<noteq> None)"

definition is_prerelease :: "string \<Rightarrow> bool" where
  "is_prerelease value =
     (case semver_parse (Some value) of None \<Rightarrow> False | Some v \<Rightarrow> prerelease v \<noteq> None)"

subsection \<open>Precedence\<close>

fun strip_zeros :: "string \<Rightarrow> string" where
  "strip_zeros (c # d # a) = (if c = CHR ''0'' then strip_zeros (d # a) else c # d # a)"
| "strip_zeros a = a"

definition identifier_compare :: "string \<Rightarrow> string \<Rightarrow> int" where
  "identifier_compare a b =
     (let ad = list_all is_digit a; bd = list_all is_digit b in
      if ad \<and> bd then
        (let a' = strip_zeros a; b' = strip_zeros b in
         if length a' \<noteq> length b' then (if length a' > length b' then 1 else -1)
         else strcmp a' b')
      else if ad \<noteq> bd then (if ad then -1 else 1)
      else strcmp a b)"

text \<open>The loop over the identifiers of two prereleases; \<open>ident\<close> is the part before the dot and
  \<open>after\<close> the part behind it.\<close>

function prerelease_loop :: "string \<Rightarrow> string \<Rightarrow> int" where
  "prerelease_loop a b =
     (if a = [] \<or> b = [] then (if a = [] then (if b = [] then 0 else -1) else 1)
      else
        let an = takeWhile (\<lambda>x. x \<noteq> CHR ''.'') a; bn = takeWhile (\<lambda>x. x \<noteq> CHR ''.'') b;
            c = identifier_compare an bn in
        if c \<noteq> 0 then c
        else prerelease_loop (drop 1 (dropWhile (\<lambda>x. x \<noteq> CHR ''.'') a))
                             (drop 1 (dropWhile (\<lambda>x. x \<noteq> CHR ''.'') b)))"
  by pat_completeness auto
termination
proof (relation "measure (\<lambda>(a, b). length a)", goal_cases)
  case (2 a b)
  have "length (dropWhile (\<lambda>x. x \<noteq> CHR ''.'') a) \<le> length a" by (rule length_dropWhile_le)
  moreover have "0 < length a" using 2 by simp
  ultimately have "length (drop 1 (dropWhile (\<lambda>x. x \<noteq> CHR ''.'') a)) < length a"
    unfolding length_drop by linarith
  then show ?case by simp
qed simp

declare prerelease_loop.simps [simp del]

definition semver_compare_parsed :: "semver \<Rightarrow> semver \<Rightarrow> int" where
  "semver_compare_parsed a b =
     (if major a \<noteq> major b then (if major a > major b then 1 else -1)
      else if minor a \<noteq> minor b then (if minor a > minor b then 1 else -1)
      else if patch a \<noteq> patch b then (if patch a > patch b then 1 else -1)
      else (case (prerelease a, prerelease b) of
              (None, None) \<Rightarrow> 0
            | (None, Some _) \<Rightarrow> 1
            | (Some _, None) \<Rightarrow> -1
            | (Some p, Some q) \<Rightarrow> prerelease_loop p q))"

text \<open>The result and the \<open>valid\<close> flag.\<close>

definition semver_compare :: "string \<Rightarrow> string \<Rightarrow> int \<times> bool" where
  "semver_compare a b =
     (case (semver_parse (Some a), semver_parse (Some b)) of
        (Some v, Some w) \<Rightarrow> (semver_compare_parsed v w, True)
      | _ \<Rightarrow> (0, False))"

subsection \<open>What the parser accepts\<close>

abbreviation digits_from :: "nat \<Rightarrow> string \<Rightarrow> nat" where
  "digits_from r d \<equiv> foldl (\<lambda>r c. 10 * r + digit_val c) r d"

lemma digits_from_ge: "r \<le> digits_from r d"
proof (induction d arbitrary: r)
  case (Cons c d)
  have "r \<le> 10 * r + digit_val c" by simp
  also have "\<dots> \<le> digits_from (10 * r + digit_val c) d" by (rule Cons)
  finally show ?case by simp
qed simp

lemma overflow_guard:
  "is_digit c \<Longrightarrow> r > (ULLONG_MAX - digit_val c) div 10 \<longleftrightarrow> r * 10 + digit_val c > ULLONG_MAX"
  using digit_val_le [of c] by (auto simp: ULLONG_MAX_def div_less_iff_less_mult not_le [symmetric])

lemma number_loop_iff:
  "r \<le> ULLONG_MAX \<Longrightarrow> number_loop r p = Some (n, q) \<longleftrightarrow>
     (\<exists>d. p = d @ q \<and> list_all is_digit d \<and> \<not> at_class is_digit q
        \<and> n = digits_from r d \<and> n \<le> ULLONG_MAX)"
proof (induction p arbitrary: r)
  case Nil
  then show ?case by auto
next
  case (Cons c p)
  show ?case
  proof (cases "is_digit c")
    case True
    have split: "(\<exists>d. c # p = d @ q \<and> list_all is_digit d \<and> \<not> at_class is_digit q
          \<and> n = digits_from r d \<and> n \<le> ULLONG_MAX) \<longleftrightarrow>
        (\<exists>d. p = d @ q \<and> list_all is_digit d \<and> \<not> at_class is_digit q
          \<and> n = digits_from (10 * r + digit_val c) d \<and> n \<le> ULLONG_MAX)" (is "?l \<longleftrightarrow> ?r")
    proof
      assume ?l
      then obtain d where d: "c # p = d @ q" "list_all is_digit d" "\<not> at_class is_digit q"
        "n = digits_from r d" "n \<le> ULLONG_MAX" by blast
      with True obtain e where "d = c # e" "p = e @ q" by (cases d) auto
      with d show ?r by auto
    next
      assume ?r
      then obtain d where "p = d @ q" "list_all is_digit d" "\<not> at_class is_digit q"
        "n = digits_from (10 * r + digit_val c) d" "n \<le> ULLONG_MAX" by blast
      with True show ?l by (intro exI [of _ "c # d"]) simp
    qed
    show ?thesis
    proof (cases "r * 10 + digit_val c > ULLONG_MAX")
      case over: True
      then have "\<not> (n = digits_from (10 * r + digit_val c) d \<and> n \<le> ULLONG_MAX)" for d
        using digits_from_ge [of "10 * r + digit_val c" d] by (auto simp: mult.commute)
      with over True split show ?thesis by (auto simp: overflow_guard)
    next
      case False
      then have "10 * r + digit_val c \<le> ULLONG_MAX" by (simp add: mult.commute)
      from Cons.IH [OF this] False True split show ?thesis
        by (simp only: number_loop.simps overflow_guard if_True if_False mult.commute [of r 10])
    qed
  next
    case False
    with Cons.prems show ?thesis by (auto simp: Cons_eq_append_conv)
  qed
qed

lemma parse_number_iff:
  "parse_number p = Some (n, q) \<longleftrightarrow>
     p = decimal n @ q \<and> n \<le> ULLONG_MAX \<and> \<not> at_class is_digit q" (is "?l \<longleftrightarrow> ?r")
proof
  assume ?l
  then have start: "at_class is_digit p" "\<not> (at (CHR ''0'') p \<and> at_class is_digit (tl p))"
    and "number_loop 0 p = Some (n, q)"
    by (auto simp: parse_number_def split: if_splits)
  then obtain d where d: "p = d @ q" "list_all is_digit d" "\<not> at_class is_digit q"
    "n = digits_from 0 d" "n \<le> ULLONG_MAX" using number_loop_iff [of 0 p n q] by auto
  have "d \<noteq> []" using d start by auto
  moreover have "hd d = CHR ''0'' \<Longrightarrow> d = ''0''"
    using start(2) d(1,2) \<open>d \<noteq> []\<close> by (cases d; cases "tl d") auto
  ultimately have "canonical_digits d" using d by (simp add: canonical_digits_def)
  then have "decimal n = d" using d(4) decimal_dec_value [of d] by (simp only: dec_value_def)
  with d(1,3,5) show ?r by simp
next
  assume r: ?r
  have zero: "0 \<le> ULLONG_MAX" by simp
  have "n = digits_from 0 (decimal n)"
    using dec_value_decimal [of n] by (simp only: dec_value_def)
  then have "number_loop 0 p = Some (n, q)"
    unfolding number_loop_iff [OF zero] using r decimal_digits [of n]
    by blast
  moreover obtain c d where cd: "decimal n = c # d" by (cases "decimal n") auto
  moreover have "is_digit c" "c = CHR ''0'' \<Longrightarrow> d = []"
    using canonical_decimal [of n] unfolding cd by (simp_all add: canonical_digits_def)
  ultimately show ?l using r by (auto simp: parse_number_def)
qed

text \<open>The text of a version: its fields, and the build metadata that the parser drops.\<close>

definition semver_text :: "semver \<Rightarrow> string option \<Rightarrow> string" where
  "semver_text v build =
     decimal (major v) @ ''.'' @ decimal (minor v) @ ''.'' @ decimal (patch v)
     @ (case prerelease v of None \<Rightarrow> [] | Some p \<Rightarrow> CHR ''-'' # p)
     @ (case build of None \<Rightarrow> [] | Some b \<Rightarrow> CHR ''+'' # b)"

definition semver_wf :: "semver \<Rightarrow> bool" where
  "semver_wf v \<longleftrightarrow> major v \<le> ULLONG_MAX \<and> minor v \<le> ULLONG_MAX \<and> patch v \<le> ULLONG_MAX
     \<and> (case prerelease v of None \<Rightarrow> True | Some p \<Rightarrow> p \<noteq> [] \<and> valid_identifiers True p)"

definition build_wf :: "string option \<Rightarrow> bool" where
  "build_wf build = (case build of None \<Rightarrow> True | Some b \<Rightarrow> b \<noteq> [] \<and> valid_identifiers False b)"

lemma valid_identifiers_chars:
  "valid_identifiers pre p \<Longrightarrow> c \<in> set p \<Longrightarrow> identifier_char c \<or> c = CHR ''.''"
proof (induction pre p rule: valid_identifiers.induct)
  case (2 pre d p)
  let ?i = "takeWhile (\<lambda>x. x \<noteq> CHR ''.'') (d # p)"
  let ?a = "dropWhile (\<lambda>x. x \<noteq> CHR ''.'') (d # p)"
  have v: "list_all identifier_char ?i" "valid_identifiers pre (drop 1 ?a)"
    using "2.prems"(1) by (auto simp: Let_def split: if_splits)
  have IH: "c \<in> set (drop 1 ?a) \<Longrightarrow> identifier_char c \<or> c = CHR ''.''"
    using "2.IH" [OF refl refl] "2.prems"(1) v by (auto simp: Let_def split: if_splits)
  have "c \<in> set ?i \<union> set ?a"
    using "2.prems"(2) by (metis set_append takeWhile_dropWhile_id)
  moreover have "set ?a \<subseteq> {CHR ''.''} \<union> set (drop 1 ?a)"
    using hd_dropWhile [of "\<lambda>x. x \<noteq> CHR ''.''" "d # p"] by (cases ?a) auto
  ultimately show ?case using v(1) IH by (auto simp: list_all_iff)
qed simp

lemma plus_not_identifier: "valid_identifiers pre p \<Longrightarrow> CHR ''+'' \<notin> set p"
  using valid_identifiers_chars [of pre p "CHR ''+''"] by (auto simp: identifier_char_def char_class)

definition part :: "char \<Rightarrow> string option \<Rightarrow> string" where
  "part c i = (case i of None \<Rightarrow> [] | Some p \<Rightarrow> c # p)"

lemma semver_text_part:
  "semver_text v build = decimal (major v) @ CHR ''.'' # decimal (minor v) @ CHR ''.'' #
     decimal (patch v) @ part (CHR ''-'') (prerelease v) @ part (CHR ''+'') build"
  by (simp add: semver_text_def part_def)

lemma parse_dotted_iff:
  "parse_dotted p = Some (n, q) \<longleftrightarrow> p = decimal n @ CHR ''.'' # q \<and> n \<le> ULLONG_MAX"
proof
  assume "parse_dotted p = Some (n, q)"
  then have "parse_number p = Some (n, CHR ''.'' # q)"
    by (auto simp: parse_dotted_def at_iff split: option.splits if_splits)
  then show "p = decimal n @ CHR ''.'' # q \<and> n \<le> ULLONG_MAX" by (simp add: parse_number_iff)
next
  assume "p = decimal n @ CHR ''.'' # q \<and> n \<le> ULLONG_MAX"
  then have "parse_number p = Some (n, CHR ''.'' # q)" by (simp add: parse_number_iff is_digit_def)
  then show "parse_dotted p = Some (n, q)" by (simp add: parse_dotted_def)
qed

lemma split_plus:
  assumes "CHR ''+'' \<notin> set p"
  shows "takeWhile (\<lambda>c. c \<noteq> CHR ''+'') (p @ part (CHR ''+'') b) = p"
    and "dropWhile (\<lambda>c. c \<noteq> CHR ''+'') (p @ part (CHR ''+'') b) = part (CHR ''+'') b"
proof -
  have "\<forall>c \<in> set p. c \<noteq> CHR ''+''" using assms by auto
  then show "takeWhile (\<lambda>c. c \<noteq> CHR ''+'') (p @ part (CHR ''+'') b) = p"
    and "dropWhile (\<lambda>c. c \<noteq> CHR ''+'') (p @ part (CHR ''+'') b) = part (CHR ''+'') b"
    by (cases b; simp add: part_def takeWhile_append2 dropWhile_append2)+
qed

lemma semver_finish_complete:
  assumes "semver_wf v" "build_wf build"
  shows "semver_finish (major v) (minor v) (patch v)
    (part (CHR ''-'') (prerelease v) @ part (CHR ''+'') build) = Some v"
proof (cases "prerelease v")
  case None
  then show ?thesis
    using assms by (cases build) (simp_all add: semver_finish_def part_def build_wf_def)
next
  case (Some p)
  then have p: "p \<noteq> []" "valid_identifiers True p" using assms(1) by (auto simp: semver_wf_def)
  note split = split_plus [OF plus_not_identifier [OF p(2)], of build]
  have dash: "part (CHR ''-'') (prerelease v) = CHR ''-'' # p" using Some by (simp add: part_def)
  have "part (CHR ''+'') build = [] \<and> build = None
      \<or> (\<exists>b. build = Some b \<and> part (CHR ''+'') build = CHR ''+'' # b \<and> b \<noteq> [] \<and> valid_identifiers False b)"
    using assms(2) by (cases build) (auto simp: part_def build_wf_def)
  then show ?thesis
    unfolding dash semver_finish_def Let_def append_Cons at_simps list.sel if_True simp_thms split
    using p Some by auto
qed

lemma semver_finish_sound:
  assumes "semver_finish x y z p = Some v"
  shows "\<exists>plus. build_wf plus \<and> p = part (CHR ''-'') (prerelease v) @ part (CHR ''+'') plus
     \<and> major v = x \<and> minor v = y \<and> patch v = z
     \<and> (case prerelease v of None \<Rightarrow> True | Some p \<Rightarrow> p \<noteq> [] \<and> valid_identifiers True p)"
proof -
  define q where "q = (if at (CHR ''-'') p then dropWhile (\<lambda>c. c \<noteq> CHR ''+'') (tl p) else p)"
  define pre where "pre = (if at (CHR ''-'') p then Some (takeWhile (\<lambda>c. c \<noteq> CHR ''+'') (tl p)) else None)"
  define plus where "plus = (if at (CHR ''+'') q then Some (tl q) else None)"
  define r where "r = (if at (CHR ''+'') q then [] else q)"
  note fin = assms [unfolded semver_finish_def Let_def, folded q_def pre_def, folded plus_def r_def]
  have "r = []" using fin by (simp split: if_splits)
  moreover have pre: "case pre of None \<Rightarrow> True | Some p \<Rightarrow> p \<noteq> [] \<and> valid_identifiers True p"
    using fin by (cases pre) (simp_all split: if_splits)
  moreover have "build_wf plus"
    using fin unfolding build_wf_def by (cases plus) (simp_all split: if_splits)
  moreover have "v = \<lparr>major = x, minor = y, patch = z, prerelease = pre\<rparr>"
    using fin by (simp split: if_splits)
  moreover have "p = part (CHR ''-'') pre @ q"
    by (cases p) (simp_all add: pre_def q_def part_def)
  moreover have "q = part (CHR ''+'') plus"
    using \<open>r = []\<close> by (cases q) (simp_all add: plus_def r_def part_def split: if_splits)
  ultimately show ?thesis by (intro exI [of _ plus]) simp
qed

lemma parse_number_patch:
  "parse_number p = Some (n, q) \<Longrightarrow> p = decimal n @ q \<and> n \<le> ULLONG_MAX"
  by (simp add: parse_number_iff)

lemma semver_parse_text:
  assumes v: "semver_wf v" and b: "build_wf build"
  shows "semver_parse (Some (semver_text v build)) = Some v"
proof -
  define tail where "tail = part (CHR ''-'') (prerelease v) @ part (CHR ''+'') build"
  have nd: "\<not> at_class is_digit tail"
    by (cases "prerelease v"; cases build) (simp_all add: tail_def part_def is_digit_def)
  have "parse_dotted (semver_text v build) = Some (major v, decimal (minor v) @ CHR ''.'' # decimal (patch v) @ tail)"
    using v unfolding parse_dotted_iff semver_wf_def by (simp add: semver_text_part tail_def)
  moreover have "parse_dotted (decimal (minor v) @ CHR ''.'' # decimal (patch v) @ tail)
      = Some (minor v, decimal (patch v) @ tail)"
    using v unfolding parse_dotted_iff semver_wf_def by simp
  moreover have "parse_number (decimal (patch v) @ tail) = Some (patch v, tail)"
    using v nd unfolding parse_number_iff semver_wf_def by simp
  ultimately show ?thesis
    using semver_finish_complete [OF v b] by (simp add: semver_parse_def tail_def)
qed

lemma semver_parse_sound:
  assumes "semver_parse (Some t) = Some v"
  shows "semver_wf v \<and> (\<exists>build. build_wf build \<and> t = semver_text v build)"
proof -
  obtain x p1 y p2 z p where n: "parse_dotted t = Some (x, p1)" "parse_dotted p1 = Some (y, p2)"
    "parse_number p2 = Some (z, p)" and f: "semver_finish x y z p = Some v"
    using assms unfolding semver_parse_def by (simp split: option.splits prod.splits)
  obtain plus where "build_wf plus" "p = part (CHR ''-'') (prerelease v) @ part (CHR ''+'') plus"
    "major v = x" "minor v = y" "patch v = z"
    and pre: "case prerelease v of None \<Rightarrow> True | Some p \<Rightarrow> p \<noteq> [] \<and> valid_identifiers True p"
    using semver_finish_sound [OF f] by (elim exE conjE) simp
  moreover have "t = decimal x @ CHR ''.'' # decimal y @ CHR ''.'' # decimal z @ p"
    and "x \<le> ULLONG_MAX" "y \<le> ULLONG_MAX" "z \<le> ULLONG_MAX"
    using n parse_number_patch unfolding parse_dotted_iff by simp_all
  ultimately show ?thesis by (auto simp: semver_text_part semver_wf_def)
qed

text \<open>The parser accepts exactly the texts \<open>major.minor.patch[-prerelease][+build]\<close> with canonical
  decimal numbers that fit \<open>unsigned long long\<close>, and returns the fields that are written there.\<close>

theorem semver_parse_iff:
  "semver_parse (Some t) = Some v
     \<longleftrightarrow> semver_wf v \<and> (\<exists>build. build_wf build \<and> t = semver_text v build)"
  using semver_parse_sound semver_parse_text by blast

subsection \<open>The precedence of semantic versions\<close>

text \<open>Identifiers of a prerelease. Empty text after a final dot is no identifier.\<close>

function idents :: "string \<Rightarrow> string list" where
  "idents [] = []"
| "idents (c # p) = takeWhile (\<lambda>x. x \<noteq> CHR ''.'') (c # p)
     # idents (drop 1 (dropWhile (\<lambda>x. x \<noteq> CHR ''.'') (c # p)))"
  by pat_completeness auto
termination
proof (relation "measure length", goal_cases)
  case (2 c p)
  have "length (dropWhile (\<lambda>x. x \<noteq> CHR ''.'') (c # p)) \<le> length (c # p)"
    by (rule length_dropWhile_le)
  then have "length (drop 1 (dropWhile (\<lambda>x. x \<noteq> CHR ''.'') (c # p))) < length (c # p)"
    unfolding length_drop list.size by linarith
  then show ?case by (simp only: in_measure)
qed simp

datatype ident = Num nat | Word string

definition ident_of :: "string \<Rightarrow> ident" where
  "ident_of s = (if list_all is_digit s then Num (dec_value s) else Word s)"

fun compare_ident :: "ident \<Rightarrow> ident \<Rightarrow> int" where
  "compare_ident (Num a) (Num b) = compare_nat a b"
| "compare_ident (Num a) (Word b) = -1"
| "compare_ident (Word a) (Num b) = 1"
| "compare_ident (Word a) (Word b) = strcmp a b"

definition precedence :: "semver \<Rightarrow> semver \<Rightarrow> int" where
  "precedence =
     chain (\<lambda>a b. compare_nat (major a) (major b))
    (chain (\<lambda>a b. compare_nat (minor a) (minor b))
    (chain (\<lambda>a b. compare_nat (patch a) (patch b))
           (\<lambda>a b. compare_absent_last (\<lambda>p q. compare_list compare_ident (map ident_of (idents p))
                                                        (map ident_of (idents q)))
                    (prerelease a) (prerelease b))))"

lemma prerelease_loop_list: "prerelease_loop a b = compare_list identifier_compare (idents a) (idents b)"
proof (induction a b rule: prerelease_loop.induct)
  case (1 a b)
  show ?case
  proof (cases "a = [] \<or> b = []")
    case True
    then show ?thesis by (subst prerelease_loop.simps) (cases a; cases b; simp)
  next
    case False
    then obtain c a' d b' where ab: "a = c # a'" "b = d # b'" by (cases a; cases b) auto
    with 1 [OF False refl refl refl] show ?thesis
      by (subst prerelease_loop.simps) (simp add: Let_def)
  qed
qed

lemma strip_zeros_digits: "list_all is_digit a \<Longrightarrow> list_all is_digit (strip_zeros a)"
  by (induction a rule: strip_zeros.induct) auto

lemma dec_value_Cons: "dec_value (c # d) = digit_val c * 10 ^ length d + dec_value d"
proof (induction d rule: rev_induct)
  case Nil
  then show ?case by (simp add: dec_value_def)
next
  case (snoc x d)
  then show ?case using dec_value_simps(2) [of "c # d" x] by (simp add: algebra_simps)
qed

lemma strip_zeros_value: "dec_value (strip_zeros a) = dec_value a"
  by (induction a rule: strip_zeros.induct) (simp_all add: dec_value_Cons digit_val_def)

lemma strip_zeros_Nil [simp]: "strip_zeros a = [] \<longleftrightarrow> a = []"
  by (induction a rule: strip_zeros.induct) auto

lemma strip_zeros_hd: "strip_zeros a = c # d # r \<Longrightarrow> c \<noteq> CHR ''0''"
  by (induction a rule: strip_zeros.induct) (auto split: if_splits)

lemma dec_value_less: "list_all is_digit d \<Longrightarrow> dec_value d < 10 ^ length d"
proof (induction d)
  case (Cons c d)
  then have "digit_val c * 10 ^ length d + dec_value d < 9 * 10 ^ length d + 10 ^ length d"
    using digit_val_le [of c] by (intro add_le_less_mono mult_right_mono) auto
  then show ?case by (simp add: dec_value_Cons)
qed simp

lemma longer_is_greater:
  assumes "list_all is_digit a" "list_all is_digit b" "length a < length (strip_zeros b)" "a \<noteq> []"
  shows "dec_value a < dec_value (strip_zeros b)"
proof -
  obtain c d r where s: "strip_zeros b = c # d # r"
    using assms(3,4) by (cases "strip_zeros b"; cases "tl (strip_zeros b)") (auto simp: neq_Nil_conv)
  then have "is_digit c" "c \<noteq> CHR ''0''"
    using strip_zeros_hd strip_zeros_digits [OF assms(2)] by auto
  then have "1 \<le> digit_val c"
    using char_of_digit_val [of c] char_of_digit_val [of "CHR ''0''"]
    by (cases "digit_val c") (auto simp: digit_val_def)
  have "dec_value a < 10 ^ length a" by (rule dec_value_less [OF assms(1)])
  also have "\<dots> \<le> 10 ^ length (d # r)" using assms(3) s by (intro power_increasing) auto
  also have "\<dots> \<le> digit_val c * 10 ^ length (d # r)" using \<open>1 \<le> digit_val c\<close> by simp
  also have "\<dots> \<le> dec_value (strip_zeros b)" unfolding s dec_value_Cons [of c] by simp
  finally show ?thesis .
qed

lemma strcmp_digits:
  "length a = length b \<Longrightarrow> list_all is_digit a \<Longrightarrow> list_all is_digit b
     \<Longrightarrow> strcmp a b = compare_nat (dec_value a) (dec_value b)"
proof (induction a b rule: strcmp.induct)
  case (4 a x b y)
  then have l: "dec_value x < 10 ^ length x" "dec_value y < 10 ^ length x"
    using dec_value_less [of x] dec_value_less [of y] by auto
  have ab: "byte a = 48 + digit_val a" "byte b = 48 + digit_val b"
    using 4 by (auto simp: is_digit_def digit_val_def)
  have *: "m * 10 ^ length x + dec_value x < n * 10 ^ length x + dec_value y"
    if "m < n" "dec_value x < 10 ^ length x" for m n x y
  proof -
    have "m * 10 ^ length x + dec_value x < m * 10 ^ length x + 10 ^ length x" using that by simp
    also have "\<dots> = Suc m * 10 ^ length x" by simp
    also have "\<dots> \<le> n * 10 ^ length x" using that by (intro mult_right_mono) auto
    finally show ?thesis by simp
  qed
  consider "digit_val a < digit_val b" | "digit_val b < digit_val a" | "digit_val a = digit_val b"
    by linarith
  then show ?case
  proof cases
    case 1
    with * [of "digit_val a" "digit_val b" x y] l ab 4 show ?thesis
      by (simp add: dec_value_Cons compare_nat_def)
  next
    case 2
    with * [of "digit_val b" "digit_val a" y x] l ab 4 show ?thesis
      by (simp add: dec_value_Cons compare_nat_def)
  next
    case 3
    with ab 4 show ?thesis by (simp add: dec_value_Cons compare_nat_def)
  qed
qed (simp_all add: compare_nat_def)

lemma identifier_compare_ident:
  assumes "a \<noteq> []" "b \<noteq> []"
  shows "identifier_compare a b = compare_ident (ident_of a) (ident_of b)"
proof (cases "list_all is_digit a \<and> list_all is_digit b")
  case True
  then have d: "list_all is_digit (strip_zeros a)" "list_all is_digit (strip_zeros b)"
    by (simp_all add: strip_zeros_digits)
  consider "length (strip_zeros a) < length (strip_zeros b)"
    | "length (strip_zeros b) < length (strip_zeros a)"
    | "length (strip_zeros a) = length (strip_zeros b)" by linarith
  then show ?thesis
  proof cases
    case 1
    then have "dec_value a < dec_value b"
      using longer_is_greater [OF d(1), of b] True assms by (simp add: strip_zeros_value)
    with 1 True show ?thesis by (simp add: identifier_compare_def ident_of_def compare_nat_def)
  next
    case 2
    then have "dec_value b < dec_value a"
      using longer_is_greater [OF d(2), of a] True assms by (simp add: strip_zeros_value)
    with 2 True show ?thesis by (simp add: identifier_compare_def ident_of_def compare_nat_def)
  next
    case 3
    with True strcmp_digits [OF 3 d] show ?thesis
      by (simp add: identifier_compare_def ident_of_def strip_zeros_value)
  qed
next
  case False
  then show ?thesis by (auto simp: identifier_compare_def ident_of_def)
qed

lemma idents_valid: "valid_identifiers pre p \<Longrightarrow> i \<in> set (idents p) \<Longrightarrow> i \<noteq> []"
proof (induction pre p rule: valid_identifiers.induct)
  case (2 pre c p)
  let ?i = "takeWhile (\<lambda>x. x \<noteq> CHR ''.'') (c # p)"
  let ?a = "dropWhile (\<lambda>x. x \<noteq> CHR ''.'') (c # p)"
  have v: "?i \<noteq> []" "valid_identifiers pre (drop 1 ?a)"
    using "2.prems"(1) by (auto simp: Let_def split: if_splits)
  have IH: "i \<in> set (idents (drop 1 ?a)) \<Longrightarrow> i \<noteq> []"
    using "2.IH" [OF refl refl] "2.prems"(1) v by (auto simp: Let_def split: if_splits)
  have "i = ?i \<or> i \<in> set (idents (drop 1 ?a))" using "2.prems"(2) by simp
  then show ?case
  proof
    assume "i = ?i"
    with v(1) show ?case by (simp only: not_False_eq_True)
  qed (rule IH)
qed simp

lemma compare_list_map:
  "(\<And>a b. a \<in> set x \<Longrightarrow> b \<in> set y \<Longrightarrow> c a b = d (f a) (f b))
     \<Longrightarrow> compare_list c x y = compare_list d (map f x) (map f y)"
  by (induction c x y rule: compare_list.induct) auto

text \<open>C6: on versions the code's comparison is the precedence of semantic versioning 2.0: the three
  numbers, a prerelease before its release, numeric identifiers by value however long, numeric
  before alphanumeric, alphanumeric by byte, a longer list after its prefix.\<close>

theorem semver_compare_precedence:
  assumes "semver_wf v" "semver_wf w"
  shows "semver_compare_parsed v w = precedence v w"
proof -
  have "compare_list identifier_compare (idents p) (idents q)
      = compare_list compare_ident (map ident_of (idents p)) (map ident_of (idents q))"
    if "prerelease v = Some p" "prerelease w = Some q" for p q
    using assms that by (intro compare_list_map identifier_compare_ident)
      (auto simp: semver_wf_def dest: idents_valid)
  then show ?thesis
    by (auto simp: semver_compare_parsed_def precedence_def chain_def compare_nat_def
        prerelease_loop_list split: option.splits)
qed

subsection \<open>A total preorder\<close>

definition ident_rank :: "string \<Rightarrow> nat" where
  "ident_rank s = (if list_all is_digit s then 0 else 1)"

definition ident_width :: "string \<Rightarrow> nat" where
  "ident_width s = (if list_all is_digit s then length (strip_zeros s) else 0)"

definition ident_bytes :: "string \<Rightarrow> string" where
  "ident_bytes s = (if list_all is_digit s then strip_zeros s else s)"

lemma identifier_compare_chain:
  "identifier_compare = chain (\<lambda>a b. compare_nat (ident_rank a) (ident_rank b))
     (chain (\<lambda>a b. compare_nat (ident_width a) (ident_width b))
            (\<lambda>a b. strcmp (ident_bytes a) (ident_bytes b)))"
  by (intro ext) (simp add: identifier_compare_def chain_def compare_nat_def ident_rank_def
      ident_width_def ident_bytes_def Let_def)

interpretation ident_order: comparator identifier_compare
  unfolding identifier_compare_chain
  by (rule comparator_chain comparator_key [OF comparator_nat, of ident_rank]
      comparator_key [OF comparator_nat, of ident_width] comparator_key [OF comparator_strcmp, of ident_bytes])+

interpretation version_order: comparator semver_compare_parsed
proof -
  have "semver_compare_parsed = chain (\<lambda>a b. compare_nat (major a) (major b))
      (chain (\<lambda>a b. compare_nat (minor a) (minor b))
      (chain (\<lambda>a b. compare_nat (patch a) (patch b))
      (\<lambda>a b. compare_absent_last (\<lambda>p q. compare_list identifier_compare (idents p) (idents q))
                    (prerelease a) (prerelease b))))"
    by (intro ext) (simp add: semver_compare_parsed_def chain_def compare_nat_def
        prerelease_loop_list split: option.splits)
  moreover have "comparator \<dots>"
    by (rule comparator_chain comparator_key [OF comparator_nat, of major]
        comparator_key [OF comparator_nat, of minor] comparator_key [OF comparator_nat, of patch]
        comparator_key [OF comparator_absent_last [OF comparator_key [OF comparator_list
          [OF ident_order.comparator_axioms], of idents]], of prerelease])+
  ultimately show "comparator semver_compare_parsed" by simp
qed

text \<open>The comparison of parsed versions is a total preorder, also on texts with leading zeros
  or empty identifiers: antisymmetric in sign and transitive, so that the choice of a maximum by
  successive comparison is well defined.\<close>

theorem semver_compare_total_preorder:
  "semver_compare_parsed w v = - semver_compare_parsed v w
   \<and> (semver_compare_parsed u v \<le> 0 \<and> semver_compare_parsed v w \<le> 0
        \<longrightarrow> semver_compare_parsed u w \<le> 0)"
  using version_order.cmp_swap [of w v] version_order.cmp_trans [of u v w] by blast

lemma example_versions:
  "semver_wf \<lparr>major = 1, minor = 0, patch = 0, prerelease = Some ''rc.10''\<rparr>"
  "semver_wf \<lparr>major = 1, minor = 0, patch = 0, prerelease = Some ''rc.9''\<rparr>"
  by (simp_all add: semver_wf_def ULLONG_MAX_def identifier_char_def char_class)

theorem semver_compare_precedence_witness:
  "precedence \<lparr>major = 1, minor = 0, patch = 0, prerelease = Some ''rc.10''\<rparr>
              \<lparr>major = 1, minor = 0, patch = 0, prerelease = Some ''rc.9''\<rparr> = 1"
  unfolding semver_compare_precedence [OF example_versions, symmetric]
  by (simp add: semver_compare_parsed_def prerelease_loop.simps identifier_compare_def is_digit_def)

theorem semver_compare_total_preorder_witness:
  "semver_compare_parsed \<lparr>major = 1, minor = 0, patch = 0, prerelease = None\<rparr>
     \<lparr>major = 3, minor = 0, patch = 0, prerelease = None\<rparr> \<le> 0"
  using semver_compare_total_preorder [of "\<lparr>major = 1, minor = 0, patch = 0, prerelease = None\<rparr>"
      "\<lparr>major = 2, minor = 0, patch = 0, prerelease = None\<rparr>"
      "\<lparr>major = 3, minor = 0, patch = 0, prerelease = None\<rparr>"]
  by (simp add: semver_compare_parsed_def)

text \<open>A final dot passes \<open>valid_identifiers\<close>, since the loop ends before it looks for an empty last
  identifier, and the comparison cannot tell the two texts apart.\<close>

theorem trailing_dot_accepted:
  "wpm_repo_version_is_valid (Some ''1.0.0-alpha.'')
   \<and> semver_compare ''1.0.0-alpha.'' ''1.0.0-alpha'' = (0, True)"
  by (simp add: wpm_repo_version_is_valid_def semver_compare_def semver_parse_def parse_dotted_def
      parse_number_def semver_finish_def semver_compare_parsed_def prerelease_loop.simps
      identifier_compare_def digit_val_def ULLONG_MAX_def identifier_char_def char_class)

end
