(* ===== verification/Locator.thy ===== *)
theory Locator
  imports Prelude
begin

text \<open>
  Repository locators (\<open>wpm/repository.c\<close>): web origins, the validity of web and UNC locators,
  \<open>repository_normalize\<close>, the confinement of relative items, the resolution of package and link
  sources, redirects and the repository graph. \<open>GetFullPathNameA\<close> is a parameter: a function
  from the given path to the full path, \<open>None\<close> for its failure. Messages are not modelled.
\<close>

definition PATH_SIZE :: nat where "PATH_SIZE = 4096"
definition MAX_REPOSITORIES :: nat where "MAX_REPOSITORIES = 32"

record repository =
  url :: string
  priority :: int
  order :: nat
  allow_insecure_http :: bool

subsection \<open>Paths and origins\<close>

text \<open>\<open>left[strlen(left) - 1]\<close> needs a non-empty \<open>left\<close>; every caller passes a directory.\<close>

definition join_path :: "nat \<Rightarrow> string \<Rightarrow> string \<Rightarrow> string option" where
  "join_path cap left right = fits cap (left @ (if last left = BSLASH then [] else [BSLASH]) @ right)"

definition is_https_repository :: "string \<Rightarrow> bool" where
  "is_https_repository source = strnieq 8 source ''https://''"

definition is_http_repository :: "string \<Rightarrow> bool" where
  "is_http_repository source = strnieq 7 source ''http://''"

definition is_web_repository :: "string \<Rightarrow> bool" where
  "is_web_repository source = (is_https_repository source \<or> is_http_repository source)"

definition scheme_length :: "string \<Rightarrow> nat" where
  "scheme_length source =
     (if is_https_repository source then 8 else if is_http_repository source then 7 else 0)"

definition web_origin_length :: "string \<Rightarrow> nat" where
  "web_origin_length source =
     (if scheme_length source = 0 then 0
      else scheme_length source
           + length (takeWhile (\<lambda>c. c \<noteq> SLASH) (drop (scheme_length source) source)))"

definition same_web_origin :: "string \<Rightarrow> string \<Rightarrow> bool" where
  "same_web_origin left right =
     (let n = web_origin_length left in
      n \<noteq> 0 \<and> n = web_origin_length right \<and> strnieq n left right)"

definition web_locator_valid :: "string \<Rightarrow> nat \<Rightarrow> bool" where
  "web_locator_valid source n =
     (let authority = drop n source in
      authority \<noteq> [] \<and> CHR ''?'' \<notin> set authority \<and> CHR ''#'' \<notin> set authority
      \<and> list_all (\<lambda>c. c \<notin> {BSLASH, CHR ''@'', CHR ''?'', CHR ''#''})
          (takeWhile (\<lambda>c. c \<noteq> SLASH) authority)
      \<and> takeWhile (\<lambda>c. c \<noteq> SLASH) authority \<noteq> [])"

definition unc_locator_valid :: "string \<Rightarrow> bool" where
  "unc_locator_valid source =
     (case source of
        a # b # server \<Rightarrow>
          a = BSLASH \<and> b = BSLASH \<and> \<not> at (CHR ''.'') server \<and> \<not> at (CHR ''?'') server
          \<and> \<not> at BSLASH server
          \<and> (case strchr BSLASH server of
               None \<Rightarrow> False
             | Some share \<Rightarrow> share \<noteq> server \<and> tl share \<noteq> [] \<and> \<not> at BSLASH (tl share))
      | _ \<Rightarrow> False)"

subsection \<open>Normalisation\<close>

definition normalize_web :: "nat \<Rightarrow> string \<Rightarrow> string option" where
  "normalize_web cap source =
     (if set source \<inter> {SPC, TAB, CR, LF} \<noteq> {} \<or> length source \<ge> cap then None
      else if \<not> web_locator_valid source (scheme_length source) then None
      else Some (trim_trailing SLASH (scheme_length source) source))"

definition backslashes :: "string \<Rightarrow> string" where
  "backslashes s = map (\<lambda>c. if c = SLASH then BSLASH else c) s"

definition normalize_path :: "string \<Rightarrow> string option" where
  "normalize_path result =
     (if at BSLASH result \<and> at BSLASH (tl result) then
        (if unc_locator_valid result then Some (trim_trailing BSLASH 2 result) else None)
      else if length result < 3 \<or> \<not> is_alpha (result ! 0) \<or> result ! 1 \<noteq> CHR '':''
              \<or> result ! 2 \<noteq> BSLASH then None
      else if CHR '':'' \<in> set (drop 2 result) then None
      else Some (trim_trailing BSLASH 3 result))"

definition repository_normalize ::
  "(string \<Rightarrow> string option) \<Rightarrow> nat \<Rightarrow> string option \<Rightarrow> string option" where
  "repository_normalize full_path cap input =
     (case input of
        None \<Rightarrow> None
      | Some source \<Rightarrow>
          if source = [] \<or> set source \<inter> {TAB, CR, LF} \<noteq> {} then None
          else if is_web_repository source then normalize_web cap source
          else if strstr ''://'' source \<noteq> None then None
          else (case full_path source of
                  None \<Rightarrow> None
                | Some result \<Rightarrow>
                    if result = [] \<or> length result \<ge> cap then None
                    else normalize_path (backslashes result)))"

subsection \<open>Items of an index\<close>

definition is_separator :: "char \<Rightarrow> bool" where
  "is_separator c \<longleftrightarrow> c = SLASH \<or> c = BSLASH"

definition segment_ok :: "string \<Rightarrow> bool" where
  "segment_ok segment \<longleftrightarrow> segment \<noteq> [] \<and> segment \<noteq> ''.'' \<and> segment \<noteq> ''..''"

text \<open>The cursor loop: the segment read so far and the rest.\<close>

fun segment_loop :: "string \<Rightarrow> string \<Rightarrow> bool" where
  "segment_loop segment [] = segment_ok segment"
| "segment_loop segment (c # cursor) =
     (if is_separator c then segment_ok segment \<and> segment_loop [] cursor
      else segment_loop (segment @ [c]) cursor)"

definition safe_relative_item :: "string \<Rightarrow> bool" where
  "safe_relative_item item =
     (if item = [] \<or> at SLASH item \<or> at BSLASH item \<or> strchr (CHR '':'') item \<noteq> None
         \<or> strstr ''://'' item \<noteq> None then False
      else segment_loop [] item)"

definition package_source :: "string \<Rightarrow> string \<Rightarrow> nat \<Rightarrow> string option" where
  "package_source root item cap =
     (if is_web_repository root then
        (if is_https_repository item then
           (if is_https_repository root then fits cap item else None)
         else if is_http_repository item then
           (if is_http_repository root \<and> same_web_origin root item then fits cap item else None)
         else if \<not> safe_relative_item item then None
         else fits cap (root @ ''/'' @ item))
      else if \<not> safe_relative_item item then None
      else join_path cap root item)"

subsection \<open>Redirects and lengths\<close>

definition http_redirect_url :: "string \<Rightarrow> string \<Rightarrow> nat \<Rightarrow> string option" where
  "http_redirect_url initial location cap =
     (if is_http_repository location then
        (if same_web_origin initial location then fits cap location else None)
      else if is_web_repository location \<or> \<not> at SLASH location then None
      else fits cap (take (web_origin_length initial) initial @ location))"

text \<open>The redirect test of \<open>download_on_progress\<close>: whether the transfer goes on.\<close>

definition redirect_allowed :: "bool \<Rightarrow> string \<Rightarrow> string \<Rightarrow> bool" where
  "redirect_allowed insecure_http initial_url redirect =
     (\<not> (\<not> is_web_repository redirect
         \<or> insecure_http \<and> (\<not> is_http_repository redirect \<or> \<not> same_web_origin initial_url redirect)
         \<or> \<not> insecure_http \<and> is_http_repository redirect))"

subsection \<open>The repository graph\<close>

text \<open>\<open>repositories[0..count)\<close> is the list; the result is the return value and the list.\<close>

definition append_repository_link ::
  "(string \<Rightarrow> string option) \<Rightarrow> repository list \<Rightarrow> repository \<Rightarrow> string \<Rightarrow> bool \<times> repository list" where
  "append_repository_link full_path repositories parent link =
     (case Option.bind (package_source (url parent) link PATH_SIZE)
             (\<lambda>source. repository_normalize full_path PATH_SIZE (Some source)) of
        None \<Rightarrow> (False, repositories)
      | Some normalized \<Rightarrow>
          if list_ex (\<lambda>r. strieq (url r) normalized) repositories then (True, repositories)
          else if length repositories \<ge> MAX_REPOSITORIES then (False, repositories)
          else (True, repositories @ [parent\<lparr>order := length repositories, url := normalized\<rparr>]))"

subsection \<open>Origins\<close>

lemma strnieq_append:
  "n \<le> length a \<Longrightarrow> strnieq n (a @ b) c \<longleftrightarrow> strnieq n a c"
  by (simp add: strnieq_def)

lemma http_not_https: "is_http_repository s \<Longrightarrow> \<not> is_https_repository s"
proof
  assume "is_http_repository s" "is_https_repository s"
  then have "lower (take 7 s) = lower ''http://''" "lower (take 8 s) = lower ''https://''"
    by (simp_all add: is_http_repository_def is_https_repository_def strnieq_def)
  moreover have "take 7 (lower (take 8 s)) = lower (take 7 s)" by (simp add: lower_def take_map)
  ultimately have "lower ''http://'' = take 7 (lower ''https://'')" by simp
  then show False by (simp add: lower_def to_lower_def is_upper_def)
qed

lemma web_length: "is_web_repository s \<Longrightarrow> scheme_length s \<le> length s \<and> 0 < scheme_length s"
proof -
  have "n \<le> length s" if "strnieq n s t" "length t = n" for n t
    using that by (metis length_lower length_take min.absorb_iff2 min.commute order_refl
        strnieq_def take_all)
  then show "is_web_repository s \<Longrightarrow> scheme_length s \<le> length s \<and> 0 < scheme_length s"
    by (auto simp: is_web_repository_def is_https_repository_def is_http_repository_def
        scheme_length_def)
qed

lemma scheme_cong:
  assumes "take 8 a = take 8 b"
  shows "is_https_repository a = is_https_repository b" "is_http_repository a = is_http_repository b"
proof -
  show "is_https_repository a = is_https_repository b"
    using assms by (simp add: is_https_repository_def strnieq_def)
  have "take 7 a = take 7 b" using arg_cong [OF assms, of "take 7"] by simp
  then show "is_http_repository a = is_http_repository b"
    by (simp add: is_http_repository_def strnieq_def)
qed

lemma scheme_append:
  assumes "is_web_repository a" "scheme_length a \<le> length p" "a = p @ q"
  shows "is_https_repository (p @ r) = is_https_repository a"
    and "is_http_repository (p @ r) = is_http_repository a"
proof -
  have https: "is_https_repository (p @ r)" if "is_https_repository a"
    using that assms(2,3) strnieq_append [of 8 p]
    by (simp add: is_https_repository_def scheme_length_def)
  have http: "is_http_repository (p @ r)" if "\<not> is_https_repository a"
    using that assms strnieq_append [of 7 p]
    by (auto simp: is_web_repository_def is_http_repository_def scheme_length_def)
  show "is_https_repository (p @ r) = is_https_repository a"
    "is_http_repository (p @ r) = is_http_repository a"
    using https http http_not_https assms(1) by (auto simp: is_web_repository_def)
qed

lemma origin_split:
  assumes "is_web_repository s"
  shows "scheme_length s \<le> web_origin_length s" "web_origin_length s \<le> length s"
    and "drop (scheme_length s) (take (web_origin_length s) s)
       = takeWhile (\<lambda>c. c \<noteq> SLASH) (drop (scheme_length s) s)"
proof -
  let ?a = "drop (scheme_length s) s"
  have w: "web_origin_length s = scheme_length s + length (takeWhile (\<lambda>c. c \<noteq> SLASH) ?a)"
    using web_length [OF assms] by (simp add: web_origin_length_def)
  show "scheme_length s \<le> web_origin_length s" using w by simp
  have "length (takeWhile (\<lambda>c. c \<noteq> SLASH) ?a) \<le> length ?a" by (rule length_takeWhile_le)
  then show "web_origin_length s \<le> length s"
    using w web_length [OF assms] unfolding length_drop by linarith
  show "drop (scheme_length s) (take (web_origin_length s) s) = takeWhile (\<lambda>c. c \<noteq> SLASH) ?a"
    by (simp add: w drop_take takeWhile_eq_take [symmetric])
qed

lemma origin_append:
  assumes web: "is_web_repository s" and p: "at SLASH p"
  defines "r \<equiv> take (web_origin_length s) s @ p"
  shows "web_origin_length r = web_origin_length s" "same_web_origin s r"
    and "is_https_repository r = is_https_repository s"
proof -
  note o = origin_split [OF web]
  have s: "s = take (web_origin_length s) s @ drop (web_origin_length s) s" by simp
  have l: "scheme_length s \<le> length (take (web_origin_length s) s)" using o by simp
  have scheme: "is_https_repository r = is_https_repository s" "is_http_repository r = is_http_repository s"
    unfolding r_def by (rule scheme_append [OF web l s])+
  show "is_https_repository r = is_https_repository s" by (rule scheme(1))
  have sl: "scheme_length r = scheme_length s" using scheme by (simp add: scheme_length_def)
  have "drop (scheme_length s) r = takeWhile (\<lambda>c. c \<noteq> SLASH) (drop (scheme_length s) s) @ p"
    using o l by (simp add: r_def)
  moreover obtain q where "p = SLASH # q" using p by (auto simp: at_iff)
  moreover have "\<forall>c \<in> set (takeWhile (\<lambda>c. c \<noteq> SLASH) (drop (scheme_length s) s)). c \<noteq> SLASH"
    by (auto dest: set_takeWhileD)
  ultimately have "takeWhile (\<lambda>c. c \<noteq> SLASH) (drop (scheme_length s) r)
      = takeWhile (\<lambda>c. c \<noteq> SLASH) (drop (scheme_length s) s)"
    by (simp add: takeWhile_append2)
  then show w: "web_origin_length r = web_origin_length s"
    using web_length [OF web] by (simp add: web_origin_length_def sl)
  show "same_web_origin s r"
    using web_length [OF web] o w by (simp add: same_web_origin_def Let_def strnieq_def r_def)
qed

text \<open>A redirect that the program follows stays on the origin of the initial request: same
  scheme, host and port, letter case aside. So no redirect leaves the configured server, and
  none changes between plain and encrypted transport.\<close>

theorem redirect_same_origin:
  assumes "is_web_repository initial" "http_redirect_url initial location cap = Some r"
  shows "same_web_origin initial r \<and> length r < cap"
proof (cases "is_http_repository location")
  case True
  with assms(2) show ?thesis by (auto simp: http_redirect_url_def split: if_splits)
next
  case False
  with assms(2) have "r = take (web_origin_length initial) initial @ location" "at SLASH location"
    "length r < cap"
    by (auto simp: http_redirect_url_def split: if_splits)
  with origin_append(2) [OF assms(1)] show ?thesis by blast
qed

theorem redirect_same_origin_witness:
  "same_web_origin ''http://h:80/a/b'' ''http://h:80//evil/x'' \<and> length ''http://h:80//evil/x'' < 4096"
proof (rule redirect_same_origin)
  show "is_web_repository ''http://h:80/a/b''"
    by (simp add: is_web_repository_def is_http_repository_def strnieq_def)
  show "http_redirect_url ''http://h:80/a/b'' ''//evil/x'' 4096 = Some ''http://h:80//evil/x''"
    by (simp add: http_redirect_url_def is_web_repository_def is_http_repository_def
        is_https_repository_def strnieq_def web_origin_length_def scheme_length_def lower_def
        to_lower_def is_upper_def)
qed

subsection \<open>Items stay below their root\<close>

text \<open>The parts of a path between separators, and the resolution of a path against a directory as
  the file system does it: a dot and an empty part stay, two dots go up.\<close>

fun path_parts_from :: "string \<Rightarrow> string \<Rightarrow> string list" where
  "path_parts_from part [] = [part]"
| "path_parts_from part (c # s) =
     (if is_separator c then part # path_parts_from [] s else path_parts_from (part @ [c]) s)"

definition path_parts :: "string \<Rightarrow> string list" where
  "path_parts s = path_parts_from [] s"

fun resolve :: "string list \<Rightarrow> string list \<Rightarrow> string list" where
  "resolve dir [] = dir"
| "resolve dir (part # parts) =
     (if part = [] \<or> part = ''.'' then resolve dir parts
      else if part = ''..'' then resolve (butlast dir) parts
      else resolve (dir @ [part]) parts)"

lemma segment_loop_parts: "segment_loop part s \<longleftrightarrow> list_all segment_ok (path_parts_from part s)"
  by (induction part s rule: segment_loop.induct) auto

lemma resolve_ok: "list_all segment_ok parts \<Longrightarrow> resolve dir parts = dir @ parts"
  by (induction dir parts rule: resolve.induct) (auto simp: segment_ok_def)

lemma safe_item_parts:
  "safe_relative_item item \<Longrightarrow> list_all segment_ok (path_parts item)"
  by (auto simp: safe_relative_item_def path_parts_def segment_loop_parts split: if_splits)

text \<open>A relative item of an index that the program accepts resolves below the root of its
  repository: resolving it against any directory only descends, by exactly its own parts.\<close>

theorem relative_item_confined:
  "safe_relative_item item \<Longrightarrow> resolve dir (path_parts item) = dir @ path_parts item"
  by (rule resolve_ok [OF safe_item_parts])

theorem relative_item_confined_witness:
  "resolve [''srv''] (path_parts ''packages/a.zip'') = [''srv'', ''packages'', ''a.zip'']"
proof -
  have "safe_relative_item ''packages/a.zip''"
    by (simp add: safe_relative_item_def is_separator_def segment_ok_def starts_with_def)
  from relative_item_confined [OF this, of "[''srv'']"] show ?thesis
    by (simp add: path_parts_def is_separator_def)
qed

text \<open>The source of a package or link keeps the transport of its root: with an \<open>https\<close> root it is
  \<open>https\<close>, with an \<open>http\<close> root it is \<open>http\<close>, and a relative item is appended to the root.\<close>

theorem package_source_keeps_transport:
  assumes "is_web_repository root" "package_source root item cap = Some r"
  shows "is_https_repository r = is_https_repository root
     \<and> is_http_repository r = is_http_repository root \<and> length r < cap"
proof (cases "is_https_repository item \<or> is_http_repository item")
  case True
  with assms http_not_https show ?thesis by (auto simp: package_source_def split: if_splits)
next
  case False
  with assms have r: "r = root @ ''/'' @ item" "length r < cap"
    by (auto simp: package_source_def split: if_splits)
  have "scheme_length root \<le> length root" using web_length [OF assms(1)] by simp
  from scheme_append [OF assms(1) this, of "[]" "''/'' @ item"] r show ?thesis by simp
qed

theorem package_source_keeps_transport_witness:
  "is_https_repository ''https://h/r/p.zip'' = is_https_repository ''https://h/r''
     \<and> is_http_repository ''https://h/r/p.zip'' = is_http_repository ''https://h/r''
     \<and> length ''https://h/r/p.zip'' < 100"
proof (rule package_source_keeps_transport)
  show "is_web_repository ''https://h/r''"
    by (simp add: is_web_repository_def is_https_repository_def strnieq_def)
  show "package_source ''https://h/r'' ''p.zip'' 100 = Some ''https://h/r/p.zip''"
    by (simp add: package_source_def is_web_repository_def is_https_repository_def
        is_http_repository_def strnieq_def safe_relative_item_def is_separator_def
        segment_ok_def starts_with_def lower_def)
qed

subsection \<open>The shape of a normalised locator\<close>

definition web_locator :: "string \<Rightarrow> bool" where
  "web_locator r \<longleftrightarrow> is_web_repository r \<and> web_locator_valid r (scheme_length r)
     \<and> set r \<inter> {SPC, TAB, CR, LF} = {} \<and> last r \<noteq> SLASH"

definition drive_locator :: "string \<Rightarrow> bool" where
  "drive_locator r \<longleftrightarrow> (\<exists>d p. r = d # CHR '':'' # BSLASH # p \<and> is_alpha d
     \<and> CHR '':'' \<notin> set p \<and> SLASH \<notin> set p \<and> (p = [] \<or> last p \<noteq> BSLASH))"

definition unc_locator :: "string \<Rightarrow> bool" where
  "unc_locator r \<longleftrightarrow> (\<exists>server share. r = BSLASH # BSLASH # server @ BSLASH # share
     \<and> server \<noteq> [] \<and> BSLASH \<notin> set server \<and> \<not> at (CHR ''.'') server \<and> \<not> at (CHR ''?'') server
     \<and> share \<noteq> [] \<and> \<not> at BSLASH share \<and> SLASH \<notin> set r \<and> last share \<noteq> BSLASH)"

lemma takeWhile_replicate_end:
  "takeWhile (\<lambda>x. x \<noteq> c) (s @ replicate k c) = takeWhile (\<lambda>x. x \<noteq> c) s"
  by (induction s) (cases k; simp)+

lemma trim_web:
  assumes "is_web_repository s" "web_locator_valid s (scheme_length s)" "set s \<inter> {SPC, TAB, CR, LF} = {}"
  shows "web_locator (trim_trailing SLASH (scheme_length s) s)
    \<and> scheme_length (trim_trailing SLASH (scheme_length s) s) = scheme_length s"
proof -
  define n where "n = scheme_length s"
  define r where "r = trim_trailing SLASH n s"
  obtain k where k: "s = r @ replicate k SLASH" using trim_trailing_prefix unfolding r_def by blast
  have n: "n \<le> length s" using web_length [OF assms(1)] by (simp add: n_def)
  then have nr: "n \<le> length r" using trim_trailing_length [of n s SLASH] by (simp add: r_def min_def)
  have "is_https_repository r = is_https_repository s" "is_http_repository r = is_http_repository s"
    using scheme_append [OF assms(1) nr [unfolded n_def] k, of "[]"] by simp_all
  then have sl: "scheme_length r = n" and web: "is_web_repository r"
    using assms(1) by (simp_all add: scheme_length_def n_def is_web_repository_def)
  have a: "drop n s = drop n r @ replicate k SLASH" using k nr by simp
  then have t: "takeWhile (\<lambda>c. c \<noteq> SLASH) (drop n s) = takeWhile (\<lambda>c. c \<noteq> SLASH) (drop n r)"
    by (simp only: takeWhile_replicate_end)
  have v: "web_locator_valid s n" using assms(2) by (simp add: n_def)
  then have "drop n r \<noteq> []" using t by (auto simp: web_locator_valid_def Let_def)
  moreover have "set (drop n r) \<subseteq> set (drop n s)" unfolding a by simp
  ultimately have "web_locator_valid r n" using v t by (auto simp: web_locator_valid_def Let_def)
  moreover have "last r \<noteq> SLASH"
    using trim_trailing_last [of SLASH n s] \<open>drop n r \<noteq> []\<close> by (auto simp: r_def)
  moreover have "set r \<inter> {SPC, TAB, CR, LF} = {}"
    using assms(3) trim_trailing_set [of SLASH n s] by (auto simp: r_def)
  ultimately show ?thesis using web sl by (simp add: web_locator_def r_def n_def)
qed

lemma normalize_path_shape:
  assumes "normalize_path p = Some r" "SLASH \<notin> set p"
  shows "(drive_locator r \<or> unc_locator r) \<and> length r \<le> length p"
proof (cases "at BSLASH p \<and> at BSLASH (tl p)")
  case True
  then have r: "r = trim_trailing BSLASH 2 p" and v: "unc_locator_valid p"
    using assms(1) by (auto simp: normalize_path_def split: if_splits)
  obtain k where k: "p = r @ replicate k BSLASH" using trim_trailing_prefix r by blast
  obtain server where p: "p = BSLASH # BSLASH # server"
    using True by (cases p; cases "tl p") auto
  from v obtain share where share: "strchr BSLASH server = Some share" "share \<noteq> server"
    "tl share \<noteq> []" "\<not> at BSLASH (tl share)"
    and host: "\<not> at (CHR ''.'') server" "\<not> at (CHR ''?'') server" "\<not> at BSLASH server"
    by (auto simp: unc_locator_valid_def p split: option.splits)
  obtain h x where h: "server = h @ BSLASH # x" "share = BSLASH # x" "BSLASH \<notin> set h"
    using strchr_Some [OF share(1)] by blast
  have x: "x \<noteq> []" "\<not> at BSLASH x" and "h \<noteq> []" using share h by auto
  obtain c y where y: "x = c # y" "c \<noteq> BSLASH" using x by (cases x) auto
  have len: "length ([BSLASH, BSLASH] @ h @ [BSLASH, c]) \<le> length r"
  proof (rule ccontr)
    let ?i = "length (BSLASH # BSLASH # h @ [BSLASH])"
    assume "\<not> ?thesis"
    then have "length r \<le> ?i" by simp
    moreover have "?i < length p" using p h y by simp
    ultimately have "p ! ?i = BSLASH" using k by (simp add: nth_append)
    moreover have "p = (BSLASH # BSLASH # h @ [BSLASH]) @ c # y" using p h y by simp
    then have "p ! ?i = c" by (metis nth_append_length)
    ultimately show False using y by simp
  qed
  let ?u = "BSLASH # BSLASH # h @ [BSLASH, c]"
  have "take (length ?u) r = take (length ?u) p" using k len by simp
  also have "\<dots> = ?u" using p h y by simp
  finally have "r = ?u @ drop (length ?u) r" by (metis append_take_drop_id)
  then obtain z where z: "r = BSLASH # BSLASH # h @ BSLASH # c # z" by auto
  moreover have "last r \<noteq> BSLASH" using trim_trailing_last [of BSLASH 2 p] z r by auto
  moreover have "SLASH \<notin> set r" using assms(2) k by (metis Un_iff set_append)
  ultimately have "unc_locator r"
    unfolding unc_locator_def using \<open>h \<noteq> []\<close> h host y
    by (intro exI [of _ h] exI [of _ "c # z"]) (auto simp: at_iff Cons_eq_append_conv)
  with k show ?thesis by (metis le_add1 length_append)
next
  case False
  then have r: "r = trim_trailing BSLASH 3 p" and v: "3 \<le> length p" "is_alpha (p ! 0)"
    "p ! 1 = CHR '':''" "p ! 2 = BSLASH" "CHR '':'' \<notin> set (drop 2 p)"
    using assms(1) by (auto simp: normalize_path_def split: if_splits)
  obtain k where k: "p = r @ replicate k BSLASH" using trim_trailing_prefix r by blast
  have "3 \<le> length r" using trim_trailing_length [of 3 p BSLASH] v(1) r by simp
  then obtain a b c z where z: "r = a # b # c # z"
    by (metis Suc_le_length_iff numeral_3_eq_3)
  with k v have "is_alpha a" "b = CHR '':''" "c = BSLASH" "CHR '':'' \<notin> set z" by auto
  moreover have "SLASH \<notin> set r" using assms(2) k by (metis Un_iff set_append)
  moreover have "z = [] \<or> last z \<noteq> BSLASH" using trim_trailing_last [of BSLASH 3 p]
    unfolding r [symmetric] z by (cases "z = []") auto
  ultimately have "drive_locator r" using z by (auto simp: drive_locator_def)
  with k show ?thesis by (metis le_add1 length_append)
qed

lemma backslashes_simps [simp]: "SLASH \<notin> set (backslashes s)" "length (backslashes s) = length s"
  by (auto simp: backslashes_def)

lemma normalize_shape:
  assumes "repository_normalize full_path cap input = Some r"
  shows "length r < cap \<and> (web_locator r \<or> drive_locator r \<or> unc_locator r)"
proof -
  obtain s where s: "input = Some s" using assms by (auto simp: repository_normalize_def split: option.splits)
  show ?thesis
  proof (cases "is_web_repository s")
    case True
    then have n: "normalize_web cap s = Some r"
      using assms s by (auto simp: repository_normalize_def split: if_splits)
    then have r: "r = trim_trailing SLASH (scheme_length s) s" "length s < cap"
      and v: "web_locator_valid s (scheme_length s)" "set s \<inter> {SPC, TAB, CR, LF} = {}"
      by (auto simp: normalize_web_def split: if_splits)
    obtain k where "s = r @ replicate k SLASH" using trim_trailing_prefix r(1) by blast
    then have "length r \<le> length s" by (metis le_add1 length_append)
    with trim_web [OF True v] r show ?thesis by simp
  next
    case False
    then obtain f where "normalize_path (backslashes f) = Some r" "length f < cap"
      using assms s by (auto simp: repository_normalize_def split: if_splits option.splits)
    with normalize_path_shape [of "backslashes f" r] show ?thesis by fastforce
  qed
qed

lemma normalize_example:
  "repository_normalize full_path 100 (Some ''https://h/r/'') = Some ''https://h/r''"
  by (simp add: repository_normalize_def normalize_web_def web_locator_valid_def
      is_web_repository_def is_https_repository_def strnieq_def scheme_length_def
      trim_trailing.simps)

text \<open>Whatever \<open>GetFullPathNameA\<close> answers, a locator that is accepted fits its buffer and has one
  of three forms: a web locator with a host, without user information, query, fragment or blank
  and without a final slash; an absolute path on a drive without another colon; or a UNC path
  with server and share outside the device namespaces.\<close>

theorem repository_normalize_shape:
  "repository_normalize full_path cap input = Some r
     \<Longrightarrow> length r < cap \<and> (web_locator r \<or> drive_locator r \<or> unc_locator r)"
  by (rule normalize_shape)

theorem repository_normalize_shape_witness:
  "length ''https://h/r'' < 100 \<and> (web_locator ''https://h/r'' \<or> drive_locator ''https://h/r''
     \<or> unc_locator ''https://h/r'')"
  by (rule repository_normalize_shape [of "\<lambda>_. None" 100 "Some ''https://h/r/''"])
    (simp add: normalize_example)

text \<open>Normalising a web locator again changes nothing, so the text in the configuration, in the
  cache key and in comparisons is the same.\<close>

theorem normalize_web_idempotent:
  assumes "is_web_repository s" "repository_normalize full_path cap (Some s) = Some r"
  shows "repository_normalize full_path cap (Some r) = Some r"
proof -
  have v: "web_locator_valid s (scheme_length s)" "set s \<inter> {SPC, TAB, CR, LF} = {}"
    and r: "r = trim_trailing SLASH (scheme_length s) s"
    using assms by (auto simp: repository_normalize_def normalize_web_def split: if_splits)
  have w: "web_locator r" "scheme_length r = scheme_length s" using trim_web [OF assms(1) v] r by auto
  have "length r < cap" using normalize_shape [OF assms(2)] by simp
  moreover have "r \<noteq> []" using w(1) web_length [of r] by (auto simp: web_locator_def)
  moreover have "trim_trailing SLASH (scheme_length r) r = r"
    using w(1) by (intro trim_trailing_id) (simp add: web_locator_def)
  ultimately show ?thesis
    using w by (auto simp: repository_normalize_def normalize_web_def web_locator_def)
qed

theorem normalize_web_idempotent_witness:
  "repository_normalize (\<lambda>_. None) 100 (Some ''https://h/r'') = Some ''https://h/r''"
proof (rule normalize_web_idempotent [OF _ normalize_example])
  show "is_web_repository ''https://h/r/''"
    by (simp add: is_web_repository_def is_https_repository_def strnieq_def)
qed

subsection \<open>The repository graph\<close>

definition graph_ok :: "repository list \<Rightarrow> bool" where
  "graph_ok rs \<longleftrightarrow> length rs \<le> MAX_REPOSITORIES \<and> (\<forall>i < length rs. order (rs ! i) = i)
     \<and> (\<forall>i < length rs. \<forall>j < i. \<not> strieq (url (rs ! j)) (url (rs ! i)))
     \<and> (\<forall>r \<in> set rs. length (url r) < PATH_SIZE)"

lemma append_link_ok:
  assumes "graph_ok rs"
  shows "graph_ok (snd (append_repository_link full_path rs parent link))"
proof (cases "append_repository_link full_path rs parent link = (True, rs)
    \<or> append_repository_link full_path rs parent link = (False, rs)")
  case True
  with assms show ?thesis by auto
next
  case False
  then obtain n source where n: "repository_normalize full_path PATH_SIZE (Some source) = Some n"
    "\<not> list_ex (\<lambda>r. strieq (url r) n) rs" "length rs < MAX_REPOSITORIES"
    "snd (append_repository_link full_path rs parent link)
       = rs @ [parent\<lparr>order := length rs, url := n\<rparr>]"
    by (auto simp: append_repository_link_def split: option.splits bind_splits if_splits)
  have "length n < PATH_SIZE" using normalize_shape [OF n(1)] by simp
  with n assms show ?thesis
    by (auto simp: graph_ok_def nth_append list_ex_iff less_Suc_eq)
qed

text \<open>Following links keeps the repository graph well formed, whatever the indexes contain: at most
  32 repositories, the order field is the position, no two locators are equal up to letter case,
  every locator fits its buffer. As locators are never repeated, a cycle of links ends.\<close>

theorem repository_graph_invariant:
  "graph_ok rs \<Longrightarrow>
     graph_ok (fold (\<lambda>(parent, link) rs. snd (append_repository_link full_path rs parent link)) links rs)"
proof (induction links arbitrary: rs)
  case (Cons l links)
  then show ?case using append_link_ok by (cases l) simp
qed simp

theorem repository_graph_invariant_witness:
  "graph_ok (fold (\<lambda>(parent, link) rs. snd (append_repository_link (\<lambda>_. None) rs parent link))
     [(\<lparr>url = ''https://h/r'', priority = 1, order = 0, allow_insecure_http = False\<rparr>, ''sub'')] [])"
  by (rule repository_graph_invariant) (simp add: graph_ok_def)

end
