(* ===== verification/Candidates.thy ===== *)
theory Candidates
  imports Semver Locator
begin

text \<open>
  The resolver (\<open>wpm/repository.c\<close>, 3939-4042 and 4180-4505): the choice of one entry of the
  indexes for a package, the tests on installed records, the upgrade plan and the upgrade loop.
  The preference for prereleases and \<open>WPM_TARGET_ARCH\<close> are arguments; a pointer to the selected
  entry is the entry. Messages are not modelled, except the lines of the upgrade plan.
\<close>

record package_entry =
  entry_name :: string
  entry_version :: string
  entry_arch :: string
  entry_url :: string
  entry_priority :: int
  entry_order :: nat

record installed_entry =
  inst_name :: string
  inst_version :: string
  inst_arch :: string

subsection \<open>Selection\<close>

definition better_candidate :: "package_entry \<Rightarrow> package_entry option \<Rightarrow> bool" where
  "better_candidate candidate selected =
     (case selected of
        None \<Rightarrow> True
      | Some s \<Rightarrow>
          (case semver_compare (entry_version candidate) (entry_version s) of
             (c, valid) \<Rightarrow>
               if \<not> valid then False
               else c > 0 \<or> (c = 0 \<and> (entry_priority candidate > entry_priority s \<or>
                      (entry_priority candidate = entry_priority s
                       \<and> entry_order candidate < entry_order s)))))"

text \<open>
  One iteration of the loop of \<open>select_candidate\<close>. Without \<open>install_mode\<close> every caller gives an
  architecture, so the comparison with a missing one (a null pointer in C) never happens; the
  model reads it as the empty string.
\<close>

definition select_step ::
  "string \<Rightarrow> bool \<Rightarrow> string \<Rightarrow> string option \<Rightarrow> string option \<Rightarrow> bool
     \<Rightarrow> package_entry \<Rightarrow> package_entry option \<Rightarrow> package_entry option" where
  "select_step target allow_pre name arch exact_version install_mode entry selected =
     (if \<not> strieq (entry_name entry) name then selected
      else if semver_parse (Some (entry_version entry)) = None then selected
      else if exact_version \<noteq> None \<and> exact_version \<noteq> Some (entry_version entry) then selected
      else if is_prerelease (entry_version entry) \<and> \<not> allow_pre then selected
      else if install_mode \<and> arch = None then
        (if \<not> strieq (entry_arch entry) target \<and> \<not> strieq (entry_arch entry) ''any'' then selected
         else if (case selected of None \<Rightarrow> False | Some s \<Rightarrow> strieq (entry_arch s) target)
              \<and> strieq (entry_arch entry) ''any'' then selected
         else if (case selected of None \<Rightarrow> False | Some s \<Rightarrow> strieq (entry_arch s) ''any'')
              \<and> strieq (entry_arch entry) target then Some entry
         else if better_candidate entry selected then Some entry
         else selected)
      else if \<not> strieq (entry_arch entry) (case arch of None \<Rightarrow> [] | Some a \<Rightarrow> a) then selected
      else if better_candidate entry selected then Some entry
      else selected)"

definition select_candidate ::
  "string \<Rightarrow> bool \<Rightarrow> package_entry list \<Rightarrow> string \<Rightarrow> string option \<Rightarrow> string option \<Rightarrow> bool
     \<Rightarrow> package_entry option" where
  "select_candidate target allow_pre entries name arch exact_version install_mode =
     fold (select_step target allow_pre name arch exact_version install_mode) entries None"

text \<open>The identity of a retrieved archive against the entry it was selected by; the identity is what
  \<open>wpm_archive_inspect\<close> read, \<open>None\<close> when it failed.\<close>

definition candidate_matches :: "installed_entry option \<Rightarrow> package_entry \<Rightarrow> bool" where
  "candidate_matches identity selected =
     (case identity of
        None \<Rightarrow> False
      | Some i \<Rightarrow> strieq (inst_name i) (entry_name selected)
          \<and> strieq (inst_arch i) (entry_arch selected) \<and> inst_version i = entry_version selected)"

subsection \<open>Installed records\<close>

definition requested :: "string \<Rightarrow> string list \<Rightarrow> bool" where
  "requested name names = list_ex (strieq name) names"

definition installed_is_latest :: "installed_entry list \<Rightarrow> nat \<Rightarrow> bool" where
  "installed_is_latest installed index =
     list_all (\<lambda>j. \<not> (index \<noteq> j \<and> strieq (inst_name (installed ! index)) (inst_name (installed ! j))
                \<and> strieq (inst_arch (installed ! index)) (inst_arch (installed ! j))
                \<and> fst (semver_compare (inst_version (installed ! j))
                         (inst_version (installed ! index))) > 0))
       [0..<length installed]"

definition conflicting_any :: "installed_entry list \<Rightarrow> nat \<Rightarrow> bool" where
  "conflicting_any installed index =
     (if \<not> strieq (inst_arch (installed ! index)) ''any'' then False
      else list_ex (\<lambda>j. index \<noteq> j \<and> strieq (inst_name (installed ! index)) (inst_name (installed ! j))
                  \<and> \<not> strieq (inst_arch (installed ! j)) ''any'') [0..<length installed])"

subsection \<open>The upgrade plan\<close>

text \<open>The preference \<open>prerelease_effective(name, NULL)\<close> of a package is the function \<open>allow_pre\<close>.\<close>

definition newer_candidate ::
  "string \<Rightarrow> (string \<Rightarrow> bool) \<Rightarrow> package_entry list \<Rightarrow> installed_entry \<Rightarrow> string option
     \<Rightarrow> package_entry option" where
  "newer_candidate target allow_pre entries item exact_version =
     (case select_candidate target (allow_pre (inst_name item)) entries (inst_name item)
             (Some (inst_arch item)) exact_version False of
        None \<Rightarrow> None
      | Some selected \<Rightarrow>
          (case semver_compare (entry_version selected) (inst_version item) of
             (c, valid) \<Rightarrow> if c \<le> 0 \<or> \<not> valid then None else Some selected))"

text \<open>The lines of \<open>print_upgrade_plan\<close>; its result is their number.\<close>

definition print_upgrade_plan ::
  "string \<Rightarrow> (string \<Rightarrow> bool) \<Rightarrow> installed_entry list \<Rightarrow> package_entry list \<Rightarrow> string option
     \<Rightarrow> (installed_entry \<times> package_entry) list" where
  "print_upgrade_plan target allow_pre installed entries arch =
     concat (map (\<lambda>i.
       if (case arch of None \<Rightarrow> False | Some a \<Rightarrow> \<not> strieq a (inst_arch (installed ! i)))
          \<or> \<not> installed_is_latest installed i \<or> conflicting_any installed i then []
       else (case newer_candidate target allow_pre entries (installed ! i) None of
               None \<Rightarrow> []
             | Some selected \<Rightarrow> [(installed ! i, selected)])) [0..<length installed])"

definition confirm_upgrade_plan :: "bool \<Rightarrow> string option \<Rightarrow> bool" where
  "confirm_upgrade_plan assume_yes input =
     (if assume_yes then True
      else (case input of
              None \<Rightarrow> False
            | Some read \<Rightarrow>
                (let answer = takeWhile (\<lambda>c. c \<noteq> CR \<and> c \<noteq> LF) (take 15 read) in
                 read \<noteq> [] \<and> (strieq answer ''y'' \<or> strieq answer ''yes''))))"

definition selected_for_upgrade ::
  "installed_entry list \<Rightarrow> string list \<Rightarrow> bool \<Rightarrow> string option \<Rightarrow> nat \<Rightarrow> bool" where
  "selected_for_upgrade installed names all arch i =
     ((all \<or> requested (inst_name (installed ! i)) names)
      \<and> (case arch of None \<Rightarrow> True | Some a \<Rightarrow> strieq a (inst_arch (installed ! i))))"

definition upgrade_target ::
  "string \<Rightarrow> (string \<Rightarrow> bool) \<Rightarrow> package_entry list \<Rightarrow> installed_entry \<Rightarrow> string option
     \<Rightarrow> package_entry option" where
  "upgrade_target target allow_pre entries item version =
     select_candidate target (allow_pre (inst_name item)) entries (inst_name item)
       (Some (inst_arch item)) version False"

definition count_upgrade_candidates ::
  "string \<Rightarrow> (string \<Rightarrow> bool) \<Rightarrow> installed_entry list \<Rightarrow> package_entry list \<Rightarrow> string list \<Rightarrow> bool
     \<Rightarrow> string option \<Rightarrow> string option \<Rightarrow> nat" where
  "count_upgrade_candidates target allow_pre installed entries names all arch version =
     length (filter (\<lambda>i.
       selected_for_upgrade installed names all arch i
       \<and> installed_is_latest installed i \<and> \<not> conflicting_any installed i
       \<and> (case upgrade_target target allow_pre entries (installed ! i) version of
            None \<Rightarrow> False
          | Some s \<Rightarrow> (case semver_compare (entry_version s) (inst_version (installed ! i)) of
                         (c, valid) \<Rightarrow> c > 0 \<and> valid))) [0..<length installed])"

subsection \<open>The upgrade loop\<close>

text \<open>
  What one iteration of \<open>wpm_repo_upgrade\<close> did with an installed record. \<open>transfer\<close> stands for
  \<open>obtain\<close>, \<open>candidate_matches\<close> and \<open>package_source\<close> of the selected entry, \<open>perform\<close> for
  \<open>wpm_archive_upgrade\<close> or, for the program itself, \<open>wpm_archive_schedule_self_upgrade\<close>: their
  results depend on the network, the disk and the archive.
\<close>

datatype upgrade_outcome =
    Skipped
  | Conflict bool
  | Current
  | Not_newer
  | Failed package_entry
  | Upgraded package_entry
  | Scheduled package_entry

definition upgrade_item ::
  "string \<Rightarrow> (string \<Rightarrow> bool) \<Rightarrow> (package_entry \<Rightarrow> bool) \<Rightarrow> (package_entry \<Rightarrow> installed_entry \<Rightarrow> bool)
     \<Rightarrow> installed_entry list \<Rightarrow> package_entry list \<Rightarrow> string list \<Rightarrow> bool
     \<Rightarrow> string option \<Rightarrow> string option \<Rightarrow> nat \<Rightarrow> upgrade_outcome" where
  "upgrade_item target allow_pre transfer perform installed entries names all arch version i =
     (if \<not> selected_for_upgrade installed names all arch i then Skipped
      else if \<not> installed_is_latest installed i then Skipped
      else if conflicting_any installed i then
        Conflict (case arch of None \<Rightarrow> False | Some a \<Rightarrow> strieq a ''any'')
      else (case upgrade_target target allow_pre entries (installed ! i) version of
              None \<Rightarrow> Current
            | Some selected \<Rightarrow>
                (case semver_compare (entry_version selected) (inst_version (installed ! i)) of
                   (comparison, valid) \<Rightarrow>
                     if \<not> valid \<or> comparison \<le> 0 then
                       (if version \<noteq> None then Not_newer else Current)
                     else if \<not> transfer selected then Failed selected
                     else if \<not> perform selected (installed ! i) then Failed selected
                     else if strieq (entry_name selected) ''wpm'' then Scheduled selected
                     else Upgraded selected)))"

fun is_failure :: "upgrade_outcome \<Rightarrow> bool" where
  "is_failure (Conflict asked_for_any) = asked_for_any"
| "is_failure Not_newer = True"
| "is_failure (Failed _) = True"
| "is_failure _ = False"

fun is_processed :: "upgrade_outcome \<Rightarrow> bool" where
  "is_processed Skipped = False"
| "is_processed (Conflict _) = False"
| "is_processed _ = True"

fun is_attempt :: "upgrade_outcome \<Rightarrow> bool" where
  "is_attempt (Failed _) = True"
| "is_attempt (Upgraded _) = True"
| "is_attempt (Scheduled _) = True"
| "is_attempt _ = False"

definition missing_names :: "installed_entry list \<Rightarrow> string list \<Rightarrow> string option \<Rightarrow> string list" where
  "missing_names installed names arch =
     filter (\<lambda>n. \<not> list_ex (\<lambda>e. strieq n (inst_name e)
              \<and> (case arch of None \<Rightarrow> True | Some a \<Rightarrow> strieq a (inst_arch e))) installed) names"

text \<open>
  The whole command after the indexes were loaded: the outcomes of the loop (none when the plan
  was declined) and the result. \<open>input\<close> is the answer read from the console.
\<close>

definition wpm_repo_upgrade ::
  "string \<Rightarrow> (string \<Rightarrow> bool) \<Rightarrow> (package_entry \<Rightarrow> bool) \<Rightarrow> (package_entry \<Rightarrow> installed_entry \<Rightarrow> bool)
     \<Rightarrow> installed_entry list \<Rightarrow> package_entry list \<Rightarrow> string list \<Rightarrow> bool \<Rightarrow> string option
     \<Rightarrow> string option \<Rightarrow> bool \<Rightarrow> bool \<Rightarrow> string option \<Rightarrow> upgrade_outcome list \<times> bool" where
  "wpm_repo_upgrade target allow_pre transfer perform installed entries names all arch version
       collecting assume_yes input =
     (if version \<noteq> None \<and> semver_parse version = None then ([], False)
      else if all \<and> \<not> collecting
              \<and> print_upgrade_plan target allow_pre installed entries arch \<noteq> []
              \<and> \<not> confirm_upgrade_plan assume_yes input then ([], True)
      else
        let outcomes = map (upgrade_item target allow_pre transfer perform installed entries
                              names all arch version) [0..<length installed];
            failures = length (filter is_failure outcomes)
                       + length (missing_names installed names arch);
            processed = length (filter is_processed outcomes) in
        (outcomes, if processed = 0 \<and> failures = 0 then False else failures = 0))"

subsection \<open>Selection is a maximum\<close>

text \<open>The specification: which entries may be chosen, and the order among them: with no architecture
  asked for, native before \<open>any\<close>; then the version, the priority of the repository, and the
  position of the repository.\<close>

definition eligible ::
  "string \<Rightarrow> bool \<Rightarrow> string \<Rightarrow> string option \<Rightarrow> string option \<Rightarrow> bool \<Rightarrow> package_entry \<Rightarrow> bool" where
  "eligible target allow_pre name arch exact_version install_mode e \<longleftrightarrow>
     strieq (entry_name e) name \<and> wpm_repo_version_is_valid (Some (entry_version e))
   \<and> (exact_version = None \<or> exact_version = Some (entry_version e))
   \<and> (allow_pre \<or> \<not> is_prerelease (entry_version e))
   \<and> (if install_mode \<and> arch = None
      then strieq (entry_arch e) target \<or> strieq (entry_arch e) ''any''
      else strieq (entry_arch e) (case arch of None \<Rightarrow> [] | Some a \<Rightarrow> a))"

definition native_rank :: "string \<Rightarrow> bool \<Rightarrow> package_entry \<Rightarrow> nat" where
  "native_rank target native e = (if native \<and> strieq (entry_arch e) target then 1 else 0)"

definition entry_semver :: "package_entry \<Rightarrow> semver" where
  "entry_semver e = the (semver_parse (Some (entry_version e)))"

definition entry_rank :: "string \<Rightarrow> bool \<Rightarrow> package_entry \<Rightarrow> package_entry \<Rightarrow> int" where
  "entry_rank target native =
     chain (\<lambda>a b. compare_nat (native_rank target native a) (native_rank target native b))
    (chain (\<lambda>a b. semver_compare_parsed (entry_semver a) (entry_semver b))
    (chain (\<lambda>a b. compare_int (entry_priority a) (entry_priority b))
           (\<lambda>a b. compare_nat (entry_order b) (entry_order a))))"

interpretation candidate_order: comparator "entry_rank target native"
  unfolding entry_rank_def
  by (rule comparator_chain comparator_key [OF comparator_nat, of "native_rank target native"]
      comparator_key [OF version_order.comparator_axioms, of entry_semver]
      comparator_key [OF comparator_int, of entry_priority]
      comparator_key [OF comparator_flip [OF comparator_nat], of Candidates.entry_order])+

lemma semver_compare_valid:
  "semver_parse (Some a) = Some v \<Longrightarrow> semver_parse (Some b) = Some w
    \<Longrightarrow> semver_compare a b = (semver_compare_parsed v w, True)"
  by (simp add: semver_compare_def)

lemma better_candidate_rank:
  assumes "wpm_repo_version_is_valid (Some (entry_version e))"
    and "wpm_repo_version_is_valid (Some (entry_version s))"
    and "native_rank target native e = native_rank target native s"
  shows "better_candidate e (Some s) \<longleftrightarrow> entry_rank target native e s > 0"
proof -
  obtain v w where v: "semver_parse (Some (entry_version e)) = Some v"
    "semver_parse (Some (entry_version s)) = Some w"
    using assms(1,2) by (auto simp: wpm_repo_version_is_valid_def)
  then show ?thesis
    using assms(3) by (simp add: better_candidate_def semver_compare_valid [OF v] entry_rank_def
        chain_def entry_semver_def compare_nat_def compare_int_def)
qed

lemma select_step_pick:
  assumes target: "\<not> strieq target ''any''"
    and sel: "case selected of None \<Rightarrow> True
       | Some s \<Rightarrow> eligible target allow_pre name arch exact_version install_mode s"
  shows "select_step target allow_pre name arch exact_version install_mode e selected =
     (if eligible target allow_pre name arch exact_version install_mode e
      then pick (entry_rank target (install_mode \<and> arch = None)) e selected else selected)"
proof (cases "eligible target allow_pre name arch exact_version install_mode e")
  case False
  then consider "\<not> strieq (entry_name e) name" | "semver_parse (Some (entry_version e)) = None"
    | "exact_version \<noteq> None" "exact_version \<noteq> Some (entry_version e)"
    | "is_prerelease (entry_version e)" "\<not> allow_pre"
    | "install_mode \<and> arch = None" "\<not> strieq (entry_arch e) target" "\<not> strieq (entry_arch e) ''any''"
    | "\<not> (install_mode \<and> arch = None)" "\<not> strieq (entry_arch e) (case arch of None \<Rightarrow> [] | Some a \<Rightarrow> a)"
    unfolding eligible_def wpm_repo_version_is_valid_def by argo
  then have "select_step target allow_pre name arch exact_version install_mode e selected = selected"
    by cases (simp_all only: select_step_def if_True if_False simp_thms if_cancel)
  with False show ?thesis by simp
next
  case True
  let ?native = "install_mode \<and> arch = None"
  have step: "select_step target allow_pre name arch exact_version install_mode e selected =
      (if ?native \<and> (case selected of None \<Rightarrow> False | Some s \<Rightarrow> strieq (entry_arch s) target)
          \<and> strieq (entry_arch e) ''any'' then selected
       else if ?native \<and> (case selected of None \<Rightarrow> False | Some s \<Rightarrow> strieq (entry_arch s) ''any'')
          \<and> strieq (entry_arch e) target then Some e
       else if better_candidate e selected then Some e else selected)"
  proof -
    have t: "strieq (entry_name e) name" "(semver_parse (Some (entry_version e)) = None) = False"
      "(exact_version \<noteq> None \<and> exact_version \<noteq> Some (entry_version e)) = False"
      "(is_prerelease (entry_version e) \<and> \<not> allow_pre) = False"
      using True unfolding eligible_def wpm_repo_version_is_valid_def by argo+
    show ?thesis
    proof (cases "install_mode \<and> arch = None")
      case native: True
      then have "(\<not> strieq (entry_arch e) target \<and> \<not> strieq (entry_arch e) ''any'') = False"
        using True unfolding eligible_def by argo
      with native t show ?thesis by (simp only: select_step_def not_True_eq_False if_True if_False simp_thms)
    next
      case other: False
      then have "strieq (entry_arch e) (case arch of None \<Rightarrow> [] | Some a \<Rightarrow> a)"
        using True unfolding eligible_def by argo
      with other t show ?thesis by (simp only: select_step_def not_True_eq_False if_True if_False simp_thms)
    qed
  qed
  show ?thesis
  proof (cases selected)
    case None
    with True step show ?thesis by (simp add: pick_def better_candidate_def)
  next
    case (Some s)
    have s: "eligible target allow_pre name arch exact_version install_mode s"
      using sel Some by simp
    then have v: "wpm_repo_version_is_valid (Some (entry_version e))"
      "wpm_repo_version_is_valid (Some (entry_version s))" using True by (simp_all add: eligible_def)
    note rank = better_candidate_rank [OF v, of target ?native]
    have excl: "strieq x target \<Longrightarrow> \<not> strieq x ''any''" for x
      using target strieq_sym strieq_trans by blast
    consider "?native" "strieq (entry_arch s) target" "strieq (entry_arch e) ''any''"
      | "?native" "strieq (entry_arch s) ''any''" "strieq (entry_arch e) target"
      | "native_rank target ?native e = native_rank target ?native s"
        "\<not> (?native \<and> strieq (entry_arch s) target \<and> strieq (entry_arch e) ''any'')"
        "\<not> (?native \<and> strieq (entry_arch s) ''any'' \<and> strieq (entry_arch e) target)"
    proof -
      have "?native \<Longrightarrow> strieq (entry_arch e) target \<or> strieq (entry_arch e) ''any''"
        "?native \<Longrightarrow> strieq (entry_arch s) target \<or> strieq (entry_arch s) ''any''"
        using True s unfolding eligible_def by argo+
      then show thesis
        using that excl [of "entry_arch e"] excl [of "entry_arch s"] unfolding native_rank_def by argo
    qed
    then show ?thesis
    proof cases
      case 1
      then have "entry_rank target ?native e s < 0"
        using excl by (auto simp: entry_rank_def chain_def native_rank_def compare_nat_def)
      with 1 True Some step show ?thesis by (simp add: pick_def)
    next
      case 2
      then have "entry_rank target ?native e s > 0"
        using excl by (auto simp: entry_rank_def chain_def native_rank_def compare_nat_def)
      with 2 True Some step show ?thesis using excl by (auto simp: pick_def)
    next
      case 3
      with rank True Some step show ?thesis by (auto simp: pick_def)
    qed
  qed
qed

lemma select_candidate_pick:
  assumes "\<not> strieq target ''any''"
  shows "select_candidate target allow_pre entries name arch exact_version install_mode
    = pick_best (entry_rank target (install_mode \<and> arch = None))
        (filter (eligible target allow_pre name arch exact_version install_mode) entries)"
proof -
  have "fold (select_step target allow_pre name arch exact_version install_mode) entries selected
      = fold (pick (entry_rank target (install_mode \<and> arch = None)))
          (filter (eligible target allow_pre name arch exact_version install_mode) entries) selected"
    if "case selected of None \<Rightarrow> True
         | Some s \<Rightarrow> eligible target allow_pre name arch exact_version install_mode s" for selected
    using that
  proof (induction entries arbitrary: selected)
    case (Cons e entries)
    show ?case
    proof (cases "eligible target allow_pre name arch exact_version install_mode e")
      case True
      with Cons.prems have "case pick (entry_rank target (install_mode \<and> arch = None)) e selected of None \<Rightarrow> True
         | Some s \<Rightarrow> eligible target allow_pre name arch exact_version install_mode s"
        by (auto simp: pick_def split: option.splits)
      from Cons.IH [OF this] True show ?thesis
        by (simp add: select_step_pick [OF assms Cons.prems])
    next
      case False
      with Cons show ?thesis by (simp add: select_step_pick [OF assms Cons.prems])
    qed
  qed simp
  then show ?thesis by (simp add: select_candidate_def pick_best_def)
qed

lemma select_candidate_Some:
  assumes "\<not> strieq target ''any''"
    and "select_candidate target allow_pre entries name arch exact_version install_mode = Some s"
  shows "s \<in> set entries \<and> eligible target allow_pre name arch exact_version install_mode s
     \<and> (\<forall>e \<in> set entries. eligible target allow_pre name arch exact_version install_mode e
          \<longrightarrow> entry_rank target (install_mode \<and> arch = None) e s \<le> 0)"
  using candidate_order.pick_best_Some [OF assms(2) [unfolded select_candidate_pick [OF assms(1)]]]
  by auto

text \<open>C4: the resolver fails only when no entry of the indexes is eligible (name, valid version, exact
  version, prerelease policy, architecture), and otherwise returns an eligible entry that no other
  eligible one exceeds in the order native, version, priority, repository position.\<close>

theorem select_candidate_maximal:
  assumes "\<not> strieq target ''any''"
  shows "case select_candidate target allow_pre entries name arch exact_version install_mode of
     None \<Rightarrow> \<not> list_ex (eligible target allow_pre name arch exact_version install_mode) entries
   | Some s \<Rightarrow> s \<in> set entries \<and> eligible target allow_pre name arch exact_version install_mode s
       \<and> (\<forall>e \<in> set entries. eligible target allow_pre name arch exact_version install_mode e
            \<longrightarrow> entry_rank target (install_mode \<and> arch = None) e s \<le> 0)"
proof (cases "select_candidate target allow_pre entries name arch exact_version install_mode")
  case None
  show ?thesis
    using None [unfolded select_candidate_pick [OF assms] candidate_order.pick_best_None]
    by (simp add: None filter_empty_conv list_ex_iff)
next
  case (Some s)
  with select_candidate_Some [OF assms Some] show ?thesis by simp
qed

abbreviation example_entry :: "string \<Rightarrow> string \<Rightarrow> int \<Rightarrow> package_entry" where
  "example_entry v a p \<equiv> \<lparr>entry_name = ''zlib'', entry_version = v, entry_arch = a,
     entry_url = ''z.zip'', entry_priority = p, entry_order = 0\<rparr>"

lemma example_selection:
  "select_candidate ''x64'' False
     [example_entry ''1.2.0'' ''any'' 0, example_entry ''1.10.0'' ''x64'' 0,
      example_entry ''2.0.0-rc'' ''x64'' 0] ''zlib'' None None True
   = Some (example_entry ''1.10.0'' ''x64'' 0)"
  by (simp add: select_candidate_def select_step_def better_candidate_def semver_compare_def
      semver_parse_def parse_dotted_def parse_number_def semver_finish_def is_prerelease_def
      digit_val_def ULLONG_MAX_def identifier_char_def char_class strieq_def lower_def to_lower_def)

theorem select_candidate_maximal_witness:
  "eligible ''x64'' False ''zlib'' None None True (example_entry ''1.10.0'' ''x64'' 0)"
  using select_candidate_maximal [where target = "''x64''" and allow_pre = False and name = "''zlib''"
      and arch = None and exact_version = None and install_mode = True
      and entries = "[example_entry ''1.2.0'' ''any'' 0, example_entry ''1.10.0'' ''x64'' 0,
        example_entry ''2.0.0-rc'' ''x64'' 0]"]
  unfolding example_selection by (simp add: strieq_def lower_def to_lower_def is_upper_def)

subsection \<open>Upgrades\<close>

fun attempted :: "upgrade_outcome \<Rightarrow> package_entry option" where
  "attempted (Failed s) = Some s"
| "attempted (Upgraded s) = Some s"
| "attempted (Scheduled s) = Some s"
| "attempted _ = None"

lemma is_attempt_attempted: "is_attempt r \<longleftrightarrow> attempted r \<noteq> None"
  by (cases r) auto

text \<open>When the loop reaches the transfer of an entry, in one equation.\<close>

lemma attempted_upgrade_item:
  "attempted (upgrade_item target allow_pre transfer perform installed entries names all arch version i) =
     (if selected_for_upgrade installed names all arch i \<and> installed_is_latest installed i
         \<and> \<not> conflicting_any installed i
      then newer_candidate target allow_pre entries (installed ! i) version else None)"
proof (cases "selected_for_upgrade installed names all arch i \<and> installed_is_latest installed i
    \<and> \<not> conflicting_any installed i")
  case True
  then show ?thesis
    by (cases "upgrade_target target allow_pre entries (installed ! i) version")
      (auto simp: upgrade_item_def newer_candidate_def upgrade_target_def split: prod.splits)
next
  case False
  then show ?thesis by (auto simp: upgrade_item_def)
qed

lemma semver_compare_range: "semver_compare a b = (c, valid) \<Longrightarrow> 0 < c \<Longrightarrow> c = 1"
  unfolding semver_compare_def using version_order.cmp_range
  by (force split: option.splits)

lemma newer_candidate_newer:
  assumes "\<not> strieq target ''any''" "newer_candidate target allow_pre entries item version = Some s"
  shows "s \<in> set entries \<and> strieq (entry_name s) (inst_name item) \<and> strieq (entry_arch s) (inst_arch item)
     \<and> semver_compare (entry_version s) (inst_version item) = (1, True)
     \<and> (is_prerelease (entry_version s) \<longrightarrow> allow_pre (inst_name item))"
proof -
  obtain c where sel: "select_candidate target (allow_pre (inst_name item)) entries (inst_name item)
      (Some (inst_arch item)) version False = Some s"
    and c: "semver_compare (entry_version s) (inst_version item) = (c, True)" "0 < c"
    using assms(2) by (auto simp: newer_candidate_def split: option.splits prod.splits if_splits)
  from select_candidate_Some [OF assms(1) sel] semver_compare_range [OF c] c
  show ?thesis by (auto simp: eligible_def)
qed

text \<open>C5: an upgrade is attempted only to an entry of the same name and architecture with a strictly
  newer version, never to a prerelease unless the package allows it, and only from a record that no
  other installed version of the same identity exceeds: the loop never downgrades or reinstalls.\<close>

theorem upgrade_strictly_newer:
  assumes "\<not> strieq target ''any''"
    and "attempted (upgrade_item target allow_pre transfer perform installed entries names all arch
           version i) = Some s"
  shows "s \<in> set entries \<and> strieq (entry_name s) (inst_name (installed ! i))
     \<and> strieq (entry_arch s) (inst_arch (installed ! i))
     \<and> semver_compare (entry_version s) (inst_version (installed ! i)) = (1, True)
     \<and> (is_prerelease (entry_version s) \<longrightarrow> allow_pre (inst_name (installed ! i)))
     \<and> installed_is_latest installed i"
proof -
  have "installed_is_latest installed i"
    and "newer_candidate target allow_pre entries (installed ! i) version = Some s"
    using assms(2) unfolding attempted_upgrade_item by (simp_all split: if_splits)
  with newer_candidate_newer [OF assms(1) this(2)] show ?thesis by blast
qed

theorem upgrade_strictly_newer_witness:
  "semver_compare ''1.10.0'' ''1.2.0'' = (1, True)"
proof -
  have "attempted (upgrade_item ''x64'' (\<lambda>_. False) (\<lambda>_. True) (\<lambda>_ _. True)
      [\<lparr>inst_name = ''zlib'', inst_version = ''1.2.0'', inst_arch = ''x64''\<rparr>]
      [example_entry ''1.10.0'' ''x64'' 0] [] True None None 0) = Some (example_entry ''1.10.0'' ''x64'' 0)"
    by (simp add: upgrade_item_def selected_for_upgrade_def installed_is_latest_def conflicting_any_def
        upgrade_target_def select_candidate_def select_step_def better_candidate_def semver_compare_def
        semver_parse_def parse_dotted_def parse_number_def semver_finish_def is_prerelease_def
        semver_compare_parsed_def digit_val_def ULLONG_MAX_def identifier_char_def char_class
        strieq_def lower_def to_lower_def)
  moreover have "\<not> strieq ''x64'' ''any''" by (simp add: strieq_def lower_def to_lower_def is_upper_def)
  ultimately show ?thesis using upgrade_strictly_newer by fastforce
qed

text \<open>The plan printed for \<open>--all\<close> before the question is exactly what the loop then attempts:
  the same records, in the same order, to the same entries.\<close>

theorem upgrade_plan_is_what_runs:
  "print_upgrade_plan target allow_pre installed entries arch =
     concat (map (\<lambda>i. case attempted (upgrade_item target allow_pre transfer perform installed entries
                        names True arch None i) of
                        None \<Rightarrow> []
                      | Some s \<Rightarrow> [(installed ! i, s)]) [0..<length installed])"
proof -
  have "(case arch of None \<Rightarrow> False | Some a \<Rightarrow> \<not> strieq a (inst_arch (installed ! i)))
        = (\<not> selected_for_upgrade installed names True arch i)" for i
    by (auto simp: selected_for_upgrade_def split: option.splits)
  then show ?thesis
    unfolding print_upgrade_plan_def attempted_upgrade_item
    by (intro arg_cong [where f = concat] map_cong) (auto split: option.splits)
qed

text \<open>The progress total announced before the loop is the number of transfers the loop starts.\<close>

theorem upgrade_progress_total:
  "count_upgrade_candidates target allow_pre installed entries names all arch version =
     length (filter is_attempt (map (upgrade_item target allow_pre transfer perform installed entries
       names all arch version) [0..<length installed]))"
proof -
  have "(case upgrade_target target allow_pre entries (installed ! i) version of
            None \<Rightarrow> False
          | Some s \<Rightarrow> (case semver_compare (entry_version s) (inst_version (installed ! i)) of
                         (c, valid) \<Rightarrow> c > 0 \<and> valid))
      = (newer_candidate target allow_pre entries (installed ! i) version \<noteq> None)" for i
    by (auto simp: newer_candidate_def upgrade_target_def split: option.splits prod.splits)
  then have "(selected_for_upgrade installed names all arch i
       \<and> installed_is_latest installed i \<and> \<not> conflicting_any installed i
       \<and> (case upgrade_target target allow_pre entries (installed ! i) version of
            None \<Rightarrow> False
          | Some s \<Rightarrow> (case semver_compare (entry_version s) (inst_version (installed ! i)) of
                         (c, valid) \<Rightarrow> c > 0 \<and> valid)))
      = is_attempt (upgrade_item target allow_pre transfer perform installed entries names all arch version i)"
    for i by (simp add: is_attempt_attempted attempted_upgrade_item)
  then show ?thesis by (simp add: count_upgrade_candidates_def filter_map o_def)
qed

end
