(* ===== verification/Config_Text.thy ===== *)
theory Config_Text
  imports Prelude
begin

text \<open>
  Line-oriented configuration files as the program reads and rewrites them: \<open>fgets\<close> with a bounded
  buffer, and the loop that copies a file line by line, replaces or drops the matching lines and
  appends a new line when none matched. A file is its text after the translation of line ends, and
  holds no NUL. The locale is the contract of this loop for a format of lines; \<open>Repo_Config\<close> and
  \<open>Prerelease\<close> interpret it for their formats.
\<close>

subsection \<open>Reading lines\<close>

text \<open>Each \<open>fgets(line, cap, file)\<close>: at most \<open>cap - 1\<close> bytes, up to and with the newline.\<close>

definition chunk :: "nat \<Rightarrow> string \<Rightarrow> nat" where
  "chunk cap s = min (cap - 1) (Suc (length (takeWhile (\<lambda>c. c \<noteq> LF) s)))"

function text_lines :: "nat \<Rightarrow> string \<Rightarrow> string list" where
  "text_lines cap s =
     (if s = [] \<or> cap < 2 then [] else take (chunk cap s) s # text_lines cap (drop (chunk cap s) s))"
  by pat_completeness auto
termination
proof (relation "measure (\<lambda>(cap, s). length s)", goal_cases)
  case (2 cap s)
  then have "0 < chunk cap s" "0 < length s" by (auto simp: chunk_def)
  then show ?case by simp
qed simp

declare text_lines.simps [simp del]

text \<open>The text of a line up to its line end: \<open>line[strcspn(line, "\\r\\n")] = 0\<close>.\<close>

definition chomp :: "string \<Rightarrow> string" where
  "chomp line = takeWhile (\<lambda>c. c \<noteq> CR \<and> c \<noteq> LF) line"

text \<open>The copy loop. \<open>new\<close> is the line to write, \<open>None\<close> on removal; the result is the new text and
  whether a line matched.\<close>

definition rewrite_lines :: "nat \<Rightarrow> (string \<Rightarrow> bool) \<Rightarrow> string option \<Rightarrow> string \<Rightarrow> string \<times> bool" where
  "rewrite_lines cap matches new content =
     (let lines = text_lines cap content;
          found = list_ex matches lines;
          emit = (case new of None \<Rightarrow> [] | Some line \<Rightarrow> line) in
      (concat (map (\<lambda>line. if matches line then emit else line) lines)
         @ (if found then [] else emit), found))"

subsection \<open>Complete lines\<close>

definition full_line :: "nat \<Rightarrow> string \<Rightarrow> bool" where
  "full_line cap line \<longleftrightarrow> line \<noteq> [] \<and> last line = LF \<and> LF \<notin> set (butlast line) \<and> length line < cap"

text \<open>Every line ends with a newline and fits the buffer.\<close>

definition complete_text :: "nat \<Rightarrow> string \<Rightarrow> bool" where
  "complete_text cap content \<longleftrightarrow> list_all (full_line cap) (text_lines cap content)"

lemma full_line_split: "full_line cap line \<longleftrightarrow> (\<exists>b. line = b @ [LF] \<and> LF \<notin> set b \<and> length b + 1 < cap)"
proof
  assume f: "full_line cap line"
  then have "line = butlast line @ [LF]" by (metis append_butlast_last_id full_line_def)
  with f show "\<exists>b. line = b @ [LF] \<and> LF \<notin> set b \<and> length b + 1 < cap"
    by (intro exI [of _ "butlast line"]) (auto simp: full_line_def)
qed (auto simp: full_line_def)

lemma chunk_full_line: "full_line cap line \<Longrightarrow> chunk cap (line @ s) = length line"
proof -
  assume "full_line cap line"
  then obtain b where b: "line = b @ [LF]" "LF \<notin> set b" "length b + 1 < cap"
    by (auto simp: full_line_split)
  have "takeWhile (\<lambda>c. c \<noteq> LF) (b @ LF # s) = b" using b(2) by (induction b) auto
  then have "takeWhile (\<lambda>c. c \<noteq> LF) (line @ s) = b" using b(1) by simp
  with b show ?thesis by (simp add: chunk_def)
qed

lemma text_lines_Cons:
  assumes "full_line cap line"
  shows "text_lines cap (line @ s) = line # text_lines cap s"
proof -
  have "line \<noteq> []" "\<not> cap < 2" using assms by (auto simp: full_line_def neq_Nil_conv)
  then show ?thesis
    by (subst text_lines.simps) (simp add: chunk_full_line [OF assms])
qed

lemma text_lines_Nil [simp]: "text_lines cap [] = []"
  by (simp add: text_lines.simps)

lemma text_lines_concat: "list_all (full_line cap) ls \<Longrightarrow> text_lines cap (concat ls) = ls"
  by (induction ls) (simp_all add: text_lines_Cons)

lemma concat_text_lines: "2 \<le> cap \<Longrightarrow> concat (text_lines cap s) = s"
proof (induction cap s rule: text_lines.induct)
  case (1 cap s)
  then show ?case by (cases "s = []") (subst text_lines.simps, simp)+
qed

lemma complete_text_concat: "list_all (full_line cap) ls \<Longrightarrow> complete_text cap (concat ls)"
  by (simp add: complete_text_def text_lines_concat)

subsection \<open>The contract of the copy loop\<close>

text \<open>A setting is written as the line \<open>render k\<close> and found by \<open>matches k\<close>; \<open>ok k\<close> says that it can be
  written in the format.\<close>

locale line_format =
  fixes cap :: nat and ok :: "'k \<Rightarrow> bool" and matches :: "'k \<Rightarrow> string \<Rightarrow> bool"
    and render :: "'k \<Rightarrow> string"
  assumes render_line: "ok k \<Longrightarrow> full_line cap (render k)"
    and render_matches: "ok k \<Longrightarrow> matches k (render k)"
begin

lemma set_lines:
  assumes "ok k" "complete_text cap s"
  shows "text_lines cap (fst (rewrite_lines cap (matches k) (Some (render k)) s)) =
    map (\<lambda>l. if matches k l then render k else l) (text_lines cap s)
    @ (if list_ex (matches k) (text_lines cap s) then [] else [render k])"
proof -
  let ?ls = "map (\<lambda>l. if matches k l then render k else l) (text_lines cap s)
    @ (if list_ex (matches k) (text_lines cap s) then [] else [render k])"
  have "list_all (full_line cap) ?ls"
    using assms(2) render_line [OF assms(1)] by (auto simp: complete_text_def list_all_iff)
  moreover have "fst (rewrite_lines cap (matches k) (Some (render k)) s) = concat ?ls"
    by (simp add: rewrite_lines_def Let_def)
  ultimately show ?thesis by (simp only: text_lines_concat)
qed

lemma set_complete:
  "ok k \<Longrightarrow> complete_text cap s
    \<Longrightarrow> complete_text cap (fst (rewrite_lines cap (matches k) (Some (render k)) s))"
  using render_line [of k] by (auto simp: complete_text_def set_lines list_all_iff)

lemma set_matching:
  assumes "ok k" "complete_text cap s"
  shows "render k \<in> set (text_lines cap (fst (rewrite_lines cap (matches k) (Some (render k)) s)))"
    and "\<And>l. l \<in> set (text_lines cap (fst (rewrite_lines cap (matches k) (Some (render k)) s)))
       \<Longrightarrow> matches k l \<Longrightarrow> l = render k"
  by (auto simp: set_lines [OF assms] list_ex_iff split: if_splits)

lemma set_others:
  assumes "ok k" "complete_text cap s"
  shows "filter (\<lambda>l. \<not> matches k l)
      (text_lines cap (fst (rewrite_lines cap (matches k) (Some (render k)) s)))
    = filter (\<lambda>l. \<not> matches k l) (text_lines cap s)"
proof -
  note m = render_matches [OF assms(1)]
  have "filter (\<lambda>l. \<not> matches k l) (map (\<lambda>l. if matches k l then render k else l) ls)
      = filter (\<lambda>l. \<not> matches k l) ls" for ls
    using m by (induction ls) auto
  then show ?thesis using m by (simp add: set_lines [OF assms])
qed

lemma remove_lines:
  assumes "complete_text cap s"
  shows "text_lines cap (fst (rewrite_lines cap (matches k) None s))
    = filter (\<lambda>l. \<not> matches k l) (text_lines cap s)"
proof -
  have "concat (map (\<lambda>l. if matches k l then [] else l) ls) = concat (filter (\<lambda>l. \<not> matches k l) ls)" for ls
    by (induction ls) auto
  then have "fst (rewrite_lines cap (matches k) None s) = concat (filter (\<lambda>l. \<not> matches k l) (text_lines cap s))"
    by (simp add: rewrite_lines_def Let_def)
  moreover have "list_all (full_line cap) (filter (\<lambda>l. \<not> matches k l) (text_lines cap s))"
    using assms by (auto simp: complete_text_def list_all_iff)
  ultimately show ?thesis by (simp only: text_lines_concat)
qed

lemma remove_complete:
  "complete_text cap s \<Longrightarrow> complete_text cap (fst (rewrite_lines cap (matches k) None s))"
  by (auto simp: complete_text_def remove_lines list_all_iff)

end

lemma rewrite_found [simp]: "snd (rewrite_lines cap matches new s) = list_ex matches (text_lines cap s)"
  by (simp add: rewrite_lines_def Let_def)

end
