(* ===== verification/Repo_Config.thy ===== *)
theory Repo_Config
  imports Config_Text Locator
begin

text \<open>
  The repository configuration \<open>config/repositories.txt\<close> (\<open>wpm/repository.c\<close>, 497-742): the parser
  of one line, the loader with its diagnosis, and the commands that add and remove an entry. The
  content of the file is \<open>None\<close> when it cannot be opened.
\<close>

subsection \<open>One line\<close>

definition LONG_MAX :: int where "LONG_MAX = 2 ^ 31 - 1"
definition LONG_MIN :: int where "LONG_MIN = - (2 ^ 31)"

definition is_space :: "char \<Rightarrow> bool" where
  "is_space c \<longleftrightarrow> c = SPC \<or> 9 \<le> byte c \<and> byte c \<le> 13"

text \<open>\<open>strtol(s, &end, 10)\<close> with the 32-bit \<open>long\<close> of Windows: the clamped value and \<open>end\<close>, which is
  the start of \<open>s\<close> when there is no digit.\<close>

definition strtol10 :: "string \<Rightarrow> int \<times> string" where
  "strtol10 s =
     (let p = dropWhile is_space s;
          negative = at (CHR ''-'') p;
          d = (if negative \<or> at (CHR ''+'') p then tl p else p);
          v = int (dec_value (takeWhile is_digit d));
          value = (if negative then - v else v) in
      if \<not> at_class is_digit d then (0, s)
      else (max LONG_MIN (min LONG_MAX value), dropWhile is_digit d))"

definition http_option :: string where
  "http_option = ''allow-insecure-http=true''"

text \<open>Priority, locator and the plain-HTTP flag; \<open>None\<close> for a line that is not an entry.\<close>

definition parse_entry :: "string \<Rightarrow> (int \<times> string \<times> bool) option" where
  "parse_entry line =
     (case strchr TAB line of
        None \<Rightarrow> None
      | Some tab \<Rightarrow>
          (case strtol10 (takeWhile (\<lambda>c. c \<noteq> TAB) line) of
             (prio, rest) \<Rightarrow>
               if rest \<noteq> [] then None
               else
                 let text = chomp (tl tab);
                     locator = takeWhile (\<lambda>c. c \<noteq> TAB) text;
                     option = dropWhile (\<lambda>c. c \<noteq> TAB) text;
                     allow_http = option \<noteq> [] in
                 if option \<noteq> [] \<and> tl option \<noteq> http_option then None
                 else if locator \<noteq> [] \<and> (\<not> is_http_repository locator \<or> allow_http)
                 then Some (prio, locator, allow_http)
                 else None))"

definition signed_decimal :: "int \<Rightarrow> string" where
  "signed_decimal i = (if i < 0 then CHR ''-'' # decimal (nat (- i)) else decimal (nat i))"

definition write_entry :: "int \<Rightarrow> string \<Rightarrow> bool \<Rightarrow> string" where
  "write_entry prio locator allow_http =
     signed_decimal prio @ [TAB] @ locator @ (if allow_http then TAB # http_option else []) @ [LF]"

subsection \<open>Loading\<close>

definition LINE_SIZE :: nat where "LINE_SIZE = PATH_SIZE + 32"

definition WPM_DEFAULT_REPOSITORY :: string where
  "WPM_DEFAULT_REPOSITORY = ''https://github.com/Thewafflication/wpm/releases/latest/download''"

text \<open>What is left of a line that is no entry when the diagnosis looks at it: the parser has cut it at
  its first tab.\<close>

definition counts_as_invalid :: "string \<Rightarrow> bool" where
  "counts_as_invalid line =
     (case dropWhile is_space (takeWhile (\<lambda>c. c \<noteq> TAB) line) of [] \<Rightarrow> False | c # _ \<Rightarrow> c \<noteq> CHR ''#'')"

text \<open>The body of the loop. \<open>diagnose\<close> says that the caller wants the number of invalid lines; the
  state is the list of repositories and that number.\<close>

definition load_line ::
  "(string \<Rightarrow> string option) \<Rightarrow> bool \<Rightarrow> string \<Rightarrow> repository list \<times> nat \<Rightarrow> repository list \<times> nat" where
  "load_line full_path diagnose line st =
     (case st of (repositories, invalid) \<Rightarrow>
      (case parse_entry line of
         Some (prio, locator, allow_http) \<Rightarrow>
           (case repository_normalize full_path PATH_SIZE (Some locator) of
              None \<Rightarrow> (repositories, if diagnose then invalid + 1 else invalid)
            | Some normalized \<Rightarrow>
                if \<not> is_web_repository locator \<and> \<not> strieq locator normalized
                then (repositories, if diagnose then invalid + 1 else invalid)
                else if length repositories = MAX_REPOSITORIES then (repositories, invalid + 1)
                else (repositories @ [\<lparr>url = normalized, priority = prio,
                        order = length repositories, allow_insecure_http = allow_http\<rparr>], invalid))
       | None \<Rightarrow>
           (repositories, if diagnose \<and> counts_as_invalid line then invalid + 1 else invalid)))"

fun load_loop ::
  "(string \<Rightarrow> string option) \<Rightarrow> bool \<Rightarrow> string list \<Rightarrow> repository list \<times> nat \<Rightarrow> repository list \<times> nat" where
  "load_loop full_path diagnose [] st = st"
| "load_loop full_path diagnose (line # lines) st =
     (if \<not> diagnose \<and> length (fst st) \<ge> MAX_REPOSITORIES then st
      else load_loop full_path diagnose lines (load_line full_path diagnose line st))"

definition add_default :: "repository list \<Rightarrow> repository list" where
  "add_default repositories =
     (if list_ex (\<lambda>r. strieq (url r) WPM_DEFAULT_REPOSITORY) repositories then repositories
      else if length repositories < MAX_REPOSITORIES then
        repositories @ [\<lparr>url = WPM_DEFAULT_REPOSITORY, priority = 0,
                         order = length repositories, allow_insecure_http = False\<rparr>]
      else repositories)"

text \<open>\<open>exists\<close> says that a file that could not be opened is there.\<close>

definition load_repositories ::
  "(string \<Rightarrow> string option) \<Rightarrow> bool \<Rightarrow> bool \<Rightarrow> string option \<Rightarrow> repository list \<times> nat" where
  "load_repositories full_path diagnose exists content =
     (case content of
        Some text \<Rightarrow>
          (case load_loop full_path diagnose (text_lines LINE_SIZE text) ([], 0) of
             (repositories, invalid) \<Rightarrow> (add_default repositories, invalid))
      | None \<Rightarrow> (add_default [], if diagnose \<and> exists then 1 else 0))"

subsection \<open>Adding and removing\<close>

definition entry_for :: "string \<Rightarrow> string \<Rightarrow> bool" where
  "entry_for wanted line =
     (case parse_entry line of None \<Rightarrow> False | Some (_, locator, _) \<Rightarrow> strieq locator wanted)"

text \<open>The new content and the result of \<open>rewrite\<close>, when the temporary file could be written and moved.
  On a failed removal the unchanged copy replaces the file.\<close>

definition rewrite :: "string \<Rightarrow> int \<Rightarrow> bool \<Rightarrow> bool \<Rightarrow> string option \<Rightarrow> string \<times> bool" where
  "rewrite wanted prio allow_http remove_entry content =
     (case rewrite_lines LINE_SIZE (entry_for wanted)
             (if remove_entry then None else Some (write_entry prio wanted allow_http))
             (case content of None \<Rightarrow> [] | Some text \<Rightarrow> text) of
        (out, found) \<Rightarrow> (out, \<not> (remove_entry \<and> \<not> found)))"

text \<open>The commands: the new content of the file (\<open>None\<close> when it is not touched) and the result.\<close>

definition wpm_repo_add ::
  "(string \<Rightarrow> string option) \<Rightarrow> string option \<Rightarrow> int \<Rightarrow> bool \<Rightarrow> string option \<Rightarrow> string option \<times> bool" where
  "wpm_repo_add full_path locator prio insecure content =
     (case repository_normalize full_path PATH_SIZE locator of
        None \<Rightarrow> (None, False)
      | Some normalized \<Rightarrow>
          if is_http_repository normalized \<and> \<not> insecure then (None, False)
          else if \<not> is_http_repository normalized \<and> insecure then (None, False)
          else (case rewrite normalized prio insecure False content of
                  (out, ok) \<Rightarrow> (Some out, ok)))"

definition wpm_repo_remove ::
  "(string \<Rightarrow> string option) \<Rightarrow> string option \<Rightarrow> string option \<Rightarrow> string option \<times> bool" where
  "wpm_repo_remove full_path locator content =
     (case (case repository_normalize full_path PATH_SIZE locator of
              Some normalized \<Rightarrow> Some normalized
            | None \<Rightarrow>
                (case locator of
                   None \<Rightarrow> None
                 | Some given \<Rightarrow>
                     if given = [] \<or> strstr ''://'' given \<noteq> None \<or> set given \<inter> {TAB, CR, LF} \<noteq> {}
                     then None else Some given)) of
        None \<Rightarrow> (None, False)
      | Some wanted \<Rightarrow>
          (case rewrite wanted 0 False True content of (out, ok) \<Rightarrow> (Some out, ok)))"

text \<open>One line of \<open>wpm_repo_list\<close>.\<close>

definition list_line :: "repository \<Rightarrow> string" where
  "list_line r = signed_decimal (priority r) @ [TAB] @ url r
     @ (if allow_insecure_http r then TAB # ''[insecure HTTP allowed]'' else []) @ [LF]"

definition wpm_repo_list :: "(string \<Rightarrow> string option) \<Rightarrow> string option \<Rightarrow> string" where
  "wpm_repo_list full_path content =
     (case fst (load_repositories full_path False False content) of
        [] \<Rightarrow> ''No repositories configured.'' @ [LF]
      | rs \<Rightarrow> concat (map list_line rs))"

subsection \<open>Round trip of one line\<close>

text \<open>What \<open>rewrite\<close> is called with: a priority of type \<open>int\<close> and a locator of one field.\<close>

definition entry_ok :: "int \<times> string \<times> bool \<Rightarrow> bool" where
  "entry_ok k = (case k of (prio, locator, allow_http) \<Rightarrow>
     LONG_MIN \<le> prio \<and> prio \<le> LONG_MAX \<and> locator \<noteq> [] \<and> set locator \<inter> {TAB, CR, LF} = {}
     \<and> length locator < PATH_SIZE - 16 \<and> (is_http_repository locator \<longrightarrow> allow_http))"

lemma is_space_digit: "is_digit c \<Longrightarrow> \<not> is_space c \<and> c \<noteq> CHR ''-'' \<and> c \<noteq> CHR ''+'' \<and> c \<noteq> TAB \<and> c \<noteq> LF"
  by (auto simp: is_space_def is_digit_def)

lemma decimal_Cons: "\<exists>c d. decimal n = c # d \<and> is_digit c \<and> list_all is_digit d"
  using decimal_digits [of n] by (cases "decimal n") auto

lemma strtol_decimal:
  "LONG_MIN \<le> i \<Longrightarrow> i \<le> LONG_MAX \<Longrightarrow> strtol10 (signed_decimal i) = (i, [])"
proof -
  assume range: "LONG_MIN \<le> i" "i \<le> LONG_MAX"
  define n where "n = nat (if i < 0 then - i else i)"
  then have n: "i = (if i < 0 then - int n else int n)" "n = nat (if i < 0 then - i else i)" by auto
  obtain c d where c: "decimal n = c # d" "is_digit c" "list_all is_digit d"
    using decimal_Cons by blast
  have t: "takeWhile is_digit d = d"
    using takeWhile_digits [of d "[]"] c by simp
  have v: "dec_value (c # d) = n" using c(1) dec_value_decimal [of n] by simp
  have "signed_decimal i = (if i < 0 then CHR ''-'' # c # d else c # d)"
    using n c(1) by (cases "i < 0") (simp_all add: signed_decimal_def)
  moreover have "\<not> is_space (CHR ''-'')" by (simp add: is_space_def)
  ultimately show ?thesis
    using c is_space_digit [OF c(2)] n range t v
    by (auto simp: strtol10_def Let_def list_all_iff simp del: takeWhile_eq_all_conv)
qed

lemma signed_decimal_chars: "c \<in> set (signed_decimal i) \<Longrightarrow> is_digit c \<or> c = CHR ''-''"
  using decimal_digits [of "nat (- i)"] decimal_digits [of "nat i"]
  by (auto simp: signed_decimal_def list_all_iff split: if_splits)

lemma takeWhile_stop: "x \<notin> set a \<Longrightarrow> takeWhile (\<lambda>c. c \<noteq> x) (a @ x # b) = a"
  "x \<notin> set a \<Longrightarrow> dropWhile (\<lambda>c. c \<noteq> x) (a @ x # b) = x # b"
  by (induction a) auto

lemma chomp_line: "set a \<inter> {CR, LF} = {} \<Longrightarrow> chomp (a @ [LF]) = a"
  by (induction a) (auto simp: chomp_def)

lemma http_option_chars: "set http_option \<inter> {TAB, CR, LF} = {}"
  by (simp add: http_option_def)

lemma parse_write:
  assumes "entry_ok (prio, locator, allow_http)"
  shows "parse_entry (write_entry prio locator allow_http) = Some (prio, locator, allow_http)"
proof -
  define body where "body = locator @ (if allow_http then TAB # http_option else [])"
  have line: "write_entry prio locator allow_http = signed_decimal prio @ TAB # body @ [LF]"
    by (simp add: write_entry_def body_def)
  have tab: "TAB \<notin> set (signed_decimal prio)"
    using signed_decimal_chars [of TAB prio] by (auto simp: is_digit_def)
  have ok: "LONG_MIN \<le> prio" "prio \<le> LONG_MAX" "locator \<noteq> []" "set locator \<inter> {TAB, CR, LF} = {}"
    "is_http_repository locator \<longrightarrow> allow_http"
    using assms by (auto simp: entry_ok_def)
  have "chomp (body @ [LF]) = body"
    using ok http_option_chars by (intro chomp_line) (auto simp: body_def)
  moreover have "takeWhile (\<lambda>c. c \<noteq> TAB) body = locator
      \<and> dropWhile (\<lambda>c. c \<noteq> TAB) body = (if allow_http then TAB # http_option else [])"
  proof (cases allow_http)
    case True
    then show ?thesis using ok takeWhile_stop [of TAB locator http_option] by (auto simp: body_def)
  next
    case False
    have "\<forall>c \<in> set locator. c \<noteq> TAB" using ok by auto
    with False show ?thesis by (simp add: body_def)
  qed
  moreover have "\<not> allow_http \<Longrightarrow> TAB \<notin> set body" using ok by (auto simp: body_def)
  ultimately show ?thesis
    unfolding line parse_entry_def
    using ok tab strtol_decimal [of prio]
    by (simp add: strchr_append takeWhile_stop Let_def)
qed

text \<open>Reading back a line that the program wrote gives the same priority, locator and flag.\<close>

theorem entry_round_trip:
  "entry_ok (prio, locator, allow_http)
     \<Longrightarrow> parse_entry (write_entry prio locator allow_http) = Some (prio, locator, allow_http)"
  by (rule parse_write)

lemma example_entry_ok: "entry_ok (-5, ''http://h/r'', True)"
  by (simp add: entry_ok_def LONG_MIN_def LONG_MAX_def PATH_SIZE_def)

theorem entry_round_trip_witness:
  "parse_entry (write_entry (-5) ''http://h/r'' True) = Some (-5, ''http://h/r'', True)"
  using entry_round_trip [OF example_entry_ok] .

subsection \<open>The file after a command\<close>

definition render_entry :: "int \<times> string \<times> bool \<Rightarrow> string" where
  "render_entry k = (case k of (prio, locator, allow_http) \<Rightarrow> write_entry prio locator allow_http)"

definition matches_entry :: "int \<times> string \<times> bool \<Rightarrow> string \<Rightarrow> bool" where
  "matches_entry k = entry_for (fst (snd k))"

lemma decimal_length: "n < 10 ^ k \<Longrightarrow> 0 < k \<Longrightarrow> length (decimal n) \<le> k"
proof (induction k arbitrary: n)
  case (Suc k)
  show ?case
  proof (cases "n < 10")
    case True
    then show ?thesis by (subst decimal.simps) simp
  next
    case False
    with Suc.prems have "n div 10 < 10 ^ k" "0 < k"
      by (auto simp: div_less_iff_less_mult mult.commute intro: gr0I)
    with Suc.IH [of "n div 10"] False show ?thesis by (subst decimal.simps) simp
  qed
qed simp

lemma signed_decimal_length:
  assumes "LONG_MIN \<le> i" "i \<le> LONG_MAX" shows "length (signed_decimal i) \<le> 11"
proof -
  have "nat (- i) < 10 ^ 10" "nat i < 10 ^ 10" using assms by (auto simp: LONG_MIN_def LONG_MAX_def)
  with decimal_length [of _ 10] have "length (decimal (nat (- i))) \<le> 10" "length (decimal (nat i)) \<le> 10"
    by auto
  then show ?thesis by (simp add: signed_decimal_def)
qed

lemma write_entry_line:
  assumes "entry_ok (prio, locator, allow_http)"
  shows "full_line LINE_SIZE (write_entry prio locator allow_http)"
proof -
  have ok: "LONG_MIN \<le> prio" "prio \<le> LONG_MAX" "set locator \<inter> {TAB, CR, LF} = {}"
    "length locator < PATH_SIZE - 16"
    using assms by (auto simp: entry_ok_def)
  have "LF \<notin> set (signed_decimal prio)"
    using signed_decimal_chars [of LF prio] by (auto simp: is_digit_def)
  with ok signed_decimal_length [OF ok(1,2)] show ?thesis
    by (auto simp: full_line_split write_entry_def http_option_def LINE_SIZE_def PATH_SIZE_def)
qed

interpretation repo_lines: line_format LINE_SIZE entry_ok matches_entry render_entry
proof
  fix k :: "int \<times> string \<times> bool"
  obtain prio locator allow_http where k: "k = (prio, locator, allow_http)" by (cases k)
  assume ok: "entry_ok k"
  then show "full_line LINE_SIZE (render_entry k)"
    using write_entry_line k by (simp add: render_entry_def)
  show "matches_entry k (render_entry k)"
    using parse_write ok k by (simp add: matches_entry_def render_entry_def entry_for_def)
qed

definition content_text :: "string option \<Rightarrow> string" where
  "content_text content = (case content of None \<Rightarrow> [] | Some s \<Rightarrow> s)"

text \<open>The lines of a file that are entries for another locator or no entries.\<close>

definition other_lines :: "string \<Rightarrow> string \<Rightarrow> string list" where
  "other_lines wanted text = filter (\<lambda>l. \<not> entry_for wanted l) (text_lines LINE_SIZE text)"

lemma rewrite_add:
  assumes ok: "entry_ok (prio, n, insecure)" and c: "complete_text LINE_SIZE (content_text content)"
    and out: "rewrite n prio insecure False content = (out, r)"
  shows "r" "complete_text LINE_SIZE out" "other_lines n out = other_lines n (content_text content)"
    and "\<exists>l \<in> set (text_lines LINE_SIZE out). parse_entry l = Some (prio, n, insecure)"
    and "\<forall>l \<in> set (text_lines LINE_SIZE out). entry_for n l \<longrightarrow> parse_entry l = Some (prio, n, insecure)"
proof -
  have m: "matches_entry (prio, n, insecure) = entry_for n" by (simp add: matches_entry_def)
  have line: "render_entry (prio, n, insecure) = write_entry prio n insecure" by (simp add: render_entry_def)
  have o: "out = fst (rewrite_lines LINE_SIZE (entry_for n) (Some (write_entry prio n insecure))
      (content_text content))" "r"
    using out by (auto simp: rewrite_def content_text_def split: prod.splits)
  note set = repo_lines.set_complete [OF ok c] repo_lines.set_others [OF ok c]
    repo_lines.set_matching [OF ok c]
  show "r" by (rule o)
  show "complete_text LINE_SIZE out" "other_lines n out = other_lines n (content_text content)"
    using set(1,2) unfolding m line by (simp_all add: o other_lines_def)
  show "\<exists>l \<in> set (text_lines LINE_SIZE out). parse_entry l = Some (prio, n, insecure)"
    using set(3) parse_write [OF ok] unfolding m line by (auto simp: o)
  show "\<forall>l \<in> set (text_lines LINE_SIZE out). entry_for n l \<longrightarrow> parse_entry l = Some (prio, n, insecure)"
    using set(4) parse_write [OF ok] unfolding m line by (auto simp: o)
qed

lemma repo_add_eq:
  "repository_normalize full_path PATH_SIZE locator = Some n \<Longrightarrow> is_http_repository n = insecure
    \<Longrightarrow> wpm_repo_add full_path locator prio insecure content
      = (Some (fst (rewrite n prio insecure False content)), snd (rewrite n prio insecure False content))"
  by (simp add: wpm_repo_add_def case_prod_beta)

lemma repo_remove_eq:
  "repository_normalize full_path PATH_SIZE locator = Some n
    \<Longrightarrow> wpm_repo_remove full_path locator content
      = (Some (fst (rewrite n 0 False True content)), snd (rewrite n 0 False True content))"
  by (simp add: wpm_repo_remove_def case_prod_beta)


text \<open>After a successful \<open>repo remove\<close> no line of the file is an entry for the locator, and all
  other lines are unchanged and in order.\<close>

theorem repo_remove_effective:
  assumes "repository_normalize full_path PATH_SIZE locator = Some n"
    and "complete_text LINE_SIZE (content_text content)"
    and "wpm_repo_remove full_path locator content = (Some out, r)"
  shows "text_lines LINE_SIZE out = other_lines n (content_text content)
     \<and> \<not> list_ex (entry_for n) (text_lines LINE_SIZE out)
     \<and> r = list_ex (entry_for n) (text_lines LINE_SIZE (content_text content))"
proof -
  have o: "out = fst (rewrite_lines LINE_SIZE (entry_for n) None (content_text content))"
    "r = snd (rewrite_lines LINE_SIZE (entry_for n) None (content_text content))"
    using assms(3) unfolding repo_remove_eq [OF assms(1)]
    by (simp_all add: rewrite_def content_text_def case_prod_beta del: rewrite_found)
  have m: "matches_entry (0, n, False) = entry_for n" by (simp add: matches_entry_def)
  have "text_lines LINE_SIZE out = other_lines n (content_text content)"
    using repo_lines.remove_lines [OF assms(2), of "(0, n, False)"] unfolding m o(1) other_lines_def .
  then show ?thesis using o(2) by (auto simp: other_lines_def list_ex_iff)
qed

lemma example_file:
  "complete_text LINE_SIZE (content_text (Some (concat [''0'' @ [TAB] @ ''https://a'' @ [LF], ''# note'' @ [LF]])))"
  unfolding content_text_def option.case
  by (intro complete_text_concat) (simp add: full_line_def LINE_SIZE_def PATH_SIZE_def)

lemma example_normalize:
  "repository_normalize full_path PATH_SIZE (Some ''https://a'') = Some ''https://a''"
  by (simp add: repository_normalize_def normalize_web_def web_locator_valid_def PATH_SIZE_def
      is_web_repository_def is_https_repository_def strnieq_def scheme_length_def
      trim_trailing.simps)


theorem repo_remove_effective_witness:
  "\<exists>out. fst (wpm_repo_remove (\<lambda>_. None) (Some ''https://a'')
      (Some (concat [''0'' @ [TAB] @ ''https://a'' @ [LF], ''# note'' @ [LF]]))) = Some out
    \<and> \<not> list_ex (entry_for ''https://a'') (text_lines LINE_SIZE out)"
proof -
  let ?c = "Some (concat [''0'' @ [TAB] @ ''https://a'' @ [LF], ''# note'' @ [LF]])"
  note o = repo_remove_eq [OF example_normalize, of "\<lambda>_. None" ?c]
  from repo_remove_effective [OF example_normalize example_file o] show ?thesis
    unfolding o by auto
qed

subsection \<open>What the loader returns\<close>

definition config_ok :: "repository list \<Rightarrow> bool" where
  "config_ok rs \<longleftrightarrow> length rs \<le> MAX_REPOSITORIES \<and> (\<forall>i < length rs. order (rs ! i) = i)
     \<and> (\<forall>r \<in> set rs. length (url r) < PATH_SIZE
          \<and> (web_locator (url r) \<or> drive_locator (url r) \<or> unc_locator (url r)))"

lemma load_line_ok:
  assumes "config_ok (fst st)"
  shows "config_ok (fst (load_line full_path diagnose line st))"
proof (cases "fst (load_line full_path diagnose line st) = fst st")
  case True
  with assms show ?thesis by simp
next
  case False
  obtain rs invalid where st: "st = (rs, invalid)" by (cases st)
  from False obtain locator n prio allow where
    "repository_normalize full_path PATH_SIZE (Some locator) = Some n" "length rs \<noteq> MAX_REPOSITORIES"
    "fst (load_line full_path diagnose line st)
       = rs @ [\<lparr>url = n, priority = prio, order = length rs, allow_insecure_http = allow\<rparr>]"
    unfolding st load_line_def by (auto split: option.splits prod.splits if_splits)
  with assms normalize_shape show ?thesis
    by (fastforce simp: st config_ok_def nth_append less_Suc_eq)
qed

lemma load_loop_ok: "config_ok (fst st) \<Longrightarrow> config_ok (fst (load_loop full_path diagnose lines st))"
  by (induction full_path diagnose lines st rule: load_loop.induct) (simp_all add: load_line_ok)

lemma default_locator: "web_locator WPM_DEFAULT_REPOSITORY" "length WPM_DEFAULT_REPOSITORY < PATH_SIZE"
  by (simp_all add: WPM_DEFAULT_REPOSITORY_def web_locator_def web_locator_valid_def PATH_SIZE_def
      is_web_repository_def is_https_repository_def strnieq_def scheme_length_def)

lemma load_repositories_ok:
  "let rs = fst (load_repositories full_path diagnose exists content) in
     config_ok rs \<and> (list_ex (\<lambda>r. strieq (url r) WPM_DEFAULT_REPOSITORY) rs
                       \<or> length rs = MAX_REPOSITORIES)"
proof -
  have add: "config_ok (add_default rs) \<and> (list_ex (\<lambda>r. strieq (url r) WPM_DEFAULT_REPOSITORY) (add_default rs)
      \<or> length (add_default rs) = MAX_REPOSITORIES)" if "config_ok rs" for rs
    using that default_locator by (auto simp: add_default_def config_ok_def nth_append less_Suc_eq)
  have nil: "config_ok []" by (simp add: config_ok_def)
  show ?thesis
  proof (cases content)
    case None
    with add [OF nil] show ?thesis by (simp add: load_repositories_def)
  next
    case (Some s)
    have "config_ok (fst (load_loop full_path diagnose (text_lines LINE_SIZE s) ([], 0)))"
      using load_loop_ok [of "([], 0)"] nil by simp
    from add [OF this] Some show ?thesis by (simp add: load_repositories_def case_prod_beta)
  qed
qed

lemma load_repositories_config: "config_ok (fst (load_repositories full_path diagnose exists content))"
  using load_repositories_ok by (metis (mono_tags, lifting))

text \<open>Whatever the file holds, the loader returns at most 32 repositories, numbered by position,
  each with a locator in normal form that fits its buffer, and the built-in repository is among
  them unless 32 others are configured.\<close>

theorem load_repositories_wf:
  "let rs = fst (load_repositories full_path diagnose exists content) in
     config_ok rs \<and> (list_ex (\<lambda>r. strieq (url r) WPM_DEFAULT_REPOSITORY) rs
                       \<or> length rs = MAX_REPOSITORIES)"
  by (rule load_repositories_ok)

text \<open>A last line without its newline, as an editor may leave it: the copy loop writes it unchanged and
  the new entry is appended to the same line, so that neither of the two is an entry any more.\<close>

theorem add_after_unterminated_line:
  "let out = fst (rewrite ''https://b'' 1 False False (Some (''0'' @ [TAB] @ ''https://a''))) in
     out = ''0'' @ [TAB] @ ''https://a1'' @ [TAB] @ ''https://b'' @ [LF]
   \<and> list_all (\<lambda>l. parse_entry l = None) (text_lines LINE_SIZE out)"
proof -
  have a: "text_lines LINE_SIZE (''0'' @ [TAB] @ ''https://a'') = [''0'' @ [TAB] @ ''https://a'']"
    by (simp add: text_lines.simps chunk_def LINE_SIZE_def PATH_SIZE_def)
  have "\<not> entry_for ''https://b'' (''0'' @ [TAB] @ ''https://a'')"
    by (simp add: entry_for_def parse_entry_def strtol10_def Let_def chomp_def is_space_def is_digit_def
        digit_val_def strieq_def lower_def to_lower_def is_upper_def)
  moreover have "signed_decimal 1 = ''1''"
    using decimal_dec_value [of "''1''"]
    by (simp add: signed_decimal_def canonical_digits_def is_digit_def dec_value_def digit_val_def)
  ultimately have out: "fst (rewrite ''https://b'' 1 False False (Some (''0'' @ [TAB] @ ''https://a'')))
      = ''0'' @ [TAB] @ ''https://a1'' @ [TAB] @ ''https://b'' @ [LF]"
    using a by (simp add: rewrite_def rewrite_lines_def write_entry_def)
  have "text_lines LINE_SIZE (''0'' @ [TAB] @ ''https://a1'' @ [TAB] @ ''https://b'' @ [LF])
      = [''0'' @ [TAB] @ ''https://a1'' @ [TAB] @ ''https://b'' @ [LF]]"
    by (simp add: text_lines.simps chunk_def LINE_SIZE_def PATH_SIZE_def)
  moreover have "parse_entry (''0'' @ [TAB] @ ''https://a1'' @ [TAB] @ ''https://b'' @ [LF]) = None"
    by (simp add: parse_entry_def strtol10_def Let_def chomp_def is_space_def is_digit_def
        digit_val_def http_option_def)
  ultimately show ?thesis unfolding Let_def out by simp
qed

end
