(* ===== verification/Prerelease.thy ===== *)
theory Prerelease
  imports Config_Text
begin

text \<open>
  The prerelease preference \<open>config/prerelease.txt\<close> (\<open>wpm/repository.c\<close>, 3198-3335): one global
  line and one line per package that overrides it. A package is \<open>None\<close> for the global setting; the
  content of the file is \<open>None\<close> when it cannot be opened.
\<close>

definition PRE_LINE :: nat where "PRE_LINE = 512"

definition is_global :: "string \<Rightarrow> bool" where
  "is_global line = strnieq 7 line ''global=''"

text \<open>The parts of a line before and after its first tab.\<close>

definition tab_split :: "string \<Rightarrow> (string \<times> string) option" where
  "tab_split line =
     (case strchr TAB line of None \<Rightarrow> None | Some tab \<Rightarrow> Some (takeWhile (\<lambda>c. c \<noteq> TAB) line, tl tab))"

text \<open>The loop over the lines: the global value and the last override of the package.\<close>

definition effective_line :: "string option \<Rightarrow> string \<Rightarrow> bool \<times> bool option \<Rightarrow> bool \<times> bool option" where
  "effective_line package raw st =
     (let line = chomp raw in
      case st of (global, value) \<Rightarrow>
        if is_global line then (strieq (drop 7 line) ''true'', value)
        else (case tab_split line of
                None \<Rightarrow> (global, value)
              | Some (name, setting) \<Rightarrow>
                  (case package of
                     None \<Rightarrow> (global, value)
                   | Some p \<Rightarrow> if strieq name p then (global, Some (strieq setting ''true''))
                              else (global, value))))"

text \<open>The value and whether it is an override.\<close>

definition prerelease_effective :: "string option \<Rightarrow> string option \<Rightarrow> bool \<times> bool" where
  "prerelease_effective package content =
     (case content of
        None \<Rightarrow> (False, False)
      | Some text \<Rightarrow>
          (case fold (effective_line package) (text_lines PRE_LINE text) (False, None) of
             (global, None) \<Rightarrow> (global, False)
           | (global, Some value) \<Rightarrow> (value, True)))"

definition bool_text :: "bool \<Rightarrow> string" where
  "bool_text enabled = (if enabled then ''true'' else ''false'')"

definition setting_line :: "string option \<times> bool \<Rightarrow> string" where
  "setting_line k =
     (case k of
        (None, enabled) \<Rightarrow> ''global='' @ bool_text enabled @ [LF]
      | (Some package, enabled) \<Rightarrow> package @ [TAB] @ bool_text enabled @ [LF])"

definition setting_matches :: "string option \<Rightarrow> string \<Rightarrow> bool" where
  "setting_matches package raw =
     (let line = chomp raw in
      case package of
        None \<Rightarrow> is_global line
      | Some p \<Rightarrow> (case tab_split line of None \<Rightarrow> False | Some (name, _) \<Rightarrow> strieq name p))"

text \<open>The new content and the result, when the temporary file could be written and moved.\<close>

definition rewrite_prerelease ::
  "string option \<Rightarrow> bool \<Rightarrow> bool \<Rightarrow> string option \<Rightarrow> string \<times> bool" where
  "rewrite_prerelease package enabled remove_setting content =
     (case rewrite_lines PRE_LINE (setting_matches package)
             (if remove_setting then None else Some (setting_line (package, enabled)))
             (case content of None \<Rightarrow> [] | Some text \<Rightarrow> text) of
        (out, found) \<Rightarrow> (out, \<not> remove_setting \<or> found))"

definition wpm_config_prerelease_set :: "string option \<Rightarrow> bool \<Rightarrow> string option \<Rightarrow> string \<times> bool" where
  "wpm_config_prerelease_set package enabled content = rewrite_prerelease package enabled False content"

text \<open>The result of \<open>unset\<close>: the new content, \<open>None\<close> when the file is not touched.\<close>

definition wpm_config_prerelease_unset :: "string option \<Rightarrow> string option \<Rightarrow> string option \<times> bool" where
  "wpm_config_prerelease_unset package content =
     (case package of
        None \<Rightarrow> (None, False)
      | Some p \<Rightarrow> (case rewrite_prerelease (Some p) False True content of (out, ok) \<Rightarrow> (Some out, ok)))"

text \<open>The line that \<open>get\<close> prints.\<close>

definition wpm_config_prerelease_get :: "string option \<Rightarrow> string option \<Rightarrow> string" where
  "wpm_config_prerelease_get package content =
     (case prerelease_effective package content of
        (value, overridden) \<Rightarrow>
          ''prerelease='' @ bool_text value @ '' ('' @
          (if package \<noteq> None \<and> overridden then ''package override'' else ''global setting'') @
          '')'' @ [LF])"

subsection \<open>The format of the lines\<close>

text \<open>Names for which a line can be written: no separators, not read as the global line, and short
  enough for the buffer.\<close>

definition setting_ok :: "string option \<times> bool \<Rightarrow> bool" where
  "setting_ok k = (case fst k of
     None \<Rightarrow> True
   | Some p \<Rightarrow> set p \<inter> {TAB, CR, LF} = {} \<and> \<not> is_global (p @ [TAB]) \<and> length p < 500)"

lemma chomp_full: "set a \<inter> {CR, LF} = {} \<Longrightarrow> chomp (a @ [LF]) = a"
  by (induction a) (auto simp: chomp_def)

lemma bool_text_chars: "set (bool_text b) \<inter> {TAB, CR, LF} = {}" "length (bool_text b) \<le> 5"
  by (simp_all add: bool_text_def)

lemma tab_split_stop: "TAB \<notin> set a \<Longrightarrow> tab_split (a @ TAB # b) = Some (a, b)"
proof -
  assume "TAB \<notin> set a"
  then have "takeWhile (\<lambda>c. c \<noteq> TAB) (a @ TAB # b) = a" "strchr TAB (a @ TAB # b) = Some (TAB # b)"
    by (induction a) auto
  then show ?thesis by (simp add: tab_split_def)
qed

lemma setting_chomp:
  "chomp (setting_line (None, e)) = ''global='' @ bool_text e"
  "set p \<inter> {TAB, CR, LF} = {} \<Longrightarrow> chomp (setting_line (Some p, e)) = p @ TAB # bool_text e"
  using chomp_full [of "''global='' @ bool_text e"] chomp_full [of "p @ TAB # bool_text e"]
    bool_text_chars(1) [of e]
  by (auto simp: setting_line_def)

lemma is_global_simps: "is_global (''global='' @ s)"
  by (simp add: is_global_def strnieq_def)

interpretation prerelease_lines: line_format PRE_LINE setting_ok "\<lambda>k. setting_matches (fst k)" setting_line
proof
  fix k :: "string option \<times> bool"
  assume ok: "setting_ok k"
  show "full_line PRE_LINE (setting_line k)"
    using ok bool_text_chars [of "snd k"]
    by (cases k; cases "fst k") (auto simp: full_line_split setting_line_def setting_ok_def PRE_LINE_def)
  show "setting_matches (fst k) (setting_line k)"
  proof (cases "fst k")
    case None
    then obtain e where "k = (None, e)" by (cases k) auto
    then show ?thesis by (simp add: setting_matches_def setting_chomp(1) is_global_simps [simplified])
  next
    case (Some p)
    then obtain e where k: "k = (Some p, e)" by (cases k) auto
    with ok have "set p \<inter> {TAB, CR, LF} = {}" by (simp add: setting_ok_def)
    with k show ?thesis by (auto simp: setting_matches_def setting_chomp(2) tab_split_stop)
  qed
qed

subsection \<open>Reading what was written\<close>

lemma lower_take: "lower (take n s) = take n (lower s)"
  by (simp add: lower_def take_map)

lemma tab_split_Some: "tab_split line = Some (a, b) \<Longrightarrow> line = a @ TAB # b \<and> TAB \<notin> set a"
proof -
  assume t: "tab_split line = Some (a, b)"
  then obtain tab where tab: "strchr TAB line = Some tab" by (auto simp: tab_split_def split: option.splits)
  then obtain x r where x: "line = x @ TAB # r" "TAB \<notin> set x" using strchr_Some by blast
  with t tab_split_stop [of x r] show ?thesis by simp
qed

lemma name_not_global:
  assumes "setting_ok (Some p, e)" "strieq name p" "tab_split line = Some (name, setting)"
  shows "\<not> is_global line"
proof -
  have line: "line = name @ TAB # setting" "TAB \<notin> set name"
    using tab_split_Some [OF assms(3)] by simp_all
  have "lower (take 7 (name @ [TAB])) = lower (take 7 (p @ [TAB]))"
    using assms(2) strieq_length [OF assms(2)] by (simp add: lower_take strieq_def)
  with assms(1) have no: "\<not> is_global (name @ [TAB])"
    by (simp add: setting_ok_def is_global_def strnieq_def)
  show ?thesis
  proof (cases "length name \<ge> 6")
    case True
    then have "take 7 line = take 7 (name @ [TAB])" unfolding line by (cases "length name = 6") auto
    with no show ?thesis by (simp add: is_global_def strnieq_def)
  next
    case False
    have "\<not> lower (take 7 line) = ''global=''"
    proof
      assume eq: "lower (take 7 line) = ''global=''"
      have "to_lower TAB = TAB" by (simp add: to_lower_def is_upper_def)
      moreover have "take 7 line = name @ TAB # take (6 - length name) setting"
        using False unfolding line(1) by (simp add: take_Cons')
      ultimately have "TAB \<in> set (lower (take 7 line))" by (simp add: lower_def)
      with eq show False by simp
    qed
    then show ?thesis by (simp add: is_global_def strnieq_def lower_def to_lower_def is_upper_def)
  qed
qed

text \<open>What one line does, by its kind.\<close>

lemma effective_match:
  assumes "setting_ok (Some p, e)"
  shows "effective_line (Some p) (setting_line (Some p, e)) (g, v) = (g, Some e)"
proof -
  have p: "set p \<inter> {TAB, CR, LF} = {}" using assms by (simp add: setting_ok_def)
  have t: "tab_split (p @ TAB # bool_text e) = Some (p, bool_text e)"
    using p by (intro tab_split_stop) auto
  have "\<not> is_global (p @ TAB # bool_text e)" by (rule name_not_global [OF assms strieq_refl t])
  moreover have "strieq (bool_text e) ''true'' = e"
    by (simp add: bool_text_def strieq_def lower_def to_lower_def is_upper_def)
  ultimately show ?thesis using t by (simp add: effective_line_def setting_chomp(2) [OF p])
qed

lemma effective_other:
  "\<not> setting_matches (Some p) l \<Longrightarrow> snd (effective_line (Some p) l st) = snd st"
  by (cases st) (auto simp: effective_line_def setting_matches_def Let_def split: option.splits)

lemma effective_line_fst:
  "fst (effective_line package l st)
     = (if is_global (chomp l) then strieq (drop 7 (chomp l)) ''true'' else fst st)"
proof (cases "is_global (chomp l)")
  case True
  then show ?thesis by (cases st) (simp add: effective_line_def)
next
  case False
  then show ?thesis
    by (cases st; cases "tab_split (chomp l)"; cases package)
      (simp_all add: effective_line_def case_prod_beta)
qed

lemma effective_global_independent:
  "fst (effective_line package l st) = fst (effective_line None l st')" if "fst st = fst st'"
  using that by (simp add: effective_line_fst)

lemma fold_global_independent:
  "fst st = fst st' \<Longrightarrow> fst (fold (effective_line package) ls st) = fst (fold (effective_line None) ls st')"
proof (induction ls arbitrary: st st')
  case (Cons l ls)
  from Cons.IH [OF effective_global_independent [OF Cons.prems, of package l]] show ?case by simp
qed simp

lemma fold_override:
  assumes ok: "setting_ok (Some p, e)"
  shows "\<lbrakk> \<And>l. l \<in> set ls \<Longrightarrow> setting_matches (Some p) l \<Longrightarrow> l = setting_line (Some p, e);
     setting_line (Some p, e) \<in> set ls \<or> snd st = Some e \<rbrakk>
    \<Longrightarrow> snd (fold (effective_line (Some p)) ls st) = Some e"
proof (induction ls arbitrary: st)
  case (Cons l ls)
  have "setting_line (Some p, e) \<in> set ls \<or> snd (effective_line (Some p) l st) = Some e"
  proof (cases "setting_matches (Some p) l")
    case True
    with Cons.prems(1) [of l] effective_match [OF ok] show ?thesis by (cases st) simp
  next
    case False
    then have "snd (effective_line (Some p) l st) = snd st" by (rule effective_other)
    moreover have "l \<noteq> setting_line (Some p, e)"
      using False prerelease_lines.render_matches [OF ok] by auto
    ultimately show ?thesis using Cons.prems(2) by auto
  qed
  with Cons.IH [of "effective_line (Some p) l st"] Cons.prems(1) show ?case by simp
qed simp

lemma fold_no_override:
  "(\<And>l. l \<in> set ls \<Longrightarrow> \<not> setting_matches (Some p) l)
     \<Longrightarrow> snd (fold (effective_line (Some p)) ls st) = snd st"
  by (induction ls arbitrary: st) (simp_all add: effective_other)

lemma prerelease_effective_fold:
  "prerelease_effective package (Some text)
     = (case snd (fold (effective_line package) (text_lines PRE_LINE text) (False, None)) of
          None \<Rightarrow> (fst (fold (effective_line package) (text_lines PRE_LINE text) (False, None)), False)
        | Some value \<Rightarrow> (value, True))"
  by (simp add: prerelease_effective_def case_prod_beta split: option.splits)

lemma effective_fst:
  "fst (prerelease_effective None (Some text))
     = fst (fold (effective_line None) (text_lines PRE_LINE text) (False, None))"
proof -
  have "snd (effective_line None l st) = snd st" for l st
    by (cases st; cases "tab_split (chomp l)") (simp_all add: effective_line_def case_prod_beta Let_def)
  then have "snd (fold (effective_line None) ls st) = snd st" for ls st
    by (induction ls arbitrary: st) simp_all
  then show ?thesis by (simp add: prerelease_effective_fold)
qed

text \<open>After the preference of a package was set on a file of complete lines it is what the
  resolver reads for that package, as an override, however often the package stood in the file.\<close>

theorem prerelease_get_after_set:
  assumes "setting_ok (Some p, e)" "complete_text PRE_LINE (case content of None \<Rightarrow> [] | Some s \<Rightarrow> s)"
  shows "prerelease_effective (Some p) (Some (fst (wpm_config_prerelease_set (Some p) e content))) = (e, True)"
proof -
  let ?out = "fst (wpm_config_prerelease_set (Some p) e content)"
  have out: "?out = fst (rewrite_lines PRE_LINE (setting_matches (Some p)) (Some (setting_line (Some p, e)))
      (case content of None \<Rightarrow> [] | Some s \<Rightarrow> s))"
    by (simp add: wpm_config_prerelease_set_def rewrite_prerelease_def case_prod_beta)
  note set = prerelease_lines.set_matching [OF assms, unfolded fst_conv, folded out]
  have "snd (fold (effective_line (Some p)) (text_lines PRE_LINE ?out) (False, None)) = Some e"
    using set by (intro fold_override [OF assms(1)]) auto
  then show ?thesis by (simp add: prerelease_effective_fold)
qed

theorem prerelease_get_after_set_witness:
  "prerelease_effective (Some ''zlib'') (Some (fst (wpm_config_prerelease_set (Some ''zlib'') True None))) = (True, True)"
  by (rule prerelease_get_after_set) (simp_all add: setting_ok_def is_global_def strnieq_def lower_def
      to_lower_def is_upper_def complete_text_def)

text \<open>After the override of a package was removed the resolver uses the global setting for it, and
  the global setting is what it was.\<close>

theorem prerelease_get_after_unset:
  assumes ok: "setting_ok (Some p, e)" and c: "complete_text PRE_LINE text"
    and out: "wpm_config_prerelease_unset (Some p) (Some text) = (Some out, r)"
  shows "prerelease_effective (Some p) (Some out) = (fst (prerelease_effective None (Some text)), False)"
proof -
  have o: "out = fst (rewrite_lines PRE_LINE (setting_matches (Some p)) None text)"
    using out by (simp add: wpm_config_prerelease_unset_def rewrite_prerelease_def case_prod_beta)
  have lines: "text_lines PRE_LINE out = filter (\<lambda>l. \<not> setting_matches (Some p) l) (text_lines PRE_LINE text)"
    using prerelease_lines.remove_lines [OF c, of "(Some p, e)"] by (simp add: o)
  have keep: "fst (effective_line None l st) = fst st" if "setting_matches (Some p) l" for l st
    using that name_not_global [OF ok]
    by (cases st) (auto simp: setting_matches_def effective_line_def Let_def split: option.splits)
  have fold: "fst (fold (effective_line None) (filter (\<lambda>l. \<not> setting_matches (Some p) l) ls) st)
      = fst (fold (effective_line None) ls st')" if "fst st = fst st'" for ls st st'
    using that
  proof (induction ls arbitrary: st st')
    case (Cons l ls)
    show ?case
    proof (cases "setting_matches (Some p) l")
      case True
      with Cons.prems keep [OF True] Cons.IH [of st "effective_line None l st'"] show ?thesis by simp
    next
      case False
      with Cons effective_global_independent [of st st' None l] show ?thesis by simp
    qed
  qed simp
  let ?f = "fold (effective_line (Some p)) (text_lines PRE_LINE out) (False, None)"
  have "snd ?f = None"
    using fold_no_override [of "text_lines PRE_LINE out" p "(False, None)"] lines by simp
  moreover have "fst ?f = fst (prerelease_effective None (Some text))"
    unfolding effective_fst
    using fold_global_independent [of "(False, None)" "(False, None)" "Some p" "text_lines PRE_LINE out"]
      fold [of "(False, None)" "(False, None)" "text_lines PRE_LINE text"]
    by (simp add: lines)
  ultimately show ?thesis by (simp add: prerelease_effective_fold)
qed

theorem prerelease_get_after_unset_witness:
  "prerelease_effective (Some ''zlib'') (Some ([] :: string)) = (fst (prerelease_effective None (Some [])), False)"
proof (rule prerelease_get_after_unset)
  show "setting_ok (Some ''zlib'', False)"
    by (simp add: setting_ok_def is_global_def strnieq_def lower_def to_lower_def is_upper_def)
  show "complete_text PRE_LINE []" by (simp add: complete_text_def)
  show "wpm_config_prerelease_unset (Some ''zlib'') (Some []) = (Some [], False)"
    by (simp add: wpm_config_prerelease_unset_def rewrite_prerelease_def rewrite_lines_def)
qed

end
