(* ===== verification/Json_Object.thy ===== *)
theory Json_Object
  imports Json_Output
begin

text \<open>
  JSON objects as the program writes them, without blanks, and what the readers of
  \<open>json_input.c\<close> find in them: \<open>wpm_json_value_end\<close> skips exactly one value of the grammar, and
  \<open>wpm_json_unique_field\<close> returns the value of a member that occurs once. The index, the recovery
  records and the queries share these lemmas.
\<close>

subsection \<open>Skipping a value\<close>

text \<open>A byte that the loop outside a string passes over.\<close>

definition neutral :: "char \<Rightarrow> bool" where
  "neutral c \<longleftrightarrow> c \<noteq> DQUOTE \<and> c \<noteq> CHR ''{'' \<and> c \<noteq> CHR ''['' \<and> c \<noteq> CHR ''}'' \<and> c \<noteq> CHR '']'' \<and> c \<noteq> CHR '',''"

lemma neutral_loop: "list_all neutral w \<Longrightarrow> json_value_loop d False (w @ q) = json_value_loop d False q"
  by (induction w) (auto simp: neutral_def)

lemma neutral_ws: "is_json_ws c \<Longrightarrow> neutral c"
  by (auto simp: is_json_ws_def neutral_def)

lemma neutral_digit: "is_digit c \<Longrightarrow> neutral c"
  by (auto simp: is_digit_def neutral_def)

lemma neutral_blank: "json_blank w \<Longrightarrow> list_all neutral w"
  using neutral_ws by (auto simp: json_blank_def list_all_iff)

lemma neutral_digits: "list_all is_digit w \<Longrightarrow> list_all neutral w"
  using neutral_digit by (auto simp: list_all_iff)

lemma neutral_number: "json_num w \<Longrightarrow> list_all neutral w"
proof -
  assume "json_num w"
  then obtain i f e where w: "w = i @ f @ e" and "json_int i" "json_frac f" "json_exp e"
    by (auto simp: json_num_def)
  then have "list_all neutral i" "list_all neutral f" "list_all neutral e"
    using neutral_digits by (auto simp: json_int_def json_frac_def json_exp_def digits_def neutral_def)
  then show ?thesis by (simp add: w)
qed

lemma blank_loop [simp]: "json_blank w \<Longrightarrow> json_value_loop d False (w @ q) = json_value_loop d False q"
  using neutral_loop neutral_blank by blast

definition ordinary :: "char \<Rightarrow> bool" where
  "ordinary c \<longleftrightarrow> c \<noteq> DQUOTE \<and> c \<noteq> BSLASH"

lemma ordinary_loop: "list_all ordinary w \<Longrightarrow> json_value_loop d True (w @ q) = json_value_loop d True q"
  by (induction w) (auto simp: ordinary_def)

lemma ordinary_hex: "hex_quad h \<Longrightarrow> list_all ordinary h"
  by (auto simp: hex_quad_def is_hex_def hex_digit_def list_all_iff ordinary_def is_digit_def
      split: if_splits)

lemma body_loop: "json_body b \<Longrightarrow> json_value_loop d True (b @ DQUOTE # q) = json_value_loop d False q"
  by (induction rule: json_body.induct) (simp_all add: ordinary_loop ordinary_hex)

lemma quoted_loop [simp]: "json_body b \<Longrightarrow> json_value_loop d False (json_quoted b @ q) = json_value_loop d False q"
  by (simp add: json_quoted_def body_loop)

lemma value_loop:
  "json_value v \<Longrightarrow> json_value_loop d False (v @ q) = json_value_loop d False q"
  "json_members m \<Longrightarrow> json_value_loop (Suc d) False (m @ q) = json_value_loop (Suc d) False q"
  "json_elements e \<Longrightarrow> json_value_loop (Suc d) False (e @ q) = json_value_loop (Suc d) False q"
proof (induction arbitrary: d q and d q and d q rule: json_value_json_members_json_elements.inducts)
  case (v_number w)
  then show ?case using neutral_loop neutral_number by blast
qed simp_all

lemma value_end_value:
  assumes v: "json_value v" and q: "json_blank w" "q = [] \<or> at (CHR '','') q \<or> at (CHR ''}'') q \<or> at (CHR '']'') q"
  shows "wpm_json_value_end (v @ w @ q) = (True, q)"
proof -
  have "json_value_loop 0 False q = (0, False, q)" using q(2) by (cases q) auto
  then have "json_value_loop 0 False (v @ w @ q) = (0, False, q)"
    using value_loop(1) [OF v] q(1) by simp
  then show ?thesis using v by (simp add: wpm_json_value_end_def)
qed

text \<open>Skipping a value of the grammar leaves exactly what follows it and its blanks, whatever the
  strings in it hold; the result is success.\<close>

theorem value_end_skips_value:
  assumes "json_value v" "json_blank w" "at (CHR '','') q \<or> at (CHR ''}'') q \<or> at (CHR '']'') q"
  shows "wpm_json_value_end (w @ v @ w @ q) = (True, q)"
  using value_end_value [of v w q] assms
  by (simp add: wpm_json_value_end_def)

theorem value_end_skips_value_witness:
  "wpm_json_value_end ('' '' @ (CHR ''['' # json_quoted ''}'' @ '']'') @ '' '' @ '',1'') = (True, '',1'')"
proof (rule value_end_skips_value)
  have "json_elements (json_quoted ''}'')"
    using e_one [of "[]" "json_quoted ''}''" "[]"] v_string [OF json_label_body] by simp
  from v_array [OF this] show "json_value (CHR ''['' # json_quoted ''}'' @ '']'')" .
qed (simp_all add: is_json_ws_def)

subsection \<open>Rendered objects and arrays\<close>

definition json_pair :: "string \<times> string \<Rightarrow> string" where
  "json_pair m = json_quoted (fst m) @ CHR '':'' # snd m"

definition json_tail :: "string list \<Rightarrow> string" where
  "json_tail ws = concat (map (\<lambda>w. CHR '','' # w) ws)"

fun json_commas :: "string list \<Rightarrow> string" where
  "json_commas [] = []"
| "json_commas (w # ws) = w @ json_tail ws"

definition json_object :: "(string \<times> string) list \<Rightarrow> string" where
  "json_object ms = CHR ''{'' # json_commas (map json_pair ms) @ ''}''"

definition json_array :: "string list \<Rightarrow> string" where
  "json_array vs = CHR ''['' # json_commas vs @ '']''"

lemma json_tail_simps [simp]:
  "json_tail [] = []" "json_tail (w # ws) = CHR '','' # json_commas (w # ws)"
  "json_tail (a @ b) = json_tail a @ json_tail b"
  by (simp_all add: json_tail_def)

definition plain_label :: "string \<Rightarrow> bool" where
  "plain_label l \<longleftrightarrow> length l < 32 \<and> list_all (\<lambda>c. 32 \<le> byte c \<and> c \<noteq> DQUOTE \<and> c \<noteq> BSLASH) l"

lemma plain_label_body: "plain_label l \<Longrightarrow> json_body l"
  using json_label_body by (auto simp: plain_label_def)

definition plain_members :: "(string \<times> string) list \<Rightarrow> bool" where
  "plain_members ms \<longleftrightarrow> list_all (\<lambda>m. plain_label (fst m) \<and> json_value (snd m)) ms"

lemma plain_members_simps [simp]:
  "plain_members []" "plain_members (a @ b) \<longleftrightarrow> plain_members a \<and> plain_members b"
  "plain_members (m # ms) \<longleftrightarrow> plain_label (fst m) \<and> json_value (snd m) \<and> plain_members ms"
  by (auto simp: plain_members_def)

lemma json_commas_members:
  "plain_members ms \<Longrightarrow> ms \<noteq> [] \<Longrightarrow> json_members (json_commas (map json_pair ms))"
proof (induction ms)
  case (Cons m ms)
  then show ?case
    using json_member_one [of "fst m" "snd m"] json_member_more [of "fst m" "snd m"]
    by (cases ms) (auto simp: json_pair_def plain_label_body)
qed simp

lemma json_object_value: "plain_members ms \<Longrightarrow> json_value (json_object ms)"
  using json_commas_members v_object v_object_empty [of "[]"] by (cases "ms = []") (auto simp: json_object_def)

lemma json_commas_elements:
  "list_all json_value vs \<Longrightarrow> vs \<noteq> [] \<Longrightarrow> json_elements (json_commas vs)"
proof (induction vs)
  case (Cons v vs)
  then show ?case
    using e_one [of "[]" v "[]"] e_more [of "[]" v "[]"] by (cases vs) auto
qed simp

lemma json_array_value: "list_all json_value vs \<Longrightarrow> json_value (json_array vs)"
  using json_commas_elements v_array v_array_empty [of "[]"] by (cases "vs = []") (auto simp: json_array_def)

lemma json_decimal_value: "json_value (decimal n)"
proof (rule v_number)
  have "json_int (decimal n)"
    using canonical_decimal [of n] unfolding json_int_def canonical_digits_def digits_def
    by (intro exI [of _ "[]"] exI [of _ "decimal n"]) auto
  then have "json_num (decimal n @ [] @ [])"
    unfolding json_num_def by (intro exI conjI) (auto simp: json_frac_def json_exp_def)
  then show "json_num (decimal n)" by simp
qed

lemma json_document_object: "plain_members ms \<Longrightarrow> json_document (json_object ms @ w)" if "json_blank w"
proof -
  assume ms: "plain_members ms"
  have "\<not> starts_with bom (json_object ms @ w)"
    by (simp add: bom_def starts_with_def json_object_def)
  moreover have "json_text (json_object ms @ w)"
    unfolding json_text_def using json_object_value [OF ms] that
    by (intro exI [of _ "[]"] exI [of _ "json_object ms"] exI [of _ w]) simp
  ultimately show ?thesis by (simp add: json_document_def)
qed

subsection \<open>Reading rendered members\<close>

lemma read_quoted:
  assumes "list_all printable v" "length v < cap"
  shows "wpm_json_read_string True cap (json_quoted (json_escape v) @ q) = (v, Some q)"
  using scan_escaped [OF assms(1), of 0 cap q] assms(2)
  by (simp add: wpm_json_read_string_def json_quoted_def)

lemma plain_escape_printable:
  "list_all (\<lambda>c. 32 \<le> byte c \<and> c \<noteq> DQUOTE \<and> c \<noteq> BSLASH) l \<Longrightarrow> json_escape l = l \<and> list_all printable l"
  by (induction l) (auto simp: json_escape_char_def printable_def)

lemma plain_label_escape: "plain_label l \<Longrightarrow> json_escape l = l \<and> list_all printable l"
  using plain_escape_printable by (simp add: plain_label_def)

lemma json_key_quoted: "plain_label l \<Longrightarrow> 32 \<le> cap \<Longrightarrow> json_key cap (json_quoted l @ q) = Some (l, q)"
  using read_quoted [of l cap q] plain_label_escape [of l] by (simp add: json_key_def plain_label_def)

lemma space_quoted [simp]: "wpm_json_space (json_quoted b @ q) = json_quoted b @ q"
  by (simp add: json_quoted_def)

lemma space_punct [simp]:
  "wpm_json_space (CHR '':'' # q) = CHR '':'' # q" "wpm_json_space (CHR ''{'' # q) = CHR ''{'' # q"
  "wpm_json_space (CHR ''}'' # q) = CHR ''}'' # q" "wpm_json_space (CHR ''['' # q) = CHR ''['' # q"
  "wpm_json_space (CHR '']'' # q) = CHR '']'' # q" "wpm_json_space (CHR '','' # q) = CHR '','' # q"
  by (simp_all add: is_json_ws_def)

lemma unique_loop_pair:
  assumes "plain_label (fst m)" "json_value (snd m)" and c: "c = CHR '','' \<or> c = CHR ''}''"
  shows "json_unique_loop name result (json_pair m @ c # q) =
    (if fst m = name \<and> result \<noteq> None then None
     else let result' = (if fst m = name then Some (snd m @ c # q) else result) in
       if c = CHR '','' then json_unique_loop name result' q else result')"
proof -
  define p where "p = json_pair m @ c # q"
  have p: "p = json_quoted (fst m) @ CHR '':'' # snd m @ c # q" by (simp add: p_def json_pair_def)
  then have "p \<noteq> []" "\<not> at (CHR ''}'') p" "wpm_json_space p = p" by (simp_all add: json_quoted_def)
  moreover have "json_key 128 p = Some (fst m, CHR '':'' # snd m @ c # q)"
    unfolding p using assms(1) by (simp add: json_key_quoted)
  moreover have "wpm_json_value_end (snd m @ c # q) = (True, c # q)"
    using value_end_value [OF assms(2), of "[]" "c # q"] c by auto
  ultimately show ?thesis
    unfolding p_def [symmetric] by (subst json_unique_loop.simps) (use c assms(2) in \<open>auto simp: Let_def\<close>)
qed

lemma unique_loop_stop: "json_unique_loop name result (CHR ''}'' # q) = result"
  by (subst json_unique_loop.simps) simp

lemma unique_loop_absent:
  assumes "plain_members ms" "name \<notin> fst ` set ms" "ms \<noteq> []"
  shows "json_unique_loop name result (json_commas (map json_pair ms) @ CHR ''}'' # q) = result"
  using assms
proof (induction ms)
  case (Cons m ms)
  then show ?case
    using unique_loop_pair [of m "CHR ''}''" name result q]
      unique_loop_pair [of m "CHR '',''" name result "json_commas (map json_pair ms) @ CHR ''}'' # q"]
    by (cases ms) auto
qed simp

text \<open>What the cursor sees behind the value of a member: the other members and the closing brace.\<close>

definition json_after :: "(string \<times> string) list \<Rightarrow> string \<Rightarrow> string" where
  "json_after ms q = json_tail (map json_pair ms) @ CHR ''}'' # q"

lemma unique_loop_found:
  assumes "plain_members (a @ (name, v) # b)" "name \<notin> fst ` set a" "name \<notin> fst ` set b"
  shows "json_unique_loop name None (json_commas (map json_pair (a @ (name, v) # b)) @ CHR ''}'' # q)
    = Some (v @ json_after b q)"
  using assms
proof (induction a)
  case Nil
  then show ?case
    using unique_loop_pair [of "(name, v)" "CHR ''}''" name None q]
      unique_loop_pair [of "(name, v)" "CHR '',''" name None "json_commas (map json_pair b) @ CHR ''}'' # q"]
      unique_loop_absent [of b name "Some (v @ json_after b q)" q]
    by (cases b) (auto simp: json_after_def Let_def)
next
  case (Cons m a)
  then show ?case
    using unique_loop_pair [of m "CHR '',''" name None
        "json_commas (map json_pair (a @ (name, v) # b)) @ CHR ''}'' # q"]
    by (cases a) auto
qed

lemma content_object [simp]:
  "wpm_json_content (CHR ''{'' # q) = CHR ''{'' # q"
  by (simp add: wpm_json_content_def starts_with_def)

lemma unique_field_found:
  assumes "plain_members (a @ (name, v) # b)" "name \<notin> fst ` set a" "name \<notin> fst ` set b"
  shows "wpm_json_unique_field (json_object (a @ (name, v) # b) @ q) name = Some (v @ json_after b q)"
  using unique_loop_found [OF assms, of q] by (simp add: wpm_json_unique_field_def json_object_def)

lemma unique_loop_twice:
  assumes "plain_members ms" "name \<in> fst ` set ms" "result \<noteq> None"
  shows "json_unique_loop name result (json_commas (map json_pair ms) @ CHR ''}'' # q) = None"
  using assms
proof (induction ms)
  case (Cons m ms)
  then show ?case
    using unique_loop_pair [of m "CHR ''}''" name result q]
      unique_loop_pair [of m "CHR '',''" name result "json_commas (map json_pair ms) @ CHR ''}'' # q"]
    by (cases ms) auto
qed simp

text \<open>The lookup of a member in a rendered object returns its value when the name occurs exactly
  once, and \<open>NULL\<close> when it is absent or repeated.\<close>

theorem unique_field_of_object:
  assumes ms: "plain_members ms"
  shows "wpm_json_unique_field (json_object ms @ q) name =
    (case filter (\<lambda>m. fst m = name) ms of
       [m] \<Rightarrow> Some (snd m @ json_after (tl (dropWhile (\<lambda>m. fst m \<noteq> name) ms)) q)
     | _ \<Rightarrow> None)"
proof (cases "name \<in> fst ` set ms")
  case False
  then have "filter (\<lambda>m. fst m = name) ms = []" by (force simp: filter_empty_conv)
  with False ms unique_loop_absent [of ms name None q] show ?thesis
    by (cases "ms = []") (simp_all add: wpm_json_unique_field_def json_object_def unique_loop_stop)
next
  case True
  define a where "a = takeWhile (\<lambda>m. fst m \<noteq> name) ms"
  obtain v b where split: "dropWhile (\<lambda>m. fst m \<noteq> name) ms = (name, v) # b"
    using True hd_dropWhile [of "\<lambda>m. fst m \<noteq> name" ms]
    by (cases "dropWhile (\<lambda>m. fst m \<noteq> name) ms") (auto simp: dropWhile_eq_Nil_conv)
  have eq: "ms = a @ (name, v) # b" unfolding a_def split [symmetric] by simp
  have a: "name \<notin> fst ` set a" unfolding a_def by (auto dest: set_takeWhileD)
  then have fa: "filter (\<lambda>m. fst m = name) a = []" by (force simp: filter_empty_conv)
  show ?thesis
  proof (cases "name \<in> fst ` set b")
    case False
    then have "filter (\<lambda>m. fst m = name) b = []" by (force simp: filter_empty_conv)
    then have "filter (\<lambda>m. fst m = name) ms = [(name, v)]" by (simp add: eq fa)
    with False show ?thesis using unique_field_found [of a name v b q] ms a split by (simp add: eq)
  next
    case twice: True
    then have "filter (\<lambda>m. fst m = name) b \<noteq> []" by (force simp: filter_empty_conv)
    then have f: "(case filter (\<lambda>m. fst m = name) ms of [m] \<Rightarrow> P m | _ \<Rightarrow> None) = None" for P
      by (auto simp: eq fa split: list.splits)
    have "json_unique_loop name None (json_commas (map json_pair (a @ (name, v) # b)) @ CHR ''}'' # q) = None"
      using a ms [unfolded eq]
    proof (induction a)
      case Nil
      then show ?case
        using unique_loop_pair [of "(name, v)" "CHR '',''" name None "json_commas (map json_pair b) @ CHR ''}'' # q"]
          unique_loop_twice [of b name "Some (v @ CHR '','' # json_commas (map json_pair b) @ CHR ''}'' # q)" q] twice
        by (cases b) auto
    next
      case (Cons m a)
      then show ?case
        using unique_loop_pair [of m "CHR '',''" name None
            "json_commas (map json_pair (a @ (name, v) # b)) @ CHR ''}'' # q"]
        by (cases a) auto
    qed
    then show ?thesis unfolding f by (simp add: wpm_json_unique_field_def json_object_def eq)
  qed
qed

theorem unique_field_of_object_witness:
  "wpm_json_unique_field (json_object [(''a'', ''null''), (''b'', ''true''), (''c'', ''null'')] @ []) ''b''
     = Some (''true'' @ json_after [(''c'', ''null'')] [])"
  by (subst unique_field_of_object) (simp_all add: plain_label_def v_null v_true)

end
