(* ===== verification/Repo_Index.thy ===== *)
theory Repo_Index
  imports Candidates Repo_Config Json_Object
begin

text \<open>
  Repository indexes (\<open>wpm/repository.c\<close>, 1496-1680 and 3336-3381): the admission test of a
  refreshed index, the parser that fills the package table and follows links, and the loader that
  visits the growing list of repositories. The content of a file is \<open>None\<close> when it cannot be read
  completely; messages are not modelled.
\<close>

definition MAX_PACKAGES :: nat where "MAX_PACKAGES = 96"
definition INDEX_MAX :: nat where "INDEX_MAX = 4 * 1024 * 1024"

subsection \<open>Admission\<close>

definition index_admitted :: "string \<Rightarrow> bool" where
  "index_admitted text =
     (2 \<le> length text \<and> length text \<le> INDEX_MAX \<and> NUL \<notin> set text \<and> wpm_json_document_valid text
      \<and> wpm_json_version_one text
      \<and> (case wpm_json_field text ''packages'' of None \<Rightarrow> False | Some p \<Rightarrow> at (CHR ''['') p))"

definition index_file_supported :: "string option \<Rightarrow> bool" where
  "index_file_supported content = (case content of None \<Rightarrow> False | Some text \<Rightarrow> index_admitted text)"

subsection \<open>One package object\<close>

text \<open>The four buffers of the loop body, as C strings.\<close>

record index_fields =
  f_name :: string
  f_version :: string
  f_arch :: string
  f_url :: string

definition no_fields :: index_fields where
  "no_fields = \<lparr>f_name = [], f_version = [], f_arch = [], f_url = []\<rparr>"

text \<open>\<open>wpm_json_read_string(&p, buffer, cap)\<close> without a look at its result: on failure the bytes that
  were decoded stay in front of the old content, and the cursor does not move.\<close>

definition read_into :: "nat \<Rightarrow> string \<Rightarrow> string \<Rightarrow> string \<times> string" where
  "read_into cap old p =
     (case wpm_json_read_string True cap p of
        (w, Some q) \<Rightarrow> (w, q)
      | (w, None) \<Rightarrow> (w @ drop (length w) old, p))"

definition read_member :: "string \<Rightarrow> index_fields \<Rightarrow> string \<Rightarrow> index_fields \<times> string" where
  "read_member key buf p =
     (if key = ''name'' then
        (case read_into 128 (f_name buf) p of (v, q) \<Rightarrow> (buf\<lparr>f_name := v\<rparr>, q))
      else if key = ''version'' then
        (case read_into 64 (f_version buf) p of (v, q) \<Rightarrow> (buf\<lparr>f_version := v\<rparr>, q))
      else if key = ''arch'' then
        (case read_into 16 (f_arch buf) p of (v, q) \<Rightarrow> (buf\<lparr>f_arch := v\<rparr>, q))
      else if key = ''url'' then
        (case read_into PATH_SIZE (f_url buf) p of (v, q) \<Rightarrow> (buf\<lparr>f_url := v\<rparr>, q))
      else (buf, snd (wpm_json_value_end p)))"

definition skip_comma :: "string \<Rightarrow> string" where
  "skip_comma p = (let q = wpm_json_space p in if at (CHR '','') q then tl q else q)"

lemma read_into_length [scan_length]: "length (snd (read_into cap old p)) \<le> length p"
  using read_string_length [of True cap p]
  by (auto simp: read_into_def split: prod.splits option.splits)

lemma read_member_length [scan_length]: "length (snd (read_member key buf p)) \<le> length p"
  by (simp add: read_member_def case_prod_beta read_into_length value_end_length)

lemma skip_comma_length [scan_length]: "length (skip_comma p) \<le> length p"
  using wpm_json_space_length [of p] by (auto simp: skip_comma_def Let_def)

text \<open>The inner loop: the members of one object.\<close>

function index_members :: "index_fields \<Rightarrow> string \<Rightarrow> index_fields \<times> string" where
  "index_members buf p =
     (if p = [] \<or> at (CHR ''}'') p then (buf, p)
      else (case json_key 32 (wpm_json_space p) of
              None \<Rightarrow> (buf, wpm_json_space p)
            | Some (key, q) \<Rightarrow>
                if \<not> at (CHR '':'') (wpm_json_space q) then (buf, wpm_json_space q)
                else (case read_member key buf (tl (wpm_json_space q)) of
                        (buf', r) \<Rightarrow> index_members buf' (skip_comma r))))"
  by pat_completeness auto
termination
proof (relation "measure (\<lambda>(buf, p). length p)", goal_cases)
  case (2 buf p x2 key q buf' r)
  have "length (skip_comma r) \<le> length r" by (rule skip_comma_length)
  also have "\<dots> \<le> length (tl (wpm_json_space q))"
    using read_member_length [of key buf "tl (wpm_json_space q)"] 2(5) [symmetric] by simp
  also have "\<dots> \<le> length q" using wpm_json_space_length [of q] by simp
  also have "length q < length (wpm_json_space p)"
    using json_key_length [of 32 "wpm_json_space p" key q] 2(2,3) by simp
  also have "\<dots> \<le> length p" by (rule wpm_json_space_length)
  finally show ?case by simp
qed simp

declare index_members.simps [simp del]

lemma index_members_length [scan_length]: "length (snd (index_members buf p)) \<le> length p"
proof (induction buf p rule: index_members.induct)
  case (1 buf p)
  show ?case
  proof (cases "p = [] \<or> at (CHR ''}'') p")
    case True
    then show ?thesis by (subst index_members.simps) simp
  next
    case False
    note sp = wpm_json_space_length [of p]
    show ?thesis
    proof (cases "json_key 32 (wpm_json_space p)")
      case None
      with False sp show ?thesis by (subst index_members.simps) simp
    next
      case (Some kq)
      obtain key q where kq: "kq = (key, q)" by (cases kq)
      have q: "length (wpm_json_space q) < length p"
        using json_key_length [OF Some [unfolded kq]] sp wpm_json_space_length [of q] by simp
      show ?thesis
      proof (cases "at (CHR '':'') (wpm_json_space q)")
        case False': False
        with False Some kq q show ?thesis by (subst index_members.simps) simp
      next
        case True
        obtain buf' r where r: "read_member key buf (tl (wpm_json_space q)) = (buf', r)"
          by fastforce
        have "length (skip_comma r) \<le> length q"
          using skip_comma_length [of r] read_member_length [of key buf "tl (wpm_json_space q)"] r
            wpm_json_space_length [of q] by simp
        moreover have "length (snd (index_members buf' (skip_comma r))) \<le> length (skip_comma r)"
          using "1" [OF False Some kq [symmetric]] True r by simp
        ultimately show ?thesis
          using False Some kq True r q wpm_json_space_length [of q]
            json_key_length [OF Some [unfolded kq]] sp
          by (subst index_members.simps) simp
      qed
    qed
  qed
qed

subsection \<open>The package array\<close>

definition fields_complete :: "index_fields \<Rightarrow> bool" where
  "fields_complete f \<longleftrightarrow> f_name f \<noteq> [] \<and> f_version f \<noteq> [] \<and> f_arch f \<noteq> [] \<and> f_url f \<noteq> []"

definition entry_of :: "repository \<Rightarrow> index_fields \<Rightarrow> package_entry" where
  "entry_of repo f = \<lparr>entry_name = f_name f, entry_version = f_version f, entry_arch = f_arch f,
     entry_url = f_url f, entry_priority = priority repo, entry_order = order repo\<rparr>"

text \<open>An entry is stored while there is room; the flag says that none was dropped for lack of it.\<close>

definition store_entry ::
  "repository \<Rightarrow> index_fields \<Rightarrow> package_entry list \<times> bool \<Rightarrow> package_entry list \<times> bool" where
  "store_entry repo f st =
     (case st of (packages, complete) \<Rightarrow>
        if \<not> fields_complete f then (packages, complete)
        else if length packages < MAX_PACKAGES then (packages @ [entry_of repo f], complete)
        else (packages, False))"

function index_loop ::
  "repository \<Rightarrow> package_entry list \<times> bool \<Rightarrow> string \<Rightarrow> package_entry list \<times> bool" where
  "index_loop repo st p0 =
     (let p = wpm_json_space p0 in
      if p = [] \<or> at (CHR '']'') p then st
      else if \<not> at (CHR ''{'') p then
        (let q = snd (wpm_json_value_end p) in
         if at (CHR '','') q then index_loop repo st (tl q) else st)
      else (case index_members no_fields (tl p) of
              (buf, q) \<Rightarrow>
                index_loop repo (store_entry repo buf st)
                  (skip_comma (if at (CHR ''}'') q then tl q else q))))"
  by pat_completeness auto
termination
proof (relation "measure (\<lambda>(repo, st, p). length p)", goal_cases)
  case (2 repo st p0 p q)
  have "length (tl q) < length q" using 2 tl_length by blast
  also have "\<dots> \<le> length p" unfolding \<open>q = _\<close> by (rule value_end_length)
  also have "\<dots> \<le> length p0" unfolding \<open>p = _\<close> by (rule wpm_json_space_length)
  finally show ?case by simp
next
  case (3 repo st p0 p buf q)
  have "length (skip_comma (if at (CHR ''}'') q then tl q else q)) \<le> length q"
    using skip_comma_length [of "tl q"] skip_comma_length [of q] by auto
  also have "\<dots> \<le> length (tl p)" using index_members_length [of no_fields "tl p"] 3 by (metis snd_conv)
  also have "\<dots> < length p" using 3 tl_length by blast
  also have "\<dots> \<le> length p0" unfolding \<open>p = _\<close> by (rule wpm_json_space_length)
  finally show ?case by simp
qed simp

declare index_loop.simps [simp del]

text \<open>The optional links.\<close>

function link_loop ::
  "(string \<Rightarrow> string option) \<Rightarrow> repository \<Rightarrow> repository list \<Rightarrow> string \<Rightarrow> repository list" where
  "link_loop full_path repo repositories p0 =
     (let p = wpm_json_space p0 in
      if p = [] \<or> at (CHR '']'') p then repositories
      else (case wpm_json_read_string True PATH_SIZE p of
              (_, None) \<Rightarrow> repositories
            | (link, Some q) \<Rightarrow>
                let repositories' = snd (append_repository_link full_path repositories repo link);
                    r = wpm_json_space q in
                if at (CHR '','') r then link_loop full_path repo repositories' (tl r)
                else repositories'))"
  by pat_completeness auto
termination
proof (relation "measure (\<lambda>(full_path, repo, repositories, p). length p)", goal_cases)
  case (2 full_path repo repositories p0 p link y q repositories' r)
  have "length (tl r) < length r" using 2(7) tl_length by blast
  also have "\<dots> \<le> length q" unfolding 2(6) by (rule wpm_json_space_length)
  also have "length q < length p"
    using read_string_length [of True PATH_SIZE p q] 2(3) [symmetric] 2(4) by simp
  also have "length p \<le> length p0" unfolding 2(1) by (rule wpm_json_space_length)
  finally show ?case by simp
qed simp

declare link_loop.simps [simp del]

text \<open>The result, the package table and the repositories afterwards.\<close>

definition parse_index ::
  "(string \<Rightarrow> string option) \<Rightarrow> string option \<Rightarrow> repository \<Rightarrow> package_entry list \<Rightarrow> repository list
     \<Rightarrow> bool \<times> package_entry list \<times> repository list" where
  "parse_index full_path content repo packages repositories =
     (case content of
        None \<Rightarrow> (False, packages, repositories)
      | Some text \<Rightarrow>
          if \<not> index_admitted text then (False, packages, repositories)
          else
            let p = the (wpm_json_field text ''packages'');
                packages' = fst (index_loop repo (packages, True) (tl p)) in
            (True, packages',
             case wpm_json_field text ''repositories'' of
               None \<Rightarrow> repositories
             | Some q \<Rightarrow> if at (CHR ''['') q then link_loop full_path repo repositories (tl q)
                        else repositories))"

subsection \<open>Loading all indexes\<close>

text \<open>\<open>available\<close> gives the text of the index of a repository after \<open>refresh\<close> and \<open>cache_path\<close> (or from
  the cache in the read-only modes), \<open>None\<close> when there is none. The bound of the loop is the
  current number of repositories, which links raise while it runs.\<close>

function load_entries_loop ::
  "(string \<Rightarrow> string option) \<Rightarrow> (repository \<Rightarrow> string option) \<Rightarrow> nat
     \<Rightarrow> package_entry list \<Rightarrow> repository list \<Rightarrow> bool \<Rightarrow> package_entry list \<times> repository list \<times> bool" where
  "load_entries_loop full_path available i entries repositories usable =
     (if i \<ge> length repositories \<or> i \<ge> MAX_REPOSITORIES then (entries, repositories, usable)
      else (case parse_index full_path (available (repositories ! i)) (repositories ! i) entries
                   repositories of
              (ok, entries', repositories') \<Rightarrow>
                load_entries_loop full_path available (i + 1) entries' repositories' (usable \<or> ok)))"
  by pat_completeness auto
termination
  by (relation "measure (\<lambda>(full_path, available, i, entries, repositories, usable). MAX_REPOSITORIES - i)") auto

declare load_entries_loop.simps [simp del]

definition load_entries ::
  "(string \<Rightarrow> string option) \<Rightarrow> (repository \<Rightarrow> string option) \<Rightarrow> string option
     \<Rightarrow> package_entry list \<times> repository list \<times> bool" where
  "load_entries full_path available config =
     load_entries_loop full_path available 0 []
       (fst (load_repositories full_path False False config)) False"

subsection \<open>Bounds and ownership of the entries\<close>

definition fields_bounded :: "index_fields \<Rightarrow> bool" where
  "fields_bounded f \<longleftrightarrow> length (f_name f) < 128 \<and> length (f_version f) < 64
     \<and> length (f_arch f) < 16 \<and> length (f_url f) < PATH_SIZE"

lemma read_into_bound: "0 < cap \<Longrightarrow> length old < cap \<Longrightarrow> length (fst (read_into cap old p)) < cap"
  using read_string_bound [of cap True p]
  by (auto simp: read_into_def split: prod.splits option.splits)

lemma read_member_bounded: "fields_bounded f \<Longrightarrow> fields_bounded (fst (read_member key f p))"
  by (auto simp: read_member_def fields_bounded_def case_prod_beta read_into_bound PATH_SIZE_def)

lemma index_members_bounded: "fields_bounded f \<Longrightarrow> fields_bounded (fst (index_members f p))"
proof (induction f p rule: index_members.induct)
  case (1 f p)
  show ?case
  proof (cases "p = [] \<or> at (CHR ''}'') p \<or> json_key 32 (wpm_json_space p) = None")
    case True
    with 1 show ?thesis by (subst index_members.simps) auto
  next
    case False
    then obtain key q where k: "json_key 32 (wpm_json_space p) = Some (key, q)" by auto
    show ?thesis
    proof (cases "at (CHR '':'') (wpm_json_space q)")
      case True
      obtain f' r where r: "read_member key f (tl (wpm_json_space q)) = (f', r)" by fastforce
      have "fields_bounded f'" using read_member_bounded [OF "1.prems", of key "tl (wpm_json_space q)"] r by simp
      with "1.IH" [OF _ k refl] True r False have "fields_bounded (fst (index_members f' (skip_comma r)))"
        by simp
      with False k True r show ?thesis by (subst index_members.simps) simp
    next
      case False': False
      with False k 1 show ?thesis by (subst index_members.simps) simp
    qed
  qed
qed

text \<open>An entry that came from a repository of the list: its fields fit their buffers and are not empty,
  its order is a valid index, and its priority is that of the repository there.\<close>

definition entry_owned :: "repository list \<Rightarrow> package_entry \<Rightarrow> bool" where
  "entry_owned rs e \<longleftrightarrow> entry_order e < length rs \<and> entry_priority e = priority (rs ! entry_order e)
     \<and> 0 < length (entry_name e) \<and> length (entry_name e) < 128
     \<and> 0 < length (entry_version e) \<and> length (entry_version e) < 64
     \<and> 0 < length (entry_arch e) \<and> length (entry_arch e) < 16
     \<and> 0 < length (entry_url e) \<and> length (entry_url e) < PATH_SIZE"

definition table_ok :: "repository list \<Rightarrow> package_entry list \<Rightarrow> bool" where
  "table_ok rs es \<longleftrightarrow> length es \<le> MAX_PACKAGES \<and> list_all (entry_owned rs) es"

lemma store_entry_ok:
  assumes "table_ok rs (fst st)" "fields_bounded f" "i < length rs" "order (rs ! i) = i"
  shows "table_ok rs (fst (store_entry (rs ! i) f st))"
  using assms by (auto simp: store_entry_def table_ok_def entry_owned_def entry_of_def
      fields_complete_def fields_bounded_def split: prod.splits)

lemma no_fields_bounded: "fields_bounded no_fields"
  by (simp add: fields_bounded_def no_fields_def PATH_SIZE_def)

lemma index_loop_ok:
  assumes i: "i < length rs" "order (rs ! i) = i"
  shows "table_ok rs (fst st) \<Longrightarrow> table_ok rs (fst (index_loop (rs ! i) st p))"
proof (induction "rs ! i" st p rule: index_loop.induct)
  case (1 st p0)
  define p where "p = wpm_json_space p0"
  consider "p = [] \<or> at (CHR '']'') p" | "\<not> (p = [] \<or> at (CHR '']'') p)" "\<not> at (CHR ''{'') p"
    | "\<not> (p = [] \<or> at (CHR '']'') p)" "at (CHR ''{'') p" by blast
  then show ?case
  proof cases
    case 1
    with "1.prems" show ?thesis by (subst index_loop.simps) (simp add: Let_def p_def)
  next
    case 2
    with "1.hyps"(1) [OF p_def] "1.prems" show ?thesis
      by (subst index_loop.simps) (simp add: Let_def p_def [symmetric])
  next
    case 3
    obtain f q where f: "index_members no_fields (tl p) = (f, q)" by fastforce
    then have "fields_bounded f" using index_members_bounded [OF no_fields_bounded, of "tl p"] by simp
    from store_entry_ok [OF "1.prems" this i]
    have "table_ok rs (fst (index_loop (rs ! i) (store_entry (rs ! i) f st)
        (skip_comma (if at (CHR ''}'') q then tl q else q))))"
      using "1.hyps"(2) [OF p_def] 3 f by simp
    with 3 f show ?thesis by (subst index_loop.simps) (simp add: Let_def p_def [symmetric])
  qed
qed

text \<open>Links only add repositories behind the known ones.\<close>

definition extends :: "repository list \<Rightarrow> repository list \<Rightarrow> bool" where
  "extends rs rs' \<longleftrightarrow> (\<exists>more. rs' = rs @ more)"

lemma extends_refl [simp]: "extends rs rs"
  by (simp add: extends_def)

lemma extends_trans: "extends a b \<Longrightarrow> extends b c \<Longrightarrow> extends a c"
  by (auto simp: extends_def)

lemma table_extends: "table_ok rs es \<Longrightarrow> extends rs rs' \<Longrightarrow> table_ok rs' es"
  by (auto simp: table_ok_def entry_owned_def extends_def nth_append list_all_iff)

lemma append_link_extends: "extends rs (snd (append_repository_link full_path rs parent link))"
  by (auto simp: append_repository_link_def extends_def split: option.splits)

lemma append_link_config:
  assumes "config_ok rs"
  shows "config_ok (snd (append_repository_link full_path rs parent link))"
proof (cases "snd (append_repository_link full_path rs parent link) = rs")
  case True
  with assms show ?thesis by simp
next
  case False
  then obtain n source where n: "repository_normalize full_path PATH_SIZE (Some source) = Some n"
    "length rs < MAX_REPOSITORIES"
    "snd (append_repository_link full_path rs parent link)
       = rs @ [parent\<lparr>order := length rs, url := n\<rparr>]"
    by (auto simp: append_repository_link_def split: option.splits bind_splits if_splits)
  with normalize_shape [OF n(1)] assms show ?thesis
    by (auto simp: config_ok_def nth_append less_Suc_eq)
qed

lemma link_loop_ok:
  "config_ok rs \<Longrightarrow> config_ok (link_loop full_path repo rs p) \<and> extends rs (link_loop full_path repo rs p)"
proof (induction full_path repo rs p rule: link_loop.induct)
  case (1 full_path repo rs p0)
  define p where "p = wpm_json_space p0"
  show ?case
  proof (cases "p = [] \<or> at (CHR '']'') p \<or> snd (wpm_json_read_string True PATH_SIZE p) = None")
    case True
    with "1.prems" show ?thesis
      by (subst (1 2) link_loop.simps) (auto simp: Let_def p_def split: prod.splits)
  next
    case False
    then obtain link q where q: "wpm_json_read_string True PATH_SIZE p = (link, Some q)"
      by (metis not_None_eq prod.collapse)
    define rs' where "rs' = snd (append_repository_link full_path rs repo link)"
    have rs': "config_ok rs'" "extends rs rs'"
      using append_link_config [OF "1.prems"] append_link_extends by (simp_all add: rs'_def)
    have step: "link_loop full_path repo rs p0 = (if at (CHR '','') (wpm_json_space q)
        then link_loop full_path repo rs' (tl (wpm_json_space q)) else rs')"
      using False q by (subst link_loop.simps) (simp add: Let_def p_def [symmetric] rs'_def)
    show ?thesis
    proof (cases "at (CHR '','') (wpm_json_space q)")
      case True
      have "config_ok (link_loop full_path repo rs' (tl (wpm_json_space q)))
          \<and> extends rs' (link_loop full_path repo rs' (tl (wpm_json_space q)))"
        using "1.IH" [OF p_def _ q [symmetric] refl rs'_def refl True rs'(1)] False by simp
      with step True rs'(2) extends_trans show ?thesis by auto
    next
      case False
      with step rs' show ?thesis by simp
    qed
  qed
qed

lemma parse_index_ok:
  assumes "parse_index full_path content (rs ! i) es rs = (ok, es', rs')"
    and rs: "config_ok rs" and es: "table_ok rs es" and i: "i < length rs"
  shows "config_ok rs' \<and> extends rs rs' \<and> table_ok rs' es'"
proof (cases "\<exists>text. content = Some text \<and> index_admitted text")
  case False
  with assms show ?thesis by (auto simp: parse_index_def split: option.splits if_splits)
next
  case True
  then obtain t where t: "content = Some t" "index_admitted t" by blast
  define p where "p = the (wpm_json_field t ''packages'')"
  have "order (rs ! i) = i" using rs i by (simp add: config_ok_def)
  then have "table_ok rs (fst (index_loop (rs ! i) (es, True) (tl p)))"
    using index_loop_ok [OF i] es by simp
  moreover have "es' = fst (index_loop (rs ! i) (es, True) (tl p))"
    and "rs' = rs \<or> (\<exists>q. rs' = link_loop full_path (rs ! i) rs q)"
    using assms(1) t by (auto simp: parse_index_def Let_def p_def split: option.splits if_splits)
  ultimately show ?thesis using link_loop_ok [OF rs] rs table_extends by auto
qed

lemma load_entries_loop_ok:
  "config_ok rs \<Longrightarrow> table_ok rs es \<Longrightarrow>
     load_entries_loop full_path available i es rs usable = (es', rs', u)
     \<Longrightarrow> config_ok rs' \<and> extends rs rs' \<and> table_ok rs' es'"
proof (induction full_path available i es rs usable rule: load_entries_loop.induct)
  case (1 full_path available i es rs usable)
  show ?case
  proof (cases "i \<ge> length rs \<or> i \<ge> MAX_REPOSITORIES")
    case True
    with 1 show ?thesis by (subst (asm) (2) load_entries_loop.simps) simp
  next
    case False
    obtain ok es1 rs1 where p: "parse_index full_path (available (rs ! i)) (rs ! i) es rs = (ok, es1, rs1)"
      by (metis prod_cases3)
    have ok: "config_ok rs1 \<and> extends rs rs1 \<and> table_ok rs1 es1"
      using parse_index_ok [OF p "1.prems"(1,2)] False by simp
    have "load_entries_loop full_path available (i + 1) es1 rs1 (usable \<or> ok) = (es', rs', u)"
      using "1.prems"(3) False p by (subst (asm) load_entries_loop.simps) simp
    with "1.IH" [OF False p [symmetric] refl] ok extends_trans show ?thesis by blast
  qed
qed

text \<open>Whatever the configuration and the indexes hold, loading ends with at most 32 repositories
  and 96 entries; every entry has non-empty fields that fit their buffers, its order is the index
  of a loaded repository, which install and upgrade use without a check, and its priority is that
  of this repository.\<close>

theorem load_entries_consistent:
  "case load_entries full_path available config of (es, rs, usable) \<Rightarrow>
     config_ok rs \<and> length es \<le> MAX_PACKAGES \<and> list_all (entry_owned rs) es"
proof -
  obtain es rs usable where l: "load_entries full_path available config = (es, rs, usable)"
    by (metis prod_cases3)
  have "table_ok (fst (load_repositories full_path False False config)) []" by (simp add: table_ok_def)
  from load_entries_loop_ok [OF load_repositories_config this l [unfolded load_entries_def]] l
  show ?thesis by (simp add: table_ok_def)
qed

text \<open>An index that the loader rejects (unreadable, too short or long, with a NUL byte, not a
  document of the JSON grammar, of another schema version, or without a package array) leaves the
  package table and the repositories as they were.\<close>

theorem rejected_index_ignored:
  assumes "\<not> fst (parse_index full_path content repo packages repositories)"
  shows "parse_index full_path content repo packages repositories = (False, packages, repositories)
     \<and> \<not> index_file_supported content"
  using assms by (auto simp: parse_index_def index_file_supported_def Let_def split: option.splits if_splits)

theorem rejected_index_ignored_witness:
  "parse_index (\<lambda>_. None) (Some ''x'') \<lparr>url = ''https://h'', priority = 0, order = 0,
     allow_insecure_http = False\<rparr> [] [] = (False, [], [])"
  using rejected_index_ignored [of "\<lambda>_. None" "Some ''x''" "\<lparr>url = ''https://h'', priority = 0,
      order = 0, allow_insecure_http = False\<rparr>" "[]" "[]"]
  by (simp add: parse_index_def index_admitted_def)

subsection \<open>Reading an index that is written as JSON\<close>

definition render_member :: "string \<Rightarrow> string \<Rightarrow> string" where
  "render_member label v = json_quoted label @ CHR '':'' # json_quoted (json_escape v)"

definition render_package :: "index_fields \<Rightarrow> string" where
  "render_package f = CHR ''{'' # render_member ''name'' (f_name f) @ CHR '','' #
     render_member ''version'' (f_version f) @ CHR '','' # render_member ''arch'' (f_arch f) @ CHR '','' #
     render_member ''url'' (f_url f) @ ''}''"

fun render_packages :: "index_fields list \<Rightarrow> string" where
  "render_packages [] = []"
| "render_packages [f] = render_package f"
| "render_packages (f # fs) = render_package f @ CHR '','' # render_packages fs"

definition fields_printable :: "index_fields \<Rightarrow> bool" where
  "fields_printable f \<longleftrightarrow> list_all printable (f_name f) \<and> list_all printable (f_version f)
     \<and> list_all printable (f_arch f) \<and> list_all printable (f_url f)"

lemma read_into_quoted:
  "list_all printable v \<Longrightarrow> length v < cap
     \<Longrightarrow> read_into cap old (json_quoted (json_escape v) @ q) = (v, q)"
  by (simp add: read_into_def read_quoted)

lemma index_members_step:
  assumes "plain_label l"
  shows "index_members f (render_member l v @ q)
    = (case read_member l f (json_quoted (json_escape v) @ q) of (f', r) \<Rightarrow> index_members f' (skip_comma r))"
proof -
  have cond: "(render_member l v @ q = [] \<or> at (CHR ''}'') (render_member l v @ q)) = False"
    by (simp add: render_member_def json_quoted_def)
  have sp: "wpm_json_space (render_member l v @ q)
      = json_quoted l @ CHR '':'' # json_quoted (json_escape v) @ q"
    by (simp add: render_member_def)
  show ?thesis
    unfolding index_members.simps [of f "render_member l v @ q"] cond if_False sp json_key_quoted [OF assms order_refl]
    by simp
qed

lemma skip_comma_simps:
  "skip_comma (CHR '','' # render_member l v @ q) = render_member l v @ q"
  "skip_comma (CHR ''}'' # q) = CHR ''}'' # q"
  by (simp_all add: skip_comma_def is_json_ws_def)

lemma index_members_stop: "index_members f (CHR ''}'' # q) = (f, CHR ''}'' # q)"
  by (subst index_members.simps) simp

lemma labels: "plain_label ''name''" "plain_label ''version''" "plain_label ''arch''" "plain_label ''url''"
  by (simp_all add: plain_label_def)

lemma index_members_package:
  assumes "fields_bounded f" "fields_printable f"
  shows "\<exists>p. render_package f @ q = CHR ''{'' # p \<and> index_members no_fields p = (f, CHR ''}'' # q)"
proof (intro exI conjI)
  show "index_members no_fields (tl (render_package f @ q)) = (f, CHR ''}'' # q)"
    using assms
    by (simp add: render_package_def index_members_step labels read_member_def read_into_quoted
        skip_comma_simps index_members_stop fields_bounded_def fields_printable_def)
  show "render_package f @ q = CHR ''{'' # tl (render_package f @ q)" by (simp add: render_package_def)
qed

lemma index_loop_package:
  assumes "fields_bounded f" "fields_printable f"
  shows "index_loop repo st (render_package f @ q) = index_loop repo (store_entry repo f st) (skip_comma q)"
proof -
  obtain p where p: "render_package f @ q = CHR ''{'' # p" "index_members no_fields p = (f, CHR ''}'' # q)"
    using index_members_package [OF assms] by blast
  then show ?thesis unfolding p(1) by (subst index_loop.simps) (simp add: Let_def)
qed

lemma index_loop_packages:
  assumes "list_all (\<lambda>f. fields_bounded f \<and> fields_printable f) fs"
  shows "index_loop repo st (render_packages fs @ CHR '']'' # q)
    = fold (store_entry repo) fs st"
  using assms
proof (induction fs arbitrary: st rule: render_packages.induct)
  case 1
  then show ?case by (subst index_loop.simps) simp
next
  case (2 f)
  have "skip_comma (CHR '']'' # q) = CHR '']'' # q" by (simp add: skip_comma_def)
  moreover have "index_loop repo st' (CHR '']'' # q) = st'" for st' by (subst index_loop.simps) simp
  ultimately show ?case using 2 by (simp add: index_loop_package)
next
  case (3 f g fs)
  have "skip_comma (CHR '','' # render_packages (g # fs) @ CHR '']'' # q) = render_packages (g # fs) @ CHR '']'' # q"
    by (simp add: skip_comma_def)
  with 3 show ?case by (simp add: index_loop_package)
qed

lemma store_entries:
  "list_all fields_complete fs \<Longrightarrow> length (fst st) + length fs \<le> MAX_PACKAGES
     \<Longrightarrow> fold (store_entry repo) fs st = (fst st @ map (entry_of repo) fs, snd st)"
proof (induction fs arbitrary: st)
  case (Cons f fs)
  then show ?case by (cases st) (simp add: store_entry_def)
qed simp

text \<open>The package loop reads an array that is written by the JSON encoder back into exactly its
  packages, in order, as long as they fit the table; strings may hold quotes, backslashes and the
  control bytes that are escaped.\<close>

theorem index_round_trip:
  assumes "list_all (\<lambda>f. fields_complete f \<and> fields_bounded f \<and> fields_printable f) fs"
    and "length es + length fs \<le> MAX_PACKAGES"
  shows "index_loop repo (es, True) (render_packages fs @ CHR '']'' # q) = (es @ map (entry_of repo) fs, True)"
proof -
  have "list_all (\<lambda>f. fields_bounded f \<and> fields_printable f) fs" "list_all fields_complete fs"
    using assms(1) by (auto simp: list_all_iff)
  then show ?thesis using assms(2) store_entries [of fs "(es, True)" repo] by (simp add: index_loop_packages)
qed

theorem index_round_trip_witness:
  "let f = \<lparr>f_name = ''a'' @ [DQUOTE], f_version = ''1.0.0'', f_arch = ''any'', f_url = ''a.zip''\<rparr>;
       r = \<lparr>url = ''https://h'', priority = 3, order = 0, allow_insecure_http = False\<rparr> in
     index_loop r ([], True) (render_packages [f] @ '']}'') = ([entry_of r f], True)"
  unfolding Let_def
  by (subst index_round_trip) (simp_all add: fields_complete_def fields_bounded_def
      fields_printable_def printable_def PATH_SIZE_def MAX_PACKAGES_def)

subsection \<open>A name that does not fit\<close>

definition plain_char :: "char \<Rightarrow> bool" where
  "plain_char c \<longleftrightarrow> 32 \<le> byte c \<and> c \<noteq> DQUOTE \<and> c \<noteq> BSLASH"

lemma scan_overflow:
  "list_all plain_char s \<Longrightarrow> n < cap \<Longrightarrow> cap \<le> n + length s
     \<Longrightarrow> json_scan out cap n (s @ r) = (take (cap - 1 - n) s, None)"
proof (induction s arbitrary: n)
  case (Cons c s)
  show ?case
  proof (cases "n + 1 \<ge> cap")
    case True
    with Cons.prems have "cap - 1 - n = 0" by simp
    with True Cons.prems show ?thesis by (simp add: plain_char_def)
  next
    case False
    then have "cap - 1 - n = Suc (cap - 1 - (n + 1))" by simp
    with False Cons.IH [of "n + 1"] Cons.prems show ?thesis by (simp add: plain_char_def)
  qed
qed simp

lemma read_overflow:
  "list_all plain_char s \<Longrightarrow> 0 < cap \<Longrightarrow> cap \<le> length s
     \<Longrightarrow> wpm_json_read_string out cap (json_quoted s @ q) = (take (cap - 1) s, None)"
  using scan_overflow [of s 0 cap out "DQUOTE # q"]
  by (simp add: wpm_json_read_string_def json_quoted_def)

lemma plain_body: "list_all plain_char s \<Longrightarrow> json_body s"
  by (induction s) (auto simp: plain_char_def intro: body_nil body_char)

lemma plain_escape: "list_all plain_char s \<Longrightarrow> json_escape s = s"
  by (induction s) (auto simp: plain_char_def json_escape_char_def)

definition render_name_last :: "index_fields \<Rightarrow> string" where
  "render_name_last f = CHR ''{'' # render_member ''version'' (f_version f) @ CHR '','' #
     render_member ''arch'' (f_arch f) @ CHR '','' # render_member ''url'' (f_url f) @ CHR '','' #
     render_member ''name'' (f_name f) @ ''}''"

text \<open>An index entry whose name does not fit the 128-byte buffer is not refused when the name is the
  last member: it is stored with the first 127 bytes as its name, so the resolver offers it under a
  name that the index does not contain.\<close>

theorem long_name_truncated:
  assumes s: "list_all plain_char (f_name f)" "128 \<le> length (f_name f)" "length (f_name f) < SIZE_MAX"
    and f: "fields_complete f" "fields_bounded (f\<lparr>f_name := []\<rparr>)" "fields_printable f"
    and room: "length es < MAX_PACKAGES"
  shows "index_loop repo (es, True) (render_name_last f @ CHR '']'' # q)
    = (es @ [entry_of repo (f\<lparr>f_name := take 127 (f_name f)\<rparr>)], True)"
proof -
  define g where "g = f\<lparr>f_name := []\<rparr>"
  define h where "h = f\<lparr>f_name := take 127 (f_name f)\<rparr>"
  let ?q = "CHR ''}'' # CHR '']'' # q"
  have long: "read_into 128 [] (json_quoted (f_name f) @ ?q) = (take 127 (f_name f), json_quoted (f_name f) @ ?q)"
    using read_overflow [of "f_name f" 128 True ?q] s by (simp add: read_into_def)
  have key: "json_key 32 (json_quoted (f_name f) @ ?q) = Some ([], ?q)"
    using read_overflow [of "f_name f" 32 True ?q] s
      json_skip_string_complete [OF plain_body [OF s(1)] s(3), of ?q]
    by (simp add: json_key_def)
  have "(json_quoted (f_name f) @ ?q = [] \<or> at (CHR ''}'') (json_quoted (f_name f) @ ?q)) = False"
    by (simp add: json_quoted_def)
  moreover have "wpm_json_space ?q = ?q" by (simp add: is_json_ws_def)
  ultimately have stop: "index_members h (json_quoted (f_name f) @ ?q) = (h, ?q)"
    by (subst index_members.simps) (simp only: if_False space_quoted key, simp)
  have "index_members g (render_member ''name'' (f_name f) @ ?q) = (h, ?q)"
    using long stop by (simp add: index_members_step labels read_member_def plain_escape [OF s(1)]
        g_def h_def skip_comma_def json_quoted_def)
  moreover have "index_members no_fields (tl (render_name_last f @ CHR '']'' # q))
      = index_members g (render_member ''name'' (f_name f) @ ?q)"
    using f by (cases f) (simp add: render_name_last_def index_members_step labels read_member_def read_into_quoted
        skip_comma_simps fields_bounded_def fields_printable_def no_fields_def g_def)
  ultimately have m: "index_members no_fields (tl (render_name_last f @ CHR '']'' # q)) = (h, ?q)" by simp
  have "fields_complete h" using f(1) by (auto simp: fields_complete_def h_def)
  then have store: "store_entry repo h (es, True) = (es @ [entry_of repo h], True)"
    using room by (simp add: store_entry_def)
  have "skip_comma (CHR '']'' # q) = CHR '']'' # q" by (simp add: skip_comma_def)
  moreover have "index_loop repo st (CHR '']'' # q) = st" for st by (subst index_loop.simps) simp
  moreover obtain p where "render_name_last f @ CHR '']'' # q = CHR ''{'' # p"
    by (simp add: render_name_last_def)
  ultimately show ?thesis
    using m store unfolding h_def [symmetric] by (subst index_loop.simps) (simp add: Let_def)
qed

theorem long_name_truncated_witness:
  "let f = \<lparr>f_name = replicate 130 (CHR ''a''), f_version = ''1.0.0'', f_arch = ''any'', f_url = ''a.zip''\<rparr>;
       r = \<lparr>url = ''https://h'', priority = 3, order = 0, allow_insecure_http = False\<rparr> in
     index_loop r ([], True) (render_name_last f @ '']}'')
       = ([entry_of r (f\<lparr>f_name := replicate 127 (CHR ''a'')\<rparr>)], True)"
  unfolding Let_def
  by (subst long_name_truncated) (simp_all add: fields_complete_def fields_bounded_def list_all_iff
      fields_printable_def printable_def plain_char_def PATH_SIZE_def MAX_PACKAGES_def SIZE_MAX_def)

end
