(* ===== verification/Recovery_Audit.thy ===== *)
theory Recovery_Audit
  imports Comparison Json_Object
begin

unbundle bit_operations_syntax

text \<open>
  The audit of failed upgrades: the text that \<open>write_upgrade_audit\<close> of \<open>wpm/archive.c\<close> writes, and
  the bounded query of \<open>wpm/recovery.c\<close> that reads these files back and lists them. The file
  system is a parameter: attributes of the audit directory, the enumeration of its files and their
  content. Human readable messages are not modelled, the JSON output is.
\<close>

subsection \<open>The record of one failed upgrade\<close>

record failure_record =
  fr_file :: string
  fr_name :: string
  fr_arch :: string
  fr_old_version :: string
  fr_new_version :: string
  fr_archive :: string
  fr_phase :: string
  fr_exit_code :: nat

definition no_failure :: failure_record where
  "no_failure = \<lparr>fr_file = [], fr_name = [], fr_arch = [], fr_old_version = [], fr_new_version = [],
     fr_archive = [], fr_phase = [], fr_exit_code = 0\<rparr>"

definition MAX_PATH :: nat where "MAX_PATH = 260"
definition RECOVERY_PATH :: nat where "RECOVERY_PATH = 4096"
definition RECOVERY_LIMIT :: nat where "RECOVERY_LIMIT = 128"

text \<open>The destination of a key: its bit, its capacity and its member.\<close>

definition audit_member ::
  "string \<Rightarrow> (nat \<times> nat \<times> (string \<Rightarrow> failure_record \<Rightarrow> failure_record)) option" where
  "audit_member key =
     (if key = ''name'' then Some (1, 128, \<lambda>v r. r\<lparr>fr_name := v\<rparr>)
      else if key = ''arch'' then Some (2, 16, \<lambda>v r. r\<lparr>fr_arch := v\<rparr>)
      else if key = ''old-version'' then Some (4, 64, \<lambda>v r. r\<lparr>fr_old_version := v\<rparr>)
      else if key = ''new-version'' then Some (8, 64, \<lambda>v r. r\<lparr>fr_new_version := v\<rparr>)
      else if key = ''archive'' then Some (16, MAX_PATH, \<lambda>v r. r\<lparr>fr_archive := v\<rparr>)
      else if key = ''phase'' then Some (32, 64, \<lambda>v r. r\<lparr>fr_phase := v\<rparr>)
      else None)"

text \<open>The decimal exit code; the test before each digit keeps the number below \<open>2 ^ 32\<close>.\<close>

fun exit_digits :: "nat \<Rightarrow> string \<Rightarrow> nat option" where
  "exit_digits number [] = Some number"
| "exit_digits number (c # p) =
     (if \<not> is_digit c \<or> number > (0xffffffff - digit_val c) div 10 then None
      else exit_digits (number * 10 + digit_val c) p)"

text \<open>One line: the bits of the keys seen so far and the record.\<close>

definition audit_line :: "string \<Rightarrow> nat \<times> failure_record \<Rightarrow> (nat \<times> failure_record) option" where
  "audit_line line st =
     (case strchr (CHR ''='') line of
        None \<Rightarrow> None
      | Some sign \<Rightarrow>
          let key = takeWhile (\<lambda>c. c \<noteq> CHR ''='') line; value = tl sign; seen = fst st in
          (case audit_member key of
             Some (field, capacity, store) \<Rightarrow>
               if seen AND field \<noteq> 0 \<or> value = [] \<or> length value \<ge> capacity then None
               else Some (seen OR field, store value (snd st))
           | None \<Rightarrow>
               if key = ''status'' \<or> key = ''verification'' then
                 (let field = (if key = ''status'' then 64 else 128) in
                  if value \<noteq> ''failed'' \<or> seen AND field \<noteq> 0 then None
                  else Some (seen OR field, snd st))
               else if key = ''exit-code'' then
                 (if value = [] then None
                  else (case exit_digits 0 value of
                          None \<Rightarrow> None
                        | Some number \<Rightarrow>
                            if seen AND 256 \<noteq> 0 then None
                            else Some (seen OR 256, (snd st)\<lparr>fr_exit_code := number\<rparr>)))
               else Some st))"

definition line_break :: "char \<Rightarrow> bool" where
  "line_break c \<longleftrightarrow> c = CR \<or> c = LF"

lemma line_break_simps [simp]: "line_break CR" "line_break LF"
  by (simp_all add: line_break_def)

function audit_loop :: "nat \<times> failure_record \<Rightarrow> string \<Rightarrow> (nat \<times> failure_record) option" where
  "audit_loop st s =
     (if s = [] then Some st
      else (case audit_line (takeWhile (\<lambda>c. \<not> line_break c) s) st of
              None \<Rightarrow> None
            | Some st' \<Rightarrow> audit_loop st' (dropWhile line_break (dropWhile (\<lambda>c. \<not> line_break c) s))))"
  by pat_completeness auto
termination
proof (relation "measure (\<lambda>(st, s). length s)", goal_cases)
  case (2 st s st')
  then obtain c p where s: "s = c # p" by (cases s) auto
  have "length (dropWhile line_break (dropWhile (\<lambda>c. \<not> line_break c) q)) \<le> length q" for q
    using length_dropWhile_le le_trans by blast
  moreover have "length (dropWhile line_break p) \<le> length p" by (rule length_dropWhile_le)
  ultimately show ?case unfolding s by (cases "line_break c") (simp_all add: le_imp_less_Suc)
qed simp

declare audit_loop.simps [simp del]

definition supported_arch :: "string \<Rightarrow> bool" where
  "supported_arch a \<longleftrightarrow> strieq a ''any'' \<or> strieq a ''x86'' \<or> strieq a ''x64'' \<or> strieq a ''arm64''"

definition path_syntax :: "char \<Rightarrow> bool" where
  "path_syntax c \<longleftrightarrow> c = BSLASH \<or> c = SLASH \<or> c = CHR '':''"

definition recovery_record :: "string option \<Rightarrow> failure_record option" where
  "recovery_record content =
     (case content of
        None \<Rightarrow> None
      | Some text \<Rightarrow>
          if text = [] \<or> length text \<ge> 16385 \<or> NUL \<in> set text then None
          else (case audit_loop (0, no_failure) text of
                  None \<Rightarrow> None
                | Some (seen, r) \<Rightarrow>
                    if seen = 511 \<and> supported_arch (fr_arch r) \<and> \<not> list_ex path_syntax (fr_archive r)
                       \<and> fr_archive r \<noteq> ''.'' \<and> fr_archive r \<noteq> ''..''
                    then Some r else None))"

subsection \<open>The writer\<close>

definition audit_pair :: "string \<Rightarrow> string \<Rightarrow> string" where
  "audit_pair key value = key @ CHR ''='' # value @ [LF]"

text \<open>\<open>signing_key\<close> is \<open>None\<close> for \<open>NULL\<close> or the empty key, \<open>phase\<close> is \<open>None\<close> for \<open>NULL\<close>.\<close>

definition upgrade_audit_text ::
  "string \<Rightarrow> string \<Rightarrow> string \<Rightarrow> string \<Rightarrow> string \<Rightarrow> string option \<Rightarrow> bool \<Rightarrow> string option \<Rightarrow> nat \<Rightarrow> string" where
  "upgrade_audit_text name arch old_version version archive_name signing_key failed phase_name exit_code =
     audit_pair ''name'' name @ audit_pair ''arch'' arch @ audit_pair ''old-version'' old_version
     @ audit_pair ''new-version'' version @ audit_pair ''archive'' archive_name
     @ audit_pair ''signing-key'' (case signing_key of None \<Rightarrow> ''unknown'' | Some k \<Rightarrow> k)
     @ audit_pair ''verification'' (if failed then ''failed'' else ''verified'')
     @ audit_pair ''status'' (if failed then ''failed'' else ''upgraded'')
     @ (if failed then audit_pair ''phase'' (case phase_name of None \<Rightarrow> ''unknown'' | Some p \<Rightarrow> p)
                       @ audit_pair ''exit-code'' (decimal exit_code)
        else [])"

subsection \<open>The query\<close>

definition recovery_join :: "nat \<Rightarrow> string \<Rightarrow> string \<Rightarrow> string option" where
  "recovery_join cap root item =
     fits cap (root @ (if last root = BSLASH then [] else [BSLASH]) @ item)"

definition recovery_order :: "failure_record \<Rightarrow> failure_record \<Rightarrow> int" where
  "recovery_order a b = stricmp (fr_file b) (fr_file a)"

definition control_char :: "char \<Rightarrow> bool" where
  "control_char c \<longleftrightarrow> byte c < 32 \<or> byte c = 127"

definition wpm_recovery_filters_valid :: "string option \<Rightarrow> string option \<Rightarrow> bool" where
  "wpm_recovery_filters_valid name arch \<longleftrightarrow>
     (case name of None \<Rightarrow> True | Some n \<Rightarrow> n \<noteq> [] \<and> length n < 128 \<and> \<not> list_ex control_char n)
     \<and> (case arch of None \<Rightarrow> True | Some a \<Rightarrow> supported_arch a)"

text \<open>What the file system answers. \<open>Attributes_missing\<close> and \<open>Search_failed\<close> say whether the error was
  that there is no such file (or path); \<open>Attributes\<close> holds the directory and the reparse flag;
  \<open>Search_found\<close> holds the files and whether the enumeration came to its end.\<close>

datatype attributes_result = Attributes_missing bool | Attributes bool bool

record found_file =
  found_special :: bool
  found_name :: string

datatype search_result = Search_failed bool | Search_found "found_file list" bool

record audit_files =
  data_root :: "string option"
  attributes_of :: "string \<Rightarrow> attributes_result"
  search_of :: "string \<Rightarrow> search_result"
  content_of :: "string \<Rightarrow> string option"

record scan_state =
  sc_records :: "failure_record list"
  sc_scanned :: nat
  sc_filtered :: nat
  sc_invalid :: nat
  sc_limited :: bool

definition scan_start :: scan_state where
  "scan_start = \<lparr>sc_records = [], sc_scanned = 0, sc_filtered = 0, sc_invalid = 0, sc_limited = False\<rparr>"

definition filter_excludes :: "string option \<Rightarrow> string option \<Rightarrow> failure_record \<Rightarrow> bool" where
  "filter_excludes name arch r \<longleftrightarrow>
     (case name of None \<Rightarrow> False | Some n \<Rightarrow> \<not> strieq n (fr_name r))
     \<or> (case arch of None \<Rightarrow> False | Some a \<Rightarrow> \<not> strieq a (fr_arch r))"

text \<open>The record read from one found file of the directory.\<close>

definition found_record :: "audit_files \<Rightarrow> string \<Rightarrow> found_file \<Rightarrow> failure_record option" where
  "found_record files directory f =
     (if found_special f then None
      else (case recovery_join RECOVERY_PATH directory (found_name f) of
              None \<Rightarrow> None
            | Some path \<Rightarrow> recovery_record (content_of files path)))"

definition scan_file ::
  "string option \<Rightarrow> string option \<Rightarrow> audit_files \<Rightarrow> string \<Rightarrow> found_file \<Rightarrow> scan_state \<Rightarrow> scan_state" where
  "scan_file name arch files directory f st =
     (let st = st\<lparr>sc_scanned := sc_scanned st + 1\<rparr> in
      (case found_record files directory f of
         None \<Rightarrow> st\<lparr>sc_invalid := sc_invalid st + 1\<rparr>
       | Some r \<Rightarrow>
           if filter_excludes name arch r then st\<lparr>sc_filtered := sc_filtered st + 1\<rparr>
           else st\<lparr>sc_records := sc_records st @ [r\<lparr>fr_file := found_name f\<rparr>]\<rparr>))"

fun scan_loop ::
  "nat \<Rightarrow> string option \<Rightarrow> string option \<Rightarrow> audit_files \<Rightarrow> string \<Rightarrow> found_file list \<Rightarrow> scan_state \<Rightarrow> scan_state" where
  "scan_loop limit name arch files directory [] st = st"
| "scan_loop limit name arch files directory (f # fs) st =
     (if sc_scanned st = limit then st\<lparr>sc_limited := True\<rparr>
      else scan_loop limit name arch files directory fs (scan_file name arch files directory f st))"

text \<open>The part between the parameter checks and the output: success and the state.\<close>

definition recovery_scan ::
  "nat \<Rightarrow> string option \<Rightarrow> string option \<Rightarrow> audit_files \<Rightarrow> bool \<times> scan_state" where
  "recovery_scan limit name arch files =
     (case data_root files of
        None \<Rightarrow> (False, scan_start)
      | Some root \<Rightarrow>
          if root = [] then (False, scan_start)
          else
          (case recovery_join RECOVERY_PATH root ''audit'' of
             None \<Rightarrow> (False, scan_start)
           | Some directory \<Rightarrow>
               (case attributes_of files directory of
                  Attributes_missing absent \<Rightarrow> (absent, scan_start)
                | Attributes is_directory reparse \<Rightarrow>
                    if \<not> is_directory \<or> reparse then (False, scan_start)
                    else
                    (case recovery_join RECOVERY_PATH directory ''*.upgrade-failed.txt'' of
                       None \<Rightarrow> (False, scan_start)
                     | Some pattern \<Rightarrow>
                         (case search_of files pattern of
                            Search_failed absent \<Rightarrow> (absent, scan_start)
                          | Search_found found ended \<Rightarrow>
                              let st = scan_loop limit name arch files directory found scan_start;
                                  st = (if \<not> sc_limited st \<and> \<not> ended
                                        then st\<lparr>sc_invalid := sc_invalid st + 1\<rparr> else st) in
                              (sc_invalid st = 0 \<and> \<not> sc_limited st,
                               st\<lparr>sc_records := qsort recovery_order (sc_records st)\<rparr>))))))"

subsection \<open>The JSON output\<close>

definition json_bool :: "bool \<Rightarrow> string" where
  "json_bool b = (if b then ''true'' else ''false'')"

text \<open>\<open>wpm_json_string\<close> on a text or \<open>NULL\<close>: the bytes, and 1 when it could not be encoded.\<close>

definition json_out :: "bool \<Rightarrow> string option \<Rightarrow> string" where
  "json_out stream_error v = fst (wpm_json_write_string stream_error v)"

definition json_issue :: "bool \<Rightarrow> string option \<Rightarrow> nat" where
  "json_issue stream_error v = (if snd (wpm_json_write_string stream_error v) then 0 else 1)"

definition failure_members :: "failure_record \<Rightarrow> (string \<times> string) list" where
  "failure_members r =
     [(''record'', fr_file r), (''name'', fr_name r), (''arch'', fr_arch r),
      (''old_version'', fr_old_version r), (''new_version'', fr_new_version r),
      (''archive_reference'', fr_archive r), (''phase'', fr_phase r)]"

definition failure_object :: "bool \<Rightarrow> failure_record \<Rightarrow> string" where
  "failure_object stream_error r =
     json_object (map (\<lambda>(k, v). (k, json_out stream_error (Some v))) (failure_members r)
       @ [(''exit_code'', decimal (fr_exit_code r))])"

definition failure_issues :: "bool \<Rightarrow> failure_record \<Rightarrow> nat" where
  "failure_issues stream_error r =
     sum_list (map (\<lambda>(k, v). json_issue stream_error (Some v)) (failure_members r))"

definition recovery_json ::
  "bool \<Rightarrow> scan_state \<Rightarrow> bool \<Rightarrow> nat \<Rightarrow> string option \<Rightarrow> string option \<Rightarrow> string \<times> bool" where
  "recovery_json stream_error st complete limit name arch =
     (let filters = (name \<noteq> None \<or> arch \<noteq> None);
          issues = (if filters then json_issue stream_error name + json_issue stream_error arch else 0)
            + sum_list (map (failure_issues stream_error) (sc_records st));
          status = (if complete \<and> issues = 0 then ''complete''
            else if \<not> complete \<and> sc_invalid st = 0 \<and> \<not> sc_limited st then ''unavailable''
            else ''partial'');
          complete = (complete \<and> issues = 0) in
      (json_object (
         [(''schema'', json_quoted ''wpm.recovery-list.v1'')]
         @ (if filters then
              [(''filters'', json_object [(''name'', json_out stream_error name),
                                          (''arch'', json_out stream_error arch)]),
               (''selection'', json_object [(''examined'', decimal (sc_scanned st)),
                                            (''filtered_out'', decimal (sc_filtered st))])]
            else [])
         @ [(''records'', json_array (map (failure_object stream_error) (sc_records st))),
            (''summary'', json_object
               [(''records'', decimal (length (sc_records st))),
                (''invalid_or_unreadable'', decimal (sc_invalid st)),
                (''limited'', json_bool (sc_limited st)), (''limit'', decimal limit),
                (''serialization_issues'', decimal issues)]),
            (''status'', json_quoted status), (''complete'', json_bool complete),
            (''exit_code'', decimal (if complete then 0 else 1)),
            (''authenticated'', ''false''), (''external_state_known'', ''false''),
            (''automatic_retry_supported'', ''false'')]) @ [LF],
       complete))"

text \<open>The JSON bytes on standard output (none in the human mode) and the result.\<close>

definition recovery_query ::
  "bool \<Rightarrow> nat \<Rightarrow> bool \<Rightarrow> string option \<Rightarrow> string option \<Rightarrow> audit_files \<Rightarrow> string \<times> bool" where
  "recovery_query stream_error limit json name arch files =
     (if limit = 0 \<or> limit > 4096 \<or> \<not> wpm_recovery_filters_valid name arch then ([], False)
      else
        let scan = recovery_scan limit name arch files in
        if json then
          (let out = recovery_json stream_error (snd scan) (fst scan) limit name arch in
           (fst out, \<not> stream_error \<and> snd out))
        else ([], \<not> stream_error \<and> fst scan))"

definition wpm_recovery_list_filtered ::
  "bool \<Rightarrow> nat \<Rightarrow> bool \<Rightarrow> string option \<Rightarrow> string option \<Rightarrow> audit_files \<Rightarrow> string \<times> bool" where
  "wpm_recovery_list_filtered stream_error limit json name arch files =
     recovery_query stream_error limit json name arch files"

definition wpm_recovery_list_limit :: "bool \<Rightarrow> nat \<Rightarrow> audit_files \<Rightarrow> string \<times> bool" where
  "wpm_recovery_list_limit stream_error limit files =
     recovery_query stream_error limit False None None files"

definition wpm_recovery_list :: "bool \<Rightarrow> audit_files \<Rightarrow> string \<times> bool" where
  "wpm_recovery_list stream_error files = wpm_recovery_list_limit stream_error RECOVERY_LIMIT files"

definition wpm_recovery_list_json :: "bool \<Rightarrow> nat \<Rightarrow> audit_files \<Rightarrow> string \<times> bool" where
  "wpm_recovery_list_json stream_error limit files =
     recovery_query stream_error limit True None None files"

subsection \<open>Accepted records\<close>

text \<open>Every member is present in its buffer, and the archive is a bare file name.\<close>

definition failure_bounded :: "failure_record \<Rightarrow> bool" where
  "failure_bounded r \<longleftrightarrow> length (fr_name r) < 128 \<and> length (fr_arch r) < 16
     \<and> length (fr_old_version r) < 64 \<and> length (fr_new_version r) < 64
     \<and> length (fr_archive r) < MAX_PATH \<and> length (fr_phase r) < 64 \<and> fr_exit_code r < 2 ^ 32"

text \<open>The bits stand for members that were set: a member whose bit is set is not empty.\<close>

definition seen_ok :: "nat \<Rightarrow> failure_record \<Rightarrow> bool" where
  "seen_ok seen r \<longleftrightarrow>
     (bit seen 0 \<longrightarrow> fr_name r \<noteq> []) \<and> (bit seen 1 \<longrightarrow> fr_arch r \<noteq> [])
     \<and> (bit seen 2 \<longrightarrow> fr_old_version r \<noteq> []) \<and> (bit seen 3 \<longrightarrow> fr_new_version r \<noteq> [])
     \<and> (bit seen 4 \<longrightarrow> fr_archive r \<noteq> []) \<and> (bit seen 5 \<longrightarrow> fr_phase r \<noteq> [])"

lemma exit_digits_bound: "exit_digits n p = Some m \<Longrightarrow> n < 2 ^ 32 \<Longrightarrow> m < 2 ^ 32"
proof (induction n p rule: exit_digits.induct)
  case (2 n c p)
  then have d: "is_digit c" "n \<le> (0xffffffff - digit_val c) div 10"
    and m: "exit_digits (n * 10 + digit_val c) p = Some m" by (auto split: if_splits)
  have "digit_val c \<le> 9" using d(1) by (rule digit_val_le)
  with d(2) have "n * 10 + digit_val c < 2 ^ 32" by auto
  with 2 m d show ?case by auto
qed simp

lemma bit_fields:
  "bit (1 :: nat) n = (n = 0)" "bit (2 :: nat) n = (n = 1)" "bit (4 :: nat) n = (n = 2)"
  "bit (8 :: nat) n = (n = 3)" "bit (16 :: nat) n = (n = 4)" "bit (32 :: nat) n = (n = 5)"
  "bit (64 :: nat) n = (n = 6)" "bit (128 :: nat) n = (n = 7)" "bit (256 :: nat) n = (n = 8)"
proof -
  have "bit (2 ^ m :: nat) n = (n = m)" for m by (auto simp: bit_exp_iff)
  from this [of 0] this [of 1] this [of 2] this [of 3] this [of 4] this [of 5] this [of 6] this [of 7]
    this [of 8]
  show "bit (1 :: nat) n = (n = 0)" "bit (2 :: nat) n = (n = 1)" "bit (4 :: nat) n = (n = 2)"
    "bit (8 :: nat) n = (n = 3)" "bit (16 :: nat) n = (n = 4)" "bit (32 :: nat) n = (n = 5)"
    "bit (64 :: nat) n = (n = 6)" "bit (128 :: nat) n = (n = 7)" "bit (256 :: nat) n = (n = 8)"
    by simp_all
qed

lemma audit_member_ok:
  assumes "audit_member key = Some (field, cap, store)" "failure_bounded r" "seen_ok seen r"
    and "v \<noteq> []" "length v < cap"
  shows "failure_bounded (store v r) \<and> seen_ok (seen OR field) (store v r)"
proof -
  have "(key = ''name'' \<and> field = 1 \<and> cap = 128 \<and> store = (\<lambda>v r. r\<lparr>fr_name := v\<rparr>))
    \<or> (key = ''arch'' \<and> field = 2 \<and> cap = 16 \<and> store = (\<lambda>v r. r\<lparr>fr_arch := v\<rparr>))
    \<or> (key = ''old-version'' \<and> field = 4 \<and> cap = 64 \<and> store = (\<lambda>v r. r\<lparr>fr_old_version := v\<rparr>))
    \<or> (key = ''new-version'' \<and> field = 8 \<and> cap = 64 \<and> store = (\<lambda>v r. r\<lparr>fr_new_version := v\<rparr>))
    \<or> (key = ''archive'' \<and> field = 16 \<and> cap = MAX_PATH \<and> store = (\<lambda>v r. r\<lparr>fr_archive := v\<rparr>))
    \<or> (key = ''phase'' \<and> field = 32 \<and> cap = 64 \<and> store = (\<lambda>v r. r\<lparr>fr_phase := v\<rparr>))"
    using assms(1) unfolding audit_member_def by (simp split: if_splits)
  then show ?thesis
    using assms(2-) by (elim disjE) (simp_all add: failure_bounded_def seen_ok_def bit_or_iff bit_fields)
qed

lemma audit_line_ok:
  assumes line: "audit_line line st = Some st'" and ok: "failure_bounded (snd st)" "seen_ok (fst st) (snd st)"
  shows "failure_bounded (snd st') \<and> seen_ok (fst st') (snd st')"
proof -
  from line obtain sign where sign: "strchr (CHR ''='') line = Some sign"
    by (auto simp: audit_line_def split: option.splits)
  define key where "key = takeWhile (\<lambda>c. c \<noteq> CHR ''='') line"
  note line = line [unfolded audit_line_def sign option.case Let_def, folded key_def]
  show ?thesis
  proof (cases "audit_member key")
    case (Some m)
    obtain field cap store where "m = (field, cap, store)" by (cases m)
    with Some line ok audit_member_ok [of key field cap store "snd st" "fst st" "tl sign"]
    show ?thesis by (auto split: if_splits)
  next
    case None
    note line = line [unfolded None option.case]
    have keep: "seen_ok (fst st OR field) r" if "field \<in> {64, 128, 256}" "seen_ok (fst st) r" for field r
      using that by (auto simp: seen_ok_def bit_or_iff bit_fields)
    show ?thesis
    proof (cases "key = ''status'' \<or> key = ''verification''")
      case True
      with line ok keep show ?thesis by (auto split: if_splits)
    next
      case False
      note line = line [unfolded if_not_P [OF False]]
      have "seen_ok (fst st) (snd st\<lparr>fr_exit_code := n\<rparr>)" for n using ok by (simp add: seen_ok_def)
      moreover have "failure_bounded (snd st\<lparr>fr_exit_code := n\<rparr>)" if "exit_digits 0 p = Some n" for n p
        using exit_digits_bound [OF that] ok by (simp add: failure_bounded_def)
      ultimately show ?thesis using line ok keep by (auto split: if_splits option.splits)
    qed
  qed
qed

lemma audit_loop_ok:
  "audit_loop st s = Some st' \<Longrightarrow> failure_bounded (snd st) \<Longrightarrow> seen_ok (fst st) (snd st)
     \<Longrightarrow> failure_bounded (snd st') \<and> seen_ok (fst st') (snd st')"
proof (induction st s rule: audit_loop.induct)
  case (1 st s)
  show ?case
  proof (cases "s = []")
    case False
    with "1.prems"(1) obtain st1 where st1: "audit_line (takeWhile (\<lambda>c. \<not> line_break c) s) st = Some st1"
      and r: "audit_loop st1 (dropWhile line_break (dropWhile (\<lambda>c. \<not> line_break c) s)) = Some st'"
      by (subst (asm) audit_loop.simps) (auto split: option.splits)
    have "failure_bounded (snd st1) \<and> seen_ok (fst st1) (snd st1)"
      using audit_line_ok [OF st1] "1.prems"(2,3) by blast
    with "1.IH" [OF False st1 r] show ?thesis by blast
  next
    case True
    with "1.prems" show ?thesis by (subst (asm) audit_loop.simps) simp
  qed
qed

text \<open>A failure record that the query accepts has every member present and within its buffer, a
  supported architecture, an exit code of 32 bits, and an archive reference without path syntax.\<close>

theorem recovery_record_safe:
  assumes "recovery_record content = Some r"
  shows "failure_bounded r \<and> fr_name r \<noteq> [] \<and> fr_old_version r \<noteq> [] \<and> fr_new_version r \<noteq> []
    \<and> fr_phase r \<noteq> [] \<and> supported_arch (fr_arch r)
    \<and> fr_archive r \<notin> {[], ''.'', ''..''} \<and> (\<forall>c \<in> set (fr_archive r). \<not> path_syntax c)"
proof -
  from assms obtain s where loop: "audit_loop (0, no_failure) s = Some (511, r)"
    and a: "supported_arch (fr_arch r)" "\<not> list_ex path_syntax (fr_archive r)"
      "fr_archive r \<noteq> ''.''" "fr_archive r \<noteq> ''..''"
    by (auto simp: recovery_record_def split: option.splits if_splits)
  have "failure_bounded r \<and> seen_ok 511 r"
    using audit_loop_ok [OF loop]
    by (simp add: failure_bounded_def no_failure_def MAX_PATH_def seen_ok_def)
  moreover have "bit (511 :: nat) n" if "n < 6" for n
  proof -
    have "list_all (bit (511 :: nat)) [0..<6]" by code_simp
    with that show ?thesis by (simp add: list_all_iff)
  qed
  ultimately show ?thesis using a by (auto simp: seen_ok_def list_ex_iff)
qed

subsection \<open>Writing and reading an audit\<close>

definition one_line :: "string \<Rightarrow> bool" where
  "one_line v \<longleftrightarrow> (\<forall>c \<in> set v. \<not> line_break c \<and> c \<noteq> NUL)"

definition audit_key :: "string \<Rightarrow> bool" where
  "audit_key k \<longleftrightarrow> k \<noteq> [] \<and> list_all (\<lambda>c. c \<noteq> CHR ''='' \<and> \<not> line_break c) k"

lemma audit_keys [simp]:
  "audit_key ''name''" "audit_key ''arch''" "audit_key ''old-version''" "audit_key ''new-version''"
  "audit_key ''archive''" "audit_key ''signing-key''" "audit_key ''verification''" "audit_key ''status''"
  "audit_key ''phase''" "audit_key ''exit-code''"
  by (simp_all add: audit_key_def line_break_def)

text \<open>The effect of the line \<open>key=value\<close>.\<close>

definition audit_entry :: "string \<Rightarrow> string \<Rightarrow> nat \<times> failure_record \<Rightarrow> (nat \<times> failure_record) option" where
  "audit_entry k v st = audit_line (k @ CHR ''='' # v) st"

lemma audit_entry_line:
  assumes "audit_key k"
  shows "strchr (CHR ''='') (k @ CHR ''='' # v) = Some (CHR ''='' # v)"
    and "takeWhile (\<lambda>c. c \<noteq> CHR ''='') (k @ CHR ''='' # v) = k"
  using assms strchr_append [of "CHR ''=''" k v] by (auto simp: audit_key_def list_all_iff takeWhile_tail)

lemma audit_loop_pair:
  assumes k: "audit_key k" and v: "one_line v" and s: "s = [] \<or> \<not> line_break (hd s)"
  shows "audit_loop st (audit_pair k v @ s)
    = (case audit_entry k v st of None \<Rightarrow> None | Some st' \<Rightarrow> audit_loop st' s)"
proof -
  have b: "\<forall>c \<in> set (k @ CHR ''='' # v). \<not> line_break c"
    using k v by (auto simp: audit_key_def list_all_iff one_line_def line_break_def)
  have split: "takeWhile (\<lambda>c. \<not> line_break c) (w @ LF # s) = w
      \<and> dropWhile (\<lambda>c. \<not> line_break c) (w @ LF # s) = LF # s" if "\<forall>c \<in> set w. \<not> line_break c" for w
    using that by (induction w) auto
  have "dropWhile line_break s = s" using s by (cases s) auto
  with split [OF b] show ?thesis
    by (subst audit_loop.simps) (simp add: audit_pair_def audit_entry_def cong: option.case_cong)
qed

lemma audit_pair_start [simp]: "audit_key k \<Longrightarrow> \<not> line_break (hd (audit_pair k v @ s))"
  "audit_key k \<Longrightarrow> \<not> line_break (hd (audit_pair k v))"
  by (cases k; simp add: audit_pair_def audit_key_def)+

lemma audit_loop_Nil [simp]: "audit_loop st [] = Some st"
  by (subst audit_loop.simps) simp

lemmas audit_entry_unfold = audit_entry_def audit_line_def audit_entry_line Let_def

lemma audit_entry_member:
  assumes "audit_member k = Some (field, cap, store)" "audit_key k"
    and "v \<noteq> []" "length v < cap" "seen AND field = 0"
  shows "audit_entry k v (seen, r) = Some (seen OR field, store v r)"
  using assms by (simp add: audit_entry_unfold)

lemma audit_members:
  "audit_member ''name'' = Some (1, 128, \<lambda>v r. r\<lparr>fr_name := v\<rparr>)"
  "audit_member ''arch'' = Some (2, 16, \<lambda>v r. r\<lparr>fr_arch := v\<rparr>)"
  "audit_member ''old-version'' = Some (4, 64, \<lambda>v r. r\<lparr>fr_old_version := v\<rparr>)"
  "audit_member ''new-version'' = Some (8, 64, \<lambda>v r. r\<lparr>fr_new_version := v\<rparr>)"
  "audit_member ''archive'' = Some (16, MAX_PATH, \<lambda>v r. r\<lparr>fr_archive := v\<rparr>)"
  "audit_member ''phase'' = Some (32, 64, \<lambda>v r. r\<lparr>fr_phase := v\<rparr>)"
  by (simp_all add: audit_member_def)

lemma audit_no_members:
  "audit_member ''signing-key'' = None" "audit_member ''status'' = None"
  "audit_member ''verification'' = None" "audit_member ''exit-code'' = None"
  by (simp_all add: audit_member_def)

lemmas audit_entries = audit_members [THEN audit_entry_member, simplified]

lemma audit_other_entries:
  "audit_entry ''signing-key'' v st = Some st"
  "audit_entry ''status'' ''failed'' (seen, r)
     = (if seen AND 64 = 0 then Some (seen OR 64, r) else None)"
  "audit_entry ''verification'' ''failed'' (seen, r)
     = (if seen AND 128 = 0 then Some (seen OR 128, r) else None)"
  "audit_entry ''verification'' ''verified'' st = None"
proof -
  have k: "audit_entry k v st =
     (if k = ''status'' \<or> k = ''verification'' then
        (let field = (if k = ''status'' then 64 else 128) in
         if v \<noteq> ''failed'' \<or> fst st AND field \<noteq> 0 then None else Some (fst st OR field, snd st))
      else Some st)"
    if "audit_member k = None" "k \<noteq> ''exit-code''" "audit_key k" for k v st
    using that by (simp add: audit_entry_unfold)
  show "audit_entry ''signing-key'' v st = Some st" "audit_entry ''verification'' ''verified'' st = None"
    "audit_entry ''status'' ''failed'' (seen, r) = (if seen AND 64 = 0 then Some (seen OR 64, r) else None)"
    "audit_entry ''verification'' ''failed'' (seen, r) = (if seen AND 128 = 0 then Some (seen OR 128, r) else None)"
    by (simp_all add: k audit_no_members)
qed

lemma exit_digits_value:
  "list_all is_digit d \<Longrightarrow> foldl (\<lambda>r c. 10 * r + digit_val c) n d < 2 ^ 32
     \<Longrightarrow> exit_digits n d = Some (foldl (\<lambda>r c. 10 * r + digit_val c) n d)"
proof (induction d arbitrary: n)
  case (Cons c d)
  have grow: "m \<le> foldl (\<lambda>r c. 10 * r + digit_val c) m w" for m w
  proof (induction w arbitrary: m)
    case (Cons c w)
    from Cons [of "10 * m + digit_val c"] show ?case by simp
  qed simp
  have "10 * n + digit_val c < 2 ^ 32" using Cons.prems grow [of "10 * n + digit_val c" d] by simp
  then have "n \<le> (0xffffffff - digit_val c) div 10" by simp
  with Cons show ?case by (simp add: mult.commute [of n 10])
qed simp

lemma exit_entry:
  assumes "n < 2 ^ 32" "seen AND 256 = 0"
  shows "audit_entry ''exit-code'' (decimal n) (seen, r) = Some (seen OR 256, r\<lparr>fr_exit_code := n\<rparr>)"
proof -
  have "exit_digits 0 (decimal n) = Some n"
    using exit_digits_value [OF decimal_digits, of 0 n] assms(1) dec_value_decimal [of n]
    by (simp add: dec_value_def)
  then have "audit_entry k (decimal n) (seen, r) = Some (seen OR 256, r\<lparr>fr_exit_code := n\<rparr>)"
    if "k = ''exit-code''" "audit_key k" for k
    using assms(2) that audit_no_members by (simp add: audit_entry_unfold)
  then show ?thesis by simp
qed

lemma one_line_words:
  "one_line ''failed''" "one_line ''verified''" "one_line ''upgraded''" "one_line ''unknown''"
  by (simp_all add: one_line_def line_break_def)

lemma one_line_decimal: "one_line (decimal n)"
  using decimal_digits [of n] by (auto simp: one_line_def line_break_def list_all_iff is_digit_def)

text \<open>The audit of a failed upgrade as the record it stands for.\<close>

definition audit_writable :: "failure_record \<Rightarrow> bool" where
  "audit_writable r \<longleftrightarrow> failure_bounded r \<and> supported_arch (fr_arch r)
     \<and> list_all (\<lambda>v. v \<noteq> [] \<and> one_line v)
          [fr_name r, fr_arch r, fr_old_version r, fr_new_version r, fr_archive r, fr_phase r]
     \<and> fr_archive r \<notin> {''.'', ''..''} \<and> (\<forall>c \<in> set (fr_archive r). \<not> path_syntax c)"

definition audit_of :: "failure_record \<Rightarrow> string option \<Rightarrow> bool \<Rightarrow> string" where
  "audit_of r key failed = upgrade_audit_text (fr_name r) (fr_arch r) (fr_old_version r) (fr_new_version r)
     (fr_archive r) key failed (Some (fr_phase r)) (fr_exit_code r)"

lemma audit_loop_of:
  assumes r: "audit_writable r" and key: "\<And>k. key = Some k \<Longrightarrow> one_line k"
  shows "audit_loop (0, no_failure) (audit_of r key failed) = (if failed then Some (511, r\<lparr>fr_file := []\<rparr>) else None)"
proof -
  have v: "fr_name r \<noteq> []" "fr_arch r \<noteq> []" "fr_old_version r \<noteq> []" "fr_new_version r \<noteq> []"
    "fr_archive r \<noteq> []" "fr_phase r \<noteq> []"
    and l: "one_line (fr_name r)" "one_line (fr_arch r)" "one_line (fr_old_version r)"
      "one_line (fr_new_version r)" "one_line (fr_archive r)" "one_line (fr_phase r)"
    and b: "length (fr_name r) < 128" "length (fr_arch r) < 16" "length (fr_old_version r) < 64"
      "length (fr_new_version r) < 64" "length (fr_archive r) < MAX_PATH" "length (fr_phase r) < 64"
      "fr_exit_code r < 2 ^ 32"
    using r by (auto simp: audit_writable_def failure_bounded_def)
  have k: "one_line (case key of None \<Rightarrow> ''unknown'' | Some k \<Rightarrow> k)"
    using key one_line_words by (auto split: option.split)
  have last: "audit_loop st (audit_pair q w) = audit_entry q w st"
    if "audit_key q" "one_line w" for q w st
    using audit_loop_pair [OF that, of "[]" st] by (simp split: option.split)
  show ?thesis
    unfolding audit_of_def upgrade_audit_text_def
    using v l b k one_line_words one_line_decimal
    by (cases failed; cases r) (simp_all add: audit_loop_pair last audit_entries audit_other_entries
        exit_entry no_failure_def)
qed

text \<open>The audit that a failed upgrade leaves is read back as the record of that upgrade, provided
  that it is not larger than the reader admits.\<close>

theorem failed_audit_round_trip:
  assumes "audit_writable r" "\<And>k. key = Some k \<Longrightarrow> one_line k"
    and "length (audit_of r key True) < 16385"
  shows "recovery_record (Some (audit_of r key True)) = Some (r\<lparr>fr_file := []\<rparr>)"
proof -
  have "NUL \<notin> set (audit_pair k v)" if "one_line v" "audit_key k" "NUL \<notin> set k" for k v
    using that by (auto simp: audit_pair_def one_line_def)
  moreover have "NUL \<notin> set (decimal n)" for n using one_line_decimal [of n] by (auto simp: one_line_def)
  ultimately have "NUL \<notin> set (audit_of r key True)"
    using assms(1,2) one_line_words one_line_decimal
    by (auto simp: audit_of_def upgrade_audit_text_def audit_writable_def audit_pair_def one_line_def
        split: option.splits)
  moreover have "audit_of r key True \<noteq> []" by (simp add: audit_of_def upgrade_audit_text_def audit_pair_def)
  moreover have "supported_arch (fr_arch r)" "\<not> list_ex path_syntax (fr_archive r)"
    "fr_archive r \<noteq> ''.''" "fr_archive r \<noteq> ''..''"
    using assms(1) by (auto simp: audit_writable_def list_ex_iff)
  ultimately show ?thesis
    using assms audit_loop_of [of r key True] by (simp add: recovery_record_def)
qed

definition sample_failure :: failure_record where
  "sample_failure = \<lparr>fr_file = [], fr_name = ''demo'', fr_arch = ''x64'', fr_old_version = ''1.0.0'',
     fr_new_version = ''2.0.0'', fr_archive = ''demo-x64-2.0.0.zip'', fr_phase = ''script'', fr_exit_code = 7\<rparr>"

lemma sample_writable: "audit_writable sample_failure"
  by (simp add: audit_writable_def sample_failure_def failure_bounded_def MAX_PATH_def supported_arch_def
      one_line_def line_break_def path_syntax_def)

lemma decimal_7: "decimal 7 = ''7''"
  using decimal_dec_value [of "''7''"] by (simp add: canonical_digits_def is_digit_def dec_value_def digit_val_def)

theorem failed_audit_round_trip_witness:
  "recovery_record (Some (audit_of sample_failure None True)) = Some sample_failure"
proof -
  have "length (audit_of sample_failure None True) < 16385"
    by (simp add: audit_of_def upgrade_audit_text_def sample_failure_def audit_pair_def decimal_7)
  from failed_audit_round_trip [OF sample_writable _ this] show ?thesis by (simp add: sample_failure_def)
qed

text \<open>The audit of a successful upgrade is never taken for a failure.\<close>

theorem successful_audit_refused:
  assumes "audit_writable r" "\<And>k. key = Some k \<Longrightarrow> one_line k"
  shows "recovery_record (Some (audit_of r key False)) = None"
  using audit_loop_of [where r = r and key = key and failed = False, OF assms] by (simp add: recovery_record_def)

theorem successful_audit_refused_witness:
  "recovery_record (Some (audit_of sample_failure (Some ''k'') False)) = None"
  by (rule successful_audit_refused [OF sample_writable]) (simp add: one_line_def line_break_def)

theorem recovery_record_safe_witness:
  "fr_phase sample_failure \<noteq> [] \<and> recovery_record (Some (audit_of sample_failure None True)) = Some sample_failure"
proof -
  have "length (audit_of sample_failure None True) < 16385"
    by (simp add: audit_of_def upgrade_audit_text_def sample_failure_def audit_pair_def decimal_7)
  moreover have "\<not> list_ex path_syntax (fr_archive sample_failure)" "NUL \<notin> set (audit_of sample_failure None True)"
    "supported_arch (fr_arch sample_failure)"
    by (simp_all add: audit_of_def upgrade_audit_text_def sample_failure_def audit_pair_def decimal_7
        path_syntax_def supported_arch_def)
  ultimately have r: "recovery_record (Some (audit_of sample_failure None True)) = Some sample_failure"
    using audit_loop_of [OF sample_writable, of None True]
    by (simp add: recovery_record_def sample_failure_def audit_of_def upgrade_audit_text_def audit_pair_def)
  with recovery_record_safe [OF r] show ?thesis by blast
qed

subsection \<open>What a query reports\<close>

text \<open>A file that the query counts as invalid, and the record of a file that it does not filter.\<close>

definition listed_records ::
  "string option \<Rightarrow> string option \<Rightarrow> audit_files \<Rightarrow> string \<Rightarrow> found_file list \<Rightarrow> failure_record list" where
  "listed_records name arch files directory found =
     concat (map (\<lambda>f. case found_record files directory f of
         None \<Rightarrow> []
       | Some r \<Rightarrow> if filter_excludes name arch r then [] else [r\<lparr>fr_file := found_name f\<rparr>]) found)"

definition invalid_files :: "audit_files \<Rightarrow> string \<Rightarrow> found_file list \<Rightarrow> found_file list" where
  "invalid_files files directory found = filter (\<lambda>f. found_record files directory f = None) found"

lemma scan_loop_accounts:
  assumes "sc_scanned st \<le> limit" "\<not> sc_limited st"
  shows "let st' = scan_loop limit name arch files directory found st;
             examined = take (limit - sc_scanned st) found in
    sc_records st' = sc_records st @ listed_records name arch files directory examined
    \<and> sc_scanned st' = sc_scanned st + length examined
    \<and> sc_invalid st' = sc_invalid st + length (invalid_files files directory examined)
    \<and> sc_limited st' = (limit - sc_scanned st < length found)
    \<and> length (sc_records st') + sc_filtered st' + sc_invalid st' + sc_scanned st
        = length (sc_records st) + sc_filtered st + sc_invalid st + sc_scanned st'"
  using assms
proof (induction found arbitrary: st)
  case Nil
  then show ?case by (simp add: listed_records_def invalid_files_def)
next
  case (Cons f fs)
  show ?case
  proof (cases "sc_scanned st = limit")
    case True
    then show ?thesis by (simp add: listed_records_def invalid_files_def)
  next
    case False
    define st2 where "st2 = scan_file name arch files directory f st"
    have n: "sc_scanned st2 = sc_scanned st + 1" "\<not> sc_limited st2"
      using Cons.prems(2) by (auto simp: st2_def scan_file_def Let_def split: option.split)
    have t: "take (limit - sc_scanned st) (f # fs) = f # take (limit - sc_scanned st2) fs"
      using False Cons.prems(1) n by (simp add: take_Cons')
    have l: "limit - sc_scanned st < length (f # fs) \<longleftrightarrow> limit - sc_scanned st2 < length fs"
      using False Cons.prems(1) n by auto
    have s: "scan_loop limit name arch files directory (f # fs) st = scan_loop limit name arch files directory fs st2"
      using False by (simp add: st2_def)
    have IH: "sc_scanned st2 \<le> limit" using False Cons.prems(1) n by simp
    from Cons.IH [OF this n(2)] show ?thesis
      unfolding s t l Let_def
      by (auto simp: st2_def scan_file_def Let_def listed_records_def invalid_files_def split: option.split)
  qed
qed

lemma comparator_recovery_order: "comparator recovery_order"
proof -
  have "comparator (\<lambda>a b. strcmp (lower b) (lower a))"
    by (rule comparator_flip [OF comparator_key [OF comparator_strcmp]])
  then have "comparator (\<lambda>a b. strcmp (lower (fr_file b)) (lower (fr_file a)))"
    by (rule comparator_key [of "\<lambda>a b. strcmp (lower b) (lower a)" fr_file])
  then show ?thesis unfolding recovery_order_def [abs_def] stricmp_def [abs_def] .
qed

interpretation audit_order: comparator recovery_order
  by (rule comparator_recovery_order)

text \<open>A query that can enumerate the audit directory reports, sorted by file name with the newest
  first, exactly the readable and selected records among the first \<open>limit\<close> files; every examined
  file is counted once, and success means that no file was refused, skipped or unseen.\<close>

theorem recovery_scan_reports:
  assumes "data_root files = Some root" "root \<noteq> []"
    and "recovery_join RECOVERY_PATH root ''audit'' = Some directory"
    and "attributes_of files directory = Attributes True False"
    and "recovery_join RECOVERY_PATH directory ''*.upgrade-failed.txt'' = Some pattern"
    and "search_of files pattern = Search_found found ended"
    and "recovery_scan limit name arch files = (ok, st)"
  shows "mset (sc_records st) = mset (listed_records name arch files directory (take limit found))
    \<and> sorted_wrt (\<lambda>a b. recovery_order a b \<le> 0) (sc_records st)
    \<and> sc_scanned st = min limit (length found)
    \<and> length (sc_records st) + sc_filtered st + length (invalid_files files directory (take limit found))
        = sc_scanned st
    \<and> (ok \<longleftrightarrow> length found \<le> limit \<and> ended \<and> invalid_files files directory found = [])"
proof -
  define st0 where "st0 = scan_loop limit name arch files directory found scan_start"
  have a: "sc_records st0 = listed_records name arch files directory (take limit found)"
    "sc_scanned st0 = min limit (length found)"
    "sc_invalid st0 = length (invalid_files files directory (take limit found))"
    "sc_limited st0 \<longleftrightarrow> limit < length found"
    "length (sc_records st0) + sc_filtered st0 + sc_invalid st0 = sc_scanned st0"
    using scan_loop_accounts [of scan_start limit name arch files directory found]
    by (auto simp: st0_def scan_start_def Let_def min.commute)
  define st1 where "st1 = (if \<not> sc_limited st0 \<and> \<not> ended then st0\<lparr>sc_invalid := sc_invalid st0 + 1\<rparr> else st0)"
  have r: "ok \<longleftrightarrow> sc_invalid st1 = 0 \<and> \<not> sc_limited st1"
    "st = st1\<lparr>sc_records := qsort recovery_order (sc_records st1)\<rparr>"
    using assms by (auto simp: recovery_scan_def st0_def st1_def Let_def)
  have s: "sc_records st1 = sc_records st0" "sc_scanned st1 = sc_scanned st0"
    "sc_filtered st1 = sc_filtered st0" "sc_limited st1 = sc_limited st0"
    "sc_invalid st1 = (if \<not> sc_limited st0 \<and> \<not> ended then sc_invalid st0 + 1 else sc_invalid st0)"
    by (simp_all add: st1_def)
  show ?thesis
    using r s a audit_order.sorted_qsort [of "sc_records st0"] by auto
qed

definition sample_files :: audit_files where
  "sample_files = \<lparr>data_root = Some ''d'', attributes_of = \<lambda>_. Attributes True False,
     search_of = \<lambda>_. Search_found [\<lparr>found_special = True, found_name = ''x''\<rparr>] True,
     content_of = \<lambda>_. None\<rparr>"

theorem recovery_scan_reports_witness:
  "sc_scanned (snd (recovery_scan 5 None None sample_files)) = 1 \<and> \<not> fst (recovery_scan 5 None None sample_files)"
proof -
  let ?f = "[\<lparr>found_special = True, found_name = ''x''\<rparr>]"
  obtain ok st where scan: "recovery_scan 5 None None sample_files = (ok, st)" by fastforce
  have "recovery_join RECOVERY_PATH ''d'' ''audit'' = Some (''d'' @ BSLASH # ''audit'')"
    "recovery_join RECOVERY_PATH (''d'' @ BSLASH # ''audit'') ''*.upgrade-failed.txt''
       = Some (''d'' @ BSLASH # ''audit'' @ BSLASH # ''*.upgrade-failed.txt'')"
    by (simp_all add: recovery_join_def RECOVERY_PATH_def)
  from recovery_scan_reports [OF _ _ this(1) _ this(2) _ scan, of ?f True] scan show ?thesis
    by (simp add: sample_files_def invalid_files_def found_record_def)
qed

lemma json_out_value: "json_value (json_out stream_error v)"
  by (simp add: json_out_def json_write_value)

lemma json_bool_value: "json_value (json_bool b)"
  by (simp add: json_bool_def v_true v_false)

lemma json_word_value:
  "list_all (\<lambda>c. 32 \<le> byte c \<and> c \<noteq> DQUOTE \<and> c \<noteq> BSLASH) w \<Longrightarrow> json_value (json_quoted w)"
  by (rule v_string) (rule json_label_body)

lemmas json_render = json_out_value json_bool_value json_decimal_value json_object_value json_array_value
  v_true v_false v_null

lemma failure_object_value: "json_value (failure_object stream_error r)"
  unfolding failure_object_def
  by (rule json_object_value) (simp add: failure_members_def plain_label_def json_render)

text \<open>The JSON form of the query is one well formed document, whatever bytes the audit files hold
  and whether or not they could be read.\<close>

theorem recovery_query_json:
  assumes "0 < limit" "limit \<le> 4096" "wpm_recovery_filters_valid name arch"
  shows "json_document (fst (recovery_query stream_error limit True name arch files))"
proof -
  have w: "json_value (json_quoted ''wpm.recovery-list.v1'')" "json_value (json_quoted ''complete'')"
    "json_value (json_quoted ''unavailable'')" "json_value (json_quoted ''partial'')"
    by (rule json_word_value, simp)+
  have "json_document (fst (recovery_json stream_error st ok limit name arch))" for st ok
    unfolding recovery_json_def Let_def fst_conv
    by (rule json_document_object)
       (auto simp: w json_render plain_label_def is_json_ws_def list_all_iff failure_object_value)
  then show ?thesis using assms by (simp add: recovery_query_def Let_def)
qed

theorem recovery_query_json_witness:
  "json_document (fst (recovery_query False 128 True (Some ''demo'') None sample_files))"
  by (rule recovery_query_json) (simp_all add: wpm_recovery_filters_valid_def control_char_def)

end
