(* ===== verification/Capability.thy ===== *)
theory Capability
  imports Prelude "HOL-Library.Word"
begin

unbundle bit_operations_syntax

text \<open>
  The process-local capabilities of \<open>wpm/capability.c\<close>: a mask that can only be cleared.
\<close>

definition WPM_CAP_WRITE :: "32 word" where "WPM_CAP_WRITE = 1"
definition WPM_CAP_SCRIPT :: "32 word" where "WPM_CAP_SCRIPT = 2"
definition WPM_CAP_HANDOFF :: "32 word" where "WPM_CAP_HANDOFF = 4"
definition WPM_CAP_NETWORK :: "32 word" where "WPM_CAP_NETWORK = 8"

text \<open>The initial value of the static variable.\<close>

definition all_capabilities :: "32 word" where
  "all_capabilities = WPM_CAP_WRITE OR WPM_CAP_SCRIPT OR WPM_CAP_HANDOFF OR WPM_CAP_NETWORK"

definition wpm_set_readonly :: "bool \<Rightarrow> 32 word \<Rightarrow> 32 word" where
  "wpm_set_readonly enabled capabilities = (if enabled then 0 else capabilities)"

definition wpm_is_readonly :: "32 word \<Rightarrow> bool" where
  "wpm_is_readonly capabilities = (capabilities = 0)"

definition wpm_require_capability :: "32 word \<Rightarrow> 32 word \<Rightarrow> bool" where
  "wpm_require_capability required capabilities = (capabilities AND required = required)"

lemmas capability_defs = WPM_CAP_WRITE_def WPM_CAP_SCRIPT_def WPM_CAP_HANDOFF_def WPM_CAP_NETWORK_def

lemma require_zero [simp]: "required \<noteq> 0 \<Longrightarrow> \<not> wpm_require_capability required 0"
  by (simp add: wpm_require_capability_def)

text \<open>The masks that a process can reach: every sequence of \<open>wpm_set_readonly\<close> calls.\<close>

definition reached_capabilities :: "bool list \<Rightarrow> 32 word" where
  "reached_capabilities calls = fold wpm_set_readonly calls all_capabilities"

lemma set_readonly_zero [simp]: "fold wpm_set_readonly calls 0 = 0"
  by (induction calls) (simp_all add: wpm_set_readonly_def)

text \<open>Once a process has been made read-only no later call gives any capability back, and before
  that it has all of them.\<close>

theorem readonly_is_final:
  "(True \<in> set calls \<longrightarrow> wpm_is_readonly (reached_capabilities calls)
      \<and> (\<forall>required. required \<noteq> 0 \<longrightarrow> \<not> wpm_require_capability required (reached_capabilities calls)))
   \<and> (True \<notin> set calls \<longrightarrow> \<not> wpm_is_readonly (reached_capabilities calls)
      \<and> (\<forall>required \<in> {WPM_CAP_WRITE, WPM_CAP_SCRIPT, WPM_CAP_HANDOFF, WPM_CAP_NETWORK}.
            wpm_require_capability required (reached_capabilities calls)))"
proof (cases "True \<in> set calls")
  case True
  then obtain a b where "calls = a @ True # b" by (meson split_list)
  then have "reached_capabilities calls = 0" by (simp add: reached_capabilities_def wpm_set_readonly_def)
  with True show ?thesis by (simp add: wpm_is_readonly_def)
next
  case False
  then have "fold wpm_set_readonly calls c = c" for c
    by (induction calls arbitrary: c) (auto simp: wpm_set_readonly_def)
  with False show ?thesis
    by (simp add: reached_capabilities_def all_capabilities_def capability_defs wpm_is_readonly_def
        wpm_require_capability_def)
qed

theorem readonly_is_final_witness:
  "wpm_is_readonly (reached_capabilities [False, True, False])
   \<and> wpm_require_capability WPM_CAP_SCRIPT (reached_capabilities [False])"
  using readonly_is_final [of "[False, True, False]"] readonly_is_final [of "[False]"] by simp

end
