(* ===== verification/Path_Guard.thy ===== *)
theory Path_Guard
  imports Capability
begin

text \<open>
  The directory guards of \<open>wpm/path_guard.c\<close>: a path is opened component by component, each through the
  handle of the one before it, and only ordinary directories are entered. Handles are numbers; what
  the system answers for them is the parameter \<open>guard_system\<close>, in which the first argument of
  \<open>gs_info\<close> is the moment of the question. Character conversion to UTF-16 belongs to the system.
\<close>

datatype wpm_path_result = WPM_PATH_OPEN | WPM_PATH_ABSENT | WPM_PATH_UNSAFE | WPM_PATH_FAILED

datatype guard_error = ERROR_FILE_NOT_FOUND | ERROR_PATH_NOT_FOUND | ERROR_ALREADY_EXISTS | ERROR_OTHER

record file_info =
  fi_directory :: bool
  fi_reparse :: bool
  fi_readonly :: bool
  fi_links :: nat
  fi_identity :: "nat list"

text \<open>\<open>gs_relative\<close>: parent handle, name, create disposition (1 opens, 2 creates, 3 opens or creates) and
  whether a directory is wanted. \<open>gs_duplicate\<close> copies a handle.\<close>

record guard_system =
  gs_capabilities :: "32 word"
  gs_full_path :: "string \<Rightarrow> string option"
  gs_root :: "string \<Rightarrow> guard_error + nat"
  gs_relative :: "nat \<Rightarrow> string \<Rightarrow> nat \<Rightarrow> bool \<Rightarrow> guard_error + nat"
  gs_info :: "nat \<Rightarrow> nat \<Rightarrow> file_info option"
  gs_disk :: "nat \<Rightarrow> bool"
  gs_duplicate :: "nat \<Rightarrow> nat option"
  gs_rename :: "nat \<Rightarrow> string \<Rightarrow> bool \<Rightarrow> bool"

text \<open>The open handles from the volume root to the guarded directory, and the identity of the file that
  was created last through the guard.\<close>

record wpm_path_guard =
  pg_handles :: "nat list"
  pg_created :: "nat list option"

subsection \<open>Names and ordinary directories\<close>

definition guard_open_relative ::
  "guard_system \<Rightarrow> nat \<Rightarrow> string \<Rightarrow> nat \<Rightarrow> bool \<Rightarrow> guard_error + nat" where
  "guard_open_relative gs parent name disposition directory =
     (if name = [] then Inl ERROR_OTHER else gs_relative gs parent name disposition directory)"

definition ordinary_directory :: "file_info option \<Rightarrow> bool" where
  "ordinary_directory info = (case info of None \<Rightarrow> False | Some i \<Rightarrow> fi_directory i \<and> \<not> fi_reparse i)"

definition guard_ordinary :: "guard_system \<Rightarrow> nat \<Rightarrow> nat list \<Rightarrow> bool" where
  "guard_ordinary gs moment handles \<longleftrightarrow>
     handles \<noteq> [] \<and> list_all (\<lambda>h. ordinary_directory (gs_info gs moment h)) handles"

definition bad_end :: "char \<Rightarrow> bool" where
  "bad_end c \<longleftrightarrow> c = CHR ''.'' \<or> c = SPC"

definition guard_control :: "char \<Rightarrow> bool" where
  "guard_control c \<longleftrightarrow> byte c < 32 \<or> byte c = 127"

definition guard_name_valid :: "string option \<Rightarrow> bool" where
  "guard_name_valid name =
     (case name of
        None \<Rightarrow> False
      | Some n \<Rightarrow>
          n \<noteq> [] \<and> length n \<le> 255 \<and> n \<noteq> ''.'' \<and> n \<noteq> ''..'' \<and> \<not> bad_end (last n)
          \<and> BSLASH \<notin> set n \<and> SLASH \<notin> set n \<and> CHR '':'' \<notin> set n
          \<and> list_all (\<lambda>c. \<not> guard_control c) n)"

subsection \<open>Opening a guard\<close>

text \<open>The scan from index 3: colons, control characters, and components that end with a dot or a space.\<close>

fun path_unsafe :: "char \<Rightarrow> string \<Rightarrow> bool" where
  "path_unsafe prev [] = bad_end prev"
| "path_unsafe prev (c # cs) =
     (c = CHR '':'' \<or> guard_control c \<or> c = BSLASH \<and> bad_end prev \<or> path_unsafe c cs)"

definition drive_path :: "string \<Rightarrow> bool" where
  "drive_path s \<longleftrightarrow>
     3 \<le> length s
     \<and> (65 \<le> byte (s ! 0) \<and> byte (s ! 0) \<le> 90 \<or> 97 \<le> byte (s ! 0) \<and> byte (s ! 0) \<le> 122)
     \<and> s ! 1 = CHR '':'' \<and> s ! 2 = BSLASH"

text \<open>The components that the loop opens below the root: the text since the last backslash at every
  later backslash and at the end. The character at index 3 is never the end of a component.\<close>

fun split_rest :: "string \<Rightarrow> string \<Rightarrow> string list" where
  "split_rest name [] = [name]"
| "split_rest name (c # cs) = (if c = BSLASH then name # split_rest [] cs else split_rest (name @ [c]) cs)"

definition guard_names :: "string \<Rightarrow> string list" where
  "guard_names canonical =
     (case drop 3 canonical of
        [] \<Rightarrow> []
      | c # cs \<Rightarrow> split_rest (if c = BSLASH then [] else [c]) cs)"

definition open_error :: "nat \<Rightarrow> bool \<Rightarrow> guard_error \<Rightarrow> wpm_path_result" where
  "open_error create final e =
     (if e = ERROR_FILE_NOT_FOUND \<or> e = ERROR_PATH_NOT_FOUND then WPM_PATH_ABSENT
      else if create = 2 \<and> final \<and> e = ERROR_ALREADY_EXISTS then WPM_PATH_UNSAFE
      else WPM_PATH_FAILED)"

definition open_disposition :: "nat \<Rightarrow> bool \<Rightarrow> nat" where
  "open_disposition create final = (if create = 2 \<and> final then 2 else if create \<noteq> 0 then 3 else 1)"

fun guard_walk :: "guard_system \<Rightarrow> nat \<Rightarrow> string list \<Rightarrow> nat list \<Rightarrow> wpm_path_result \<times> nat list" where
  "guard_walk gs create [] handles = (WPM_PATH_OPEN, handles)"
| "guard_walk gs create (name # names) handles =
     (if length handles = 128 \<or> \<not> guard_ordinary gs (2 * length handles) handles
      then (WPM_PATH_UNSAFE, handles)
      else
      (case guard_open_relative gs (last handles) name (open_disposition create (names = [])) True of
         Inl e \<Rightarrow> (open_error create (names = []) e, handles)
       | Inr h \<Rightarrow>
           if \<not> ordinary_directory (gs_info gs (2 * length handles + 1) h)
           then (WPM_PATH_UNSAFE, handles @ [h])
           else guard_walk gs create names (handles @ [h])))"

text \<open>The result, the canonical path (valid only with \<open>WPM_PATH_OPEN\<close>) and the guard that was handed out.\<close>

definition wpm_path_guard_open ::
  "guard_system \<Rightarrow> string option \<Rightarrow> int \<Rightarrow> nat \<Rightarrow> wpm_path_result \<times> string \<times> wpm_path_guard option" where
  "wpm_path_guard_open gs path create cap =
     (if path = None \<or> cap > 0xffffffff \<or> create < 0 \<or> create > 2
         \<or> create \<noteq> 0 \<and> \<not> wpm_require_capability WPM_CAP_WRITE (gs_capabilities gs)
      then (WPM_PATH_FAILED, [], None)
      else
      (case gs_full_path gs (the path) of
         None \<Rightarrow> (WPM_PATH_FAILED, [], None)
       | Some full \<Rightarrow>
           if full = [] \<or> length full \<ge> cap then (WPM_PATH_FAILED, [], None)
           else
             let canonical = trim_trailing BSLASH 3 full in
             if \<not> drive_path canonical \<or> create = 2 \<and> length canonical = 3
                \<or> path_unsafe (canonical ! 2) (drop 3 canonical)
             then (WPM_PATH_UNSAFE, canonical, None)
             else
             (case gs_root gs (take 3 canonical) of
                Inl e \<Rightarrow> (open_error (nat create) (length canonical = 3) e, canonical,
                            Some \<lparr>pg_handles = [], pg_created = None\<rparr>)
              | Inr h \<Rightarrow>
                  (case (if ordinary_directory (gs_info gs 1 h)
                         then guard_walk gs (nat create) (guard_names canonical) [h]
                         else (WPM_PATH_UNSAFE, [h])) of
                     (result, handles) \<Rightarrow>
                       (result, canonical, Some \<lparr>pg_handles = handles, pg_created = None\<rparr>)))))"

subsection \<open>Child guards and files\<close>

fun duplicate_all :: "guard_system \<Rightarrow> nat list \<Rightarrow> nat list option" where
  "duplicate_all gs [] = Some []"
| "duplicate_all gs (h # hs) =
     (case gs_duplicate gs h of
        None \<Rightarrow> None
      | Some d \<Rightarrow> map_option (Cons d) (duplicate_all gs hs))"

definition wpm_path_guard_child ::
  "guard_system \<Rightarrow> wpm_path_guard \<Rightarrow> string option \<Rightarrow> int \<Rightarrow> wpm_path_guard option" where
  "wpm_path_guard_child gs parent name fresh =
     (if fresh \<noteq> 0 \<and> fresh \<noteq> 1 \<or> \<not> guard_name_valid name \<or> \<not> guard_ordinary gs 0 (pg_handles parent)
         \<or> length (pg_handles parent) \<ge> 128
         \<or> fresh \<noteq> 0 \<and> \<not> wpm_require_capability WPM_CAP_WRITE (gs_capabilities gs)
      then None
      else
      (case duplicate_all gs (pg_handles parent) of
         None \<Rightarrow> None
       | Some copies \<Rightarrow>
           (case guard_open_relative gs (last (pg_handles parent)) (the name) (if fresh \<noteq> 0 then 2 else 1) True of
              Inl e \<Rightarrow> None
            | Inr h \<Rightarrow>
                if guard_ordinary gs 1 (copies @ [h])
                then Some \<lparr>pg_handles = copies @ [h], pg_created = None\<rparr> else None)))"

definition single_file :: "file_info \<Rightarrow> bool" where
  "single_file i \<longleftrightarrow> fi_links i = 1 \<and> \<not> fi_directory i \<and> \<not> fi_reparse i"

text \<open>The opened file and the guard with the identity of a fresh one.\<close>

definition wpm_path_guard_file ::
  "guard_system \<Rightarrow> wpm_path_guard \<Rightarrow> string option \<Rightarrow> int \<Rightarrow> nat option \<times> wpm_path_guard" where
  "wpm_path_guard_file gs guard name fresh =
     (if fresh \<noteq> 0 \<and> fresh \<noteq> 1 \<or> \<not> guard_name_valid name
         \<or> fresh \<noteq> 0 \<and> \<not> wpm_require_capability WPM_CAP_WRITE (gs_capabilities gs)
         \<or> \<not> guard_ordinary gs 0 (pg_handles guard)
      then (None, guard)
      else
      (case guard_open_relative gs (last (pg_handles guard)) (the name) (if fresh \<noteq> 0 then 2 else 1) False of
         Inl e \<Rightarrow> (None, guard)
       | Inr h \<Rightarrow>
           (case gs_info gs 1 h of
              None \<Rightarrow> (None, guard)
            | Some i \<Rightarrow>
                if \<not> guard_ordinary gs 1 (pg_handles guard) \<or> \<not> gs_disk gs h \<or> \<not> single_file i
                then (None, guard)
                else (Some h, if fresh \<noteq> 0 then guard\<lparr>pg_created := Some (fi_identity i)\<rparr> else guard))))"

text \<open>The characters of a name under which a file may be published.\<close>

definition publish_char :: "char \<Rightarrow> bool" where
  "publish_char c \<longleftrightarrow>
     97 \<le> byte c \<and> byte c \<le> 122 \<or> 65 \<le> byte c \<and> byte c \<le> 90 \<or> 48 \<le> byte c \<and> byte c \<le> 57
     \<or> c \<in> set ''.-_+''"

definition wpm_path_guard_publish ::
  "guard_system \<Rightarrow> wpm_path_guard \<Rightarrow> nat \<Rightarrow> string option \<Rightarrow> bool \<Rightarrow> bool" where
  "wpm_path_guard_publish gs guard h name replace =
     (case name of
        None \<Rightarrow> False
      | Some n \<Rightarrow>
          pg_handles guard \<noteq> [] \<and> n \<noteq> [] \<and> length n \<le> 255 \<and> guard_ordinary gs 0 (pg_handles guard)
          \<and> wpm_require_capability WPM_CAP_WRITE (gs_capabilities gs)
          \<and> (case (pg_created guard, gs_info gs 0 h) of
               (Some created, Some i) \<Rightarrow> single_file i \<and> \<not> fi_readonly i \<and> fi_identity i = created
             | _ \<Rightarrow> False)
          \<and> list_all publish_char n \<and> guard_name_valid (Some n) \<and> gs_rename gs h n replace)"

subsection \<open>Enumeration\<close>

text \<open>One answer of the directory query: its status, the number of bytes, the length of the name in bytes
  and the converted name (empty when the conversion fails or does not fit).\<close>

record guard_entry =
  ge_status :: "32 word"
  ge_information :: nat
  ge_length :: nat
  ge_name :: string

definition wpm_path_guard_next_json ::
  "guard_system \<Rightarrow> wpm_path_guard \<Rightarrow> nat \<Rightarrow> guard_entry \<Rightarrow> int \<times> string" where
  "wpm_path_guard_next_json gs guard cap entry =
     (if cap < 2 \<or> cap > 256 \<or> \<not> guard_ordinary gs 0 (pg_handles guard)
         \<or> \<not> guard_ordinary gs 1 (pg_handles guard) then (-1, [])
      else if ge_status entry = 0x80000006 \<or> ge_status entry = 0xc000000f then (0, [])
      else if ge_status entry \<noteq> 0 \<or> ge_information entry < 12 \<or> ge_information entry > 524
         \<or> ge_length entry = 0 \<or> ge_length entry > 512 \<or> odd (ge_length entry)
         \<or> 12 + ge_length entry > ge_information entry
      then (-1, [])
      else if ge_name entry = [] then (-1, []) else (1, ge_name entry))"

definition wpm_path_guard_close :: "wpm_path_guard option \<Rightarrow> nat list" where
  "wpm_path_guard_close guard = (case guard of None \<Rightarrow> [] | Some g \<Rightarrow> rev (pg_handles g))"

subsection \<open>The names of a path\<close>

fun path_text :: "string list \<Rightarrow> string" where
  "path_text [] = []"
| "path_text [n] = n"
| "path_text (n # ns) = n @ BSLASH # path_text ns"

lemma split_rest_not_Nil: "split_rest name cs \<noteq> []"
  by (induction name cs rule: split_rest.induct) simp_all

lemma path_text_split: "path_text (split_rest name cs) = name @ cs"
proof (induction name cs rule: split_rest.induct)
  case (2 name c cs)
  then show ?case using split_rest_not_Nil [of "[]" cs] by (cases "split_rest [] cs") auto
qed simp

lemma split_rest_no_backslash: "BSLASH \<notin> set name \<Longrightarrow> n \<in> set (split_rest name cs) \<Longrightarrow> BSLASH \<notin> set n"
  by (induction name cs rule: split_rest.induct) (auto split: if_splits)

text \<open>A component that can be opened by the walk.\<close>

definition component_ok :: "string \<Rightarrow> bool" where
  "component_ok n \<longleftrightarrow> BSLASH \<notin> set n \<and> CHR '':'' \<notin> set n \<and> list_all (\<lambda>c. \<not> guard_control c) n
     \<and> (n \<noteq> [] \<longrightarrow> \<not> bad_end (last n))"

lemma split_rest_ok:
  assumes "BSLASH \<notin> set name" "CHR '':'' \<notin> set name"
    and "list_all (\<lambda>c. \<not> guard_control c) name" and "name = [] \<Longrightarrow> \<not> bad_end prev" "name \<noteq> [] \<Longrightarrow> prev = last name"
    and "\<not> path_unsafe prev cs" and "n \<in> set (split_rest name cs)"
  shows "component_ok n"
  using assms
proof (induction name cs arbitrary: prev rule: split_rest.induct)
  case (1 name)
  then show ?case by (auto simp: component_ok_def)
next
  case (2 name c cs)
  show ?case
  proof (cases "c = BSLASH")
    case True
    with 2 show ?thesis by (auto simp: component_ok_def bad_end_def)
  next
    case False
    with 2 show ?thesis by auto
  qed
qed

lemma guard_names_ok:
  assumes "drive_path canonical" "\<not> path_unsafe (canonical ! 2) (drop 3 canonical)" "n \<in> set (guard_names canonical)"
  shows "component_ok n"
proof (cases "drop 3 canonical")
  case Nil
  with assms(3) show ?thesis by (simp add: guard_names_def)
next
  case (Cons c cs)
  with assms(2) have safe: "c \<noteq> CHR '':''" "\<not> guard_control c" "\<not> path_unsafe c cs" by auto
  show ?thesis
  proof (rule split_rest_ok [where prev = c])
    show "n \<in> set (split_rest (if c = BSLASH then [] else [c]) cs)"
      using assms(3) Cons by (simp add: guard_names_def)
  qed (use safe in \<open>auto simp: bad_end_def\<close>)
qed

lemma guard_names_text:
  "drop 3 canonical = (if at BSLASH (drop 3 canonical) then [BSLASH] else []) @ path_text (guard_names canonical)"
  by (simp add: guard_names_def path_text_split split: list.split)

subsection \<open>The walk\<close>

definition opened_below :: "guard_system \<Rightarrow> nat \<Rightarrow> string list \<Rightarrow> nat list \<Rightarrow> nat \<Rightarrow> bool" where
  "opened_below gs create names hs base \<longleftrightarrow>
     (\<forall>k < length names. names ! k \<noteq> []
        \<and> guard_ordinary gs (2 * (base + k)) (take (base + k) hs)
        \<and> gs_relative gs (hs ! (base + k - 1)) (names ! k) (open_disposition create (Suc k = length names)) True
            = Inr (hs ! (base + k))
        \<and> ordinary_directory (gs_info gs (2 * (base + k) + 1) (hs ! (base + k))))"

lemma guard_walk_open:
  "guard_walk gs create names handles = (WPM_PATH_OPEN, hs) \<Longrightarrow> handles \<noteq> [] \<Longrightarrow> length handles \<le> 128
     \<Longrightarrow> (\<exists>new. hs = handles @ new \<and> length new = length names) \<and> length hs \<le> 128
       \<and> opened_below gs create names hs (length handles)"
proof (induction names arbitrary: handles)
  case Nil
  then show ?case by (simp add: opened_below_def)
next
  case (Cons name names)
  let ?d = "open_disposition create (names = [])"
  from Cons.prems(1) have guard: "length handles \<noteq> 128" "guard_ordinary gs (2 * length handles) handles"
    by (auto split: if_splits)
  with Cons.prems(1) obtain h where h: "guard_open_relative gs (last handles) name ?d True = Inr h"
    "ordinary_directory (gs_info gs (2 * length handles + 1) h)"
    "guard_walk gs create names (handles @ [h]) = (WPM_PATH_OPEN, hs)"
    by (auto simp: open_error_def split: sum.splits if_splits)
  from h(1) have name: "name \<noteq> []" "gs_relative gs (last handles) name ?d True = Inr h"
    by (auto simp: guard_open_relative_def split: if_splits)
  from Cons.IH [OF h(3)] guard(1) Cons.prems(3) obtain new where new: "hs = handles @ h # new" "length new = length names"
    and len: "length hs \<le> 128" and below: "opened_below gs create names hs (Suc (length handles))" by fastforce
  have "opened_below gs create (name # names) hs (length handles)"
    unfolding opened_below_def
  proof (intro allI impI)
    fix k assume k: "k < length (name # names)"
    show "(name # names) ! k \<noteq> [] \<and> guard_ordinary gs (2 * (length handles + k)) (take (length handles + k) hs)
      \<and> gs_relative gs (hs ! (length handles + k - 1)) ((name # names) ! k)
          (open_disposition create (Suc k = length (name # names))) True = Inr (hs ! (length handles + k))
      \<and> ordinary_directory (gs_info gs (2 * (length handles + k) + 1) (hs ! (length handles + k)))"
    proof (cases k)
      case 0
      then show ?thesis using name h(2) guard(2) Cons.prems(2) new(1)
        by (simp add: nth_append last_conv_nth eq_commute [of "[]"])
    next
      case (Suc j)
      with below k show ?thesis by (simp add: opened_below_def)
    qed
  qed
  with new len show ?case by simp
qed

lemma guard_open_chain:
  assumes opened: "wpm_path_guard_open gs path create cap = (WPM_PATH_OPEN, canonical, g)"
  obtains hs where "g = Some \<lparr>pg_handles = hs, pg_created = None\<rparr>" "drive_path canonical" "length canonical < cap"
    "\<not> path_unsafe (canonical ! 2) (drop 3 canonical)"
    "length hs = Suc (length (guard_names canonical))" "length hs \<le> 128" "gs_root gs (take 3 canonical) = Inr (hs ! 0)"
    "ordinary_directory (gs_info gs 1 (hs ! 0))" "opened_below gs (nat create) (guard_names canonical) hs 1"
proof -
  from opened obtain full where full: "gs_full_path gs (the path) = Some full" "length full < cap"
    "canonical = trim_trailing BSLASH 3 full"
    by (auto simp: wpm_path_guard_open_def Let_def open_error_def split: option.splits sum.splits if_splits prod.splits)
  with opened have safe: "drive_path canonical" "\<not> path_unsafe (canonical ! 2) (drop 3 canonical)"
    by (auto simp: wpm_path_guard_open_def Let_def split: if_splits)
  from opened full safe obtain h hs where h: "gs_root gs (take 3 canonical) = Inr h" "ordinary_directory (gs_info gs 1 h)"
    and walk: "guard_walk gs (nat create) (guard_names canonical) [h] = (WPM_PATH_OPEN, hs)"
    and g: "g = Some \<lparr>pg_handles = hs, pg_created = None\<rparr>"
    by (auto simp: wpm_path_guard_open_def Let_def open_error_def split: sum.splits if_splits prod.splits)
  from guard_walk_open [OF walk] obtain new where new: "hs = h # new" "length new = length (guard_names canonical)"
    and rest: "length hs \<le> 128" "opened_below gs (nat create) (guard_names canonical) hs 1" by auto
  obtain m where "full = canonical @ replicate m BSLASH"
    using trim_trailing_prefix [of full BSLASH 3] full(3) by blast
  then have "length canonical \<le> length full" by simp
  then show thesis
    using that [OF g safe(1) _ safe(2)] full(2) new h rest by simp
qed

text \<open>C15: an opened guard follows the canonical path and nothing else. The path starts at the root of a drive,
  its components below the root are nonempty, contain no backslash, colon or control character, do not
  end with a dot or a space (so that none is \<open>.\<close> or \<open>..\<close>) and make up the path; the first handle is
  the root, each further handle was opened by one component relative to the handle before it; every
  handle was an ordinary directory, no reparse point, after it was opened, and all handles were so
  again before the next component was opened; and there are at most 128 of them.\<close>

theorem guard_open_confined:
  assumes "wpm_path_guard_open gs path create cap = (WPM_PATH_OPEN, canonical, g)"
  shows "\<exists>hs names. g = Some \<lparr>pg_handles = hs, pg_created = None\<rparr> \<and> drive_path canonical \<and> length canonical < cap
    \<and> (canonical = take 3 canonical @ path_text names \<or> canonical = take 3 canonical @ BSLASH # path_text names)
    \<and> length hs = Suc (length names) \<and> length hs \<le> 128
    \<and> gs_root gs (take 3 canonical) = Inr (hs ! 0) \<and> ordinary_directory (gs_info gs 1 (hs ! 0))
    \<and> (\<forall>k < length names. names ! k \<noteq> [] \<and> component_ok (names ! k)
         \<and> (\<forall>j \<le> k. ordinary_directory (gs_info gs (2 * k + 2) (hs ! j)))
         \<and> gs_relative gs (hs ! k) (names ! k) (open_disposition (nat create) (Suc k = length names)) True
             = Inr (hs ! Suc k)
         \<and> ordinary_directory (gs_info gs (2 * k + 3) (hs ! Suc k)))"
proof -
  obtain hs where hs: "g = Some \<lparr>pg_handles = hs, pg_created = None\<rparr>" "drive_path canonical" "length canonical < cap"
    and safe: "\<not> path_unsafe (canonical ! 2) (drop 3 canonical)"
    and len: "length hs = Suc (length (guard_names canonical))" "length hs \<le> 128"
    and root: "gs_root gs (take 3 canonical) = Inr (hs ! 0)" "ordinary_directory (gs_info gs 1 (hs ! 0))"
    and below: "opened_below gs (nat create) (guard_names canonical) hs 1"
    by (rule guard_open_chain [OF assms])
  let ?names = "guard_names canonical"
  have "canonical = take 3 canonical @ path_text ?names \<or> canonical = take 3 canonical @ BSLASH # path_text ?names"
  proof (cases "at BSLASH (drop 3 canonical)")
    case True
    then have "BSLASH # path_text ?names = drop 3 canonical" using guard_names_text [of canonical] by simp
    then show ?thesis by simp
  next
    case False
    then have "path_text ?names = drop 3 canonical" using guard_names_text [of canonical] by simp
    then show ?thesis by simp
  qed
  moreover have "?names ! k \<noteq> [] \<and> component_ok (?names ! k)
         \<and> (\<forall>j \<le> k. ordinary_directory (gs_info gs (2 * k + 2) (hs ! j)))
         \<and> gs_relative gs (hs ! k) (?names ! k) (open_disposition (nat create) (Suc k = length ?names)) True
             = Inr (hs ! Suc k)
         \<and> ordinary_directory (gs_info gs (2 * k + 3) (hs ! Suc k))" if k: "k < length ?names" for k
  proof -
    have "component_ok (?names ! k)" using guard_names_ok [OF hs(2) safe] k by simp
    moreover have "guard_ordinary gs (2 * k + 2) (take (Suc k) hs)" using below k by (simp add: opened_below_def)
    then have "\<forall>j \<le> k. ordinary_directory (gs_info gs (2 * k + 2) (hs ! j))"
      using k len(1) by (simp add: guard_ordinary_def list_all_length)
    ultimately show ?thesis using below k by (simp add: opened_below_def numeral_3_eq_3)
  qed
  ultimately show ?thesis using hs len root by blast
qed

text \<open>The system in which nothing can be created.\<close>

definition creates_nothing :: "guard_system \<Rightarrow> guard_system" where
  "creates_nothing gs = gs\<lparr>gs_relative := (\<lambda>h name disposition directory.
     if disposition = 1 then gs_relative gs h name disposition directory else Inl ERROR_OTHER)\<rparr>"

lemma guard_walk_creates_nothing: "guard_walk (creates_nothing gs) 0 names handles = guard_walk gs 0 names handles"
  by (induction names arbitrary: handles)
    (auto simp: creates_nothing_def guard_open_relative_def open_disposition_def guard_ordinary_def split: sum.split)

text \<open>Guards cannot change the file system without the write capability. A guard that is opened for reading
  never asks the system to create a directory: its result is the same in a system that refuses every
  creation. And in a process without the write capability no guard is opened for creation, no fresh
  child directory or file is made, and nothing is published.\<close>

theorem guards_without_write_capability:
  "wpm_path_guard_open (creates_nothing gs) path 0 cap = wpm_path_guard_open gs path 0 cap
   \<and> (\<not> wpm_require_capability WPM_CAP_WRITE (gs_capabilities gs) \<longrightarrow>
        (create \<noteq> 0 \<longrightarrow> wpm_path_guard_open gs path create cap = (WPM_PATH_FAILED, [], None))
        \<and> (fresh \<noteq> 0 \<longrightarrow> wpm_path_guard_child gs guard name fresh = None
            \<and> wpm_path_guard_file gs guard name fresh = (None, guard))
        \<and> \<not> wpm_path_guard_publish gs guard h name replace)"
proof -
  have same: "gs_full_path (creates_nothing gs) = gs_full_path gs" "gs_capabilities (creates_nothing gs) = gs_capabilities gs" "gs_root (creates_nothing gs) = gs_root gs"
    "gs_info (creates_nothing gs) = gs_info gs" by (simp_all add: creates_nothing_def)
  have "wpm_path_guard_open (creates_nothing gs) path 0 cap = wpm_path_guard_open gs path 0 cap"
    unfolding wpm_path_guard_open_def same nat_0 guard_walk_creates_nothing ..
  then show ?thesis
    by (auto simp: wpm_path_guard_open_def wpm_path_guard_child_def wpm_path_guard_file_def
        wpm_path_guard_publish_def split: option.split)
qed

subsection \<open>Publication\<close>

text \<open>A sequence of file calls on one guard, each with the system as it was then.\<close>

primrec guard_files :: "(guard_system \<times> string option \<times> int) list \<Rightarrow> wpm_path_guard \<Rightarrow> wpm_path_guard" where
  "guard_files [] guard = guard"
| "guard_files (call # calls) guard =
     guard_files calls (snd (wpm_path_guard_file (fst call) guard (fst (snd call)) (snd (snd call))))"

lemma guard_file_created:
  assumes "pg_created (snd (wpm_path_guard_file gs guard name fresh)) \<noteq> pg_created guard"
  shows "\<exists>h i. wpm_path_guard_file gs guard name fresh = (Some h, guard\<lparr>pg_created := Some (fi_identity i)\<rparr>)
    \<and> fresh = 1 \<and> gs_info gs 1 h = Some i \<and> single_file i"
  using assms by (auto simp: wpm_path_guard_file_def split: if_splits sum.splits option.splits)

lemma guard_file_handles: "pg_handles (snd (wpm_path_guard_file gs guard name fresh)) = pg_handles guard"
  by (auto simp: wpm_path_guard_file_def split: sum.split option.split)

lemma guard_files_append: "guard_files (a @ b) guard = guard_files b (guard_files a guard)"
  by (induction a arbitrary: guard) simp_all

lemma guard_files_created:
  "pg_created guard = None \<Longrightarrow> pg_created (guard_files calls guard) = Some ident \<Longrightarrow>
     \<exists>before gs name after h i. calls = before @ (gs, name, 1) # after
       \<and> fst (wpm_path_guard_file gs (guard_files before guard) name 1) = Some h
       \<and> gs_info gs 1 h = Some i \<and> single_file i \<and> fi_identity i = ident"
proof (induction calls rule: rev_induct)
  case Nil
  then show ?case by simp
next
  case (snoc call calls)
  obtain gs name fresh where call: "call = (gs, name, fresh)" by (cases call)
  show ?case
  proof (cases "pg_created (guard_files (calls @ [call]) guard) = pg_created (guard_files calls guard)")
    case True
    with snoc obtain before gs' name' after h i where "calls = before @ (gs', name', 1) # after"
      "fst (wpm_path_guard_file gs' (guard_files before guard) name' 1) = Some h"
      "gs_info gs' 1 h = Some i" "single_file i" "fi_identity i = ident" by auto
    then show ?thesis
      by (intro exI [of _ before] exI [of _ gs'] exI [of _ name'] exI [of _ "after @ [call]"] exI [of _ h] exI [of _ i]) simp
  next
    case False
    then have "pg_created (snd (wpm_path_guard_file gs (guard_files calls guard) name fresh)) \<noteq> pg_created (guard_files calls guard)"
      by (simp add: guard_files_append call)
    from guard_file_created [OF this] obtain h i where
      "wpm_path_guard_file gs (guard_files calls guard) name fresh
         = (Some h, (guard_files calls guard)\<lparr>pg_created := Some (fi_identity i)\<rparr>)"
      "fresh = 1" "gs_info gs 1 h = Some i" "single_file i" by blast
    then show ?thesis using snoc.prems(2)
      by (intro exI [of _ calls] exI [of _ gs] exI [of _ name] exI [of _ "[]"] exI [of _ h] exI [of _ i])
        (simp add: guard_files_append call)
  qed
qed

text \<open>C16: only a file that was made through the guard is published, and only under a plain name. When a
  publication is carried out after a sequence of file calls on an opened guard, the file has one link, is
  neither directory nor reparse point nor read-only, and has the identity of a file that one of these
  calls created fresh; the new name is one component of at most 255 letters, digits, dots, dashes,
  underscores and plus signs; and all directories of the guard are still ordinary.\<close>

theorem published_file_was_created:
  assumes "wpm_path_guard_publish gs (guard_files calls guard) h name replace" and "pg_created guard = None"
  shows "\<exists>n i before gs' made after h' i'. name = Some n
    \<and> n \<noteq> [] \<and> length n \<le> 255 \<and> list_all publish_char n \<and> n \<noteq> ''.'' \<and> n \<noteq> ''..''
    \<and> (\<forall>d \<in> set (pg_handles (guard_files calls guard)). ordinary_directory (gs_info gs 0 d))
    \<and> gs_info gs 0 h = Some i \<and> single_file i \<and> \<not> fi_readonly i
    \<and> calls = before @ (gs', made, 1) # after
    \<and> fst (wpm_path_guard_file gs' (guard_files before guard) made 1) = Some h'
    \<and> gs_info gs' 1 h' = Some i' \<and> fi_identity i' = fi_identity i"
proof -
  from assms(1) obtain n i where n: "name = Some n" "n \<noteq> []" "length n \<le> 255" "list_all publish_char n"
      "guard_name_valid (Some n)" "guard_ordinary gs 0 (pg_handles (guard_files calls guard))"
    and i: "gs_info gs 0 h = Some i" "single_file i" "\<not> fi_readonly i"
      "pg_created (guard_files calls guard) = Some (fi_identity i)"
    by (auto simp: wpm_path_guard_publish_def split: option.splits)
  from guard_files_created [OF assms(2) i(4)] obtain before gs' made after h' i' where
    "calls = before @ (gs', made, 1) # after" "fst (wpm_path_guard_file gs' (guard_files before guard) made 1) = Some h'"
    "gs_info gs' 1 h' = Some i'" "fi_identity i' = fi_identity i" by blast
  moreover have "n \<noteq> ''.''" "n \<noteq> ''..''" using n(5) by (auto simp: guard_name_valid_def)
  moreover have "\<forall>d \<in> set (pg_handles (guard_files calls guard)). ordinary_directory (gs_info gs 0 d)"
    using n(6) by (simp add: guard_ordinary_def list_all_iff)
  ultimately show ?thesis using n i by blast
qed

subsection \<open>A sample system\<close>

definition sample_directory :: file_info where
  "sample_directory = \<lparr>fi_directory = True, fi_reparse = False, fi_readonly = False, fi_links = 1, fi_identity = [1]\<rparr>"

text \<open>Handles below 10 are directories, the others ordinary files.\<close>

definition sample_system :: "32 word \<Rightarrow> guard_system" where
  "sample_system capabilities = \<lparr>gs_capabilities = capabilities, gs_full_path = Some, gs_root = (\<lambda>p. Inr 0),
     gs_relative = (\<lambda>h name disposition directory. Inr (if directory then h + 1 else h + 10)),
     gs_info = (\<lambda>moment h. Some (sample_directory\<lparr>fi_directory := h < 10, fi_identity := [h]\<rparr>)),
     gs_disk = (\<lambda>h. True), gs_duplicate = Some, gs_rename = (\<lambda>h name replace. True)\<rparr>"

definition sample_directory_path :: string where
  "sample_directory_path = ''C:'' @ BSLASH # ''data'' @ BSLASH # ''recovery''"

lemma sample_open:
  "wpm_path_guard_open (sample_system capabilities) (Some sample_directory_path) 0 4096
     = (WPM_PATH_OPEN, sample_directory_path, Some \<lparr>pg_handles = [0, 1, 2], pg_created = None\<rparr>)"
proof -
  have path: "sample_directory_path \<noteq> []" "length sample_directory_path < 4096"
    "trim_trailing BSLASH 3 sample_directory_path = sample_directory_path" "drive_path sample_directory_path"
    "\<not> path_unsafe (sample_directory_path ! 2) (drop 3 sample_directory_path)"
    "guard_names sample_directory_path = [''data'', ''recovery'']"
    by (simp_all add: sample_directory_path_def trim_trailing_id drive_path_def bad_end_def guard_control_def guard_names_def)
  have "gs_full_path (sample_system capabilities) = Some" "gs_root (sample_system capabilities) p = Inr 0"
    "gs_info (sample_system capabilities) m h = Some (sample_directory\<lparr>fi_directory := h < 10, fi_identity := [h]\<rparr>)"
    "gs_relative (sample_system capabilities) h name d True = Inr (h + 1)" for p m h name d
    by (simp_all add: sample_system_def)
  with path show ?thesis
    by (simp add: wpm_path_guard_open_def guard_open_relative_def guard_ordinary_def ordinary_directory_def
        sample_directory_def Let_def)
qed

theorem guard_open_confined_witness:
  "\<exists>hs (names :: string list). Some \<lparr>pg_handles = [0, 1, 2], pg_created = None\<rparr> = Some \<lparr>pg_handles = hs, pg_created = None\<rparr>
   \<and> drive_path sample_directory_path \<and> length hs = Suc (length names)"
  using guard_open_confined [OF sample_open [of 1]] by - (erule ex_forward, erule ex_forward, elim conjE, intro conjI, assumption+)

theorem guards_without_write_capability_witness:
  "wpm_path_guard_open (sample_system 0) (Some sample_directory_path) 1 4096 = (WPM_PATH_FAILED, [], None)"
proof -
  have "\<not> wpm_require_capability WPM_CAP_WRITE (gs_capabilities (sample_system 0))"
    by (simp add: sample_system_def WPM_CAP_WRITE_def)
  then show ?thesis
    using guards_without_write_capability [of "sample_system 0" "Some sample_directory_path" 4096 1] by simp
qed

theorem published_file_was_created_witness:
  "\<exists>i. gs_info (sample_system all_capabilities) 0 12 = Some i \<and> single_file i"
proof -
  let ?gs = "sample_system all_capabilities"
  let ?guard = "\<lparr>pg_handles = [0, 1, 2], pg_created = None\<rparr>"
  have can_write: "wpm_require_capability WPM_CAP_WRITE all_capabilities"
    by (simp add: wpm_require_capability_def all_capabilities_def capability_defs)
  have dirs: "guard_ordinary ?gs m [0, 1, 2]" for m
    by (simp add: guard_ordinary_def sample_system_def sample_directory_def ordinary_directory_def)
  have "guard_files [(?gs, Some ''a.new'', 1)] ?guard = ?guard\<lparr>pg_created := Some [12]\<rparr>"
    by (simp add: wpm_path_guard_file_def guard_name_valid_def guard_control_def bad_end_def dirs [simplified]
        guard_open_relative_def, simp add: sample_system_def sample_directory_def ordinary_directory_def single_file_def can_write
        guard_ordinary_def)
  then have "wpm_path_guard_publish ?gs (guard_files [(?gs, Some ''a.new'', 1)] ?guard) 12 (Some ''a.json'') False"
    by (simp add: wpm_path_guard_publish_def guard_name_valid_def guard_control_def bad_end_def dirs [simplified]
        publish_char_def, simp add: sample_system_def sample_directory_def ordinary_directory_def single_file_def can_write
        guard_ordinary_def)
  from published_file_was_created [OF this] show ?thesis by auto
qed
end
