(* ===== verification/Recovery_Record.thy ===== *)
theory Recovery_Record
  imports Recovery_Audit Semver Path_Guard "HOL-Library.Monad_Syntax"
begin

text \<open>
  The admission of recovery records, \<open>wpm/recovery_record.c\<close>: the parser of one document, the check of
  the current input against the recorded identity, and the bounded query over the recovery directory.
  What the file system, the path guards and the archive reader answer is a parameter. A record that
  is refused is cleared or never used by the callers, so that the model returns \<open>None\<close> for it.
\<close>

definition RECORD_PATH :: nat where "RECORD_PATH = 4096"
definition RECORD_BYTES :: nat where "RECORD_BYTES = 65536"
definition RECORD_READ_BUDGET :: nat where "RECORD_READ_BUDGET = 64 * 1024 * 1024"

record recovery_identity =
  ri_id :: string
  ri_operation :: string
  ri_created :: string
  ri_updated :: string
  ri_plan :: string
  ri_status :: string
  ri_phase :: string
  ri_name :: string
  ri_arch :: string
  ri_old_version :: string
  ri_new_version :: string
  ri_source :: string
  ri_input :: string
  ri_fingerprint :: string
  ri_signer :: string
  ri_script_exit :: nat
  ri_external :: bool
  ri_exit_known :: bool
  ri_input_status :: string
  ri_retained_relative :: string
  ri_retained_state :: string
  ri_retained_path :: string
  ri_retained_status :: string
  ri_retained_known :: bool
  ri_inventory_known :: bool

subsection \<open>Members\<close>

definition lower_hex :: "char \<Rightarrow> bool" where
  "lower_hex c \<longleftrightarrow> is_digit c \<or> 97 \<le> byte c \<and> byte c \<le> 102"

definition wpm_recovery_id_valid :: "string option \<Rightarrow> bool" where
  "wpm_recovery_id_valid text =
     (case text of None \<Rightarrow> False | Some s \<Rightarrow> length s = 32 \<and> list_all lower_hex s)"

definition record_hex :: "string \<Rightarrow> bool" where
  "record_hex s \<longleftrightarrow> length s = 64 \<and> list_all lower_hex s"

definition record_delimiter :: "string \<Rightarrow> bool" where
  "record_delimiter p \<longleftrightarrow> at (CHR '','') (wpm_json_space p) \<or> at (CHR ''}'') (wpm_json_space p)"

text \<open>\<open>None\<close> is failure; a \<open>null\<close> that is allowed leaves the empty string.\<close>

definition record_string :: "string \<Rightarrow> string \<Rightarrow> nat \<Rightarrow> bool \<Rightarrow> string option" where
  "record_string text key cap nullable =
     (case wpm_json_unique_field text key of
        None \<Rightarrow> None
      | Some p \<Rightarrow>
          if nullable \<and> starts_with ''null'' p \<and> record_delimiter (drop 4 p) then Some []
          else (case wpm_json_read_string True cap p of
                  (v, Some q) \<Rightarrow> if v \<noteq> [] \<and> record_delimiter q then Some v else None
                | (_, None) \<Rightarrow> None))"

definition record_bool :: "string \<Rightarrow> string \<Rightarrow> bool option" where
  "record_bool text key =
     (case wpm_json_unique_field text key of
        None \<Rightarrow> None
      | Some p \<Rightarrow>
          if starts_with ''true'' p \<and> record_delimiter (drop 4 p) then Some True
          else if starts_with ''false'' p \<and> record_delimiter (drop 5 p) then Some False
          else None)"

definition time_positions :: "nat list" where "time_positions = [4, 7, 10, 13, 16, 19, 23]"
definition time_separators :: string where "time_separators = ''--T::.Z''"

text \<open>\<open>atoi(text + k)\<close>; every call is at a digit and reads at most four.\<close>

definition time_field :: "string \<Rightarrow> nat \<Rightarrow> nat" where
  "time_field s k = dec_value (takeWhile is_digit (drop k s))"

definition month_days :: "nat \<Rightarrow> nat \<Rightarrow> nat" where
  "month_days year month =
     (if month = 2 then (if year mod 4 = 0 \<and> (year mod 100 \<noteq> 0 \<or> year mod 400 = 0) then 29 else 28)
      else if month = 4 \<or> month = 6 \<or> month = 9 \<or> month = 11 then 30 else 31)"

definition record_time :: "string \<Rightarrow> bool" where
  "record_time s \<longleftrightarrow> length s = 24
     \<and> list_all (\<lambda>i. case map_of (zip time_positions time_separators) i of
                       Some c \<Rightarrow> s ! i = c | None \<Rightarrow> is_digit (s ! i)) [0..<24]
     \<and> (let year = time_field s 0; month = time_field s 5; day = time_field s 8 in
        year \<noteq> 0 \<and> 1 \<le> month \<and> month \<le> 12 \<and> 1 \<le> day \<and> time_field s 11 \<le> 23 \<and> time_field s 14 \<le> 59
        \<and> time_field s 17 \<le> 59 \<and> day \<le> month_days year month)"

subsection \<open>Controlled artifacts\<close>

definition record_artifact :: "string \<Rightarrow> recovery_identity \<Rightarrow> recovery_identity option" where
  "record_artifact p r =
     do {
       role \<leftarrow> record_string p ''role'' 32 False;
       if role = ''recovery-input'' then
         (if ri_retained_known r then None
          else do {
            _ \<leftarrow> record_string p ''path'' RECORD_PATH False;
            relative \<leftarrow> record_string p ''relativePath'' 256 False;
            digest \<leftarrow> record_string p ''blake2b256'' 65 False;
            state \<leftarrow> record_string p ''state'' 16 False;
            if digest = ri_fingerprint r \<and> state \<in> {''planned'', ''incomplete'', ''retained''}
            then Some (r\<lparr>ri_retained_relative := relative, ri_retained_state := state,
                         ri_retained_known := True, ri_retained_status := ''not-checked''\<rparr>)
            else None
          })
       else Some (r\<lparr>ri_inventory_known := False\<rparr>)
     }"

definition artifacts_end :: "string \<Rightarrow> recovery_identity \<Rightarrow> recovery_identity option" where
  "artifacts_end p r = (if at (CHR '']'') p \<and> record_delimiter (tl p) then Some r else None)"

function artifacts_loop :: "nat \<Rightarrow> string \<Rightarrow> recovery_identity \<Rightarrow> recovery_identity option" where
  "artifacts_loop n p r =
     (if at (CHR '']'') p then artifacts_end p r
      else if \<not> at (CHR ''{'') p \<or> n + 1 > 16 then None
      else (case record_artifact p r of
              None \<Rightarrow> None
            | Some r' \<Rightarrow>
                if \<not> fst (wpm_json_value_end p) then None
                else
                  let q = wpm_json_space (snd (wpm_json_value_end p)) in
                  if \<not> at (CHR '','') q then artifacts_end q r'
                  else artifacts_loop (n + 1) (wpm_json_space (tl q)) r'))"
  by pat_completeness auto
termination
  by (relation "measure (\<lambda>(n, p, r). 17 - n)") auto

declare artifacts_loop.simps [simp del]

definition record_artifacts :: "string \<Rightarrow> recovery_identity \<Rightarrow> recovery_identity option" where
  "record_artifacts artifacts r =
     artifacts_loop 0 (wpm_json_space (tl artifacts))
       (r\<lparr>ri_inventory_known := True, ri_retained_status := ''not-recorded''\<rparr>)"

subsection \<open>One document\<close>

definition record_require :: "bool \<Rightarrow> unit option" where
  "record_require b = (if b then Some () else None)"

lemma record_require_Some [simp]: "record_require b = Some u \<longleftrightarrow> b"
  by (simp add: record_require_def)

text \<open>The members of the document and its nested objects, with the tests of the first \<open>return 0\<close>.\<close>

definition record_members :: "string \<Rightarrow> string \<Rightarrow> string \<Rightarrow> string \<Rightarrow> recovery_identity option" where
  "record_members text wanted package input =
     do {
       schema \<leftarrow> record_string text ''schema'' 32 False;
       _ \<leftarrow> record_require (schema = ''wpm.recovery.v1'');
       rid \<leftarrow> record_string text ''operationId'' 33 False;
       _ \<leftarrow> record_require (wanted = rid);
       operation \<leftarrow> record_string text ''operation'' 16 False;
       created \<leftarrow> record_string text ''created'' 32 False;
       updated \<leftarrow> record_string text ''updated'' 32 False;
       plan \<leftarrow> record_string text ''planDigest'' 65 False;
       status \<leftarrow> record_string text ''status'' 16 False;
       phase \<leftarrow> record_string text ''phase'' 32 False;
       name \<leftarrow> record_string package ''name'' 128 False;
       arch \<leftarrow> record_string package ''arch'' 16 False;
       old_version \<leftarrow> record_string package ''oldVersion'' 64 True;
       new_version \<leftarrow> record_string package ''newVersion'' 64 True;
       source \<leftarrow> record_string text ''source'' RECORD_PATH False;
       signer \<leftarrow> record_string text ''signer'' 65 True;
       validation \<leftarrow> record_string text ''validation'' 48 False;
       _ \<leftarrow> record_require (validation = ''validated-before-approval'');
       path \<leftarrow> record_string input ''path'' RECORD_PATH False;
       fingerprint \<leftarrow> record_string input ''blake2b256'' 65 False;
       external \<leftarrow> record_bool text ''externalStateMayHaveChanged'';
       retry \<leftarrow> record_bool text ''retryEligible'';
       _ \<leftarrow> record_require (\<not> retry \<and> record_hex plan \<and> record_hex fingerprint
              \<and> (signer = [] \<or> signer = ''unsigned'' \<or> record_hex signer)
              \<and> record_time created \<and> record_time updated \<and> strcmp created updated \<le> 0
              \<and> wpm_recovery_filters_valid (Some name) (Some arch));
       Some \<lparr>ri_id = rid, ri_operation = operation, ri_created = created, ri_updated = updated,
         ri_plan = plan, ri_status = status, ri_phase = phase, ri_name = name, ri_arch = arch,
         ri_old_version = old_version, ri_new_version = new_version, ri_source = source,
         ri_input = path, ri_fingerprint = fingerprint, ri_signer = signer, ri_script_exit = 0,
         ri_external = external, ri_exit_known = False, ri_input_status = [],
         ri_retained_relative = [], ri_retained_state = [], ri_retained_path = [],
         ri_retained_status = [], ri_retained_known = False, ri_inventory_known = False\<rparr>
     }"

text \<open>The operation and the relations between operation, versions, status and failed phase.\<close>

definition record_consistent :: "string \<Rightarrow> recovery_identity \<Rightarrow> bool" where
  "record_consistent failed_phase r \<longleftrightarrow>
     ri_operation r \<in> {''install'', ''remove'', ''upgrade'', ''self-upgrade''}
     \<and> (ri_old_version r = [] \<or> wpm_repo_version_is_valid (Some (ri_old_version r)))
     \<and> (ri_new_version r = [] \<or> wpm_repo_version_is_valid (Some (ri_new_version r)))
     \<and> (ri_operation r = ''remove'' \<longleftrightarrow> ri_new_version r = [])
     \<and> (if ri_status r = ''failed'' then failed_phase = ri_phase r else failed_phase = [])"

definition record_history_ok :: "string \<Rightarrow> bool" where
  "record_history_ok history \<longleftrightarrow>
     at (CHR ''['') history \<or> starts_with ''null'' history \<and> record_delimiter (drop 4 history)"

text \<open>The list of safe actions is exactly \<open>["inspect"]\<close>.\<close>

definition record_actions :: "string \<Rightarrow> bool" where
  "record_actions actions \<longleftrightarrow>
     (case wpm_json_read_string True 16 (wpm_json_space (tl actions)) of
        (action, Some q) \<Rightarrow>
          action = ''inspect'' \<and> at (CHR '']'') (wpm_json_space q)
          \<and> record_delimiter (tl (wpm_json_space q))
      | (_, None) \<Rightarrow> False)"

text \<open>The script exit code: \<open>null\<close> or a number that \<open>strtoul\<close> converts within 32 bits.\<close>

definition record_exit :: "string \<Rightarrow> nat option option" where
  "record_exit exit =
     (if starts_with ''null'' exit \<and> record_delimiter (drop 4 exit) then Some None
      else if \<not> at_class is_digit exit then None
      else
        let number = dec_value (takeWhile is_digit exit) in
        if number > 0xffffffff \<or> \<not> record_delimiter (dropWhile is_digit exit) then None
        else Some (Some number))"

definition record_parse :: "string \<Rightarrow> string \<Rightarrow> recovery_identity option" where
  "record_parse text wanted =
     do {
       _ \<leftarrow> record_require (wpm_json_document_valid text \<and> wpm_json_utf8_valid (Some text));
       package \<leftarrow> wpm_json_unique_field text ''package'';
       input \<leftarrow> wpm_json_unique_field text ''input'';
       exit \<leftarrow> wpm_json_unique_field text ''scriptExitCode'';
       actions \<leftarrow> wpm_json_unique_field text ''safeActions'';
       artifacts \<leftarrow> wpm_json_unique_field text ''controlledArtifacts'';
       history \<leftarrow> wpm_json_unique_field text ''completedPhases'';
       _ \<leftarrow> record_require (at (CHR ''{'') package \<and> at (CHR ''{'') input);
       r \<leftarrow> record_members text wanted package input;
       failed_phase \<leftarrow> record_string text ''failedPhase'' 32 True;
       _ \<leftarrow> record_require (at (CHR ''['') actions \<and> at (CHR ''['') artifacts \<and> record_history_ok history
              \<and> record_consistent failed_phase r \<and> record_actions actions
              \<and> ri_status r \<in> {''completed'', ''in-progress'', ''failed'', ''pending''});
       code \<leftarrow> record_exit exit;
       record_artifacts artifacts
         (r\<lparr>ri_script_exit := (case code of None \<Rightarrow> 0 | Some n \<Rightarrow> n), ri_exit_known := (code \<noteq> None),
            ri_input_status := ''not-checked''\<rparr>)
     }"

subsection \<open>The current input\<close>

record package_info =
  pi_name :: string
  pi_version :: string
  pi_arch :: string

text \<open>What is asked of an opened input: an ordinary single-link disk file, its digest, the identity that
  the archive reader finds and the signer that the validation reports for the given override.\<close>

record input_handle =
  ih_plain :: bool
  ih_digest :: "string option"
  ih_package :: "package_info option"
  ih_signer :: "bool \<Rightarrow> string option"

text \<open>\<open>open_in\<close> fails with whether the file is missing.\<close>

record input_system =
  full_path :: "string \<Rightarrow> string option"
  guard_open :: "string \<Rightarrow> wpm_path_result"
  open_in :: "string \<Rightarrow> string \<Rightarrow> bool + input_handle"

text \<open>The path around its last backslash; the root of a drive keeps it.\<close>

definition last_component :: "string \<Rightarrow> string" where
  "last_component path = rev (takeWhile (\<lambda>c. c \<noteq> BSLASH) (rev path))"

definition before_last :: "string \<Rightarrow> string" where
  "before_last path = rev (tl (dropWhile (\<lambda>c. c \<noteq> BSLASH) (rev path)))"

definition parent_directory :: "string \<Rightarrow> string option" where
  "parent_directory path =
     (if BSLASH \<notin> set path then None
      else if length (before_last path) = 2 then Some (before_last path @ [BSLASH])
      else Some (before_last path))"

definition risky_end :: "string \<Rightarrow> bool" where
  "risky_end path \<longleftrightarrow> path = [] \<or> last path = CHR ''.'' \<or> last path = SPC"

definition recorded_version :: "recovery_identity \<Rightarrow> string" where
  "recorded_version r = (if ri_operation r = ''remove'' then ri_old_version r else ri_new_version r)"

text \<open>The tests on an opened input, and the status that they leave.\<close>

definition validate_handle :: "recovery_identity \<Rightarrow> bool \<Rightarrow> input_handle \<Rightarrow> string \<times> bool" where
  "validate_handle r allow_unsigned h =
     (if \<not> ih_plain h then (''unsafe-path'', False)
      else
      (case ih_digest h of
         None \<Rightarrow> (''unreadable'', False)
       | Some digest \<Rightarrow>
           if digest \<noteq> ri_fingerprint r then (''changed'', False)
           else
           (case ih_package h of
              None \<Rightarrow> (''identity-conflict'', False)
            | Some package \<Rightarrow>
                if pi_name package \<noteq> ri_name r \<or> \<not> strieq (pi_arch package) (ri_arch r)
                   \<or> pi_version package \<noteq> recorded_version r
                then (''identity-conflict'', False)
                else
                (case ih_signer h allow_unsigned of
                   None \<Rightarrow> (''untrusted-or-invalid'', False)
                 | Some signer \<Rightarrow>
                     if signer \<noteq> ri_signer r then (''signer-conflict'', False)
                     else (''validated-current-input'', True)))))"

definition record_validate_input ::
  "input_system \<Rightarrow> recovery_identity \<Rightarrow> string option \<Rightarrow> bool \<Rightarrow> string \<times> bool" where
  "record_validate_input sys r path allow_unsigned =
     (case path of
        None \<Rightarrow> (''external-unchecked'', False)
      | Some p \<Rightarrow>
          if risky_end p then (''unsafe-path'', False)
          else if ri_operation r = ''remove'' \<and> ri_old_version r = [] then (''identity-incomplete'', False)
          else
          (case Option.bind (full_path sys p) (fits RECORD_PATH) of
             None \<Rightarrow> (''invalid'', False)
           | Some canonical \<Rightarrow>
               if length canonical < 3 \<or> CHR '':'' \<in> set (drop 2 canonical) \<or> risky_end canonical
               then (''unsafe-path'', False)
               else
               (case parent_directory canonical of
                  None \<Rightarrow> (''invalid'', False)
                | Some parent \<Rightarrow>
                    (case guard_open sys parent of
                       WPM_PATH_ABSENT \<Rightarrow> (''missing'', False)
                     | WPM_PATH_UNSAFE \<Rightarrow> (''unsafe-path'', False)
                     | WPM_PATH_FAILED \<Rightarrow> (''unreadable'', False)
                     | WPM_PATH_OPEN \<Rightarrow>
                         (case open_in sys parent (last_component canonical) of
                            Inl missing \<Rightarrow> (if missing then ''missing'' else ''unreadable'', False)
                          | Inr h \<Rightarrow> validate_handle r allow_unsigned h)))))"

definition record_retained_path :: "recovery_identity \<Rightarrow> string \<Rightarrow> recovery_identity option" where
  "record_retained_path r directory =
     (if \<not> ri_retained_known r then Some r
      else if recorded_version r = [] then
        Some (r\<lparr>ri_retained_status := ''identity-incomplete'', ri_inventory_known := False\<rparr>)
      else if fits 256 (ri_id r @ ''/input.zip'') \<noteq> Some (ri_retained_relative r) then None
      else map_option (\<lambda>path. r\<lparr>ri_retained_path := path\<rparr>)
             (fits RECORD_PATH (directory @ BSLASH # ri_id r @ BSLASH # ''input.zip'')))"

text \<open>The explicit archive and the retained input of one record; the result is whether the inspection
  is complete.\<close>

definition record_inspect_inputs ::
  "input_system \<Rightarrow> recovery_identity \<Rightarrow> string option \<Rightarrow> bool \<Rightarrow> recovery_identity \<times> bool" where
  "record_inspect_inputs sys r archive allow_unsigned =
     (let (explicit_status, explicit_ok) =
            (case archive of None \<Rightarrow> ([], False)
             | Some a \<Rightarrow> record_validate_input sys r (Some a) allow_unsigned);
          (retained_status, retained_ok) =
            (if \<not> ri_retained_known r then (ri_retained_status r, True)
             else if ri_retained_path r = [] then (''identity-incomplete'', False)
             else record_validate_input sys r (Some (ri_retained_path r)) allow_unsigned);
          input_status =
            (if archive \<noteq> None then explicit_status
             else if \<not> ri_retained_known r then ''external-unchecked''
             else if ri_retained_path r = [] then ''identity-incomplete''
             else retained_status) in
      (r\<lparr>ri_retained_status := retained_status, ri_input_status := input_status\<rparr>,
       ri_inventory_known r \<and> retained_ok \<and> (if archive \<noteq> None then explicit_ok else ri_retained_known r)))"

subsection \<open>Reading one record file\<close>

record record_file =
  rf_plain :: bool
  rf_size :: nat
  rf_bytes :: "string option"

datatype read_result = Read_failed | Read_ok recovery_identity | Read_budget

definition record_read :: "record_file option \<Rightarrow> string \<Rightarrow> nat \<Rightarrow> read_result \<times> nat" where
  "record_read opened wanted budget =
     (case opened of
        None \<Rightarrow> (Read_failed, budget)
      | Some f \<Rightarrow>
          if \<not> rf_plain f \<or> rf_size f = 0 \<or> rf_size f > RECORD_BYTES then (Read_failed, budget)
          else if rf_size f > budget then (Read_budget, budget)
          else
            (case rf_bytes f of
               None \<Rightarrow> Read_failed
             | Some text \<Rightarrow>
                 if length text \<noteq> rf_size f \<or> NUL \<in> set text then Read_failed
                 else (case record_parse text wanted of None \<Rightarrow> Read_failed | Some r \<Rightarrow> Read_ok r),
             budget - rf_size f))"

subsection \<open>The query\<close>

record recovery_env =
  re_root :: "string option"
  re_guard :: "string \<Rightarrow> wpm_path_result \<times> string"
  re_names :: "string list"
  re_names_end :: bool
  re_file :: "string \<Rightarrow> record_file option"
  re_inputs :: input_system

record query_state =
  qs_records :: "recovery_identity list"
  qs_examined :: nat
  qs_invalid :: nat
  qs_filtered :: nat
  qs_limited :: bool
  qs_budget :: nat

definition query_start :: query_state where
  "query_start = \<lparr>qs_records = [], qs_examined = 0, qs_invalid = 0, qs_filtered = 0,
     qs_limited = False, qs_budget = RECORD_READ_BUDGET\<rparr>"

definition identity_excluded :: "string option \<Rightarrow> string option \<Rightarrow> recovery_identity \<Rightarrow> bool" where
  "identity_excluded name arch r \<longleftrightarrow>
     (case name of None \<Rightarrow> False | Some n \<Rightarrow> \<not> strieq n (ri_name r))
     \<or> (case arch of None \<Rightarrow> False | Some a \<Rightarrow> \<not> strieq a (ri_arch r))"

text \<open>The operation id of a file name \<open><32 bytes>.json\<close>.\<close>

definition record_name_id :: "string \<Rightarrow> string option" where
  "record_name_id found =
     (if length found = 37 \<and> drop 32 found = ''.json'' then Some (take 32 found) else None)"

definition admit_record :: "recovery_env \<Rightarrow> string \<Rightarrow> string \<Rightarrow> nat \<Rightarrow> read_result \<times> nat" where
  "admit_record env found candidate budget =
     (if wpm_recovery_id_valid (Some candidate) then record_read (re_file env found) candidate budget
      else (Read_failed, budget))"

definition query_admitted ::
  "string \<Rightarrow> string option \<Rightarrow> string option \<Rightarrow> read_result \<Rightarrow> query_state \<Rightarrow> query_state" where
  "query_admitted directory name arch admitted st =
     (case admitted of
        Read_budget \<Rightarrow> st\<lparr>qs_limited := True\<rparr>
      | Read_failed \<Rightarrow> st\<lparr>qs_invalid := qs_invalid st + 1\<rparr>
      | Read_ok r \<Rightarrow>
          (case record_retained_path r directory of
             None \<Rightarrow> st\<lparr>qs_invalid := qs_invalid st + 1\<rparr>
           | Some r \<Rightarrow>
               if identity_excluded name arch r then st\<lparr>qs_filtered := qs_filtered st + 1\<rparr>
               else st\<lparr>qs_records := qs_records st @ [r]\<rparr>))"

definition query_file ::
  "recovery_env \<Rightarrow> string \<Rightarrow> string option \<Rightarrow> string option \<Rightarrow> string \<Rightarrow> query_state \<Rightarrow> query_state" where
  "query_file env directory name arch found st =
     (let st = st\<lparr>qs_examined := qs_examined st + 1\<rparr> in
      (case record_name_id found of
         None \<Rightarrow> st\<lparr>qs_invalid := qs_invalid st + 1\<rparr>
       | Some candidate \<Rightarrow>
           (case admit_record env found candidate (qs_budget st) of
              (admitted, budget) \<Rightarrow> query_admitted directory name arch admitted (st\<lparr>qs_budget := budget\<rparr>))))"

text \<open>The loop; \<open>qs_limited\<close> after a file is the \<open>break\<close> at the cumulative read bound.\<close>

fun query_loop ::
  "nat \<Rightarrow> recovery_env \<Rightarrow> string \<Rightarrow> string option \<Rightarrow> string option \<Rightarrow> string list \<Rightarrow> query_state \<Rightarrow> query_state" where
  "query_loop limit env directory name arch [] st = st"
| "query_loop limit env directory name arch (found # names) st =
     (if qs_examined st = limit then st\<lparr>qs_limited := True\<rparr>
      else
        let st = query_file env directory name arch found st in
        if qs_limited st then st else query_loop limit env directory name arch names st)"

text \<open>The inspection of one operation.\<close>

definition query_one ::
  "recovery_env \<Rightarrow> string \<Rightarrow> string \<Rightarrow> string option \<Rightarrow> bool \<Rightarrow> string option \<Rightarrow> string option
     \<Rightarrow> query_state \<times> bool" where
  "query_one env directory wanted archive allow_unsigned name arch =
     (let st = query_start\<lparr>qs_examined := 1\<rparr>;
          invalid = (st\<lparr>qs_invalid := 1\<rparr>, False) in
      (case record_read (re_file env (wanted @ ''.json'')) wanted RECORD_READ_BUDGET of
         (Read_ok r, _) \<Rightarrow>
           (case record_retained_path r directory of
              None \<Rightarrow> invalid
            | Some r \<Rightarrow>
                if identity_excluded name arch r then (st\<lparr>qs_filtered := 1\<rparr>, False)
                else (case record_inspect_inputs (re_inputs env) r archive allow_unsigned of
                        (r, complete) \<Rightarrow> (st\<lparr>qs_records := [r]\<rparr>, complete)))
       | _ \<Rightarrow> invalid))"

definition record_order :: "recovery_identity \<Rightarrow> recovery_identity \<Rightarrow> int" where
  "record_order a b = strcmp (ri_id a) (ri_id b)"

definition query_records ::
  "recovery_env \<Rightarrow> nat \<Rightarrow> string option \<Rightarrow> string option \<Rightarrow> bool \<Rightarrow> string option \<Rightarrow> string option
     \<Rightarrow> query_state \<times> bool" where
  "query_records env limit wanted archive allow_unsigned name arch =
     (if limit = 0 \<or> limit > 4096 \<or> wanted \<noteq> None \<and> \<not> wpm_recovery_id_valid wanted
         \<or> archive \<noteq> None \<and> wanted = None \<or> allow_unsigned \<and> wanted = None
         \<or> \<not> wpm_recovery_filters_valid name arch
      then (query_start, False)
      else
      (case re_root env of
         None \<Rightarrow> (query_start, False)
       | Some root \<Rightarrow>
           if length root + 10 \<ge> RECORD_PATH then (query_start, False)
           else
           (case re_guard env (root @ BSLASH # ''recovery'') of
              (guarded, directory) \<Rightarrow>
                if guarded = WPM_PATH_ABSENT then (query_start, wanted = None)
                else if guarded \<noteq> WPM_PATH_OPEN \<or> length directory + 39 \<ge> RECORD_PATH
                then (query_start, False)
                else
                (case wanted of
                   Some w \<Rightarrow> query_one env directory w archive allow_unsigned name arch
                 | None \<Rightarrow>
                     let st = query_loop limit env directory name arch (re_names env) query_start in
                     (st, qs_invalid st = 0 \<and> \<not> qs_limited st \<and> re_names_end env)))))"

subsection \<open>The JSON output of the query\<close>

definition optional :: "string \<Rightarrow> string option" where
  "optional v = (if v = [] then None else Some v)"

definition identity_members :: "recovery_identity \<Rightarrow> (string \<times> string option) list" where
  "identity_members r =
     [(''operationId'', Some (ri_id r)), (''operation'', Some (ri_operation r)),
      (''created'', Some (ri_created r)), (''updated'', Some (ri_updated r)),
      (''planDigest'', Some (ri_plan r)), (''status'', Some (ri_status r)),
      (''phase'', Some (ri_phase r)), (''name'', Some (ri_name r)), (''arch'', Some (ri_arch r)),
      (''oldVersion'', optional (ri_old_version r)), (''newVersion'', optional (ri_new_version r)),
      (''source'', Some (ri_source r)), (''inputPath'', Some (ri_input r)),
      (''blake2b256'', Some (ri_fingerprint r)), (''signer'', optional (ri_signer r)),
      (''inputStatus'', Some (ri_input_status r)),
      (''retainedInputPath'', optional (ri_retained_path r)),
      (''retainedInputStatus'', Some (ri_retained_status r))]"

definition record_render :: "bool \<Rightarrow> recovery_identity \<Rightarrow> string \<times> bool" where
  "record_render stream_error r =
     (json_object (map (\<lambda>(k, v). (k, json_out stream_error v)) (identity_members r)
        @ [(''externalStateMayHaveChanged'', json_bool (ri_external r)),
           (''scriptExitCode'', if ri_exit_known r then decimal (ri_script_exit r) else ''null''),
           (''authenticated'', ''false''), (''externalStateKnown'', ''false''),
           (''retryEligible'', ''false''), (''safeActions'', json_array [json_quoted ''inspect'']),
           (''artifactInventoryInterpreted'', json_bool (ri_inventory_known r))]),
      list_all (\<lambda>(k, v). json_issue stream_error v = 0) (identity_members r))"

text \<open>The bytes on standard output (none in the human mode) and the result.\<close>

definition wpm_recovery_records ::
  "bool \<Rightarrow> recovery_env \<Rightarrow> nat \<Rightarrow> bool \<Rightarrow> string option \<Rightarrow> string option \<Rightarrow> bool
     \<Rightarrow> string option \<Rightarrow> string option \<Rightarrow> string \<times> bool" where
  "wpm_recovery_records stream_error env limit json wanted archive allow_unsigned name arch =
     (case query_records env limit wanted archive allow_unsigned name arch of
        (st, complete) \<Rightarrow>
          let records = qsort record_order (qs_records st) in
          if \<not> json then ([], \<not> stream_error \<and> complete)
          else
            let complete = (complete \<and> list_all (\<lambda>r. snd (record_render stream_error r)) records) in
            (json_object
               [(''schema'', json_quoted ''wpm.recovery-query.v1''),
                (''records'', json_array (map (\<lambda>r. fst (record_render stream_error r)) records)),
                (''summary'', json_object
                   [(''examined'', decimal (qs_examined st)), (''records'', decimal (length records)),
                    (''invalidOrUnreadable'', decimal (qs_invalid st)),
                    (''filteredOut'', decimal (qs_filtered st)), (''limited'', json_bool (qs_limited st))]),
                (''complete'', json_bool complete), (''exitCode'', decimal (if complete then 0 else 1)),
                (''retrySupported'', ''false'')] @ [LF],
             \<not> stream_error \<and> complete))"

subsection \<open>Admitted records\<close>

lemma record_string_bound:
  "record_string text key cap nullable = Some v \<Longrightarrow> 0 < cap \<Longrightarrow> length v < cap \<and> (v = [] \<longrightarrow> nullable)"
  using read_string_bound [of cap True]
  by (auto simp: record_string_def split: option.splits if_splits prod.splits) (metis fst_conv)+

definition identity_bounded :: "recovery_identity \<Rightarrow> bool" where
  "identity_bounded r \<longleftrightarrow> length (ri_operation r) < 16 \<and> length (ri_status r) < 16 \<and> length (ri_phase r) < 32
     \<and> length (ri_name r) < 128 \<and> length (ri_arch r) < 16 \<and> length (ri_old_version r) < 64
     \<and> length (ri_new_version r) < 64 \<and> length (ri_source r) < RECORD_PATH \<and> length (ri_input r) < RECORD_PATH
     \<and> length (ri_signer r) < 65 \<and> length (ri_retained_relative r) < 256 \<and> length (ri_retained_state r) < 16
     \<and> ri_script_exit r < 2 ^ 32"

definition identity_checked :: "recovery_identity \<Rightarrow> bool" where
  "identity_checked r \<longleftrightarrow> record_hex (ri_plan r) \<and> record_hex (ri_fingerprint r)
     \<and> (ri_signer r = [] \<or> ri_signer r = ''unsigned'' \<or> record_hex (ri_signer r))
     \<and> record_time (ri_created r) \<and> record_time (ri_updated r) \<and> strcmp (ri_created r) (ri_updated r) \<le> 0
     \<and> wpm_recovery_filters_valid (Some (ri_name r)) (Some (ri_arch r))"

lemma record_members_checked:
  assumes "record_members text wanted package input = Some r"
  shows "ri_id r = wanted \<and> identity_bounded r \<and> identity_checked r \<and> \<not> ri_retained_known r"
proof -
  have "0 < RECORD_PATH" by (simp add: RECORD_PATH_def)
  note bound = record_string_bound [OF _ this] record_string_bound
  from assms show ?thesis
    unfolding record_members_def bind_eq_Some_conv record_require_Some option.inject
    by (elim exE conjE)
       ((drule bound(1), (drule bound(2), simp)+)+,
        (hypsubst, simp add: identity_bounded_def identity_checked_def))
qed

text \<open>What the artifact loop may change, and what it leaves.\<close>

definition same_identity :: "recovery_identity \<Rightarrow> recovery_identity \<Rightarrow> bool" where
  "same_identity r r' \<longleftrightarrow>
     (\<exists>relative state status known inventory.
        r' = r\<lparr>ri_retained_relative := relative, ri_retained_state := state, ri_retained_known := known,
               ri_retained_status := status, ri_inventory_known := inventory\<rparr>)"

lemma same_identity_update:
  "same_identity r (r\<lparr>ri_retained_relative := a, ri_retained_state := b, ri_retained_known := d,
     ri_retained_status := c, ri_inventory_known := e\<rparr>)"
  unfolding same_identity_def by (intro exI) (rule refl)

lemma same_identity_refl: "same_identity r r"
  using same_identity_update [where r = r and a = "ri_retained_relative r" and b = "ri_retained_state r"
    and c = "ri_retained_status r" and d = "ri_retained_known r" and e = "ri_inventory_known r"] by simp

lemma same_identity_trans: "same_identity a b \<Longrightarrow> same_identity b c \<Longrightarrow> same_identity a c"
  by (auto simp: same_identity_def) (cases a; auto)

definition artifact_ok :: "recovery_identity \<Rightarrow> bool" where
  "artifact_ok r \<longleftrightarrow> length (ri_retained_relative r) < 256 \<and> length (ri_retained_state r) < 16
     \<and> (ri_retained_known r \<longrightarrow> ri_retained_relative r \<noteq> [] \<and> ri_retained_status r = ''not-checked''
          \<and> ri_retained_state r \<in> {''planned'', ''incomplete'', ''retained''})"

lemma record_artifact_ok:
  assumes "record_artifact p r = Some r'" "artifact_ok r"
  shows "artifact_ok r' \<and> same_identity r r'"
proof -
  have s: "same_identity r (r\<lparr>ri_retained_relative := a, ri_retained_state := b, ri_retained_known := d,
      ri_retained_status := c\<rparr>)" "same_identity r (r\<lparr>ri_inventory_known := e\<rparr>)" for a b c d e
    using same_identity_update [where r = r and a = a and b = b and c = c and d = d
        and e = "ri_inventory_known r"]
      same_identity_update [where r = r and a = "ri_retained_relative r" and b = "ri_retained_state r"
        and c = "ri_retained_status r" and d = "ri_retained_known r" and e = e] by simp_all
  from assms(1) consider e where "r' = r\<lparr>ri_inventory_known := e\<rparr>"
    | a b where "record_string p ''relativePath'' 256 False = Some a" "record_string p ''state'' 16 False = Some b"
        "b \<in> {''planned'', ''incomplete'', ''retained''}"
        "r' = r\<lparr>ri_retained_relative := a, ri_retained_state := b, ri_retained_known := True,
               ri_retained_status := ''not-checked''\<rparr>"
    unfolding record_artifact_def by (auto simp: bind_eq_Some_conv split: if_splits)
  then show ?thesis
  proof cases
    case 1
    with s assms(2) show ?thesis by (simp add: artifact_ok_def)
  next
    case (2 a b)
    with s record_string_bound [OF 2(1)] record_string_bound [OF 2(2)] show ?thesis
      by (auto simp: artifact_ok_def)
  qed
qed

lemma artifacts_loop_ok:
  "artifacts_loop n p r = Some r' \<Longrightarrow> artifact_ok r \<Longrightarrow> artifact_ok r' \<and> same_identity r r'"
proof (induction n p r rule: artifacts_loop.induct)
  case (1 n p r)
  have stop: "artifacts_end q r1 = Some r' \<Longrightarrow> r' = r1" for q r1
    by (simp add: artifacts_end_def split: if_splits)
  show ?case
  proof (cases "at (CHR '']'') p")
    case True
    with "1.prems"(1) have "artifacts_end p r = Some r'" by (subst (asm) artifacts_loop.simps) simp
    from stop [OF this] "1.prems"(2) same_identity_refl show ?thesis by simp
  next
    case False
    with "1.prems"(1) obtain r1 where c: "\<not> (\<not> at (CHR ''{'') p \<or> n + 1 > 16)"
      and r1: "record_artifact p r = Some r1" and e: "\<not> \<not> fst (wpm_json_value_end p)"
      and rest: "(if \<not> at (CHR '','') (wpm_json_space (snd (wpm_json_value_end p)))
          then artifacts_end (wpm_json_space (snd (wpm_json_value_end p))) r1
          else artifacts_loop (n + 1) (wpm_json_space (tl (wpm_json_space (snd (wpm_json_value_end p))))) r1) = Some r'"
      by (subst (asm) artifacts_loop.simps) (auto simp: Let_def split: if_splits option.splits)
    have a: "artifact_ok r1" "same_identity r r1" using record_artifact_ok [OF r1 "1.prems"(2)] by auto
    show ?thesis
    proof (cases "at (CHR '','') (wpm_json_space (snd (wpm_json_value_end p)))")
      case True
      with rest "1.IH" [OF False c r1 e refl] a show ?thesis using same_identity_trans by auto
    next
      case False
      with rest stop a show ?thesis by auto
    qed
  qed
qed

lemma record_parse_admitted:
  assumes "record_parse text wanted = Some r"
  shows "ri_id r = wanted \<and> identity_bounded r \<and> identity_checked r
    \<and> ri_operation r \<in> {''install'', ''remove'', ''upgrade'', ''self-upgrade''}
    \<and> ri_status r \<in> {''completed'', ''in-progress'', ''failed'', ''pending''} \<and> artifact_ok r"
proof -
  from assms obtain package input code r0 failed history artifacts actions where
    m: "record_members text wanted package input = Some r0"
    and c: "record_consistent failed r0" "ri_status r0 \<in> {''completed'', ''in-progress'', ''failed'', ''pending''}"
    and a: "record_artifacts artifacts (r0\<lparr>ri_script_exit := (case code of None \<Rightarrow> 0 | Some n \<Rightarrow> n),
        ri_exit_known := (code \<noteq> None), ri_input_status := ''not-checked''\<rparr>) = Some r"
    and e: "\<exists>p. record_exit p = Some code"
    unfolding record_parse_def bind_eq_Some_conv record_require_Some
    by (elim exE conjE) (rule that, (assumption | rule exI)+)
  define r1 where "r1 = r0\<lparr>ri_script_exit := (case code of None \<Rightarrow> 0 | Some n \<Rightarrow> n),
        ri_exit_known := (code \<noteq> None), ri_input_status := ''not-checked'',
        ri_inventory_known := True, ri_retained_status := ''not-recorded''\<rparr>"
  have code: "(case code of None \<Rightarrow> 0 | Some n \<Rightarrow> n) < 2 ^ 32"
    using e by (auto simp: record_exit_def Let_def split: if_splits option.splits)
  have m: "ri_id r0 = wanted" "identity_bounded r0" "identity_checked r0" "\<not> ri_retained_known r0"
    using record_members_checked [OF m] by auto
  have "artifact_ok r1" using m by (simp add: r1_def artifact_ok_def identity_bounded_def)
  then have ok: "artifact_ok r" "same_identity r1 r"
    using artifacts_loop_ok [of 0 "wpm_json_space (tl artifacts)" r1 r] a
    by (simp_all add: record_artifacts_def r1_def)
  from ok(2) obtain a b k q e where r: "r = r1\<lparr>ri_retained_relative := a, ri_retained_state := b,
      ri_retained_known := k, ri_retained_status := q, ri_inventory_known := e\<rparr>"
    unfolding same_identity_def by blast
  have same: "ri_id r = ri_id r0" "ri_operation r = ri_operation r0" "ri_status r = ri_status r0"
    "identity_checked r \<longleftrightarrow> identity_checked r0"
    by (simp_all add: r r1_def identity_checked_def)
  have "identity_bounded r"
    using m(2) ok(1) code by (simp add: r r1_def identity_bounded_def artifact_ok_def)
  moreover have "ri_operation r \<in> {''install'', ''remove'', ''upgrade'', ''self-upgrade''}"
    using c(1) unfolding record_consistent_def same(2) by blast
  ultimately show ?thesis using m c(2) ok(1) unfolding same by blast
qed


subsection \<open>Validated inputs\<close>

lemma validate_handle_ok:
  "validate_handle r allow_unsigned h = (s, True) \<longleftrightarrow>
     s = ''validated-current-input'' \<and> ih_plain h \<and> ih_digest h = Some (ri_fingerprint r)
     \<and> (\<exists>package. ih_package h = Some package \<and> pi_name package = ri_name r
          \<and> strieq (pi_arch package) (ri_arch r) \<and> pi_version package = recorded_version r)
     \<and> ih_signer h allow_unsigned = Some (ri_signer r)"
  by (auto simp: validate_handle_def split: option.splits if_splits)

lemma validate_handle_status: "snd (validate_handle r u h) \<longleftrightarrow> fst (validate_handle r u h) = ''validated-current-input''"
  by (simp add: validate_handle_def split: option.splits)

text \<open>C9: an input counts as validated only when the opened file is an ordinary file whose digest,
  package identity and signer are those of the record; no other path of the check reports success
  or the status of a validated input.\<close>

theorem validated_input_matches:
  assumes "record_validate_input sys r path allow_unsigned = (s, ok)"
  shows "(ok \<longleftrightarrow> s = ''validated-current-input'') \<and>
    (ok \<longrightarrow> (\<exists>p canonical parent h. path = Some p \<and> full_path sys p = Some canonical
        \<and> CHR '':'' \<notin> set (drop 2 canonical) \<and> parent_directory canonical = Some parent
        \<and> guard_open sys parent = WPM_PATH_OPEN \<and> open_in sys parent (last_component canonical) = Inr h
        \<and> ih_plain h \<and> ih_digest h = Some (ri_fingerprint r)
        \<and> (\<exists>package. ih_package h = Some package \<and> pi_name package = ri_name r
             \<and> strieq (pi_arch package) (ri_arch r) \<and> pi_version package = recorded_version r)
        \<and> ih_signer h allow_unsigned = Some (ri_signer r)))"
proof (cases "\<exists>p canonical parent h. path = Some p \<and> \<not> risky_end p
    \<and> \<not> (ri_operation r = ''remove'' \<and> ri_old_version r = [])
    \<and> full_path sys p = Some canonical \<and> length canonical < RECORD_PATH \<and> \<not> length canonical < 3
    \<and> CHR '':'' \<notin> set (drop 2 canonical) \<and> \<not> risky_end canonical \<and> parent_directory canonical = Some parent
    \<and> guard_open sys parent = WPM_PATH_OPEN \<and> open_in sys parent (last_component canonical) = Inr h")
  case True
  then obtain p canonical parent h where p: "path = Some p" "\<not> risky_end p"
    "\<not> (ri_operation r = ''remove'' \<and> ri_old_version r = [])"
    "full_path sys p = Some canonical" "length canonical < RECORD_PATH" "\<not> length canonical < 3"
    "CHR '':'' \<notin> set (drop 2 canonical)" "\<not> risky_end canonical" "parent_directory canonical = Some parent"
    "guard_open sys parent = WPM_PATH_OPEN" "open_in sys parent (last_component canonical) = Inr h" by blast
  then have "record_validate_input sys r path allow_unsigned = validate_handle r allow_unsigned h"
    unfolding record_validate_input_def p(1) option.case if_not_P [OF p(2)] if_not_P [OF p(3)]
    by (simp add: fits_def)
  with assms have h: "validate_handle r allow_unsigned h = (s, ok)" by simp
  have "ok \<longleftrightarrow> s = ''validated-current-input''" using validate_handle_status [of r allow_unsigned h] h by simp
  with h p validate_handle_ok [of r allow_unsigned h s] show ?thesis by auto
next
  case False
  have "(s, ok) \<in> {''external-unchecked'', ''unsafe-path'', ''identity-incomplete'', ''invalid'', ''missing'',
      ''unreadable''} \<times> {False}"
    using assms [symmetric] False unfolding record_validate_input_def
    by (auto simp: Option.bind_eq_Some_conv split: option.splits if_splits wpm_path_result.splits sum.splits)
  then show ?thesis by auto
qed

definition sample_identity :: recovery_identity where
  "sample_identity = \<lparr>ri_id = replicate 32 (CHR ''0''), ri_operation = ''install'', ri_created = [], ri_updated = [],
     ri_plan = [], ri_status = ''failed'', ri_phase = ''script'', ri_name = ''demo'', ri_arch = ''x64'',
     ri_old_version = [], ri_new_version = ''1.0.0'', ri_source = [], ri_input = [], ri_fingerprint = ''ab'',
     ri_signer = ''unsigned'', ri_script_exit = 0, ri_external = False, ri_exit_known = False,
     ri_input_status = ''not-checked'', ri_retained_relative = [], ri_retained_state = [],
     ri_retained_path = [], ri_retained_status = ''not-recorded'', ri_retained_known = False,
     ri_inventory_known = True\<rparr>"

definition sample_input :: "string \<Rightarrow> input_system" where
  "sample_input digest = \<lparr>full_path = \<lambda>p. Some p, guard_open = \<lambda>_. WPM_PATH_OPEN,
     open_in = \<lambda>_ _. Inr \<lparr>ih_plain = True, ih_digest = Some digest,
       ih_package = Some \<lparr>pi_name = ''demo'', pi_version = ''1.0.0'', pi_arch = ''x64''\<rparr>,
       ih_signer = \<lambda>u. if u then Some ''unsigned'' else None\<rparr>\<rparr>"

theorem validated_input_matches_witness:
  "fst (record_validate_input (sample_input ''ab'') sample_identity (Some (''C:'' @ BSLASH # ''a.zip'')) True)
     = ''validated-current-input''"
proof -
  have "record_validate_input (sample_input ''ab'') sample_identity (Some (''C:'' @ BSLASH # ''a.zip'')) True
      = (''validated-current-input'', True)"
    by (simp add: record_validate_input_def sample_input_def sample_identity_def risky_end_def fits_def
        RECORD_PATH_def parent_directory_def before_last_def validate_handle_def recorded_version_def)
  from validated_input_matches [OF this] this show ?thesis by simp
qed

text \<open>The paths that a record stores give no authority: which files an inspection opens, its verdict
  and the statuses do not depend on the recorded source and input path, and the only recorded path
  that is ever derived is \<open>input.zip\<close> in the directory of the operation.\<close>

theorem recorded_paths_not_trusted:
  "record_inspect_inputs sys (r\<lparr>ri_source := source, ri_input := path\<rparr>) archive allow_unsigned
     = (case record_inspect_inputs sys r archive allow_unsigned of
          (r', complete) \<Rightarrow> (r'\<lparr>ri_source := source, ri_input := path\<rparr>, complete))
   \<and> (record_retained_path r directory = Some r' \<longrightarrow> ri_retained_path r = []
      \<longrightarrow> ri_retained_path r' \<in> {[], directory @ BSLASH # ri_id r @ BSLASH # ''input.zip''})"
proof -
  have "validate_handle (r\<lparr>ri_source := source, ri_input := path\<rparr>) u h = validate_handle r u h" for u h
    by (auto simp: validate_handle_def recorded_version_def split: option.split)
  then have "record_validate_input sys (r\<lparr>ri_source := source, ri_input := path\<rparr>) p u
      = record_validate_input sys r p u" for p u
    by (simp add: record_validate_input_def cong: option.case_cong if_cong sum.case_cong wpm_path_result.case_cong)
  moreover have commute: "(r\<lparr>ri_source := source, ri_input := path\<rparr>)\<lparr>ri_retained_status := a, ri_input_status := b\<rparr>
      = (r\<lparr>ri_retained_status := a, ri_input_status := b\<rparr>)\<lparr>ri_source := source, ri_input := path\<rparr>" for a b
    by (cases r) simp
  ultimately have "record_inspect_inputs sys (r\<lparr>ri_source := source, ri_input := path\<rparr>) archive allow_unsigned
     = (case record_inspect_inputs sys r archive allow_unsigned of
          (r', complete) \<Rightarrow> (r'\<lparr>ri_source := source, ri_input := path\<rparr>, complete))"
    by (simp add: record_inspect_inputs_def case_prod_beta Let_def commute [symmetric] cong: option.case_cong)
  then show ?thesis by (auto simp: record_retained_path_def split: if_splits)
qed

theorem recorded_paths_not_trusted_witness:
  "fst (record_inspect_inputs (sample_input ''ab'') (sample_identity\<lparr>ri_source := ''x'', ri_input := ''y''\<rparr>) None False)
     = (fst (record_inspect_inputs (sample_input ''ab'') sample_identity None False))\<lparr>ri_source := ''x'', ri_input := ''y''\<rparr>"
  using recorded_paths_not_trusted [where sys = "sample_input ''ab''" and r = sample_identity and source = "''x''"
    and path = "''y''" and archive = None and allow_unsigned = False]
  by (simp add: case_prod_beta)

subsection \<open>Bounds of the query\<close>

text \<open>The size of the file of an admitted record.\<close>

definition record_size :: "recovery_env \<Rightarrow> recovery_identity \<Rightarrow> nat" where
  "record_size env r = (case re_file env (ri_id r @ ''.json'') of None \<Rightarrow> 0 | Some f \<Rightarrow> rf_size f)"

definition query_ok :: "recovery_env \<Rightarrow> nat \<Rightarrow> query_state \<Rightarrow> bool" where
  "query_ok env limit st \<longleftrightarrow>
     qs_examined st \<le> limit
     \<and> length (qs_records st) + qs_invalid st + qs_filtered st \<le> qs_examined st
     \<and> (\<not> qs_limited st \<longrightarrow> length (qs_records st) + qs_invalid st + qs_filtered st = qs_examined st)
     \<and> sum_list (map (record_size env) (qs_records st)) + qs_budget st \<le> RECORD_READ_BUDGET
     \<and> list_all (\<lambda>r. wpm_recovery_id_valid (Some (ri_id r)) \<and> identity_checked r) (qs_records st)"


lemma record_read_ok:
  "record_read opened wanted budget = (Read_ok r, budget') \<Longrightarrow>
     \<exists>f. opened = Some f \<and> rf_size f \<le> RECORD_BYTES \<and> budget = budget' + rf_size f \<and> ri_id r = wanted \<and> identity_checked r"
  using record_parse_admitted by (auto simp: record_read_def split: option.splits if_splits)

lemma record_read_budget: "record_read opened wanted budget = (x, budget') \<Longrightarrow> budget' \<le> budget"
  by (auto simp: record_read_def split: option.splits if_splits)

lemma retained_path_same:
  "record_retained_path r directory = Some r' \<Longrightarrow> ri_id r' = ri_id r \<and> identity_checked r' = identity_checked r"
  by (auto simp: record_retained_path_def identity_checked_def split: if_splits)

lemma record_name_id_name: "record_name_id found = Some c \<Longrightarrow> found = c @ ''.json''"
proof -
  assume "record_name_id found = Some c"
  then have "c = take 32 found" "drop 32 found = ''.json''" by (simp_all add: record_name_id_def split: if_splits)
  then show ?thesis using append_take_drop_id [of 32 found] by simp
qed

lemma query_file_ok:
  assumes ok: "query_ok env limit st" and lim: "\<not> qs_limited st" "qs_examined st < limit"
  shows "query_ok env limit (query_file env directory name arch found st)"
proof (cases "record_name_id found")
  case None
  with ok lim show ?thesis by (simp add: query_file_def query_ok_def)
next
  case (Some c)
  obtain x budget where x: "admit_record env found c (qs_budget st) = (x, budget)" by fastforce
  define st1 where "st1 = st\<lparr>qs_examined := qs_examined st + 1, qs_budget := budget\<rparr>"
  have step: "query_file env directory name arch found st = query_admitted directory name arch x st1"
    using x Some by (simp add: query_file_def st1_def)
  have b: "budget \<le> qs_budget st"
    using x record_read_budget by (auto simp: admit_record_def split: if_splits)
  show ?thesis
  proof (cases "\<exists>r r'. x = Read_ok r \<and> record_retained_path r directory = Some r'")
    case False
    then show ?thesis
      using ok lim b unfolding step
      by (cases x; cases "record_retained_path (case x of Read_ok r \<Rightarrow> r) directory")
         (simp_all add: query_admitted_def query_ok_def st1_def)
  next
    case True
    then obtain r r' where r: "x = Read_ok r" "record_retained_path r directory = Some r'" by blast
    then have v: "wpm_recovery_id_valid (Some c)"
      and rd: "record_read (re_file env found) c (qs_budget st) = (Read_ok r, budget)"
      using x by (auto simp: admit_record_def split: if_splits)
    obtain f where f: "re_file env (c @ ''.json'') = Some f" "qs_budget st = budget + rf_size f"
      "ri_id r = c" "identity_checked r"
      using record_read_ok [OF rd] record_name_id_name [OF Some] by auto
    note same = retained_path_same [OF r(2)]
    have "record_size env r' = rf_size f" using same f by (simp add: record_size_def)
    with r ok lim b same f v show ?thesis unfolding step by (simp add: query_admitted_def query_ok_def st1_def)
  qed
qed

lemma query_loop_ok:
  "query_ok env limit st \<Longrightarrow> \<not> qs_limited st \<Longrightarrow> query_ok env limit (query_loop limit env directory name arch names st)"
proof (induction names arbitrary: st)
  case (Cons found names)
  show ?case
  proof (cases "qs_examined st = limit")
    case True
    with Cons.prems show ?thesis by (simp add: query_ok_def)
  next
    case False
    then have "qs_examined st < limit" using Cons.prems by (simp add: query_ok_def)
    with Cons.prems have "query_ok env limit (query_file env directory name arch found st)"
      by (intro query_file_ok)
    with False Cons.IH show ?thesis by (simp add: Let_def)
  qed
qed simp

text \<open>Whatever the recovery directory holds, a listing examines at most \<open>limit\<close> files, accounts for
  each of them once, shows only records with a valid id and checked members, and the files of all
  shown records together stay within the read budget of 64 MiB.\<close>

theorem recovery_listing_bounded:
  assumes "query_records env limit None archive allow_unsigned name arch = (st, complete)"
  shows "qs_examined st \<le> limit
    \<and> length (qs_records st) + qs_invalid st + qs_filtered st \<le> qs_examined st
    \<and> sum_list (map (record_size env) (qs_records st)) \<le> 64 * 1024 * 1024
    \<and> (\<forall>r \<in> set (qs_records st). wpm_recovery_id_valid (Some (ri_id r)) \<and> identity_checked r)
    \<and> (complete \<longrightarrow> qs_invalid st = 0 \<and> length (qs_records st) + qs_filtered st = qs_examined st)"
proof -
  have start: "query_ok env limit query_start" "\<not> qs_limited query_start"
    by (simp_all add: query_ok_def query_start_def)
  have "query_ok env limit st \<and> (complete \<longrightarrow> qs_invalid st = 0 \<and> \<not> qs_limited st)"
    using assms start query_loop_ok [OF start]
    by (auto simp: query_records_def Let_def query_start_def split: if_splits option.splits prod.splits)
  then show ?thesis by (auto simp: query_ok_def RECORD_READ_BUDGET_def list_all_iff)
qed

definition empty_env :: recovery_env where
  "empty_env = \<lparr>re_root = Some ''d'', re_guard = \<lambda>_. (WPM_PATH_OPEN, ''d''), re_names = [''x.json''],
     re_names_end = True, re_file = \<lambda>_. None, re_inputs = sample_input []\<rparr>"

theorem recovery_listing_bounded_witness:
  "query_records empty_env 5 None None False None None
     = (query_start\<lparr>qs_examined := 1, qs_invalid := 1\<rparr>, False)
   \<and> qs_examined (query_start\<lparr>qs_examined := 1, qs_invalid := 1\<rparr>) \<le> 5"
proof -
  have q: "query_records empty_env 5 None None False None None
      = (query_start\<lparr>qs_examined := 1, qs_invalid := 1\<rparr>, False)"
    by (simp add: query_records_def empty_env_def wpm_recovery_filters_valid_def RECORD_PATH_def Let_def
        query_file_def record_name_id_def query_start_def)
  with recovery_listing_bounded [OF q] show ?thesis by blast
qed

lemma record_render_value: "json_value (fst (record_render stream_error r))"
proof -
  have "json_value (json_quoted ''inspect'')" by (rule json_word_value) simp
  then show ?thesis
    unfolding record_render_def fst_conv
    by (intro json_object_value) (simp add: identity_members_def plain_label_def json_render)
qed

text \<open>The JSON form of a recovery query is one well formed document for every state of the recovery
  directory and every combination of parameters, refused ones included.\<close>

theorem recovery_records_json:
  "json_document (fst (wpm_recovery_records stream_error env limit True wanted archive allow_unsigned name arch))"
proof -
  have "json_value (json_quoted ''wpm.recovery-query.v1'')" by (rule json_word_value) simp
  moreover obtain st complete where
    q: "query_records env limit wanted archive allow_unsigned name arch = (st, complete)" by fastforce
  ultimately show ?thesis
    unfolding wpm_recovery_records_def q prod.case Let_def not_True_eq_False if_False fst_conv
    by (intro json_document_object)
       (simp_all add: plain_label_def json_render is_json_ws_def list_all_iff record_render_value)
qed

end
