(* ===== verification/Journal.thy ===== *)
theory Journal
  imports Recovery_Record
begin

text \<open>
  The recovery journal of \<open>wpm/operation.c\<close>: the document that \<open>journal_write\<close> commits for one planned
  item, and the proof that the reader of \<open>recovery_record.c\<close> admits it with the values that were
  written. Digests are kept in the hexadecimal form of \<open>sodium_bin2hex\<close>.
\<close>

definition PLAN_LIMIT :: nat where "PLAN_LIMIT = 256"
definition PLAN_PATH :: nat where "PLAN_PATH = 4096"

record plan_item =
  it_action :: string
  it_archive :: string
  it_source :: string
  it_old_version :: string
  it_signing_key :: string
  it_identity :: package_info
  it_fingerprint :: string
  it_file_identity :: "nat list"
  it_consumed :: bool
  it_recovery_id :: string
  it_created :: string
  it_journal_started :: bool
  it_journal_failed :: bool
  it_external :: bool
  it_phase :: string
  it_script_exit :: nat
  it_script_exit_known :: bool
  it_record_identity :: "nat list"
  it_retained :: string
  it_retained_input :: bool
  it_retained_state :: nat
  it_completed :: "string list"
  it_failed :: bool

subsection \<open>The document\<close>

text \<open>\<open>journal_string\<close>: \<open>None\<close> when the text cannot be encoded.\<close>

definition journal_string :: "string option \<Rightarrow> string option" where
  "journal_string v = wpm_json_encode_string v"

text \<open>The pieces of an object or array; one piece that failed makes the document incomplete.\<close>

definition journal_object :: "(string \<times> string option) list \<Rightarrow> string option" where
  "journal_object ms = map_option json_object (those (map (\<lambda>(k, v). map_option (Pair k) v) ms))"

definition journal_array :: "string option list \<Rightarrow> string option" where
  "journal_array vs = map_option json_array (those vs)"

definition journal_old_version :: "plan_item \<Rightarrow> string option" where
  "journal_old_version it =
     (if it_action it = ''remove'' then Some (pi_version (it_identity it))
      else if it_old_version it = ''none'' then None else Some (it_old_version it))"

definition journal_new_version :: "plan_item \<Rightarrow> string option" where
  "journal_new_version it =
     (if it_action it = ''remove'' then None else Some (pi_version (it_identity it)))"

definition retained_state_name :: "nat \<Rightarrow> string" where
  "retained_state_name n = (if n = 2 then ''retained'' else if n = 1 then ''incomplete'' else ''planned'')"

definition journal_artifact :: "plan_item \<Rightarrow> string option" where
  "journal_artifact it = journal_object
     [(''role'', Some (json_quoted ''recovery-input'')), (''path'', journal_string (Some (it_retained it))),
      (''relativePath'', journal_string (Some (it_recovery_id it @ ''/input.zip''))),
      (''blake2b256'', journal_string (Some (it_fingerprint it))),
      (''state'', journal_string (Some (retained_state_name (it_retained_state it))))]"

definition journal_package :: "plan_item \<Rightarrow> string option" where
  "journal_package it = journal_object
     [(''name'', journal_string (Some (pi_name (it_identity it)))),
      (''arch'', journal_string (Some (pi_arch (it_identity it)))),
      (''oldVersion'', journal_string (journal_old_version it)),
      (''newVersion'', journal_string (journal_new_version it))]"

definition journal_input :: "plan_item \<Rightarrow> string option" where
  "journal_input it = journal_object
     [(''path'', journal_string (Some (it_archive it))),
      (''blake2b256'', journal_string (Some (it_fingerprint it)))]"

definition journal_document :: "string \<Rightarrow> string \<Rightarrow> plan_item \<Rightarrow> string \<Rightarrow> string \<Rightarrow> string option" where
  "journal_document plan updated it stage status =
     map_option (\<lambda>d. d @ [LF]) (journal_object
       [(''schema'', Some (json_quoted ''wpm.recovery.v1'')),
        (''operationId'', journal_string (Some (it_recovery_id it))),
        (''operation'', journal_string (Some (it_action it))),
        (''created'', journal_string (Some (it_created it))),
        (''updated'', journal_string (Some updated)),
        (''planDigest'', journal_string (Some plan)),
        (''status'', journal_string (Some status)),
        (''phase'', journal_string (Some stage)),
        (''package'', journal_package it),
        (''source'', journal_string (Some (it_source it))),
        (''signer'', journal_string (optional (it_signing_key it))),
        (''validation'', Some (json_quoted ''validated-before-approval'')),
        (''input'', journal_input it),
        (''externalStateMayHaveChanged'', Some (json_bool (it_external it))),
        (''scriptExitCode'',
           Some (if it_script_exit_known it then decimal (it_script_exit it) else ''null'')),
        (''retryEligible'', Some ''false''),
        (''safeActions'', Some (json_array [json_quoted ''inspect''])),
        (''controlledArtifacts'', journal_array [journal_artifact it]),
        (''completedPhases'', journal_array (map (\<lambda>p. journal_string (Some p)) (it_completed it))),
        (''failedPhase'', journal_string (if status = ''failed'' then Some stage else None))])"

subsection \<open>Lookups in a rendered object\<close>

lemma unique_lookup:
  assumes "plain_members ms" "distinct (map fst ms)" "map_of ms name = Some v"
  shows "\<exists>rest. wpm_json_unique_field (json_object ms @ q) name = Some (v @ rest)
    \<and> (at (CHR '','') rest \<or> at (CHR ''}'') rest)"
proof -
  have "(name, v) \<in> set ms" using assms(3) by (rule map_of_SomeD)
  then obtain a b where ms: "ms = a @ (name, v) # b" by (meson split_list)
  then have "name \<notin> fst ` set a" "name \<notin> fst ` set b" using assms(2) by auto
  with assms(1) have "wpm_json_unique_field (json_object ms @ q) name = Some (v @ json_after b q)"
    unfolding ms by (rule unique_field_found)
  moreover have "at (CHR '','') (json_after b q) \<or> at (CHR ''}'') (json_after b q)"
    by (cases b) (simp_all add: json_after_def)
  ultimately show ?thesis by blast
qed

lemma delimiter_at: "at (CHR '','') rest \<or> at (CHR ''}'') rest \<Longrightarrow> record_delimiter rest"
  by (auto simp: at_iff record_delimiter_def)

definition journal_text :: "nat \<Rightarrow> string \<Rightarrow> bool" where
  "journal_text cap t \<longleftrightarrow> t \<noteq> [] \<and> length t < cap \<and> cap \<le> 4096 \<and> wpm_redact_text t = t \<and> json_utf8 t"

lemma journal_text_printable: "journal_text cap t \<Longrightarrow> list_all printable t"
  using Redact.redact_text_printable [of _ t] by (auto simp: list_all_iff journal_text_def)

lemma journal_string_text: "journal_text cap t \<Longrightarrow> journal_string (Some t) = Some (json_quoted (json_escape t))"
  by (simp add: journal_string_def wpm_json_encode_string_def journal_text_def json_quoted_def SIZE_MAX_def)

lemma journal_string_None [simp]: "journal_string None = Some ''null''"
  by (simp add: journal_string_def wpm_json_encode_string_def)

lemma record_string_found:
  assumes "plain_members ms" "distinct (map fst ms)" "map_of ms key = Some (json_quoted (json_escape t))"
    and "list_all printable t" "t \<noteq> []" "length t < cap"
  shows "record_string (json_object ms @ q) key cap nullable = Some t"
proof -
  obtain rest where r: "wpm_json_unique_field (json_object ms @ q) key = Some (json_quoted (json_escape t) @ rest)"
    "at (CHR '','') rest \<or> at (CHR ''}'') rest" using unique_lookup [OF assms(1-3)] by blast
  have "\<not> starts_with ''null'' (json_quoted (json_escape t) @ rest)" by (simp add: starts_with_def json_quoted_def)
  then show ?thesis
    using r assms(4-6) delimiter_at by (simp add: record_string_def read_quoted)
qed

lemma record_string_null:
  assumes "plain_members ms" "distinct (map fst ms)" "map_of ms key = Some ''null''"
  shows "record_string (json_object ms @ q) key cap True = Some []"
proof -
  obtain rest where r: "wpm_json_unique_field (json_object ms @ q) key = Some (''null'' @ rest)"
    "at (CHR '','') rest \<or> at (CHR ''}'') rest" using unique_lookup [OF assms] by blast
  then show ?thesis using delimiter_at by (simp add: record_string_def starts_with_def)
qed

lemma record_bool_found:
  assumes "plain_members ms" "distinct (map fst ms)" "map_of ms key = Some (json_bool b)"
  shows "record_bool (json_object ms @ q) key = Some b"
proof -
  obtain rest where r: "wpm_json_unique_field (json_object ms @ q) key = Some (json_bool b @ rest)"
    "at (CHR '','') rest \<or> at (CHR ''}'') rest" using unique_lookup [OF assms] by blast
  then show ?thesis using delimiter_at by (cases b) (simp_all add: record_bool_def json_bool_def starts_with_def)
qed

subsection \<open>Parts of the document\<close>

lemma record_exit_found:
  assumes "at (CHR '','') rest \<or> at (CHR ''}'') rest" "n < 2 ^ 32"
  shows "record_exit (decimal n @ rest) = Some (Some n)" "record_exit (''null'' @ rest) = Some None"
proof -
  have "\<not> at_class is_digit rest" using assms(1) by (auto simp: at_iff is_digit_def)
  note d = takeWhile_digits [OF decimal_digits this, of n]
  obtain c p where c: "decimal n = c # p" using decimal_not_Nil by (cases "decimal n") auto
  then have "is_digit c" using decimal_digits [of n] by simp
  then have "\<not> starts_with ''null'' (decimal n @ rest)" "at_class is_digit (decimal n @ rest)"
    by (auto simp: c starts_with_def is_digit_def)
  then show "record_exit (decimal n @ rest) = Some (Some n)"
    using d assms delimiter_at by (simp add: record_exit_def Let_def)
  show "record_exit (''null'' @ rest) = Some None"
    using assms(1) delimiter_at by (simp add: record_exit_def starts_with_def)
qed

lemma record_actions_found:
  assumes "at (CHR '','') rest \<or> at (CHR ''}'') rest"
  shows "record_actions (json_array [json_quoted ''inspect''] @ rest)"
proof -
  have "json_escape ''inspect'' = ''inspect''" "list_all printable ''inspect''"
    using plain_escape_printable [of "''inspect''"] by simp_all
  then have "wpm_json_read_string True 16 (json_quoted ''inspect'' @ CHR '']'' # rest)
      = (''inspect'', Some (CHR '']'' # rest))"
    using read_quoted [of "''inspect''" 16] by simp
  then show ?thesis using delimiter_at [OF assms]
    by (simp add: record_actions_def json_array_def json_tail_def)
qed

subsection \<open>The encoding of the document\<close>

lemma json_utf8_append: "json_utf8 a \<Longrightarrow> json_utf8 b \<Longrightarrow> json_utf8 (a @ b)"
proof -
  assume "json_utf8 a" "json_utf8 b"
  then obtain va vb where "list_all scalar_value va" "a = concat (map utf8_chars va)"
    "list_all scalar_value vb" "b = concat (map utf8_chars vb)"
    using json_utf8_sound by (metis utf8_text_def)
  then show ?thesis using json_utf8_complete [of "va @ vb"] by simp
qed

definition ascii :: "string \<Rightarrow> bool" where
  "ascii s \<longleftrightarrow> list_all (\<lambda>c. byte c < 0x80) s"

lemma ascii_simps [simp]: "ascii []" "ascii (c # s) \<longleftrightarrow> byte c < 0x80 \<and> ascii s" "ascii (a @ b) \<longleftrightarrow> ascii a \<and> ascii b"
  by (auto simp: ascii_def)

lemma ascii_utf8: "ascii s \<Longrightarrow> json_utf8 s"
  by (induction s) simp_all

lemma json_escape_append [simp]: "json_escape (a @ b) = json_escape a @ json_escape b"
  by (induction a) simp_all

lemma ascii_escape_char: "byte c < 0x80 \<Longrightarrow> ascii (json_escape_char c)"
proof -
  have "list_all (\<lambda>v. ascii (format_04x v)) [0..<32]"
    by (simp add: upt_conv_Cons format_04x_def lower_hex_digit_def)
  then show "byte c < 0x80 \<Longrightarrow> ascii (json_escape_char c)"
    by (auto simp: json_escape_char_def list_all_iff)
qed

lemma json_escape_high: "\<forall>c \<in> set s. 0x80 \<le> byte c \<Longrightarrow> json_escape s = s"
proof (induction s)
  case (Cons c s)
  then have "0x80 \<le> byte c" by simp
  then have "c \<noteq> DQUOTE" "c \<noteq> BSLASH" "\<not> byte c < 32" by auto
  with Cons show ?case by (simp add: json_escape_char_def)
qed simp

lemma utf8_escape_scalar: "scalar_value v \<Longrightarrow> json_utf8 (json_escape (utf8_chars v))"
proof (cases "v < 0x80")
  case True
  then show ?thesis using ascii_utf8 ascii_escape_char by (simp add: utf8_chars_def utf8_bytes_def)
next
  case False
  assume v: "scalar_value v"
  have "\<forall>b \<in> set (utf8_bytes v). 0x80 \<le> b \<and> b < 256"
    using False v by (auto simp: utf8_bytes_def scalar_value_def)
  then have "\<forall>c \<in> set (utf8_chars v). 0x80 \<le> byte c" by (simp add: utf8_chars_def)
  then have "json_escape (utf8_chars v) = utf8_chars v" by (rule json_escape_high)
  then show ?thesis using json_utf8_scalar [OF v, of "[]"] by simp
qed

lemma json_utf8_escape: "json_utf8 s \<Longrightarrow> json_utf8 (json_escape s)"
proof -
  assume "json_utf8 s"
  then obtain vs where "list_all scalar_value vs" "s = concat (map utf8_chars vs)"
    using json_utf8_sound by (metis utf8_text_def)
  moreover have "list_all scalar_value vs \<Longrightarrow> json_utf8 (json_escape (concat (map utf8_chars vs)))"
    by (induction vs) (simp_all add: json_utf8_append utf8_escape_scalar)
  ultimately show ?thesis by blast
qed

text \<open>Values of the grammar that are also valid UTF-8.\<close>

definition utf8_value :: "string \<Rightarrow> bool" where
  "utf8_value v \<longleftrightarrow> json_value v \<and> json_utf8 v"

lemma utf8_value_quoted: "ascii w \<Longrightarrow> list_all (\<lambda>c. 32 \<le> byte c \<and> c \<noteq> DQUOTE \<and> c \<noteq> BSLASH) w \<Longrightarrow> utf8_value (json_quoted w)"
  using json_word_value [of w] by (simp add: utf8_value_def json_quoted_def ascii_utf8)

lemma utf8_value_escape: "json_utf8 t \<Longrightarrow> utf8_value (json_quoted (json_escape t))"
  using v_string [OF json_escape_body] json_utf8_append [OF json_utf8_escape, of t "[DQUOTE]"]
  by (simp add: utf8_value_def json_quoted_def)

lemma utf8_value_string: "journal_string v = Some e \<Longrightarrow> utf8_value e"
proof (cases v)
  case (Some t)
  assume "journal_string v = Some e"
  with Some have "e = json_quoted (json_escape (wpm_redact_text t))" "json_utf8 (wpm_redact_text t)"
    by (auto simp: journal_string_def wpm_json_encode_string_def Let_def json_quoted_def split: if_splits)
  then show ?thesis using utf8_value_escape by simp
qed (use v_null in \<open>auto simp: utf8_value_def\<close>)

lemma utf8_value_words: "utf8_value ''null''" "utf8_value ''false''" "utf8_value (json_bool b)" "utf8_value (decimal n)"
proof -
  have "ascii (decimal n)" using decimal_digits [of n] by (auto simp: ascii_def list_all_iff is_digit_def)
  then show "utf8_value (decimal n)" using json_decimal_value ascii_utf8 by (simp add: utf8_value_def)
qed (use v_null v_false v_true in \<open>simp_all add: utf8_value_def json_bool_value json_bool_def\<close>)

definition ascii_label :: "string \<Rightarrow> bool" where
  "ascii_label l \<longleftrightarrow> plain_label l \<and> ascii l"

lemma utf8_tail: "list_all json_utf8 ws \<Longrightarrow> json_utf8 (json_tail ws)"
  unfolding json_tail_def by (induction ws) (simp_all add: json_utf8_append)

lemma utf8_commas: "list_all json_utf8 ws \<Longrightarrow> json_utf8 (json_commas ws)"
  by (cases ws) (simp_all add: json_utf8_append utf8_tail del: json_tail_simps)

lemma utf8_pair: "ascii_label (fst m) \<Longrightarrow> json_utf8 (snd m) \<Longrightarrow> json_utf8 (json_pair m)"
  using json_utf8_append [OF ascii_utf8, of "json_quoted (fst m) @ '':''" "snd m"]
  by (simp add: json_pair_def json_quoted_def ascii_label_def)

lemma utf8_value_object:
  assumes "list_all (\<lambda>m. ascii_label (fst m) \<and> utf8_value (snd m)) ms"
  shows "utf8_value (json_object ms)"
proof -
  have "plain_members ms" using assms by (auto simp: plain_members_def list_all_iff ascii_label_def utf8_value_def)
  moreover have "json_utf8 (json_commas (map json_pair ms))"
    using assms by (intro utf8_commas) (auto simp: list_all_iff utf8_value_def intro: utf8_pair)
  ultimately show ?thesis
    using json_object_value json_utf8_append [of _ "''}''"] by (simp add: utf8_value_def json_object_def)
qed

lemma utf8_value_array: "list_all utf8_value vs \<Longrightarrow> utf8_value (json_array vs)"
proof -
  assume vs: "list_all utf8_value vs"
  then have "json_utf8 (json_commas vs)" by (intro utf8_commas) (auto simp: list_all_iff utf8_value_def)
  moreover have "list_all json_value vs" using vs by (auto simp: list_all_iff utf8_value_def)
  ultimately show ?thesis
    using json_array_value json_utf8_append [of _ "'']''"] by (simp add: utf8_value_def json_array_def)
qed

lemma those_Some: "those xs = Some ys \<longleftrightarrow> xs = map Some ys"
  by (induction xs arbitrary: ys) (auto split: option.splits)

lemma journal_object_Some:
  "journal_object ms = Some d \<longleftrightarrow> (\<exists>ns. map snd ms = map (\<lambda>n. Some (snd n)) ns \<and> map fst ms = map fst ns \<and> d = json_object ns)"
proof -
  have "map (\<lambda>(k, v). map_option (Pair k) v) ms = map Some ns
      \<longleftrightarrow> map snd ms = map (\<lambda>n. Some (snd n)) ns \<and> map fst ms = map fst ns" for ns
    by (induction ms arbitrary: ns) (auto simp: map_eq_Cons_conv, case_tac ns, auto)
  then show ?thesis by (auto simp: journal_object_def those_Some)
qed

subsection \<open>The round trip\<close>

text \<open>What is required of an item, so that its journal entry is one that the reader admits.\<close>

definition journal_times :: "string \<Rightarrow> string \<Rightarrow> bool" where
  "journal_times created updated \<longleftrightarrow> record_time created \<and> record_time updated \<and> strcmp created updated \<le> 0"

definition journal_versions :: "plan_item \<Rightarrow> bool" where
  "journal_versions it \<longleftrightarrow> journal_text 64 (pi_version (it_identity it))
     \<and> wpm_repo_version_is_valid (Some (pi_version (it_identity it)))
     \<and> (it_action it = ''remove'' \<or> it_old_version it = ''none''
        \<or> journal_text 64 (it_old_version it) \<and> wpm_repo_version_is_valid (Some (it_old_version it)))"

definition journal_item_ok :: "plan_item \<Rightarrow> bool" where
  "journal_item_ok it \<longleftrightarrow>
     wpm_recovery_id_valid (Some (it_recovery_id it)) \<and> journal_text 33 (it_recovery_id it)
     \<and> journal_text 256 (it_recovery_id it @ ''/input.zip'')
     \<and> it_action it \<in> {''install'', ''remove'', ''upgrade'', ''self-upgrade''}
     \<and> journal_text 16 (it_action it) \<and> journal_text 32 (it_created it)
     \<and> journal_text 128 (pi_name (it_identity it)) \<and> journal_text 16 (pi_arch (it_identity it))
     \<and> wpm_recovery_filters_valid (Some (pi_name (it_identity it))) (Some (pi_arch (it_identity it)))
     \<and> journal_versions it \<and> journal_text RECORD_PATH (it_source it) \<and> journal_text RECORD_PATH (it_archive it)
     \<and> (it_signing_key it = [] \<or> journal_text 65 (it_signing_key it)
          \<and> (it_signing_key it = ''unsigned'' \<or> record_hex (it_signing_key it)))
     \<and> journal_text 65 (it_fingerprint it) \<and> record_hex (it_fingerprint it)
     \<and> journal_text RECORD_PATH (it_retained it) \<and> journal_text 16 (retained_state_name (it_retained_state it))
     \<and> (it_script_exit_known it \<longrightarrow> it_script_exit it < 2 ^ 32)
     \<and> list_all (journal_text 32) (it_completed it)"

definition journal_step_ok :: "string \<Rightarrow> string \<Rightarrow> string \<Rightarrow> string \<Rightarrow> bool" where
  "journal_step_ok plan updated stage status \<longleftrightarrow>
     journal_text 65 plan \<and> record_hex plan \<and> journal_text 32 updated \<and> journal_text 32 stage
     \<and> journal_text 16 status \<and> status \<in> {''completed'', ''in-progress'', ''failed'', ''pending''}"

text \<open>The identity that an item stands for.\<close>

definition journal_identity :: "string \<Rightarrow> string \<Rightarrow> plan_item \<Rightarrow> string \<Rightarrow> string \<Rightarrow> recovery_identity" where
  "journal_identity plan updated it stage status =
     \<lparr>ri_id = it_recovery_id it, ri_operation = it_action it, ri_created = it_created it, ri_updated = updated,
      ri_plan = plan, ri_status = status, ri_phase = stage, ri_name = pi_name (it_identity it),
      ri_arch = pi_arch (it_identity it),
      ri_old_version = (case journal_old_version it of None \<Rightarrow> [] | Some v \<Rightarrow> v),
      ri_new_version = (case journal_new_version it of None \<Rightarrow> [] | Some v \<Rightarrow> v),
      ri_source = it_source it, ri_input = it_archive it, ri_fingerprint = it_fingerprint it,
      ri_signer = it_signing_key it,
      ri_script_exit = (if it_script_exit_known it then it_script_exit it else 0),
      ri_external = it_external it, ri_exit_known = it_script_exit_known it,
      ri_input_status = ''not-checked'', ri_retained_relative = it_recovery_id it @ ''/input.zip'',
      ri_retained_state = retained_state_name (it_retained_state it), ri_retained_path = [],
      ri_retained_status = ''not-checked'', ri_retained_known = True, ri_inventory_known = True\<rparr>"

text \<open>The members as they are written, once every text is known to be encodable.\<close>

definition jq :: "string \<Rightarrow> string" where
  "jq t = json_quoted (json_escape t)"

definition jq_null :: "string option \<Rightarrow> string" where
  "jq_null v = (case v of None \<Rightarrow> ''null'' | Some t \<Rightarrow> jq t)"

definition package_members :: "plan_item \<Rightarrow> (string \<times> string) list" where
  "package_members it = [(''name'', jq (pi_name (it_identity it))), (''arch'', jq (pi_arch (it_identity it))),
     (''oldVersion'', jq_null (journal_old_version it)), (''newVersion'', jq_null (journal_new_version it))]"

definition input_members :: "plan_item \<Rightarrow> (string \<times> string) list" where
  "input_members it = [(''path'', jq (it_archive it)), (''blake2b256'', jq (it_fingerprint it))]"

definition artifact_members :: "plan_item \<Rightarrow> (string \<times> string) list" where
  "artifact_members it = [(''role'', jq ''recovery-input''), (''path'', jq (it_retained it)),
     (''relativePath'', jq (it_recovery_id it @ ''/input.zip'')), (''blake2b256'', jq (it_fingerprint it)),
     (''state'', jq (retained_state_name (it_retained_state it)))]"

definition document_members :: "string \<Rightarrow> string \<Rightarrow> plan_item \<Rightarrow> string \<Rightarrow> string \<Rightarrow> (string \<times> string) list" where
  "document_members plan updated it stage status =
     [(''schema'', jq ''wpm.recovery.v1''), (''operationId'', jq (it_recovery_id it)),
      (''operation'', jq (it_action it)), (''created'', jq (it_created it)), (''updated'', jq updated),
      (''planDigest'', jq plan), (''status'', jq status), (''phase'', jq stage),
      (''package'', json_object (package_members it)), (''source'', jq (it_source it)),
      (''signer'', jq_null (optional (it_signing_key it))), (''validation'', jq ''validated-before-approval''),
      (''input'', json_object (input_members it)), (''externalStateMayHaveChanged'', json_bool (it_external it)),
      (''scriptExitCode'', if it_script_exit_known it then decimal (it_script_exit it) else ''null''),
      (''retryEligible'', json_bool False), (''safeActions'', json_array [json_quoted ''inspect'']),
      (''controlledArtifacts'', json_array [json_object (artifact_members it)]),
      (''completedPhases'', json_array (map jq (it_completed it))),
      (''failedPhase'', jq_null (if status = ''failed'' then Some stage else None))]"

lemma jq_words: "jq ''wpm.recovery.v1'' = json_quoted ''wpm.recovery.v1''"
  "jq ''validated-before-approval'' = json_quoted ''validated-before-approval''"
  "jq ''recovery-input'' = json_quoted ''recovery-input''"
  using plain_escape_printable [of "''wpm.recovery.v1''"] plain_escape_printable [of "''validated-before-approval''"]
    plain_escape_printable [of "''recovery-input''"] by (simp_all add: jq_def)

lemma journal_string_jq: "journal_text cap t \<Longrightarrow> journal_string (Some t) = Some (jq t)"
  by (simp add: jq_def journal_string_text)

lemma jq_null_simps [simp]: "jq_null None = ''null''" "jq_null (Some t) = jq t"
  by (simp_all add: jq_null_def)

lemma item_texts:
  assumes "journal_item_ok it"
  shows "journal_text 33 (it_recovery_id it)" "journal_text 16 (it_action it)" "journal_text 32 (it_created it)"
    "journal_text RECORD_PATH (it_source it)" "journal_text RECORD_PATH (it_archive it)"
    "journal_text 128 (pi_name (it_identity it))" "journal_text 16 (pi_arch (it_identity it))"
    "journal_text 65 (it_fingerprint it)" "journal_text RECORD_PATH (it_retained it)"
    "journal_text 256 (it_recovery_id it @ ''/input.zip'')"
    "journal_text 16 (retained_state_name (it_retained_state it))"
  using assms unfolding journal_item_ok_def by blast+

lemma item_optional_texts:
  assumes "journal_item_ok it"
  shows "journal_old_version it = Some t \<Longrightarrow> journal_text 64 t" "journal_new_version it = Some t \<Longrightarrow> journal_text 64 t"
    "optional (it_signing_key it) = Some t \<Longrightarrow> journal_text 65 t" "t \<in> set (it_completed it) \<Longrightarrow> journal_text 32 t"
  using assms by (auto simp: journal_item_ok_def journal_versions_def journal_old_version_def
      journal_new_version_def optional_def list_all_iff split: if_splits)

lemma step_texts:
  assumes "journal_step_ok plan updated stage status"
  shows "journal_text 65 plan" "journal_text 32 updated" "journal_text 32 stage" "journal_text 16 status"
    "(if status = ''failed'' then Some stage else None) = Some t \<Longrightarrow> journal_text 32 t"
  using assms by (auto simp: journal_step_ok_def split: if_splits)

lemma journal_string_optional:
  "(\<And>t. v = Some t \<Longrightarrow> journal_text n t) \<Longrightarrow> journal_string v = Some (jq_null v)"
  by (cases v) (auto simp: journal_string_jq)

lemma journal_document_members:
  assumes it: "journal_item_ok it" and step: "journal_step_ok plan updated stage status"
  shows "journal_document plan updated it stage status
    = Some (json_object (document_members plan updated it stage status) @ [LF])"
proof -
  have o: "journal_string (journal_old_version it) = Some (jq_null (journal_old_version it))"
    "journal_string (journal_new_version it) = Some (jq_null (journal_new_version it))"
    "journal_string (optional (it_signing_key it)) = Some (jq_null (optional (it_signing_key it)))"
    "journal_string (if status = ''failed'' then Some stage else None)
      = Some (jq_null (if status = ''failed'' then Some stage else None))"
    using journal_string_optional item_optional_texts [OF it] step_texts(5) [OF step] by blast+
  note s = item_texts [OF it, THEN journal_string_jq] step_texts(1-4) [OF step, THEN journal_string_jq] o
  have c: "map (\<lambda>p. journal_string (Some p)) (it_completed it) = map Some (map jq (it_completed it))"
    using item_optional_texts(4) [OF it] journal_string_jq by auto
  have p: "journal_package it = Some (json_object (package_members it))"
    unfolding journal_package_def s by (simp add: journal_object_def package_members_def)
  have i: "journal_input it = Some (json_object (input_members it))"
    unfolding journal_input_def s by (simp add: journal_object_def input_members_def)
  have a: "journal_artifact it = Some (json_object (artifact_members it))"
    unfolding journal_artifact_def s by (simp add: journal_object_def artifact_members_def jq_words)
  have "those (map Some xs) = Some xs" for xs :: "string list" by (simp add: those_Some)
  then have h: "journal_array (map (\<lambda>p. journal_string (Some p)) (it_completed it))
      = Some (json_array (map jq (it_completed it)))"
    unfolding journal_array_def c by (simp only: option.map)
  have "journal_array [Some v] = Some (json_array [v])" for v by (simp add: journal_array_def)
  then show ?thesis
    unfolding journal_document_def p i h s a
    by (simp add: journal_object_def document_members_def jq_words json_bool_def)
qed

lemma utf8_value_jq: "journal_text cap t \<Longrightarrow> utf8_value (jq t)"
  by (simp add: jq_def journal_text_def utf8_value_escape)

lemma utf8_value_jq_words:
  "utf8_value (jq ''wpm.recovery.v1'')" "utf8_value (jq ''validated-before-approval'')" "utf8_value (jq ''recovery-input'')"
  unfolding jq_words by (rule utf8_value_quoted, simp, simp)+

definition good_members :: "(string \<times> string) list \<Rightarrow> bool" where
  "good_members ms \<longleftrightarrow> list_all (\<lambda>m. ascii_label (fst m) \<and> utf8_value (snd m)) ms \<and> distinct (map fst ms)"

lemma good_members_plain: "good_members ms \<Longrightarrow> plain_members ms" "good_members ms \<Longrightarrow> distinct (map fst ms)"
  by (auto simp: good_members_def plain_members_def list_all_iff ascii_label_def utf8_value_def)

lemma good_members_value: "good_members ms \<Longrightarrow> utf8_value (json_object ms)"
  by (simp add: good_members_def utf8_value_object)

lemma good_package: "journal_item_ok it \<Longrightarrow> good_members (package_members it)"
  by (auto simp: good_members_def package_members_def journal_item_ok_def journal_versions_def
      journal_old_version_def journal_new_version_def ascii_label_def plain_label_def utf8_value_words
      intro: utf8_value_jq)

lemma good_input: "journal_item_ok it \<Longrightarrow> good_members (input_members it)"
  by (auto simp: good_members_def input_members_def journal_item_ok_def ascii_label_def plain_label_def
      intro: utf8_value_jq)

lemma good_artifact: "journal_item_ok it \<Longrightarrow> good_members (artifact_members it)"
  by (auto simp: good_members_def artifact_members_def journal_item_ok_def ascii_label_def plain_label_def
      utf8_value_jq_words intro: utf8_value_jq)

lemma good_document:
  assumes it: "journal_item_ok it" and step: "journal_step_ok plan updated stage status"
  shows "good_members (document_members plan updated it stage status)"
proof -
  have o: "utf8_value (json_object (package_members it))" "utf8_value (json_object (input_members it))"
    "utf8_value (json_object (artifact_members it))"
    using good_members_value good_package good_input good_artifact it by blast+
  have j: "utf8_value (jq (it_recovery_id it))" "utf8_value (jq (it_action it))" "utf8_value (jq (it_created it))"
    "utf8_value (jq (it_source it))" "list_all utf8_value (map jq (it_completed it))"
    using it by (auto simp: journal_item_ok_def list_all_iff intro: utf8_value_jq)
  have k: "utf8_value (jq_null (optional (it_signing_key it)))"
    using it by (auto simp: journal_item_ok_def optional_def utf8_value_words intro: utf8_value_jq)
  have t: "utf8_value (jq updated)" "utf8_value (jq plan)" "utf8_value (jq status)" "utf8_value (jq stage)"
    using step by (auto simp: journal_step_ok_def intro: utf8_value_jq)
  have a: "utf8_value (json_array [json_quoted ''inspect''])"
    using utf8_value_quoted [of "''inspect''"] by (intro utf8_value_array) simp
  show ?thesis
    using o j k t a utf8_value_jq_words
    by (simp add: good_members_def document_members_def ascii_label_def plain_label_def utf8_value_words utf8_value_array)
qed

lemma record_string_jq:
  assumes "good_members ms" "map_of ms key = Some (jq t)" "journal_text n t" "n \<le> cap"
  shows "record_string (json_object ms @ q) key cap nullable = Some t"
  using record_string_found [OF good_members_plain [OF assms(1)], of key t cap q nullable]
    journal_text_printable [OF assms(3)] assms by (simp add: jq_def journal_text_def)

lemma record_string_jq_null:
  assumes "good_members ms" "map_of ms key = Some (jq_null v)" "\<And>t. v = Some t \<Longrightarrow> journal_text n t" "n \<le> cap"
  shows "record_string (json_object ms @ q) key cap True = Some (case v of None \<Rightarrow> [] | Some t \<Rightarrow> t)"
  using assms record_string_jq [OF assms(1), of key _ n cap q True]
    record_string_null [OF good_members_plain [OF assms(1)], of key q cap]
  by (cases v) auto

lemma record_string_word:
  assumes "good_members ms" "map_of ms key = Some (jq w)" "length w < cap" "w \<noteq> []" "ascii w"
    and "list_all (\<lambda>c. 32 \<le> byte c \<and> c \<noteq> DQUOTE \<and> c \<noteq> BSLASH) w"
  shows "record_string (json_object ms @ q) key cap nullable = Some w"
  using record_string_found [OF good_members_plain [OF assms(1)], of key w cap q nullable]
    plain_escape_printable [OF assms(6)] assms by (simp add: jq_def)

lemma record_artifact_found:
  assumes it: "journal_item_ok it" and r: "\<not> ri_retained_known r" "ri_fingerprint r = it_fingerprint it"
  shows "record_artifact (json_object (artifact_members it) @ q) r
    = Some (r\<lparr>ri_retained_relative := it_recovery_id it @ ''/input.zip'',
         ri_retained_state := retained_state_name (it_retained_state it), ri_retained_known := True,
         ri_retained_status := ''not-checked''\<rparr>)"
proof -
  let ?p = "json_object (artifact_members it) @ q"
  note g = good_artifact [OF it]
  have role: "record_string ?p ''role'' 32 False = Some ''recovery-input''"
    by (rule record_string_word [OF g]) (simp_all add: artifact_members_def)
  have path: "record_string ?p ''path'' RECORD_PATH False = Some (it_retained it)"
    by (rule record_string_jq [OF g _ item_texts(9) [OF it]]) (simp_all add: artifact_members_def)
  have relative: "record_string ?p ''relativePath'' 256 False = Some (it_recovery_id it @ ''/input.zip'')"
    by (rule record_string_jq [OF g _ item_texts(10) [OF it]]) (simp_all add: artifact_members_def)
  have digest: "record_string ?p ''blake2b256'' 65 False = Some (it_fingerprint it)"
    by (rule record_string_jq [OF g _ item_texts(8) [OF it]]) (simp_all add: artifact_members_def)
  have state: "record_string ?p ''state'' 16 False = Some (retained_state_name (it_retained_state it))"
    by (rule record_string_jq [OF g _ item_texts(11) [OF it]]) (simp_all add: artifact_members_def)
  show ?thesis
    unfolding record_artifact_def role path relative digest state
    using r by (simp add: retained_state_name_def)
qed

lemma record_artifacts_found:
  assumes it: "journal_item_ok it" and r: "\<not> ri_retained_known r" "ri_fingerprint r = it_fingerprint it"
    and rest: "at (CHR '','') rest \<or> at (CHR ''}'') rest"
  shows "record_artifacts (json_array [json_object (artifact_members it)] @ rest) r
    = Some (r\<lparr>ri_retained_relative := it_recovery_id it @ ''/input.zip'',
         ri_retained_state := retained_state_name (it_retained_state it), ri_retained_known := True,
         ri_retained_status := ''not-checked'', ri_inventory_known := True\<rparr>)"
proof -
  define p where "p = json_object (artifact_members it) @ CHR '']'' # rest"
  define r1 where "r1 = r\<lparr>ri_inventory_known := True, ri_retained_status := ''not-recorded''\<rparr>"
  have v: "json_value (json_object (artifact_members it))"
    using good_members_value [OF good_artifact [OF it]] by (simp add: utf8_value_def)
  have start: "\<not> at (CHR '']'') p" "at (CHR ''{'') p" by (simp_all add: p_def json_object_def)
  have e: "wpm_json_value_end p = (True, CHR '']'' # rest)"
    using value_end_value [OF v, of "[]" "CHR '']'' # rest"] by (simp add: p_def)
  have a: "record_artifact p r1 = Some (r1\<lparr>ri_retained_relative := it_recovery_id it @ ''/input.zip'',
         ri_retained_state := retained_state_name (it_retained_state it), ri_retained_known := True,
         ri_retained_status := ''not-checked''\<rparr>)"
    unfolding p_def by (rule record_artifact_found [OF it]) (use r in \<open>simp_all add: r1_def\<close>)
  have "record_artifacts (json_array [json_object (artifact_members it)] @ rest) r = artifacts_loop 0 p r1"
    using v by (simp add: record_artifacts_def p_def r1_def json_array_def json_tail_def)
  also have "\<dots> = Some (r1\<lparr>ri_retained_relative := it_recovery_id it @ ''/input.zip'',
         ri_retained_state := retained_state_name (it_retained_state it), ri_retained_known := True,
         ri_retained_status := ''not-checked''\<rparr>)"
    using start e a delimiter_at [OF rest] by (subst artifacts_loop.simps) (simp add: Let_def artifacts_end_def)
  finally show ?thesis by (cases r) (simp add: r1_def)
qed

lemma record_members_found:
  fixes q1 q2 :: string
  assumes it: "journal_item_ok it" and step: "journal_step_ok plan updated stage status"
    and times: "journal_times (it_created it) updated"
  defines "doc \<equiv> json_object (document_members plan updated it stage status) @ [LF]"
    and "package \<equiv> json_object (package_members it) @ q1" and "input \<equiv> json_object (input_members it) @ q2"
  shows "record_members doc (it_recovery_id it) package input
    = Some ((journal_identity plan updated it stage status)\<lparr>ri_script_exit := 0, ri_exit_known := False,
        ri_input_status := [], ri_retained_relative := [], ri_retained_state := [], ri_retained_status := [],
        ri_retained_known := False, ri_inventory_known := False\<rparr>)"
proof -
  note g = good_document [OF it step] and gp = good_package [OF it] and gi = good_input [OF it]
  have word1: "record_string doc ''schema'' 32 False = Some ''wpm.recovery.v1''"
    unfolding doc_def by (rule record_string_word [OF g]) (simp_all add: document_members_def)
  have word2: "record_string doc ''validation'' 48 False = Some ''validated-before-approval''"
    unfolding doc_def by (rule record_string_word [OF g]) (simp_all add: document_members_def)
  have text1: "record_string doc ''operationId'' 33 False = Some (it_recovery_id it)"
    unfolding doc_def by (rule record_string_jq [OF g _ item_texts(1) [OF it]]) (simp_all add: document_members_def)
  have text2: "record_string doc ''operation'' 16 False = Some (it_action it)"
    unfolding doc_def by (rule record_string_jq [OF g _ item_texts(2) [OF it]]) (simp_all add: document_members_def)
  have text3: "record_string doc ''created'' 32 False = Some (it_created it)"
    unfolding doc_def by (rule record_string_jq [OF g _ item_texts(3) [OF it]]) (simp_all add: document_members_def)
  have text4: "record_string doc ''updated'' 32 False = Some updated"
    unfolding doc_def by (rule record_string_jq [OF g _ step_texts(2) [OF step]]) (simp_all add: document_members_def)
  have text5: "record_string doc ''planDigest'' 65 False = Some plan"
    unfolding doc_def by (rule record_string_jq [OF g _ step_texts(1) [OF step]]) (simp_all add: document_members_def)
  have text6: "record_string doc ''status'' 16 False = Some status"
    unfolding doc_def by (rule record_string_jq [OF g _ step_texts(4) [OF step]]) (simp_all add: document_members_def)
  have text7: "record_string doc ''phase'' 32 False = Some stage"
    unfolding doc_def by (rule record_string_jq [OF g _ step_texts(3) [OF step]]) (simp_all add: document_members_def)
  have text8: "record_string doc ''source'' RECORD_PATH False = Some (it_source it)"
    unfolding doc_def by (rule record_string_jq [OF g _ item_texts(4) [OF it]]) (simp_all add: document_members_def)
  have signer: "record_string doc ''signer'' 65 True = Some (it_signing_key it)"
    using record_string_jq_null [OF g, of "''signer''" "optional (it_signing_key it)" 65 65 "[LF]"]
      item_optional_texts(3) [OF it]
    by (auto simp: doc_def document_members_def optional_def split: if_splits)
  have p1: "record_string package ''name'' 128 False = Some (pi_name (it_identity it))"
    unfolding package_def by (rule record_string_jq [OF gp _ item_texts(6) [OF it]]) (simp_all add: package_members_def)
  have p2: "record_string package ''arch'' 16 False = Some (pi_arch (it_identity it))"
    unfolding package_def by (rule record_string_jq [OF gp _ item_texts(7) [OF it]]) (simp_all add: package_members_def)
  have p3: "record_string package ''oldVersion'' 64 True
      = Some (case journal_old_version it of None \<Rightarrow> [] | Some v \<Rightarrow> v)"
    unfolding package_def
    by (rule record_string_jq_null [OF gp, where n = 64]) (use item_optional_texts(1) [OF it] in \<open>simp_all add: package_members_def\<close>)
  have p4: "record_string package ''newVersion'' 64 True
      = Some (case journal_new_version it of None \<Rightarrow> [] | Some v \<Rightarrow> v)"
    unfolding package_def
    by (rule record_string_jq_null [OF gp, where n = 64]) (use item_optional_texts(2) [OF it] in \<open>simp_all add: package_members_def\<close>)
  have i1: "record_string input ''path'' RECORD_PATH False = Some (it_archive it)"
    unfolding input_def by (rule record_string_jq [OF gi _ item_texts(5) [OF it]]) (simp_all add: input_members_def)
  have i2: "record_string input ''blake2b256'' 65 False = Some (it_fingerprint it)"
    unfolding input_def by (rule record_string_jq [OF gi _ item_texts(8) [OF it]]) (simp_all add: input_members_def)
  have b1: "record_bool doc ''externalStateMayHaveChanged'' = Some (it_external it)"
    unfolding doc_def by (rule record_bool_found [OF good_members_plain [OF g]]) (simp add: document_members_def)
  have b2: "record_bool doc ''retryEligible'' = Some False"
    unfolding doc_def by (rule record_bool_found [OF good_members_plain [OF g]]) (simp add: document_members_def)
  have ok: "record_hex plan \<and> record_hex (it_fingerprint it)
      \<and> (it_signing_key it = [] \<or> it_signing_key it = ''unsigned'' \<or> record_hex (it_signing_key it))
      \<and> record_time (it_created it) \<and> record_time updated \<and> strcmp (it_created it) updated \<le> 0
      \<and> wpm_recovery_filters_valid (Some (pi_name (it_identity it))) (Some (pi_arch (it_identity it)))"
    using it step times unfolding journal_item_ok_def journal_step_ok_def journal_times_def by blast
  have req: "record_require True = Some ()" by (simp add: record_require_def)
  show ?thesis
    unfolding record_members_def word1 word2 text1 text2 text3 text4 text5 text6 text7 text8 signer p1 p2 p3 p4 i1 i2 b1 b2
      Option.bind.simps
    by (simp add: ok req journal_identity_def)
qed

lemma journal_admitted:
  assumes it: "journal_item_ok it" and step: "journal_step_ok plan updated stage status"
    and times: "journal_times (it_created it) updated"
    and doc: "journal_document plan updated it stage status = Some doc" "length doc < SIZE_MAX"
  shows "record_parse doc (it_recovery_id it) = Some (journal_identity plan updated it stage status)"
proof -
  define ms where "ms = document_members plan updated it stage status"
  have d: "doc = json_object ms @ [LF]" using doc(1) journal_document_members [OF it step] by (simp add: ms_def)
  note g = good_document [OF it step, folded ms_def]
  note plain = good_members_plain [OF g]
  have utf8: "json_utf8 doc"
    using good_members_value [OF g] json_utf8_append [of "json_object ms" "[LF]"] by (simp add: d utf8_value_def)
  have valid: "wpm_json_document_valid doc"
    using document_valid_complete [OF json_document_object [OF _ plain(1)], of "[LF]"] doc(2) by (simp add: d is_json_ws_def)
  note find = unique_lookup [OF plain, of _ _ "[LF]", folded d]
  obtain q1 where package: "wpm_json_unique_field doc ''package'' = Some (json_object (package_members it) @ q1)"
    using find [of "''package''" "json_object (package_members it)"] by (auto simp: ms_def document_members_def)
  obtain q2 where input: "wpm_json_unique_field doc ''input'' = Some (json_object (input_members it) @ q2)"
    using find [of "''input''" "json_object (input_members it)"] by (auto simp: ms_def document_members_def)
  obtain q3 where exit: "wpm_json_unique_field doc ''scriptExitCode''
      = Some ((if it_script_exit_known it then decimal (it_script_exit it) else ''null'') @ q3)"
    "at (CHR '','') q3 \<or> at (CHR ''}'') q3"
    using find [of "''scriptExitCode''"] by (auto simp: ms_def document_members_def)
  obtain q4 where actions: "wpm_json_unique_field doc ''safeActions'' = Some (json_array [json_quoted ''inspect''] @ q4)"
    "at (CHR '','') q4 \<or> at (CHR ''}'') q4"
    using find [of "''safeActions''" "json_array [json_quoted ''inspect'']"] by (auto simp: ms_def document_members_def)
  obtain q5 where artifacts: "wpm_json_unique_field doc ''controlledArtifacts''
      = Some (json_array [json_object (artifact_members it)] @ q5)" "at (CHR '','') q5 \<or> at (CHR ''}'') q5"
    using find [of "''controlledArtifacts''" "json_array [json_object (artifact_members it)]"]
    by (auto simp: ms_def document_members_def)
  obtain q6 where history: "wpm_json_unique_field doc ''completedPhases'' = Some (json_array (map jq (it_completed it)) @ q6)"
    using find [of "''completedPhases''" "json_array (map jq (it_completed it))"] by (auto simp: ms_def document_members_def)
  have failed: "record_string doc ''failedPhase'' 32 True
      = Some (if status = ''failed'' then stage else [])"
    using record_string_jq_null [OF g, of "''failedPhase''" "if status = ''failed'' then Some stage else None" 32 32 "[LF]"]
      step_texts(5) [OF step] by (simp add: d ms_def document_members_def split: if_splits)
  have code: "record_exit ((if it_script_exit_known it then decimal (it_script_exit it) else ''null'') @ q3)
      = Some (if it_script_exit_known it then Some (it_script_exit it) else None)"
    using record_exit_found(1) [OF exit(2)] record_exit_found(2) [OF exit(2), of 0] it
    by (simp add: journal_item_ok_def)
  have consistent: "record_consistent (if status = ''failed'' then stage else [])
      ((journal_identity plan updated it stage status)\<lparr>ri_script_exit := 0, ri_exit_known := False,
        ri_input_status := [], ri_retained_relative := [], ri_retained_state := [], ri_retained_status := [],
        ri_retained_known := False, ri_inventory_known := False\<rparr>)"
    using it by (auto simp: record_consistent_def journal_identity_def journal_item_ok_def journal_versions_def
        journal_old_version_def journal_new_version_def journal_text_def)
  have status: "status \<in> {''completed'', ''in-progress'', ''failed'', ''pending''}"
    using step by (simp add: journal_step_ok_def)
  have first: "at (CHR ''{'') (json_object a @ b)" "at (CHR ''['') (json_array c @ b)" for a b c
    by (simp_all add: json_object_def json_array_def)
  have req: "record_require True = Some ()" by (simp add: record_require_def)
  note members = record_members_found [OF it step times, of q1 q2, folded ms_def, folded d]
  show ?thesis
    unfolding record_parse_def package input exit(1) actions(1) artifacts(1) history failed Option.bind.simps
      eqTrueI [OF valid] wpm_json_utf8_valid_def option.case eqTrueI [OF utf8] first simp_thms req members
      record_history_ok_def eqTrueI [OF consistent] eqTrueI [OF record_actions_found [OF actions(2)]] code
    using status record_artifacts_found [OF it _ _ artifacts(2)]
    by (simp add: req first journal_identity_def)
qed


subsection \<open>A sample item\<close>

lemma journal_text_simple:
  "t \<noteq> [] \<Longrightarrow> length t < cap \<Longrightarrow> cap \<le> 4096 \<Longrightarrow> list_all (\<lambda>c. 32 \<le> byte c \<and> byte c < 0x80) t
     \<Longrightarrow> CHR ''='' \<notin> set t \<Longrightarrow> CHR ''@'' \<notin> set t \<Longrightarrow> journal_text cap t"
  by (auto simp: journal_text_def unfiltered_def printable_def list_all_iff ascii_def
      intro!: redact_text_id ascii_utf8)

definition sample_item :: plan_item where
  "sample_item = \<lparr>it_action = ''install'', it_archive = ''C:'' @ BSLASH # ''demo.zip'',
     it_source = ''https://example.org'', it_old_version = ''none'', it_signing_key = ''unsigned'',
     it_identity = \<lparr>pi_name = ''demo'', pi_version = ''1.0.0'', pi_arch = ''x64''\<rparr>,
     it_fingerprint = replicate 64 (CHR ''a''), it_file_identity = [1, 2, 3], it_consumed = True,
     it_recovery_id = replicate 32 (CHR ''b''), it_created = ''2026-02-28T10:20:30.000Z'',
     it_journal_started = True, it_journal_failed = False, it_external = True, it_phase = ''script'',
     it_script_exit = 7, it_script_exit_known = True, it_record_identity = [4, 5, 6], it_retained = ''C:'' @ BSLASH # ''r'',
     it_retained_input = True, it_retained_state = 2, it_completed = [''retain-input''], it_failed = True\<rparr>"

definition sample_time :: string where
  "sample_time = ''2026-03-01T00:00:00.125Z''"

lemma time_indices: "[0..<24] = [0, 1, 2, 3, 4, 5, 6, 7, 8, 9, 10, 11, 12, 13, 14, 15, 16, 17, 18, 19, 20, 21, 22, 23]"
  by (simp add: upt_conv_Cons)

lemmas time_eval = record_time_def time_indices time_positions_def time_separators_def is_digit_def
  time_field_def dec_value_def digit_val_def month_days_def

lemma sample_time_valid: "record_time sample_time" "record_time ''2026-02-28T10:20:30.000Z''"
  by (simp_all add: time_eval sample_time_def)

lemma sample_times: "journal_times (it_created sample_item) sample_time"
  using sample_time_valid by (simp add: journal_times_def sample_item_def, simp add: sample_time_def)

lemma sample_version: "wpm_repo_version_is_valid (Some ''1.0.0'')"
  by (simp add: wpm_repo_version_is_valid_def semver_parse_def parse_dotted_def semver_finish_def parse_number_def
      is_digit_def digit_val_def Let_def)

lemma sample_item_ok: "journal_item_ok sample_item"
  unfolding journal_item_ok_def journal_versions_def sample_item_def
  by (simp add: sample_version wpm_recovery_id_valid_def lower_hex_def is_digit_def record_hex_def
      wpm_recovery_filters_valid_def control_char_def supported_arch_def RECORD_PATH_def retained_state_name_def
      list_all_iff journal_text_simple)

lemma sample_step_ok: "journal_step_ok (replicate 64 (CHR ''c'')) sample_time ''script'' ''failed''"
  by (simp add: journal_step_ok_def sample_time_def record_hex_def lower_hex_def is_digit_def list_all_iff
      journal_text_simple)

lemma length_jq: "length (jq t) \<le> 6 * length t + 2"
  using json_escape_length [of t] by (simp add: jq_def)

lemma sample_document:
  obtains doc where "journal_document (replicate 64 (CHR ''c'')) sample_time sample_item ''script'' ''failed'' = Some doc"
    and "length doc < SIZE_MAX"
proof -
  let ?doc = "json_object (document_members (replicate 64 (CHR ''c'')) sample_time sample_item ''script'' ''failed'') @ [LF]"
  have escape: "json_escape s = s" if "list_all (\<lambda>c. 32 \<le> byte c \<and> c \<noteq> DQUOTE \<and> c \<noteq> BSLASH) s" for s
    using plain_escape_printable that by blast
  have id: "length (jq (replicate n (CHR ''a''))) = n + 2" "length (jq (replicate n (CHR ''b''))) = n + 2"
    "length (jq (replicate n (CHR ''c''))) = n + 2" "length (jq (replicate n (CHR ''b'') @ ''/input.zip'')) = n + 12" for n
    using escape [of "replicate n (CHR ''a'')"] escape [of "replicate n (CHR ''b'')"] escape [of "replicate n (CHR ''c'')"]
      escape [of "replicate n (CHR ''b'') @ ''/input.zip''"] by (simp_all add: jq_def list_all_iff)
  have "length ?doc < 4096"
    using id by (simp add: document_members_def package_members_def input_members_def artifact_members_def
        sample_item_def sample_time_def json_object_def json_array_def json_pair_def json_tail_def optional_def
        journal_old_version_def journal_new_version_def retained_state_name_def json_bool_def decimal_7
        jq_def json_escape_char_def json_quoted_def del: json_tail_simps)
  then have "length ?doc < SIZE_MAX" by (simp add: SIZE_MAX_def)
  with that journal_document_members [OF sample_item_ok sample_step_ok] show thesis by blast
qed



end
