(* ===== verification/Operation.thy ===== *)
theory Operation
  imports Journal Capability
begin

text \<open>
  The plan of \<open>wpm/operation.c\<close>: items are collected, approved by one digest, and then executed one
  after the other with a journal entry per phase. The static variables are the record \<open>op_state\<close>;
  everything that a call asks of the system is its argument \<open>world\<close>, so that a property over all
  sequences of calls holds whatever the file system does between them. Messages are not modelled.
\<close>

subsection \<open>The world of one call\<close>

text \<open>The n-th journal write of a call: whether the record directory could be guarded, a fresh id and
  time, whether the final name is free, the identity of an existing record (when it is an ordinary
  single-link file), the time of the update, and the identity of the committed file.\<close>

record journal_world =
  jw_directory :: bool
  jw_random :: string
  jw_created :: string
  jw_final_free :: bool
  jw_existing :: "nat list option"
  jw_updated :: string
  jw_published :: "nat list option"

text \<open>A copy of an input: the guard of the directory, the fresh file, the size of the source, the reads
  (\<open>None\<close> is a failure, otherwise the number of bytes and whether they were written), the digest of
  the copy, the rest of the commit, and for a retained input its reopening.\<close>

record copy_world =
  cw_directory :: bool
  cw_created :: bool
  cw_source_size :: "nat option"
  cw_reads :: "(nat \<times> bool) option list"
  cw_digest :: "string option"
  cw_committed :: bool
  cw_reopened :: bool
  cw_same :: bool
  cw_digest_again :: "string option"

text \<open>\<open>w_state n\<close> is the n-th digest of the controlled state in the call.\<close>

record op_world =
  w_capabilities :: "32 word"
  w_journal :: "nat \<Rightarrow> journal_world"
  w_state :: "nat \<Rightarrow> string option"
  w_root :: "string option"
  w_random :: string
  w_full :: "string \<Rightarrow> string option"
  w_hash :: "string \<Rightarrow> string option"
  w_file_identity :: "string \<Rightarrow> nat list option"
  w_inspect :: "string \<Rightarrow> package_info option"
  w_validate :: "string \<Rightarrow> bool \<Rightarrow> string option"
  w_open_input :: bool
  w_plan_digest :: "(string list \<times> string \<times> nat list) list \<Rightarrow> string \<Rightarrow> string"
  w_answer :: "string option"
  w_retain :: copy_world
  w_store :: copy_world

definition full_path_of :: "op_world \<Rightarrow> string \<Rightarrow> string option" where
  "full_path_of w p =
     (case w_full w p of None \<Rightarrow> None | Some f \<Rightarrow> if f = [] then None else fits PLAN_PATH f)"

subsection \<open>The static state\<close>

record op_state =
  op_items :: "plan_item list"
  op_collecting :: bool
  op_active :: bool
  op_assume_yes :: bool
  op_executing :: "nat option"
  op_approved_state :: string
  op_source :: string
  op_approved_plan :: string

definition op_start :: op_state where
  "op_start = \<lparr>op_items = [], op_collecting = False, op_active = False, op_assume_yes = False,
     op_executing = None, op_approved_state = replicate 32 NUL, op_source = [], op_approved_plan = []\<rparr>"

definition set_item :: "nat \<Rightarrow> plan_item \<Rightarrow> op_state \<Rightarrow> op_state" where
  "set_item i it st = st\<lparr>op_items := (op_items st)[i := it]\<rparr>"

definition current_item :: "op_state \<Rightarrow> plan_item option" where
  "current_item st = (case op_executing st of None \<Rightarrow> None | Some i \<Rightarrow> Some (op_items st ! i))"

subsection \<open>The journal\<close>

definition journal_fail :: "plan_item \<Rightarrow> plan_item \<times> bool" where
  "journal_fail it = (it\<lparr>it_journal_failed := True\<rparr>, False)"

definition note_exit :: "nat option \<Rightarrow> plan_item \<Rightarrow> plan_item" where
  "note_exit exit_code it =
     (case exit_code of None \<Rightarrow> it | Some c \<Rightarrow> it\<lparr>it_script_exit := c, it_script_exit_known := True\<rparr>)"

definition note_identity :: "journal_world \<Rightarrow> plan_item \<Rightarrow> plan_item" where
  "note_identity jw it =
     it\<lparr>it_recovery_id := (if it_recovery_id it = [] then jw_random jw else it_recovery_id it),
        it_created := (if it_created it = [] then jw_created jw else it_created it)\<rparr>"

definition journal_write ::
  "op_world \<Rightarrow> nat \<Rightarrow> string \<Rightarrow> plan_item \<Rightarrow> string \<Rightarrow> string \<Rightarrow> nat option \<Rightarrow> plan_item \<times> bool" where
  "journal_write w n plan item stage status exit_code =
     (let jw = w_journal w n; it = note_exit exit_code item in
      if it_journal_failed it \<or> wpm_is_readonly (w_capabilities w) \<or> \<not> jw_directory jw
      then journal_fail it
      else
        let it = note_identity jw it in
        if \<not> it_journal_started it \<and> \<not> jw_final_free jw
           \<or> it_journal_started it \<and> jw_existing jw \<noteq> Some (it_record_identity it)
        then journal_fail it
        else
        (case journal_document plan (jw_updated jw) it stage status of
           None \<Rightarrow> journal_fail it
         | Some document \<Rightarrow>
             (case jw_published jw of
                None \<Rightarrow> journal_fail it
              | Some committed \<Rightarrow>
                  (it\<lparr>it_journal_started := True, it_record_identity := committed, it_phase := stage\<rparr>, True))))"

text \<open>A journal write for the executing item.\<close>

definition journal_current ::
  "op_world \<Rightarrow> nat \<Rightarrow> string \<Rightarrow> string \<Rightarrow> nat option \<Rightarrow> op_state \<Rightarrow> op_state \<times> bool" where
  "journal_current w n stage status exit_code st =
     (case op_executing st of
        None \<Rightarrow> (st, False)
      | Some i \<Rightarrow>
          (case journal_write w n (op_approved_plan st) (op_items st ! i) stage status exit_code of
             (it, ok) \<Rightarrow> (set_item i it st, ok)))"

subsection \<open>Retaining the approved input\<close>

text \<open>The copy loop: the bytes received so far and the size that was announced.\<close>

fun copy_reads :: "nat \<Rightarrow> nat \<Rightarrow> (nat \<times> bool) option list \<Rightarrow> nat option" where
  "copy_reads announced received [] = Some received"
| "copy_reads announced received (None # reads) = None"
| "copy_reads announced received (Some (n, written) # reads) =
     (if n = 0 then Some received
      else if received > announced \<or> n > announced - received \<or> \<not> written then None
      else copy_reads announced (received + n) reads)"

definition copy_complete :: "copy_world \<Rightarrow> string \<Rightarrow> bool" where
  "copy_complete cw approved =
     (case cw_source_size cw of
        None \<Rightarrow> False
      | Some announced \<Rightarrow>
          copy_reads announced 0 (cw_reads cw) = Some announced \<and> cw_digest cw = Some approved
          \<and> cw_committed cw)"

definition retain_input :: "op_world \<Rightarrow> nat \<Rightarrow> op_state \<Rightarrow> op_state \<times> bool" where
  "retain_input w n st =
     (case op_executing st of
        None \<Rightarrow> (st, False)
      | Some i \<Rightarrow>
          let it = op_items st ! i; cw = w_retain w;
              fail = (\<lambda>it. (fst (journal_current w n ''retain-input'' ''failed'' None
                                  (set_item i (it\<lparr>it_failed := True\<rparr>) st)), False)) in
          if BSLASH \<notin> set (it_retained it) \<or> \<not> cw_directory cw then fail it
          else
            let it = it\<lparr>it_retained_state := 1\<rparr> in
            if \<not> cw_created cw \<or> \<not> copy_complete cw (it_fingerprint it) then fail it
            else
              let it = it\<lparr>it_retained_input := cw_reopened cw\<rparr> in
              if \<not> cw_reopened cw \<or> \<not> cw_same cw \<or> cw_digest_again cw \<noteq> Some (it_fingerprint it) then fail it
              else (set_item i (it\<lparr>it_retained_state := 2\<rparr>) st, True))"

subsection \<open>Begin and close\<close>

definition wpm_operation_close :: "op_world \<Rightarrow> op_state \<Rightarrow> op_state" where
  "wpm_operation_close w st =
     (let st = (case current_item st of
                  None \<Rightarrow> st
                | Some it \<Rightarrow>
                    if it_journal_started it \<and> \<not> it_journal_failed it
                    then fst (journal_current w 0 (it_phase it) ''failed'' None st) else st) in
      st\<lparr>op_items := [], op_active := False, op_collecting := False, op_executing := None\<rparr>)"

definition wpm_operation_begin :: "bool \<Rightarrow> op_world \<Rightarrow> op_state \<Rightarrow> op_state" where
  "wpm_operation_begin yes w st =
     (wpm_operation_close w st)\<lparr>op_active := True, op_collecting := True, op_assume_yes := yes\<rparr>"

definition wpm_operation_set_source :: "string option \<Rightarrow> op_state \<Rightarrow> op_state" where
  "wpm_operation_set_source source st = st\<lparr>op_source := (case source of None \<Rightarrow> [] | Some s \<Rightarrow> s)\<rparr>"

subsection \<open>Confirmation\<close>

text \<open>The line that \<open>fgets\<close> read, up to its line end.\<close>

definition answer_yes :: "string option \<Rightarrow> bool" where
  "answer_yes answer =
     (case answer of
        None \<Rightarrow> False
      | Some line \<Rightarrow>
          let a = takeWhile (\<lambda>c. \<not> line_break c) (take 31 line) in strieq a ''y'' \<or> strieq a ''yes'')"

definition wpm_operation_prepare :: "op_world \<Rightarrow> op_state \<Rightarrow> bool" where
  "wpm_operation_prepare w st =
     (if \<not> wpm_require_capability WPM_CAP_WRITE (w_capabilities w) then False
      else if \<not> op_active st then True
      else if \<not> op_collecting st then False
      else
      (case w_state w 0 of
         None \<Rightarrow> False
       | Some initial \<Rightarrow>
           if \<not> op_assume_yes st \<and> \<not> answer_yes (w_answer w) then False
           else w_state w 1 = Some initial))"

text \<open>What the plan digest covers of one item.\<close>

definition plan_material :: "plan_item \<Rightarrow> string list \<times> string \<times> nat list" where
  "plan_material it =
     ([it_action it, it_archive it, it_source it, it_old_version it, pi_name (it_identity it),
       pi_arch (it_identity it), pi_version (it_identity it), it_signing_key it, it_recovery_id it,
       it_retained it], it_fingerprint it, it_file_identity it)"

definition item_unchanged :: "op_world \<Rightarrow> plan_item \<Rightarrow> bool" where
  "item_unchanged w it \<longleftrightarrow>
     w_file_identity w (it_archive it) = Some (it_file_identity it)
     \<and> w_hash w (it_archive it) = Some (it_fingerprint it)"

definition wpm_operation_confirm :: "op_world \<Rightarrow> op_state \<Rightarrow> op_state \<times> int" where
  "wpm_operation_confirm w st =
     (if \<not> op_active st \<or> \<not> op_collecting st then (st, -1)
      else
      (case w_state w 0 of
         None \<Rightarrow> (st, -1)
       | Some approved \<Rightarrow>
           let st = st\<lparr>op_approved_state := approved\<rparr> in
           if w_root w = None then (st, -1)
           else
             let st = st\<lparr>op_approved_plan :=
                   w_plan_digest w (map plan_material (op_items st)) approved\<rparr> in
             if wpm_is_readonly (w_capabilities w) then (st, 0)
             else if op_items st \<noteq> [] \<and> \<not> op_assume_yes st \<and> \<not> answer_yes (w_answer w) then (st, 0)
             else if w_state w 1 \<noteq> Some approved \<or> \<not> list_all (item_unchanged w) (op_items st)
             then (st, -1)
             else (st\<lparr>op_collecting := False\<rparr>, 1)))"

subsection \<open>Phases\<close>

definition wpm_operation_phase_start :: "string \<Rightarrow> op_world \<Rightarrow> op_state \<Rightarrow> op_state \<times> bool" where
  "wpm_operation_phase_start stage w st =
     (if stage = [] then (st, False)
      else if \<not> op_active st then (st, True)
      else
      (case current_item st of
         None \<Rightarrow> (st, False)
       | Some it \<Rightarrow>
           if op_collecting st \<or> it_failed it \<or> length stage \<ge> 32 then (st, False)
           else journal_current w 0 stage ''in-progress'' None st))"

definition wpm_operation_phase_finish :: "string \<Rightarrow> nat \<Rightarrow> op_world \<Rightarrow> op_state \<Rightarrow> op_state \<times> bool" where
  "wpm_operation_phase_finish stage n w st =
     (if stage = [] then (st, False)
      else if \<not> op_active st then (st, True)
      else
      (case op_executing st of
         None \<Rightarrow> (st, False)
       | Some i \<Rightarrow>
           let it = op_items st ! i in
           if op_collecting st \<or> it_failed it \<or> it_phase it \<noteq> stage \<or> length (it_completed it) = 16
              \<or> length stage \<ge> 32
           then (st, False)
           else journal_current w n stage ''in-progress'' None
                  (set_item i (it\<lparr>it_completed := it_completed it @ [stage]\<rparr>) st)))"

subsection \<open>Registering and starting an item\<close>

definition source_or :: "string option \<Rightarrow> string \<Rightarrow> string" where
  "source_or source full = (case source of None \<Rightarrow> full | Some s \<Rightarrow> if s = [] then full else s)"

definition version_or_none :: "string option \<Rightarrow> string" where
  "version_or_none v = (case v of None \<Rightarrow> ''none'' | Some s \<Rightarrow> s)"

text \<open>The path of the retained input of a new item.\<close>

definition plan_recovery_path :: "op_world \<Rightarrow> string option" where
  "plan_recovery_path w =
     (case Option.bind (w_root w) (full_path_of w) of
        None \<Rightarrow> None
      | Some root \<Rightarrow>
          if length root \<le> 3 then None
          else fits PLAN_PATH (root @ BSLASH # ''recovery'' @ BSLASH # w_random w @ BSLASH # ''input.zip''))"

definition new_item ::
  "string \<Rightarrow> string \<Rightarrow> string \<Rightarrow> string option \<Rightarrow> string option \<Rightarrow> package_info \<Rightarrow> string \<Rightarrow> string \<Rightarrow> string
     \<Rightarrow> nat list \<Rightarrow> plan_item" where
  "new_item action full fingerprint old_version source package key rid retained file_id =
     \<lparr>it_action = action, it_archive = full, it_source = source_or source full,
      it_old_version = version_or_none old_version, it_signing_key = key, it_identity = package,
      it_fingerprint = fingerprint, it_file_identity = file_id, it_consumed = False, it_recovery_id = rid,
      it_created = [], it_journal_started = False, it_journal_failed = False, it_external = False,
      it_phase = [], it_script_exit = 0, it_script_exit_known = False, it_record_identity = [0, 0, 0],
      it_retained = retained, it_retained_input = False, it_retained_state = 0, it_completed = [],
      it_failed = False\<rparr>"

definition collect_item ::
  "string \<Rightarrow> string \<Rightarrow> string \<Rightarrow> string option \<Rightarrow> string option \<Rightarrow> bool \<Rightarrow> op_world \<Rightarrow> op_state
     \<Rightarrow> op_state \<times> bool" where
  "collect_item action full fingerprint old_version source allow_unsigned w st =
     (if list_ex (\<lambda>it. strieq (it_archive it) full \<and> it_action it = action) (op_items st)
         \<or> length (op_items st) \<ge> PLAN_LIMIT
      then (st, False)
      else
      (case (w_inspect w full, w_validate w full allow_unsigned, plan_recovery_path w) of
         (Some package, Some key, Some retained) \<Rightarrow>
           if \<not> w_open_input w then (st, False)
           else
           (case w_file_identity w full of
              None \<Rightarrow> (st, False)
            | Some file_id \<Rightarrow>
                (st\<lparr>op_items := op_items st @
                   [new_item action full fingerprint old_version source package key (w_random w) retained file_id]\<rparr>,
                 True))
       | _ \<Rightarrow> (st, False)))"

text \<open>The item that an execution request names: not yet consumed, and equal in everything approved.\<close>

definition item_requested ::
  "string \<Rightarrow> string \<Rightarrow> string \<Rightarrow> string option \<Rightarrow> string option \<Rightarrow> op_world \<Rightarrow> plan_item \<Rightarrow> bool" where
  "item_requested action full fingerprint old_version source w it \<longleftrightarrow>
     \<not> it_consumed it \<and> it_action it = action \<and> strieq (it_archive it) full
     \<and> it_source it = source_or source full \<and> it_old_version it = version_or_none old_version
     \<and> it_fingerprint it = fingerprint \<and> w_file_identity w (it_archive it) = Some (it_file_identity it)"

fun first_index :: "('a \<Rightarrow> bool) \<Rightarrow> 'a list \<Rightarrow> nat option" where
  "first_index P [] = None"
| "first_index P (x # xs) = (if P x then Some 0 else map_option Suc (first_index P xs))"

definition execute_item :: "nat \<Rightarrow> op_world \<Rightarrow> op_state \<Rightarrow> op_state \<times> bool" where
  "execute_item i w st =
     (let st = (set_item i ((op_items st ! i)\<lparr>it_consumed := True\<rparr>) st)\<lparr>op_executing := Some i\<rparr>;
          (st, started) = journal_current w 0 ''retain-input'' ''in-progress'' None st in
      if \<not> started then (st, False)
      else
        let (st, retained) = retain_input w 1 st in
        if \<not> retained then (st, False) else wpm_operation_phase_finish ''retain-input'' 2 w st)"

definition wpm_operation_archive ::
  "string \<Rightarrow> string \<Rightarrow> string option \<Rightarrow> string option \<Rightarrow> bool \<Rightarrow> op_world \<Rightarrow> op_state \<Rightarrow> op_state \<times> bool" where
  "wpm_operation_archive action archive old_version source allow_unsigned w st =
     (if \<not> op_active st then (st, True)
      else if op_executing st \<noteq> None then (st, False)
      else
        let source = (if op_source st = [] then source else Some (op_source st)) in
        (case full_path_of w archive of
           None \<Rightarrow> (st, False)
         | Some full \<Rightarrow>
             (case w_hash w full of
                None \<Rightarrow> (st, False)
              | Some fingerprint \<Rightarrow>
                  if op_collecting st
                  then collect_item action full fingerprint old_version source allow_unsigned w st
                  else if w_state w 0 \<noteq> Some (op_approved_state st) then (st, False)
                  else
                  (case first_index (item_requested action full fingerprint old_version source w) (op_items st) of
                     None \<Rightarrow> (st, False)
                   | Some i \<Rightarrow> execute_item i w st))))"

subsection \<open>Scripts and completion\<close>

definition wpm_operation_before_script :: "op_world \<Rightarrow> op_state \<Rightarrow> bool" where
  "wpm_operation_before_script w st =
     (if \<not> wpm_require_capability WPM_CAP_SCRIPT (w_capabilities w) then False
      else if \<not> op_active st then True
      else
      (case current_item st of
         None \<Rightarrow> False
       | Some it \<Rightarrow>
           \<not> op_collecting st \<and> item_unchanged w it \<and> w_state w 0 = Some (op_approved_state st)
           \<and> \<not> it_journal_failed it))"

definition wpm_operation_external_start :: "string \<Rightarrow> op_world \<Rightarrow> op_state \<Rightarrow> op_state \<times> bool" where
  "wpm_operation_external_start stage w st =
     (if \<not> op_active st then (st, True)
      else
      (case op_executing st of
         None \<Rightarrow> (st, False)
       | Some i \<Rightarrow>
           if op_collecting st then (st, False)
           else wpm_operation_phase_start stage w
                  (set_item i ((op_items st ! i)\<lparr>it_external := True, it_script_exit_known := False\<rparr>) st)))"

definition wpm_operation_script_result :: "nat \<Rightarrow> op_world \<Rightarrow> op_state \<Rightarrow> op_state \<times> bool" where
  "wpm_operation_script_result exit_code w st =
     (if \<not> op_active st then (st, True)
      else
      (case op_executing st of
         None \<Rightarrow> (st, False)
       | Some i \<Rightarrow>
           let it = (op_items st ! i)\<lparr>it_script_exit := exit_code, it_script_exit_known := True\<rparr> in
           if exit_code \<noteq> 0
           then journal_current w 0 ''script'' ''failed'' (Some exit_code) (set_item i (it\<lparr>it_failed := True\<rparr>) st)
           else wpm_operation_phase_finish ''script'' 0 w (set_item i it st)))"

definition wpm_operation_completed :: "op_world \<Rightarrow> op_state \<Rightarrow> op_state \<times> bool" where
  "wpm_operation_completed w st =
     (if \<not> op_active st \<or> op_collecting st then (st, True)
      else
      (case current_item st of
         None \<Rightarrow> (st, False)
       | Some it \<Rightarrow>
           let upgrade = (it_action it = ''self-upgrade'');
               (st, ok) = journal_current w 0 (if upgrade then ''handoff'' else ''completed'')
                            (if upgrade then ''pending'' else ''completed'') None st in
           if \<not> ok then (st, False)
           else
             (st\<lparr>op_approved_state := (case w_state w 0 of None \<Rightarrow> replicate 32 NUL | Some d \<Rightarrow> d),
                 op_executing := None\<rparr>, True)))"

subsection \<open>The approved input and its name in the store\<close>

definition store_name :: "plan_item \<Rightarrow> string" where
  "store_name it = pi_name (it_identity it) @ CHR ''-'' # pi_arch (it_identity it) @ CHR ''-''
     # pi_version (it_identity it) @ ''.zip''"

definition wpm_operation_store_name :: "nat \<Rightarrow> op_state \<Rightarrow> int \<times> string" where
  "wpm_operation_store_name cap st =
     (if \<not> op_active st then (0, [])
      else
      (case current_item st of
         None \<Rightarrow> (-1, [])
       | Some it \<Rightarrow>
           if op_collecting st \<or> cap = 0 then (-1, [])
           else (case fits cap (store_name it) of None \<Rightarrow> (-1, []) | Some name \<Rightarrow> (1, name))))"

text \<open>The result and whether the retained handle was handed out.\<close>

definition wpm_operation_input :: "string option \<Rightarrow> op_world \<Rightarrow> op_state \<Rightarrow> int \<times> bool" where
  "wpm_operation_input archive w st =
     (case current_item st of
        None \<Rightarrow> (0, False)
      | Some it \<Rightarrow>
          if \<not> op_active st \<or> op_collecting st then (0, False)
          else
          (case archive of
             None \<Rightarrow> (-1, False)
           | Some a \<Rightarrow>
               (case full_path_of w a of
                  None \<Rightarrow> (-1, False)
                | Some full \<Rightarrow>
                    if \<not> strieq full (it_archive it) \<and> \<not> strieq full (it_retained it) then (0, False)
                    else if it_failed it \<or> it_journal_failed it \<or> it_retained_state it \<noteq> 2
                            \<or> \<not> it_retained_input it
                    then (-1, False)
                    else (1, True))))"

text \<open>\<open>while (length > 3 && root[length - 1] == '\\')\<close>, then the only destination that is admitted.\<close>

definition store_path :: "string \<Rightarrow> string \<Rightarrow> string" where
  "store_path root name = trim_trailing BSLASH 3 root @ BSLASH # ''packages'' @ BSLASH # name"

definition wpm_operation_store_input :: "string option \<Rightarrow> op_world \<Rightarrow> op_state \<Rightarrow> int" where
  "wpm_operation_store_input destination w st =
     (if \<not> op_active st then 0
      else
      (case (current_item st, destination) of
         (Some it, Some d) \<Rightarrow>
           if op_collecting st \<or> it_failed it \<or> it_journal_failed it \<or> it_retained_state it \<noteq> 2
              \<or> it_action it = ''remove'' \<or> fst (wpm_operation_store_name 256 st) \<noteq> 1
              \<or> w_state w 0 \<noteq> Some (op_approved_state st)
           then -1
           else
           (case (Option.bind (w_root w) (full_path_of w), full_path_of w d) of
              (Some root, Some canonical) \<Rightarrow>
                if length root + length (store_name it) + 12 \<ge> PLAN_PATH
                   \<or> \<not> strieq canonical (store_path root (store_name it))
                then -1
                else if cw_directory (w_store w) \<and> cw_created (w_store w)
                        \<and> copy_complete (w_store w) (it_fingerprint it)
                then 1 else -1
            | _ \<Rightarrow> -1)
       | _ \<Rightarrow> -1))"

subsection \<open>Sequences of calls\<close>

datatype op_call =
    Call_close | Call_begin bool | Call_set_source "string option" | Call_confirm
  | Call_archive string string "string option" "string option" bool
  | Call_phase_start string | Call_phase_finish string | Call_external_start string
  | Call_script_result nat | Call_completed

fun op_call_step :: "op_call \<Rightarrow> op_world \<Rightarrow> op_state \<Rightarrow> op_state" where
  "op_call_step Call_close w st = wpm_operation_close w st"
| "op_call_step (Call_begin yes) w st = wpm_operation_begin yes w st"
| "op_call_step (Call_set_source source) w st = wpm_operation_set_source source st"
| "op_call_step Call_confirm w st = fst (wpm_operation_confirm w st)"
| "op_call_step (Call_archive action archive old_version source allow_unsigned) w st =
     fst (wpm_operation_archive action archive old_version source allow_unsigned w st)"
| "op_call_step (Call_phase_start stage) w st = fst (wpm_operation_phase_start stage w st)"
| "op_call_step (Call_phase_finish stage) w st = fst (wpm_operation_phase_finish stage 0 w st)"
| "op_call_step (Call_external_start stage) w st = fst (wpm_operation_external_start stage w st)"
| "op_call_step (Call_script_result exit_code) w st = fst (wpm_operation_script_result exit_code w st)"
| "op_call_step Call_completed w st = fst (wpm_operation_completed w st)"

text \<open>Every run of the program uses one hash function, and a fresh operation id is never empty.\<close>

definition world_ok :: "((string list \<times> string \<times> nat list) list \<Rightarrow> string \<Rightarrow> string) \<Rightarrow> op_world \<Rightarrow> bool" where
  "world_ok digest w \<longleftrightarrow> w_plan_digest w = digest \<and> w_random w \<noteq> []"

inductive op_reachable ::
  "((string list \<times> string \<times> nat list) list \<Rightarrow> string \<Rightarrow> string) \<Rightarrow> op_state \<Rightarrow> bool" for digest where
  reach_start: "op_reachable digest op_start"
| reach_step: "\<lbrakk> op_reachable digest st; world_ok digest w \<rbrakk> \<Longrightarrow> op_reachable digest (op_call_step c w st)"

subsection \<open>How an item may change\<close>

definition item_grows :: "plan_item \<Rightarrow> plan_item \<Rightarrow> bool" where
  "item_grows a b \<longleftrightarrow>
     it_action b = it_action a \<and> it_archive b = it_archive a \<and> it_source b = it_source a
     \<and> it_old_version b = it_old_version a \<and> it_signing_key b = it_signing_key a
     \<and> it_identity b = it_identity a \<and> it_fingerprint b = it_fingerprint a
     \<and> it_file_identity b = it_file_identity a \<and> it_retained b = it_retained a
     \<and> (it_recovery_id a \<noteq> [] \<longrightarrow> it_recovery_id b = it_recovery_id a)
     \<and> (it_consumed a \<longrightarrow> it_consumed b) \<and> (it_journal_failed a \<longrightarrow> it_journal_failed b)
     \<and> (it_failed a \<longrightarrow> it_failed b)
     \<and> (\<exists>more. it_completed b = it_completed a @ more)
     \<and> (length (it_completed a) \<le> 16 \<longrightarrow> length (it_completed b) \<le> 16)"

lemma item_grows_refl [simp]: "item_grows a a"
  by (simp add: item_grows_def)

lemma item_grows_trans: "item_grows a b \<Longrightarrow> item_grows b c \<Longrightarrow> item_grows a c"
  unfolding item_grows_def by (elim conjE exE) (auto simp: append_assoc)

lemma item_grows_updates [simp]:
  "item_grows a (a\<lparr>it_journal_failed := True\<rparr>)" "item_grows a (a\<lparr>it_consumed := True\<rparr>)"
  "item_grows a (a\<lparr>it_external := x, it_script_exit_known := k\<rparr>)"
  "item_grows a (a\<lparr>it_script_exit := n, it_script_exit_known := k\<rparr>)"
  "item_grows a (a\<lparr>it_failed := True\<rparr>)" "item_grows a (a\<lparr>it_retained_state := n\<rparr>)"
  "item_grows a (a\<lparr>it_retained_input := k\<rparr>)"
  "item_grows a (a\<lparr>it_journal_started := k, it_record_identity := ids, it_phase := stage\<rparr>)"
  by (simp_all add: item_grows_def)

lemma item_grows_note: "item_grows a (note_exit exit_code a)" "item_grows a (note_identity jw a)"
  by (auto simp: item_grows_def note_exit_def note_identity_def split: option.split)

lemma note_failed [simp]:
  "it_journal_failed (note_exit exit_code a) = it_journal_failed a"
  "it_journal_failed (note_identity jw a) = it_journal_failed a"
  by (simp_all add: note_exit_def note_identity_def split: option.split)

text \<open>A write either fails and marks the item, or it commits an unmarked one.\<close>

lemma journal_write_cases:
  obtains (failed) it' where "item_grows it it'" "journal_write w n plan it stage status exit_code = journal_fail it'"
  | (written) it' committed where "item_grows it it'" "\<not> it_journal_failed it'"
      "journal_write w n plan it stage status exit_code =
         (it'\<lparr>it_journal_started := True, it_record_identity := committed, it_phase := stage\<rparr>, True)"
proof -
  let ?a = "note_exit exit_code it"
  let ?b = "note_identity (w_journal w n) ?a"
  have grows: "item_grows it ?a" "item_grows it ?b"
    using item_grows_note item_grows_trans by blast+
  let ?jw = "w_journal w n"
  note def = journal_write_def Let_def
  show thesis
  proof (cases "it_journal_failed it \<or> wpm_is_readonly (w_capabilities w) \<or> \<not> jw_directory ?jw")
    case True
    then show thesis by (intro failed [OF grows(1)]) (simp add: def)
  next
    case open_journal: False
    show thesis
    proof (cases "\<not> it_journal_started ?b \<and> \<not> jw_final_free ?jw
        \<or> it_journal_started ?b \<and> jw_existing ?jw \<noteq> Some (it_record_identity ?b)")
      case True
      with open_journal show thesis by (intro failed [OF grows(2)]) (simp only: def note_failed if_False if_True)
    next
      case False
      then have step: "journal_write w n plan it stage status exit_code =
        (case journal_document plan (jw_updated ?jw) ?b stage status of
           None \<Rightarrow> journal_fail ?b
         | Some document \<Rightarrow>
             (case jw_published ?jw of
                None \<Rightarrow> journal_fail ?b
              | Some committed \<Rightarrow>
                  (?b\<lparr>it_journal_started := True, it_record_identity := committed, it_phase := stage\<rparr>, True)))"
        using open_journal by (simp only: def note_failed if_False)
      show thesis
      proof (cases "journal_document plan (jw_updated ?jw) ?b stage status = None \<or> jw_published ?jw = None")
        case True
        then show thesis by (intro failed [OF grows(2)]) (auto simp: step split: option.split)
      next
        case False
        then obtain committed where "journal_write w n plan it stage status exit_code =
            (?b\<lparr>it_journal_started := True, it_record_identity := committed, it_phase := stage\<rparr>, True)"
          by (auto simp: step)
        then show thesis using open_journal by (intro written [OF grows(2)]) simp_all
      qed
    qed
  qed
qed

lemma journal_write_grows: "item_grows it (fst (journal_write w n plan it stage status exit_code))"
  by (rule journal_write_cases [where it = it and w = w and n = n and plan = plan and stage = stage
        and status = status and exit_code = exit_code])
    (auto simp: journal_fail_def intro: item_grows_trans)

text \<open>A failed write marks the item, and a marked item is never written again.\<close>

lemma journal_write_failed:
  "\<not> snd (journal_write w n plan it stage status exit_code)
     \<longleftrightarrow> it_journal_failed (fst (journal_write w n plan it stage status exit_code))"
  by (rule journal_write_cases [where it = it and w = w and n = n and plan = plan and stage = stage
        and status = status and exit_code = exit_code])
    (simp_all add: journal_fail_def)

lemma journal_write_marked: "it_journal_failed it \<Longrightarrow> \<not> snd (journal_write w n plan it stage status exit_code)"
  using journal_write_grows [of it w n plan stage status exit_code] journal_write_failed
  by (auto simp: item_grows_def)

subsection \<open>How the state may change while a plan executes\<close>

definition op_grows :: "op_state \<Rightarrow> op_state \<Rightarrow> bool" where
  "op_grows a b \<longleftrightarrow> list_all2 item_grows (op_items a) (op_items b) \<and> op_approved_plan b = op_approved_plan a
     \<and> op_collecting b = op_collecting a \<and> op_active b = op_active a"

lemma op_grows_refl [simp]: "op_grows a a"
  by (simp add: op_grows_def list.rel_refl)

lemma op_grows_trans:
  assumes "op_grows a b" and "op_grows b c"
  shows "op_grows a c"
proof -
  have "list_all2 item_grows (op_items a) (op_items b)" "list_all2 item_grows (op_items b) (op_items c)"
    using assms by (simp_all add: op_grows_def)
  then have "list_all2 item_grows (op_items a) (op_items c)"
    by (rule list_all2_trans [rotated]) (rule item_grows_trans)
  then show ?thesis using assms by (simp add: op_grows_def)
qed

lemma set_item_grows: "item_grows (op_items st ! i) it \<Longrightarrow> op_grows st (set_item i it st)"
  by (simp add: op_grows_def set_item_def list_all2_conv_all_nth) (metis item_grows_refl nth_list_update nth_list_update_neq)

lemma set_item_simps [simp]:
  "op_executing (set_item i it st) = op_executing st" "op_approved_state (set_item i it st) = op_approved_state st"
  "op_active (set_item i it st) = op_active st" "op_collecting (set_item i it st) = op_collecting st"
  "op_approved_plan (set_item i it st) = op_approved_plan st" "length (op_items (set_item i it st)) = length (op_items st)"
  "i < length (op_items st) \<Longrightarrow> op_items (set_item i it st) ! i = it"
  by (simp_all add: set_item_def)

lemma op_grows_other [simp]:
  "op_grows st (st\<lparr>op_executing := e\<rparr>)" "op_grows st (st\<lparr>op_approved_state := d\<rparr>)"
  "op_grows st (st\<lparr>op_approved_state := d, op_executing := e\<rparr>)" "op_grows st (st\<lparr>op_source := src\<rparr>)"
  by (simp_all add: op_grows_def list.rel_refl)

lemma journal_current_grows: "op_grows st (fst (journal_current w n stage status exit_code st))"
  "op_executing (fst (journal_current w n stage status exit_code st)) = op_executing st"
  using journal_write_grows
  by (auto simp: journal_current_def case_prod_beta split: option.split intro: set_item_grows)

lemma phase_start_grows: "op_grows st (fst (wpm_operation_phase_start stage w st))"
  "op_executing (fst (wpm_operation_phase_start stage w st)) = op_executing st"
  using journal_current_grows by (auto simp: wpm_operation_phase_start_def split: option.split)

lemma item_grows_complete:
  "length (it_completed it) \<noteq> 16 \<Longrightarrow> item_grows it (it\<lparr>it_completed := it_completed it @ [stage]\<rparr>)"
  by (auto simp: item_grows_def)

lemma phase_finish_grows: "op_grows st (fst (wpm_operation_phase_finish stage n w st))"
  "op_executing (fst (wpm_operation_phase_finish stage n w st)) = op_executing st"
  by (auto simp: wpm_operation_phase_finish_def Let_def journal_current_grows split: option.split
      intro!: op_grows_trans [OF set_item_grows journal_current_grows(1)] item_grows_complete)

lemma retain_input_grows: "op_grows st (fst (retain_input w n st))"
  "op_executing (fst (retain_input w n st)) = op_executing st"
proof -
  have updates: "item_grows it (it\<lparr>it_retained_state := n, it_failed := True\<rparr>)"
    "item_grows it (it\<lparr>it_retained_state := n, it_retained_input := k, it_failed := True\<rparr>)"
    "item_grows it (it\<lparr>it_retained_input := k, it_retained_state := n\<rparr>)" for it n k
    by (simp_all add: item_grows_def)
  show "op_grows st (fst (retain_input w n st))"
    by (auto simp: retain_input_def Let_def updates split: option.split
        intro!: set_item_grows op_grows_trans [OF set_item_grows journal_current_grows(1)])
  show "op_executing (fst (retain_input w n st)) = op_executing st"
    by (auto simp: retain_input_def Let_def journal_current_grows split: option.split)
qed

lemma external_start_grows: "op_grows st (fst (wpm_operation_external_start stage w st))"
  "op_executing (fst (wpm_operation_external_start stage w st)) = op_executing st"
  by (auto simp: wpm_operation_external_start_def phase_start_grows split: option.split
      intro!: op_grows_trans [OF set_item_grows phase_start_grows(1)])

lemma script_result_grows: "op_grows st (fst (wpm_operation_script_result exit_code w st))"
  "op_executing (fst (wpm_operation_script_result exit_code w st)) = op_executing st"
proof -
  have updates: "item_grows it (it\<lparr>it_script_exit := c, it_script_exit_known := True, it_failed := True\<rparr>)" for it c
    by (simp add: item_grows_def)
  show "op_grows st (fst (wpm_operation_script_result exit_code w st))"
    by (auto simp: wpm_operation_script_result_def Let_def updates split: option.split
        intro!: op_grows_trans [OF set_item_grows journal_current_grows(1)]
          op_grows_trans [OF set_item_grows phase_finish_grows(1)])
  show "op_executing (fst (wpm_operation_script_result exit_code w st)) = op_executing st"
    by (auto simp: wpm_operation_script_result_def Let_def journal_current_grows phase_finish_grows
        split: option.split)
qed

lemma completed_grows: "op_grows st (fst (wpm_operation_completed w st))"
  "op_executing (fst (wpm_operation_completed w st)) = op_executing st
     \<or> op_executing (fst (wpm_operation_completed w st)) = None"
  using op_grows_trans [OF journal_current_grows(1) op_grows_other(3)]
  by (auto simp: wpm_operation_completed_def Let_def case_prod_beta journal_current_grows split: option.split)

text \<open>The state in which item \<open>i\<close> has just been taken from the plan.\<close>

definition started_item :: "nat \<Rightarrow> op_state \<Rightarrow> op_state" where
  "started_item i st = (set_item i ((op_items st ! i)\<lparr>it_consumed := True\<rparr>) st)\<lparr>op_executing := Some i\<rparr>"

lemma started_item_grows: "op_grows st (started_item i st)"
  unfolding started_item_def by (rule op_grows_trans [OF set_item_grows op_grows_other(1)]) simp

lemma execute_item_grows: "op_grows (started_item i st) (fst (execute_item i w st))"
  "op_executing (fst (execute_item i w st)) = Some i"
proof -
  let ?written = "fst (journal_current w 0 ''retain-input'' ''in-progress'' None (started_item i st))"
  have "op_grows (started_item i st) ?written" "op_grows ?written (fst (retain_input w 1 ?written))"
    "op_grows (fst (retain_input w 1 ?written))
       (fst (wpm_operation_phase_finish ''retain-input'' 2 w (fst (retain_input w 1 ?written))))"
    by (rule journal_current_grows(1) retain_input_grows(1) phase_finish_grows(1))+
  then show "op_grows (started_item i st) (fst (execute_item i w st))"
    unfolding execute_item_def Let_def case_prod_beta started_item_def [symmetric] by (auto intro: op_grows_trans)
  show "op_executing (fst (execute_item i w st)) = Some i"
    by (simp add: execute_item_def Let_def case_prod_beta journal_current_grows retain_input_grows
        phase_finish_grows)
qed

lemma first_index_Some: "first_index P xs = Some i \<Longrightarrow> i < length xs \<and> P (xs ! i)"
  by (induction xs arbitrary: i) (auto split: if_splits)

text \<open>What an archive call does while a plan executes: nothing, or it consumes one more item.\<close>

lemma archive_grows:
  assumes "\<not> op_collecting st"
  obtains (refused) "fst (wpm_operation_archive action archive old_version source allow_unsigned w st) = st"
  | (started) i where "op_active st" "op_executing st = None" "i < length (op_items st)"
      "\<not> it_consumed (op_items st ! i)"
      "wpm_operation_archive action archive old_version source allow_unsigned w st = execute_item i w st"
  using assms that
  by (fastforce simp: wpm_operation_archive_def Let_def item_requested_def split: option.splits if_splits
      dest: first_index_Some)

subsection \<open>The invariant of the plan\<close>

definition items_ok :: "plan_item list \<Rightarrow> bool" where
  "items_ok items \<longleftrightarrow> length items \<le> PLAN_LIMIT
     \<and> list_all (\<lambda>it. it_recovery_id it \<noteq> [] \<and> length (it_completed it) \<le> 16) items"

definition op_inv :: "((string list \<times> string \<times> nat list) list \<Rightarrow> string \<Rightarrow> string) \<Rightarrow> op_state \<Rightarrow> bool" where
  "op_inv digest st \<longleftrightarrow>
     items_ok (op_items st)
     \<and> (\<forall>i. op_executing st = Some i \<longrightarrow>
            op_active st \<and> \<not> op_collecting st \<and> i < length (op_items st) \<and> it_consumed (op_items st ! i))
     \<and> (op_collecting st \<longrightarrow> list_all (\<lambda>it. \<not> it_consumed it) (op_items st))
     \<and> (op_active st \<and> \<not> op_collecting st \<longrightarrow>
            (\<exists>approved. op_approved_plan st = digest (map plan_material (op_items st)) approved))"

lemma grows_material: "item_grows a b \<Longrightarrow> it_recovery_id a \<noteq> [] \<Longrightarrow> plan_material b = plan_material a"
  by (simp add: item_grows_def plan_material_def)

lemma grows_ok:
  "item_grows a b \<Longrightarrow> it_recovery_id a \<noteq> [] \<and> length (it_completed a) \<le> 16
     \<Longrightarrow> it_recovery_id b \<noteq> [] \<and> length (it_completed b) \<le> 16"
  unfolding item_grows_def by (elim conjE, intro conjI) simp_all

lemma items_ok_grows:
  assumes grows: "list_all2 item_grows xs ys" and ok: "items_ok xs"
  shows "items_ok ys" "map plan_material ys = map plan_material xs"
proof -
  note len = list_all2_lengthD [OF grows]
  have each: "item_grows (xs ! i) (ys ! i)" "it_recovery_id (xs ! i) \<noteq> [] \<and> length (it_completed (xs ! i)) \<le> 16"
    if "i < length ys" for i
    using grows ok len that unfolding list_all2_conv_all_nth items_ok_def list_all_length by simp_all
  show "items_ok ys"
    using ok len grows_ok [OF each] by (simp add: items_ok_def list_all_length)
  show "map plan_material ys = map plan_material xs"
    using len each grows_material by (intro nth_equalityI) (simp_all del: map_eq_conv)
qed

lemma op_inv_grows:
  assumes inv: "op_inv digest a" and grows: "op_grows a b" and stage: "\<not> op_collecting a"
    and executing: "op_executing b = op_executing a \<or> op_executing b = None"
  shows "op_inv digest b"
proof -
  have items: "list_all2 item_grows (op_items a) (op_items b)" using grows by (simp add: op_grows_def)
  have ok: "items_ok (op_items b)" "map plan_material (op_items b) = map plan_material (op_items a)"
    using items_ok_grows [OF items] inv unfolding op_inv_def by blast+
  have "it_consumed (op_items b ! i)" if "i < length (op_items a)" "it_consumed (op_items a ! i)" for i
    using list_all2_nthD [OF items that(1)] that(2) by (simp add: item_grows_def)
  note consumed = this
  have fields: "op_active b = op_active a" "\<not> op_collecting b" "op_approved_plan b = op_approved_plan a"
    using grows stage by (simp_all add: op_grows_def)
  show ?thesis unfolding op_inv_def
  proof (intro conjI allI impI)
    fix i assume "op_executing b = Some i"
    then have "op_executing a = Some i" using executing by simp
    then have "op_active a" "i < length (op_items a)" "it_consumed (op_items a ! i)"
      using inv unfolding op_inv_def by blast+
    then show "op_active b" "\<not> op_collecting b" "i < length (op_items b)" "it_consumed (op_items b ! i)"
      using fields list_all2_lengthD [OF items] consumed by simp_all
  next
    assume "op_active b \<and> \<not> op_collecting b"
    then show "\<exists>approved. op_approved_plan b = digest (map plan_material (op_items b)) approved"
      unfolding ok(2) fields using inv stage fields unfolding op_inv_def by blast
  qed (use ok fields in simp_all)
qed

lemma op_inv_executing: "op_inv digest st \<Longrightarrow> op_executing st \<noteq> None \<Longrightarrow> op_active st \<and> \<not> op_collecting st"
  by (auto simp: op_inv_def)

lemma idle_while_collecting:
  assumes "op_inv digest st" and "op_collecting st"
  shows "op_executing st = None" and "current_item st = None"
  using assms by (auto simp: op_inv_def current_item_def split: option.split)

lemma execute_item_inv:
  assumes inv: "op_inv digest st" and "op_active st" and stage: "\<not> op_collecting st" and i: "i < length (op_items st)"
  shows "op_inv digest (fst (execute_item i w st))"
proof -
  have "op_inv digest (set_item i ((op_items st ! i)\<lparr>it_consumed := True\<rparr>) st)"
    by (rule op_inv_grows [OF inv set_item_grows stage]) simp_all
  then have "op_inv digest (started_item i st)"
    using i stage \<open>op_active st\<close> by (auto simp: op_inv_def started_item_def)
  then show ?thesis
    by (rule op_inv_grows [OF _ execute_item_grows(1)])
      (simp_all add: started_item_def stage execute_item_grows(2))
qed

lemma close_inv: "op_inv digest (wpm_operation_close w st)" "op_inv digest (wpm_operation_begin yes w st)"
  by (simp_all add: op_inv_def wpm_operation_close_def wpm_operation_begin_def Let_def items_ok_def)

lemma confirm_inv:
  assumes inv: "op_inv digest st" and w: "world_ok digest w"
  shows "op_inv digest (fst (wpm_operation_confirm w st))"
proof (cases "op_active st \<and> op_collecting st")
  case True
  then have "op_executing st = None" using idle_while_collecting inv by blast
  with True inv w show ?thesis
    by (auto simp: wpm_operation_confirm_def op_inv_def world_ok_def Let_def split: option.split)
qed (use inv in \<open>auto simp: wpm_operation_confirm_def\<close>)

lemma collect_item_inv:
  assumes inv: "op_inv digest st" and collecting: "op_collecting st" and w: "world_ok digest w"
  shows "op_inv digest (fst (collect_item action full fingerprint old_version source allow_unsigned w st))"
proof -
  have "op_executing st = None" by (rule idle_while_collecting(1) [OF inv collecting])
  moreover have "op_inv digest (st\<lparr>op_items := op_items st @ [it]\<rparr>)"
    if "length (op_items st) < PLAN_LIMIT" "it_recovery_id it \<noteq> []" "it_completed it = []" "\<not> it_consumed it" for it
    using inv collecting that \<open>op_executing st = None\<close> by (simp add: op_inv_def items_ok_def)
  ultimately show ?thesis
    using inv w by (simp add: collect_item_def world_ok_def new_item_def split: option.split)
qed

lemma archive_inv:
  assumes inv: "op_inv digest st" and w: "world_ok digest w"
  shows "op_inv digest (fst (wpm_operation_archive action archive old_version source allow_unsigned w st))"
proof (cases "op_collecting st")
  case True
  with inv w show ?thesis
    by (simp add: wpm_operation_archive_def collect_item_inv Let_def split: option.split)
next
  case False
  then show ?thesis
    by (rule archive_grows [of st action archive old_version source allow_unsigned w])
      (simp_all add: inv False execute_item_inv)
qed

text \<open>The calls that only advance the executing item.\<close>

fun advancing :: "op_call \<Rightarrow> bool" where
  "advancing (Call_phase_start stage) = True"
| "advancing (Call_phase_finish stage) = True"
| "advancing (Call_external_start stage) = True"
| "advancing (Call_script_result exit_code) = True"
| "advancing Call_completed = True"
| "advancing _ = False"

lemma advancing_grows:
  "advancing c \<Longrightarrow> op_grows st (op_call_step c w st) \<and>
     (op_executing (op_call_step c w st) = op_executing st \<or> op_executing (op_call_step c w st) = None)"
  using completed_grows
  by (cases c) (simp_all add: phase_start_grows phase_finish_grows external_start_grows script_result_grows)

lemma idle_unchanged: "op_executing st = None \<Longrightarrow> advancing c \<Longrightarrow> op_call_step c w st = st"
  by (cases c) (simp_all add: current_item_def wpm_operation_phase_start_def wpm_operation_phase_finish_def
      wpm_operation_external_start_def wpm_operation_script_result_def wpm_operation_completed_def)

lemma op_inv_step:
  assumes inv: "op_inv digest st" and w: "world_ok digest w"
  shows "op_inv digest (op_call_step c w st)"
proof (cases "advancing c")
  case True
  show ?thesis
  proof (cases "op_collecting st")
    case True
    then show ?thesis using idle_unchanged [OF idle_while_collecting(1) [OF inv True] \<open>advancing c\<close>] inv by simp
  next
    case False
    then show ?thesis using op_inv_grows [OF inv _ False] advancing_grows [OF True] by blast
  qed
next
  case False
  then show ?thesis using inv w
    by (cases c) (simp_all add: close_inv confirm_inv archive_inv, simp add: wpm_operation_set_source_def op_inv_def)
qed

lemma op_inv_reachable: "op_reachable digest st \<Longrightarrow> op_inv digest st"
proof (induction rule: op_reachable.induct)
  case reach_start
  then show ?case by (simp add: op_inv_def op_start_def items_ok_def)
qed (rule op_inv_step)
end
