(* ===== verification/Operation_Plan.thy ===== *)
theory Operation_Plan
  imports Operation
begin

text \<open>
  What the plan of \<open>wpm/operation.c\<close> guarantees over whole sequences of calls: the approval binds the
  items that run, an item runs at most once, and a journal that could not be written stops the plan.
\<close>

subsection \<open>Sequences of calls\<close>

primrec op_run :: "(op_call \<times> op_world) list \<Rightarrow> op_state \<Rightarrow> op_state" where
  "op_run [] st = st"
| "op_run (cw # calls) st = op_run calls (op_call_step (fst cw) (snd cw) st)"

text \<open>The calls at which an item starts to execute.\<close>

primrec op_starts :: "(op_call \<times> op_world) list \<Rightarrow> op_state \<Rightarrow> nat" where
  "op_starts [] st = 0"
| "op_starts (cw # calls) st =
     (let after = op_call_step (fst cw) (snd cw) st in
      (if op_executing st = None \<and> op_executing after \<noteq> None then 1 else 0) + op_starts calls after)"

fun plan_ends :: "op_call \<Rightarrow> bool" where
  "plan_ends Call_close = True"
| "plan_ends (Call_begin yes) = True"
| "plan_ends _ = False"

definition pending :: "op_state \<Rightarrow> nat" where
  "pending st = length (filter (\<lambda>it. \<not> it_consumed it) (op_items st))"

lemma pending_grows: "op_grows a b \<Longrightarrow> pending b \<le> pending a"
proof -
  have "list_all2 item_grows xs ys
      \<Longrightarrow> length (filter (\<lambda>it. \<not> it_consumed it) ys) \<le> length (filter (\<lambda>it. \<not> it_consumed it) xs)" for xs ys
  proof (induction rule: list_all2_induct)
    case (Cons x xs y ys)
    have "it_consumed x \<Longrightarrow> it_consumed y" using Cons.hyps(1) by (simp add: item_grows_def)
    with Cons.IH show ?case by auto
  qed simp
  then show "op_grows a b \<Longrightarrow> pending b \<le> pending a" by (simp add: op_grows_def pending_def)
qed

lemma filter_update_less:
  "i < length xs \<Longrightarrow> P (xs ! i) \<Longrightarrow> \<not> P y \<Longrightarrow> length (filter P (xs[i := y])) < length (filter P xs)"
  by (induction xs arbitrary: i) (auto simp: nth_Cons split: nat.splits)

lemma pending_started:
  "i < length (op_items st) \<Longrightarrow> \<not> it_consumed (op_items st ! i) \<Longrightarrow> pending (started_item i st) < pending st"
  by (simp add: pending_def started_item_def set_item_def filter_update_less)

text \<open>One call while a plan executes.\<close>

lemma executing_step:
  assumes executing: "\<not> op_collecting st" and c: "\<not> plan_ends c"
  shows "\<not> op_collecting (op_call_step c w st)"
    and "(if op_executing st = None \<and> op_executing (op_call_step c w st) \<noteq> None then 1 else 0)
           + pending (op_call_step c w st) \<le> pending st"
proof -
  let ?after = "op_call_step c w st"
  have "\<not> op_collecting ?after \<and>
    (if op_executing st = None \<and> op_executing ?after \<noteq> None then 1 else 0) + pending ?after \<le> pending st"
  proof (cases "advancing c")
    case True
    then show ?thesis
      using advancing_grows [OF True, of st w] idle_unchanged [of st c w] executing pending_grows [of st ?after]
      by (cases "op_executing st") (auto simp: op_grows_def)
  next
    case False
    show ?thesis
    proof (cases c)
      case (Call_archive action archive old_version source allow_unsigned)
      show ?thesis
      proof (rule archive_grows [OF executing, of action archive old_version source allow_unsigned w])
        fix i assume i: "i < length (op_items st)" "\<not> it_consumed (op_items st ! i)"
          and step: "wpm_operation_archive action archive old_version source allow_unsigned w st = execute_item i w st"
        have "pending ?after \<le> pending (started_item i st)"
          using pending_grows [OF execute_item_grows(1)] by (simp add: Call_archive step)
        moreover have "\<not> op_collecting ?after"
          using execute_item_grows(1) [of i st w] executing
          by (simp add: Call_archive step op_grows_def started_item_def)
        ultimately show ?thesis using pending_started [OF i] by simp
      qed (use executing Call_archive in auto)
    qed (use executing c False in \<open>auto simp: wpm_operation_set_source_def wpm_operation_confirm_def pending_def\<close>)
  qed
  then show "\<not> op_collecting ?after"
    "(if op_executing st = None \<and> op_executing ?after \<noteq> None then 1 else 0) + pending ?after \<le> pending st"
    by simp_all
qed

lemma starts_bounded:
  "\<not> op_collecting st \<Longrightarrow> list_all (\<lambda>cw. \<not> plan_ends (fst cw)) calls
     \<Longrightarrow> op_starts calls st + pending (op_run calls st) \<le> pending st"
proof (induction calls arbitrary: st)
  case (Cons cw calls)
  then have c: "\<not> plan_ends (fst cw)" by simp
  note step = executing_step [OF Cons.prems(1) c, of "snd cw"]
  then show ?case using Cons.IH [OF step(1)] Cons.prems(2) by (simp add: Let_def)
qed simp

text \<open>C12: a plan runs out. In every sequence of calls that neither begins a new plan nor closes this one,
  the number of items that start to execute, together with the items that are still left, is at most
  the number of items left at the start, and a reachable plan never has more than 256: no approved item
  is executed twice, and a front end that keeps asking for items stops after at most 256 of them.\<close>

theorem plan_runs_out:
  assumes "op_reachable digest st" and "\<not> op_collecting st" and "list_all (\<lambda>cw. \<not> plan_ends (fst cw)) calls"
  shows "op_starts calls st + pending (op_run calls st) \<le> pending st \<and> pending st \<le> 256"
proof
  show "op_starts calls st + pending (op_run calls st) \<le> pending st" by (rule starts_bounded [OF assms(2,3)])
  have "pending st \<le> length (op_items st)" by (simp add: pending_def)
  then show "pending st \<le> 256"
    using op_inv_reachable [OF assms(1)] by (simp add: op_inv_def items_ok_def PLAN_LIMIT_def)
qed

subsection \<open>The approval binds what runs\<close>

text \<open>C11: the invariant of the plan. Whatever is called in whatever order, the plan has at most 256 items
  with a nonempty operation id and at most 16 completed phases each; while it is being collected nothing
  has run; an item executes only in an active, approved plan, is one of its items and is marked as
  consumed; and once collected, the plan digest that the records carry is the digest of exactly the items
  the plan still has, so no item can be added, dropped or altered after the approval.\<close>

theorem plan_invariant:
  assumes "op_reachable digest st"
  shows "length (op_items st) \<le> 256
    \<and> (\<forall>it \<in> set (op_items st). it_recovery_id it \<noteq> [] \<and> length (it_completed it) \<le> 16)
    \<and> (op_collecting st \<longrightarrow> op_executing st = None \<and> (\<forall>it \<in> set (op_items st). \<not> it_consumed it))
    \<and> (\<forall>i. op_executing st = Some i \<longrightarrow>
          op_active st \<and> \<not> op_collecting st \<and> i < length (op_items st) \<and> it_consumed (op_items st ! i))
    \<and> (op_active st \<and> \<not> op_collecting st \<longrightarrow>
          (\<exists>approved. op_approved_plan st = digest (map plan_material (op_items st)) approved))"
proof -
  note inv = op_inv_reachable [OF assms]
  then have "op_collecting st \<longrightarrow> op_executing st = None" using idle_while_collecting(1) by blast
  with inv show ?thesis by (simp add: op_inv_def items_ok_def PLAN_LIMIT_def list_all_iff)
qed

text \<open>C13: before a script runs under a plan, one of the approved items is executing and marked consumed,
  its archive still has the approved file identity and the approved digest, the controlled state is the
  approved one, scripts are permitted by the mode of the process, the recovery record could be written,
  and the plan digest is that of the items of the plan.\<close>

theorem script_needs_approved_item:
  assumes "op_reachable digest st" and "op_active st" and "wpm_operation_before_script w st"
  shows "\<exists>i approved. op_executing st = Some i \<and> i < length (op_items st) \<and> it_consumed (op_items st ! i)
    \<and> w_file_identity w (it_archive (op_items st ! i)) = Some (it_file_identity (op_items st ! i))
    \<and> w_hash w (it_archive (op_items st ! i)) = Some (it_fingerprint (op_items st ! i))
    \<and> w_state w 0 = Some (op_approved_state st) \<and> wpm_require_capability WPM_CAP_SCRIPT (w_capabilities w)
    \<and> \<not> it_journal_failed (op_items st ! i)
    \<and> op_approved_plan st = digest (map plan_material (op_items st)) approved"
proof -
  obtain i where i: "op_executing st = Some i"
    using assms(2,3) by (auto simp: wpm_operation_before_script_def current_item_def split: option.splits if_splits)
  have "\<exists>approved. op_approved_plan st = digest (map plan_material (op_items st)) approved"
    "i < length (op_items st)" "it_consumed (op_items st ! i)"
    using op_inv_reachable [OF assms(1)] i unfolding op_inv_def by blast+
  then show ?thesis
    using assms(2,3) i
    by (auto simp: wpm_operation_before_script_def current_item_def item_unchanged_def split: if_splits)
qed

subsection \<open>A lost journal stops the plan\<close>

definition op_blocked :: "op_state \<Rightarrow> bool" where
  "op_blocked st \<longleftrightarrow> op_active st \<and> \<not> op_collecting st
     \<and> (case op_executing st of
           None \<Rightarrow> False
         | Some i \<Rightarrow> i < length (op_items st) \<and> it_journal_failed (op_items st ! i))"

lemma blocked_grows:
  "op_blocked a \<Longrightarrow> op_grows a b \<Longrightarrow> op_executing b = op_executing a \<Longrightarrow> op_blocked b"
proof -
  assume a: "op_blocked a" "op_grows a b" "op_executing b = op_executing a"
  then obtain i where i: "op_executing a = Some i" "i < length (op_items a)" "it_journal_failed (op_items a ! i)"
    by (auto simp: op_blocked_def split: option.splits)
  have items: "list_all2 item_grows (op_items a) (op_items b)" using a(2) by (simp add: op_grows_def)
  have "it_journal_failed (op_items b ! i)"
    using list_all2_nthD [OF items i(2)] i(3) by (simp add: item_grows_def)
  then show "op_blocked b"
    using a i list_all2_lengthD [OF items] by (simp add: op_blocked_def op_grows_def)
qed

lemma blocked_journal:
  "op_blocked st \<Longrightarrow> \<not> snd (journal_current w n stage status exit_code st)"
  using journal_write_marked
  by (auto simp: op_blocked_def journal_current_def case_prod_beta split: option.splits)

lemma blocked_phase_start: "op_blocked st \<Longrightarrow> \<not> snd (wpm_operation_phase_start stage w st)"
  using blocked_journal by (auto simp: wpm_operation_phase_start_def op_blocked_def split: option.split)

lemma blocked_step:
  assumes blocked: "op_blocked st" and c: "\<not> plan_ends c"
  shows "op_blocked (op_call_step c w st)"
proof -
  have st: "op_active st" "\<not> op_collecting st" "op_executing st \<noteq> None"
    using blocked by (auto simp: op_blocked_def split: option.splits)
  have "op_executing (op_call_step c w st) = op_executing st" if "advancing c"
    using that blocked_journal [OF blocked] st
    by (cases c) (simp_all add: phase_start_grows phase_finish_grows external_start_grows script_result_grows
        wpm_operation_completed_def Let_def case_prod_beta journal_current_grows split: option.split)
  then have "op_blocked (op_call_step c w st)" if "advancing c"
    using blocked_grows [OF blocked] advancing_grows that by blast
  moreover have "op_blocked (op_call_step c w st)" if "\<not> advancing c"
    using that c st blocked
    by (cases c) (auto simp: wpm_operation_set_source_def wpm_operation_confirm_def wpm_operation_archive_def
        op_blocked_def)
  ultimately show ?thesis by blast
qed

lemma blocked_run:
  "op_blocked st \<Longrightarrow> list_all (\<lambda>cw. \<not> plan_ends (fst cw)) calls \<Longrightarrow> op_blocked (op_run calls st)"
  by (induction calls arbitrary: st) (simp_all add: blocked_step)

lemma blocked_refuses:
  assumes blocked: "op_blocked st"
  shows "\<not> wpm_operation_before_script w st" and "\<not> snd (wpm_operation_phase_finish stage n w st)"
    and "\<not> snd (wpm_operation_external_start stage w st)" and "\<not> snd (wpm_operation_script_result exit_code w st)"
    and "\<not> snd (wpm_operation_completed w st)"
    and "\<not> snd (wpm_operation_archive action archive old_version source allow_unsigned w st)"
    and "fst (wpm_operation_input input w st) \<noteq> 1" and "wpm_operation_store_input destination w st = -1"
proof -
  obtain i where i: "op_active st" "\<not> op_collecting st" "op_executing st = Some i" "i < length (op_items st)"
    "it_journal_failed (op_items st ! i)" using blocked by (auto simp: op_blocked_def split: option.splits)
  have set: "op_blocked (set_item i it st)" if "it_journal_failed it" for it
    using i that by (simp add: op_blocked_def)
  note updated = set [THEN blocked_journal] set [THEN blocked_phase_start]
  have finish: "\<not> snd (wpm_operation_phase_finish stage n w st)"
    if "op_blocked st" "op_executing st = Some i" "i < length (op_items st)" for st stage n
  proof -
    have "op_blocked (set_item i ((op_items st ! i)\<lparr>it_completed := c\<rparr>) st)" for c
      using that by (simp add: op_blocked_def)
    moreover have "op_active st" using that(1) by (simp add: op_blocked_def)
    ultimately show ?thesis using that(2) blocked_journal
      by (simp add: wpm_operation_phase_finish_def Let_def)
  qed
  then show "\<not> snd (wpm_operation_phase_finish stage n w st)" using blocked i by blast
  show "\<not> wpm_operation_before_script w st" using i by (simp add: wpm_operation_before_script_def current_item_def)
  show "\<not> snd (wpm_operation_external_start stage w st)"
    using i updated by (simp add: wpm_operation_external_start_def)
  show "\<not> snd (wpm_operation_script_result exit_code w st)"
    using i updated finish [OF set] by (simp add: wpm_operation_script_result_def Let_def)
  show "\<not> snd (wpm_operation_completed w st)"
    using i blocked_journal [OF blocked]
    by (simp add: wpm_operation_completed_def current_item_def Let_def case_prod_beta)
  show "\<not> snd (wpm_operation_archive action archive old_version source allow_unsigned w st)"
    using i by (simp add: wpm_operation_archive_def)
  show "fst (wpm_operation_input input w st) \<noteq> 1"
    using i by (simp add: wpm_operation_input_def current_item_def split: option.split)
  show "wpm_operation_store_input destination w st = -1"
    using i by (simp add: wpm_operation_store_input_def current_item_def split: option.split)
qed

lemma failed_write_blocks:
  assumes inv: "op_inv digest st" and i: "op_executing st = Some i"
    and failed: "\<not> snd (journal_current w n stage status exit_code st)"
  shows "op_blocked (fst (journal_current w n stage status exit_code st))"
proof -
  have "op_active st" "\<not> op_collecting st" "i < length (op_items st)"
    using inv i unfolding op_inv_def by blast+
  with i failed journal_write_failed show ?thesis
    by (simp add: op_blocked_def journal_current_def case_prod_beta)
qed

text \<open>C14: when a recovery record could not be written for the executing item, nothing goes on. After the
  failed write, and after any later calls that neither begin a plan nor close this one, the item is
  still the one that executes, and every call that would lead to a mutation refuses: no script may run, no
  phase starts or finishes, no external change is announced, no result is accepted, the item is not
  completed, no other item starts, and the approved input is neither handed out nor stored.\<close>

theorem lost_journal_stops_plan:
  assumes "op_reachable digest st" and "op_executing st = Some i"
    and "\<not> snd (journal_current w n stage status exit_code st)"
    and "list_all (\<lambda>cw. \<not> plan_ends (fst cw)) calls"
    and "after = op_run calls (fst (journal_current w n stage status exit_code st))"
  shows "op_executing after \<noteq> None
    \<and> \<not> wpm_operation_before_script w' after \<and> \<not> snd (wpm_operation_phase_start name w' after)
    \<and> \<not> snd (wpm_operation_phase_finish name m w' after) \<and> \<not> snd (wpm_operation_external_start name w' after)
    \<and> \<not> snd (wpm_operation_script_result result w' after) \<and> \<not> snd (wpm_operation_completed w' after)
    \<and> \<not> snd (wpm_operation_archive action archive old_version source allow_unsigned w' after)
    \<and> fst (wpm_operation_input input w' after) \<noteq> 1 \<and> wpm_operation_store_input destination w' after = -1"
proof -
  have "op_blocked after"
    unfolding assms(5)
    by (rule blocked_run [OF failed_write_blocks [OF op_inv_reachable [OF assms(1)] assms(2,3)] assms(4)])
  then show ?thesis
    using blocked_refuses blocked_phase_start by (auto simp: op_blocked_def split: option.splits)
qed

subsection \<open>What a started item has passed\<close>

lemma journal_write_keeps:
  "it_completed (fst (journal_write w n plan it stage status exit_code)) = it_completed it"
  "it_retained_state (fst (journal_write w n plan it stage status exit_code)) = it_retained_state it"
  "it_retained_input (fst (journal_write w n plan it stage status exit_code)) = it_retained_input it"
proof -
  have kept: "it_completed (note_exit exit_code a) = it_completed a" "it_completed (note_identity jw a) = it_completed a"
    "it_retained_state (note_exit exit_code a) = it_retained_state a"
    "it_retained_state (note_identity jw a) = it_retained_state a"
    "it_retained_input (note_exit exit_code a) = it_retained_input a"
    "it_retained_input (note_identity jw a) = it_retained_input a" for jw a
    by (simp_all add: note_exit_def note_identity_def split: option.split)
  show "it_completed (fst (journal_write w n plan it stage status exit_code)) = it_completed it"
    "it_retained_state (fst (journal_write w n plan it stage status exit_code)) = it_retained_state it"
    "it_retained_input (fst (journal_write w n plan it stage status exit_code)) = it_retained_input it"
    by (simp_all add: journal_write_def journal_fail_def Let_def kept split: option.split)
qed

lemma journal_current_item:
  "op_executing st = Some i \<Longrightarrow> i < length (op_items st) \<Longrightarrow>
     it_completed (op_items (fst (journal_current w n stage status exit_code st)) ! i) = it_completed (op_items st ! i)
     \<and> it_retained_state (op_items (fst (journal_current w n stage status exit_code st)) ! i)
         = it_retained_state (op_items st ! i)
     \<and> it_retained_input (op_items (fst (journal_current w n stage status exit_code st)) ! i)
         = it_retained_input (op_items st ! i)
     \<and> it_fingerprint (op_items (fst (journal_current w n stage status exit_code st)) ! i)
         = it_fingerprint (op_items st ! i)"
  using journal_write_grows by (simp add: journal_current_def case_prod_beta journal_write_keeps item_grows_def)

lemma journal_current_marks:
  "op_executing st = Some i \<Longrightarrow> i < length (op_items st) \<Longrightarrow>
     it_journal_failed (op_items (fst (journal_current w n stage status exit_code st)) ! i)
       \<longleftrightarrow> \<not> snd (journal_current w n stage status exit_code st)"
  by (simp add: journal_current_def case_prod_beta journal_write_failed)

lemma phase_finish_done:
  assumes "snd (wpm_operation_phase_finish stage n w st)" and "op_active st" and i: "op_executing st = Some i"
    and len: "i < length (op_items st)" and after: "after = fst (wpm_operation_phase_finish stage n w st)"
  shows "it_completed (op_items after ! i) = it_completed (op_items st ! i) @ [stage]
    \<and> it_retained_state (op_items after ! i) = it_retained_state (op_items st ! i)
    \<and> it_retained_input (op_items after ! i) = it_retained_input (op_items st ! i)
    \<and> \<not> it_journal_failed (op_items after ! i)"
  using assms journal_current_item journal_current_marks
  by (simp add: wpm_operation_phase_finish_def Let_def split: if_splits)

lemma retain_input_done:
  assumes "snd (retain_input w n st)" and i: "op_executing st = Some i" and "i < length (op_items st)"
    and "after = fst (retain_input w n st)"
  shows "it_retained_state (op_items after ! i) = 2 \<and> it_retained_input (op_items after ! i)
    \<and> it_completed (op_items after ! i) = it_completed (op_items st ! i)
    \<and> copy_complete (w_retain w) (it_fingerprint (op_items st ! i))
    \<and> cw_digest_again (w_retain w) = Some (it_fingerprint (op_items st ! i))"
  using assms by (simp add: retain_input_def Let_def split: if_splits)

lemma execute_item_done:
  assumes ok: "snd (execute_item i w st)" and active: "op_active st" and i: "i < length (op_items st)"
    and after: "after = fst (execute_item i w st)"
  shows "it_retained_state (op_items after ! i) = 2 \<and> it_retained_input (op_items after ! i)
    \<and> it_completed (op_items after ! i) = it_completed (op_items st ! i) @ [''retain-input'']
    \<and> copy_complete (w_retain w) (it_fingerprint (op_items st ! i))
    \<and> cw_digest_again (w_retain w) = Some (it_fingerprint (op_items st ! i))
    \<and> \<not> it_journal_failed (op_items after ! i)"
proof -
  define a where "a = fst (journal_current w 0 ''retain-input'' ''in-progress'' None (started_item i st))"
  define b where "b = fst (retain_input w 1 a)"
  have start: "op_executing (started_item i st) = Some i" "i < length (op_items (started_item i st))"
    "op_active (started_item i st)" "op_items (started_item i st) ! i = (op_items st ! i)\<lparr>it_consumed := True\<rparr>"
    using i active by (simp_all add: started_item_def)
  have grown: "op_active y = op_active x \<and> length (op_items y) = length (op_items x)" if "op_grows x y" for x y
    using that list_all2_lengthD [of item_grows "op_items x" "op_items y"] by (simp add: op_grows_def)
  have "op_grows (started_item i st) a" "op_grows a b"
    unfolding a_def b_def by (rule journal_current_grows(1) retain_input_grows(1))+
  then have a: "op_executing a = Some i" "op_active a" "i < length (op_items a)"
    and b: "op_executing b = Some i" "op_active b" "i < length (op_items b)"
    using start grown by (simp_all add: a_def journal_current_grows(2) b_def retain_input_grows(2))
  have parts: "snd (retain_input w 1 a)" "snd (wpm_operation_phase_finish ''retain-input'' 2 w b)"
    "after = fst (wpm_operation_phase_finish ''retain-input'' 2 w b)"
    using ok after
    by (auto simp: execute_item_def Let_def case_prod_beta started_item_def [symmetric] a_def b_def split: if_splits)
  show ?thesis
    using journal_current_item [OF start(1,2), of w 0 "''retain-input''" "''in-progress''" None, folded a_def]
      retain_input_done [OF parts(1) a(1,3) b_def] phase_finish_done [OF parts(2) b(2,1,3) parts(3)]
    by (simp add: start(4))
qed

text \<open>An archive call that is accepted while a plan executes starts one of the approved items: the item
  was not consumed and has the requested operation, path, source, old version, digest and file
  identity; the controlled state is the approved one; and the input has been copied in full into the
  recovery directory, with the approved digest both when it was copied and when it was opened again,
  before the first phase counts as completed and its record has been written.\<close>

theorem started_item_contract:
  assumes "op_active st" and "\<not> op_collecting st"
    and "wpm_operation_archive action archive old_version source allow_unsigned w st = (after, True)"
  shows "\<exists>i full fingerprint. op_executing st = None \<and> op_executing after = Some i \<and> i < length (op_items st)
    \<and> w_hash w full = Some fingerprint \<and> w_state w 0 = Some (op_approved_state st)
    \<and> item_requested action full fingerprint old_version
        (if op_source st = [] then source else Some (op_source st)) w (op_items st ! i)
    \<and> it_retained_state (op_items after ! i) = 2 \<and> it_retained_input (op_items after ! i)
    \<and> copy_complete (w_retain w) fingerprint \<and> cw_digest_again (w_retain w) = Some fingerprint
    \<and> it_completed (op_items after ! i) = it_completed (op_items st ! i) @ [''retain-input'']
    \<and> \<not> it_journal_failed (op_items after ! i)"
proof -
  from assms obtain i full fingerprint where x: "op_executing st = None" "w_hash w full = Some fingerprint"
    "w_state w 0 = Some (op_approved_state st)"
    "first_index (item_requested action full fingerprint old_version
        (if op_source st = [] then source else Some (op_source st)) w) (op_items st) = Some i"
    "execute_item i w st = (after, True)"
    by (auto simp: wpm_operation_archive_def Let_def split: option.splits if_splits)
  then have after: "snd (execute_item i w st)" "after = fst (execute_item i w st)" by simp_all
  have i: "i < length (op_items st)" and wanted: "item_requested action full fingerprint old_version
      (if op_source st = [] then source else Some (op_source st)) w (op_items st ! i)"
    using first_index_Some [OF x(4)] by blast+
  then have "it_fingerprint (op_items st ! i) = fingerprint" by (simp add: item_requested_def)
  with execute_item_done [OF after(1) assms(1) i after(2)] execute_item_grows(2) [of i w st] x i wanted after(2)
  show ?thesis by blast
qed
end
