(* ===== verification/Operation_Sample.thy ===== *)
theory Operation_Sample
  imports Operation_Plan
begin

text \<open>
  A plan with one item, carried through collection, approval and the start of the item, once with a
  journal that can be written and once without: the concrete inputs of the properties of the plan.
\<close>

definition sample_archive :: string where
  "sample_archive = ''C:'' @ BSLASH # ''demo.zip''"

definition sample_root :: string where
  "sample_root = ''C:'' @ BSLASH # ''data''"

definition sample_copy :: copy_world where
  "sample_copy = \<lparr>cw_directory = True, cw_created = True, cw_source_size = Some 5,
     cw_reads = [Some (3, True), Some (2, True), Some (0, True)], cw_digest = Some (replicate 64 (CHR ''a'')),
     cw_committed = True, cw_reopened = True, cw_same = True, cw_digest_again = Some (replicate 64 (CHR ''a''))\<rparr>"

definition sample_journal :: "bool \<Rightarrow> journal_world" where
  "sample_journal directory = \<lparr>jw_directory = directory, jw_random = replicate 32 (CHR ''b''),
     jw_created = ''2026-02-28T10:20:30.000Z'', jw_final_free = True, jw_existing = Some [4, 5, 6],
     jw_updated = sample_time, jw_published = Some [4, 5, 6]\<rparr>"

definition sample_world :: "bool \<Rightarrow> op_world" where
  "sample_world directory = \<lparr>w_capabilities = all_capabilities, w_journal = (\<lambda>n. sample_journal directory),
     w_state = (\<lambda>n. Some (replicate 64 (CHR ''d''))), w_root = Some sample_root,
     w_random = replicate 32 (CHR ''b''), w_full = Some, w_hash = (\<lambda>p. Some (replicate 64 (CHR ''a''))),
     w_file_identity = (\<lambda>p. Some [1, 2, 3]), w_inspect = (\<lambda>p. Some (it_identity sample_item)),
     w_validate = (\<lambda>p unsigned. Some ''unsigned''), w_open_input = True,
     w_plan_digest = (\<lambda>material approved. replicate 64 (CHR ''c'')), w_answer = Some ''y'',
     w_retain = sample_copy, w_store = sample_copy\<rparr>"

abbreviation sample_digest :: "(string list \<times> string \<times> nat list) list \<Rightarrow> string \<Rightarrow> string" where
  "sample_digest \<equiv> \<lambda>material approved. replicate 64 (CHR ''c'')"

definition sample_request :: op_call where
  "sample_request = Call_archive ''install'' sample_archive None (Some ''https://example.org'') False"

definition sample_plan :: op_state where
  "sample_plan = op_run [(Call_begin False, sample_world True), (sample_request, sample_world True),
     (Call_confirm, sample_world True)] op_start"

definition sample_new :: plan_item where
  "sample_new = new_item ''install'' sample_archive (replicate 64 (CHR ''a'')) None
     (Some ''https://example.org'') (it_identity sample_item) ''unsigned'' (replicate 32 (CHR ''b''))
     (sample_root @ BSLASH # ''recovery'' @ BSLASH # replicate 32 (CHR ''b'') @ BSLASH # ''input.zip'') [1, 2, 3]"

lemma sample_world_ok: "world_ok sample_digest (sample_world directory)"
  by (simp add: world_ok_def sample_world_def)

lemma reachable_run:
  "op_reachable digest st \<Longrightarrow> list_all (\<lambda>cw. world_ok digest (snd cw)) calls \<Longrightarrow> op_reachable digest (op_run calls st)"
  by (induction calls arbitrary: st) (auto intro: reach_step)

lemma sample_full_path:
  "length p < 4096 \<Longrightarrow> p \<noteq> [] \<Longrightarrow> full_path_of (sample_world directory) p = Some p"
  by (simp add: full_path_of_def sample_world_def PLAN_PATH_def)

lemma sample_recovery_path: "plan_recovery_path (sample_world directory) = Some (it_retained sample_new)"
proof -
  have "w_root (sample_world directory) = Some sample_root" "w_random (sample_world directory) = replicate 32 (CHR ''b'')"
    by (simp_all add: sample_world_def)
  then show ?thesis
    by (simp add: plan_recovery_path_def sample_full_path sample_root_def sample_new_def new_item_def PLAN_PATH_def)
qed

lemma sample_answer: "answer_yes (w_answer (sample_world directory))"
  by (simp add: answer_yes_def sample_world_def line_break_def strieq_def)

lemma sample_plan_state:
  "sample_plan = op_start\<lparr>op_items := [sample_new], op_active := True,
     op_approved_state := replicate 64 (CHR ''d''), op_approved_plan := replicate 64 (CHR ''c'')\<rparr>"
proof -
  let ?w = "sample_world True"
  have start: "op_call_step (Call_begin False) ?w op_start = op_start\<lparr>op_active := True, op_collecting := True\<rparr>"
    by (simp add: wpm_operation_begin_def wpm_operation_close_def current_item_def op_start_def Let_def)
  have archive: "full_path_of ?w sample_archive = Some sample_archive"
    by (rule sample_full_path) (simp_all add: sample_archive_def)
  have collect: "op_call_step sample_request ?w (op_start\<lparr>op_active := True, op_collecting := True\<rparr>)
      = op_start\<lparr>op_items := [sample_new], op_active := True, op_collecting := True\<rparr>"
    using archive sample_recovery_path [of True]
    by (simp add: sample_request_def wpm_operation_archive_def collect_item_def op_start_def PLAN_LIMIT_def
        sample_new_def sample_world_def Let_def, simp add: new_item_def)
  have "item_unchanged ?w sample_new"
    by (simp add: item_unchanged_def sample_world_def sample_new_def new_item_def)
  then have "fst (wpm_operation_confirm ?w (op_start\<lparr>op_items := [sample_new], op_active := True, op_collecting := True\<rparr>))
      = op_start\<lparr>op_items := [sample_new], op_active := True,
     op_approved_state := replicate 64 (CHR ''d''), op_approved_plan := replicate 64 (CHR ''c'')\<rparr>"
    using sample_answer [of True]
    by (simp add: wpm_operation_confirm_def op_start_def Let_def,
        simp add: sample_world_def wpm_is_readonly_def all_capabilities_def capability_defs)
  then show ?thesis
    by (simp only: sample_plan_def op_run.simps fst_conv snd_conv start collect op_call_step.simps(4))
qed

lemma sample_plan_reachable: "op_reachable sample_digest sample_plan"
  unfolding sample_plan_def by (rule reachable_run [OF reach_start]) (simp add: sample_world_ok)

subsection \<open>The item with a journal\<close>

text \<open>The item as it is written: once it has its creation time, with or without a retained input.\<close>

definition written_item :: "nat \<Rightarrow> string list \<Rightarrow> plan_item" where
  "written_item state phases = sample_new\<lparr>it_consumed := True, it_created := ''2026-02-28T10:20:30.000Z'',
     it_retained_state := state, it_retained_input := (state = 2), it_completed := phases\<rparr>"

lemma written_item_ok:
  assumes "phases \<in> {[], [''retain-input'']}"
  shows "journal_item_ok (written_item state phases)"
  unfolding journal_item_ok_def journal_versions_def written_item_def sample_new_def new_item_def sample_item_def
    sample_archive_def sample_root_def source_or_def version_or_none_def
  using assms
  by (simp add: sample_version wpm_recovery_id_valid_def lower_hex_def is_digit_def record_hex_def
      wpm_recovery_filters_valid_def control_char_def supported_arch_def RECORD_PATH_def retained_state_name_def
      list_all_iff journal_text_simple, auto simp: journal_text_simple)

lemma written_step_ok: "journal_step_ok (replicate 64 (CHR ''c'')) sample_time ''retain-input'' ''in-progress''"
  by (simp add: journal_step_ok_def sample_time_def record_hex_def lower_hex_def is_digit_def list_all_iff
      journal_text_simple)

lemma sample_write:
  assumes named: "note_identity (sample_journal True) it = named"
    and it: "journal_item_ok named" "\<not> it_journal_failed it"
    and started: "it_journal_started it \<Longrightarrow> it_record_identity it = [4, 5, 6]"
  shows "journal_write (sample_world True) n (replicate 64 (CHR ''c'')) it ''retain-input'' ''in-progress'' None
    = (named\<lparr>it_journal_started := True, it_record_identity := [4, 5, 6], it_phase := ''retain-input''\<rparr>, True)"
proof -
  have "w_journal (sample_world True) n = sample_journal True"
    "\<not> wpm_is_readonly (w_capabilities (sample_world True))"
    by (simp_all add: sample_world_def wpm_is_readonly_def all_capabilities_def capability_defs)
  moreover have "jw_directory (sample_journal True)" "jw_final_free (sample_journal True)"
    "jw_existing (sample_journal True) = Some [4, 5, 6]" "jw_updated (sample_journal True) = sample_time"
    "jw_published (sample_journal True) = Some [4, 5, 6]"
    by (simp_all add: sample_journal_def)
  moreover have "it_journal_started named = it_journal_started it" "it_record_identity named = it_record_identity it"
    using named by (auto simp: note_identity_def)
  ultimately show ?thesis
    using journal_document_members [OF it(1) written_step_ok] it(2) started named
    by (auto simp: journal_write_def note_exit_def Let_def)
qed

lemma sample_execute: "snd (execute_item 0 (sample_world True) sample_plan)"
proof -
  let ?w = "sample_world True"
  let ?done = "\<lambda>it. it\<lparr>it_journal_started := True, it_record_identity := [4, 5, 6], it_phase := ''retain-input''\<rparr>"
  let ?st = "\<lambda>it. op_start\<lparr>op_items := [it], op_active := True, op_executing := Some 0,
    op_approved_state := replicate 64 (CHR ''d''), op_approved_plan := replicate 64 (CHR ''c'')\<rparr>"
  have start: "started_item 0 sample_plan = ?st (sample_new\<lparr>it_consumed := True\<rparr>)"
    by (simp add: started_item_def sample_plan_state set_item_def op_start_def)
  have "note_identity (sample_journal True) (sample_new\<lparr>it_consumed := True\<rparr>) = written_item 0 []"
    by (simp add: note_identity_def sample_new_def new_item_def written_item_def sample_journal_def)
  then have first: "journal_current ?w 0 ''retain-input'' ''in-progress'' None
      (?st (sample_new\<lparr>it_consumed := True\<rparr>)) = (?st (?done (written_item 0 [])), True)"
    using sample_write [OF _ written_item_ok, of "sample_new\<lparr>it_consumed := True\<rparr>" 0 "[]" 0]
    by (simp add: journal_current_def set_item_def op_start_def, simp add: sample_new_def new_item_def)
  have "cw_digest sample_copy = Some (it_fingerprint (written_item n phases))"
    "cw_digest_again sample_copy = Some (it_fingerprint (written_item n phases))"
    "BSLASH \<in> set (it_retained (written_item n phases))" for n phases
    by (simp_all add: written_item_def sample_new_def new_item_def sample_copy_def)
  then have retained: "retain_input ?w 1 (?st (?done (written_item 0 []))) = (?st (?done (written_item 2 [])), True)"
    by (simp add: retain_input_def sample_world_def op_start_def Let_def copy_complete_def set_item_def,
        simp add: sample_copy_def, simp add: written_item_def)
  let ?last = "?done (written_item 2 [''retain-input''])"
  have "(?done (written_item 2 []))\<lparr>it_completed := it_completed (?done (written_item 2 [])) @ [''retain-input'']\<rparr> = ?last"
    by (simp add: written_item_def)
  moreover have "note_identity (sample_journal True) ?last = ?last"
    by (simp add: note_identity_def written_item_def sample_new_def new_item_def)
  moreover have "journal_item_ok ?last"
    using written_item_ok [of "[''retain-input'']" 2] by (simp add: journal_item_ok_def journal_versions_def)
  ultimately have "snd (wpm_operation_phase_finish ''retain-input'' 2 ?w (?st (?done (written_item 2 []))))"
    using sample_write [of ?last ?last 2]
    by (simp add: wpm_operation_phase_finish_def journal_current_def set_item_def op_start_def Let_def,
        simp add: written_item_def sample_new_def new_item_def)
  then show ?thesis
    by (simp only: execute_item_def started_item_def [symmetric] start first retained Let_def split_beta
        fst_conv snd_conv if_True if_False not_True_eq_False)
qed

lemma sample_archive_call:
  "wpm_operation_archive ''install'' sample_archive None (Some ''https://example.org'') False (sample_world directory) sample_plan
     = execute_item 0 (sample_world directory) sample_plan"
proof -
  let ?w = "sample_world directory"
  have "full_path_of ?w sample_archive = Some sample_archive"
    by (rule sample_full_path) (simp_all add: sample_archive_def)
  moreover have "item_requested ''install'' sample_archive (replicate 64 (CHR ''a'')) None
      (Some ''https://example.org'') ?w sample_new"
    by (simp add: item_requested_def sample_new_def new_item_def sample_world_def)
  ultimately show ?thesis
    by (simp add: wpm_operation_archive_def sample_plan_state op_start_def Let_def, simp add: sample_world_def)
qed

lemma sample_plan_idle: "op_active sample_plan" "\<not> op_collecting sample_plan" "op_executing sample_plan = None"
  by (simp_all add: sample_plan_state op_start_def)

definition sample_started :: "bool \<Rightarrow> op_state" where
  "sample_started directory = op_run [(sample_request, sample_world directory)] sample_plan"

lemma sample_step:
  "op_call_step sample_request (sample_world directory) sample_plan = fst (execute_item 0 (sample_world directory) sample_plan)"
  unfolding sample_request_def op_call_step.simps sample_archive_call ..

lemma sample_started_reachable: "op_reachable sample_digest (sample_started directory)"
  unfolding sample_started_def by (rule reachable_run [OF sample_plan_reachable]) (simp add: sample_world_ok)

lemma sample_started_executing: "op_executing (sample_started directory) = Some 0"
  by (simp add: sample_started_def sample_step execute_item_grows(2))

theorem started_item_contract_witness:
  "\<exists>after i. wpm_operation_archive ''install'' sample_archive None (Some ''https://example.org'') False
      (sample_world True) sample_plan = (after, True)
    \<and> op_executing after = Some i \<and> it_retained_state (op_items after ! i) = 2"
proof -
  let ?after = "fst (execute_item 0 (sample_world True) sample_plan)"
  have call: "wpm_operation_archive ''install'' sample_archive None (Some ''https://example.org'') False
      (sample_world True) sample_plan = (?after, True)"
    unfolding sample_archive_call using sample_execute by (simp add: prod_eq_iff)
  then show ?thesis using started_item_contract [OF sample_plan_idle(1,2) call] by blast
qed

theorem plan_runs_out_witness:
  "op_starts [(sample_request, sample_world False)] sample_plan = 1
   \<and> pending (op_run [(sample_request, sample_world False)] sample_plan) = 0 \<and> pending sample_plan = 1"
proof -
  have one: "pending sample_plan = 1"
    by (simp add: pending_def sample_plan_state sample_new_def new_item_def)
  have "op_starts [(sample_request, sample_world False)] sample_plan = 1"
    using execute_item_grows(2) by (simp add: sample_step sample_plan_idle)
  moreover have "\<not> plan_ends sample_request" by (simp add: sample_request_def)
  then have "op_starts [(sample_request, sample_world False)] sample_plan
      + pending (op_run [(sample_request, sample_world False)] sample_plan) \<le> pending sample_plan"
    using plan_runs_out [OF sample_plan_reachable sample_plan_idle(2), of "[(sample_request, sample_world False)]"]
    by simp
  ultimately show ?thesis using one by simp
qed

theorem plan_invariant_witness:
  "op_executing (sample_started True) = Some 0 \<and> it_consumed (op_items (sample_started True) ! 0)"
  using plan_invariant [OF sample_started_reachable [of True]] sample_started_executing by blast

lemma sample_copy_directory [simp]: "w_retain (sample_world directory) = sample_copy" by (simp add: sample_world_def)

theorem lost_journal_stops_plan_witness:
  "let after = fst (journal_current (sample_world False) 0 ''script'' ''in-progress'' None (sample_started True))
   in op_executing after \<noteq> None \<and> \<not> wpm_operation_before_script (sample_world True) after"
proof -
  have "\<not> snd (journal_current (sample_world False) 0 ''script'' ''in-progress'' None (sample_started True))"
    by (simp add: journal_current_def sample_started_executing case_prod_beta journal_write_def journal_fail_def Let_def,
        simp add: sample_world_def sample_journal_def)
  from lost_journal_stops_plan [OF sample_started_reachable sample_started_executing this, where calls = "[]"]
  show ?thesis by (simp add: Let_def)
qed

lemma execute_item_state: "op_approved_state (fst (execute_item i w st)) = op_approved_state st"
proof -
  have j: "op_approved_state (fst (journal_current w n stage status exit_code st)) = op_approved_state st" for n stage status exit_code st
    by (simp add: journal_current_def case_prod_beta split: option.split)
  have r: "op_approved_state (fst (retain_input w n st)) = op_approved_state st" for n st
    by (simp add: retain_input_def j Let_def split: option.split)
  have f: "op_approved_state (fst (wpm_operation_phase_finish stage n w st)) = op_approved_state st" for stage n st
    by (simp add: wpm_operation_phase_finish_def j Let_def split: option.split)
  show ?thesis by (simp add: execute_item_def j r f Let_def case_prod_beta)
qed

theorem script_needs_approved_item_witness:
  "wpm_operation_before_script (sample_world True) (sample_started True)
   \<and> w_hash (sample_world True) (it_archive (op_items (sample_started True) ! 0))
       = Some (it_fingerprint (op_items (sample_started True) ! 0))"
proof -
  let ?st = "sample_started True"
  have st: "?st = fst (execute_item 0 (sample_world True) sample_plan)" by (simp add: sample_started_def sample_step)
  have start: "op_items (started_item 0 sample_plan) = [sample_new\<lparr>it_consumed := True\<rparr>]" "op_active (started_item 0 sample_plan)"
    "\<not> op_collecting (started_item 0 sample_plan)"
    by (simp_all add: started_item_def set_item_def sample_plan_state op_start_def)
  have grows: "op_grows (started_item 0 sample_plan) ?st" unfolding st by (rule execute_item_grows(1))
  then have "item_grows (sample_new\<lparr>it_consumed := True\<rparr>) (op_items ?st ! 0)" and active: "op_active ?st" "\<not> op_collecting ?st"
    using start by (auto simp: op_grows_def list_all2_Cons1)
  then have "it_fingerprint (op_items ?st ! 0) = replicate 64 (CHR ''a'')" "it_file_identity (op_items ?st ! 0) = [1, 2, 3]"
    by (simp_all add: item_grows_def sample_new_def new_item_def)
  moreover have "\<not> it_journal_failed (op_items ?st ! 0)"
    using execute_item_done [OF sample_execute sample_plan_idle(1) _ st] by (simp add: sample_plan_state)
  moreover have "op_approved_state ?st = replicate 64 (CHR ''d'')"
    by (simp add: st execute_item_state sample_plan_state)
  moreover have "wpm_require_capability WPM_CAP_SCRIPT (w_capabilities (sample_world True))"
    by (simp add: sample_world_def wpm_require_capability_def all_capabilities_def capability_defs)
  ultimately have "wpm_operation_before_script (sample_world True) ?st"
    using active by (simp add: wpm_operation_before_script_def current_item_def sample_started_executing
        item_unchanged_def, simp add: sample_world_def)
  with script_needs_approved_item [OF sample_started_reachable active(1) this] sample_started_executing
  show ?thesis by auto
qed
end
