(* ===== verification/State_Digest.thy ===== *)
theory State_Digest
  imports Comparison
begin

text \<open>
  The digest of the controlled state, \<open>hash_tree\<close> and \<open>state_digest\<close> of \<open>wpm/operation.c\<close>. The hash is
  fed piece by piece; the model keeps the pieces, a path with its terminator or the digest of a file,
  and the hash itself is a parameter. \<open>GetFileAttributesA\<close>, the directory enumeration and the digest
  of one file are the parameter \<open>tree_system\<close>.
\<close>

text \<open>Directory and reparse attribute of a path, if it has attributes at all.\<close>

record path_attributes =
  pa_directory :: bool
  pa_reparse :: bool

text \<open>An enumeration either does not start, because the directory is missing or for another reason, or it
  gives names with their reparse attribute and ends at the end of the directory or by an error.\<close>

datatype listing = Listing_missing | Listing_failed | Listing "(string \<times> bool) list" bool

record tree_system =
  ts_attributes :: "string \<Rightarrow> path_attributes option"
  ts_listing :: "string \<Rightarrow> listing"
  ts_file :: "string \<Rightarrow> string option"

datatype piece = Piece_path string | Piece_digest string

definition TREE_DEPTH :: nat where "TREE_DEPTH = 8"
definition TREE_NAMES :: nat where "TREE_NAMES = 8192"

definition dot_name :: "string \<Rightarrow> bool" where
  "dot_name n \<longleftrightarrow> n = ''.'' \<or> n = ''..''"

text \<open>The names that the loop over the enumeration keeps.\<close>

fun tree_names :: "(string \<times> bool) list \<Rightarrow> string list \<Rightarrow> string list option" where
  "tree_names [] names = Some names"
| "tree_names ((name, reparse) # entries) names =
     (if dot_name name then tree_names entries names
      else if length names \<ge> TREE_NAMES \<or> reparse then None
      else tree_names entries (names @ [name]))"

definition child_path :: "string \<Rightarrow> string \<Rightarrow> string" where
  "child_path path name = path @ BSLASH # name"

text \<open>\<open>left\<close> is the number of levels that may still be entered, \<open>9 - depth\<close>.\<close>

function hash_tree :: "tree_system \<Rightarrow> nat \<Rightarrow> string \<Rightarrow> piece list option"
  and hash_names :: "tree_system \<Rightarrow> nat \<Rightarrow> string \<Rightarrow> string list \<Rightarrow> piece list option" where
  "hash_tree ts left path =
     (if (case ts_attributes ts path of None \<Rightarrow> False | Some a \<Rightarrow> pa_reparse a) \<or> left = 0 \<or> length path + 2 \<ge> 4096
      then None
      else
      (case ts_listing ts path of
         Listing_missing \<Rightarrow> Some []
       | Listing_failed \<Rightarrow> None
       | Listing entries complete \<Rightarrow>
           (case tree_names entries [] of
              None \<Rightarrow> None
            | Some names \<Rightarrow> if \<not> complete then None else hash_names ts left path (qsort strcmp names))))"
| "hash_names ts left path [] = Some []"
| "hash_names ts left path (name # names) =
     (let child = child_path path name in
      if length child \<ge> 4096 then None
      else
      (case ts_attributes ts child of
         None \<Rightarrow> None
       | Some a \<Rightarrow>
           if pa_reparse a then None
           else
           (case (if pa_directory a then hash_tree ts (left - 1) child
                  else map_option (\<lambda>d. [Piece_digest d]) (ts_file ts child)) of
              None \<Rightarrow> None
            | Some pieces \<Rightarrow>
                map_option (\<lambda>rest. Piece_path child # pieces @ rest) (hash_names ts left path names))))"
  by pat_completeness auto
termination
  by (relation "measures [\<lambda>x. case x of Inl (ts, left, path) \<Rightarrow> 2 * left | Inr (ts, left, path, names) \<Rightarrow> 2 * left - 1,
    \<lambda>x. case x of Inl (ts, left, path) \<Rightarrow> 0 | Inr (ts, left, path, names) \<Rightarrow> length names]") auto

declare hash_tree.simps [simp del]

fun state_roots :: "tree_system \<Rightarrow> string \<Rightarrow> string list \<Rightarrow> piece list option" where
  "state_roots ts root [] = Some []"
| "state_roots ts root (r # rs) =
     (let path = child_path root r in
      if length path \<ge> 4096 then None
      else
      (case hash_tree ts (TREE_DEPTH + 1) path of
         None \<Rightarrow> None
       | Some pieces \<Rightarrow> map_option (\<lambda>rest. Piece_path path # pieces @ rest) (state_roots ts root rs)))"

definition controlled_roots :: "string list" where
  "controlled_roots = [''packages'', ''trust'', ''config'']"

definition state_digest :: "(piece list \<Rightarrow> string) \<Rightarrow> tree_system \<Rightarrow> string option \<Rightarrow> string option" where
  "state_digest digest ts root =
     (case root of None \<Rightarrow> None | Some r \<Rightarrow> map_option digest (state_roots ts r controlled_roots))"

subsection \<open>The order of enumeration\<close>

definition kept_entries :: "(string \<times> bool) list \<Rightarrow> (string \<times> bool) list" where
  "kept_entries entries = filter (\<lambda>e. \<not> dot_name (fst e)) entries"

lemma tree_names_kept:
  "length names \<le> TREE_NAMES \<Longrightarrow> tree_names entries names =
     (if list_ex snd (kept_entries entries) \<or> length names + length (kept_entries entries) > TREE_NAMES then None
      else Some (names @ map fst (kept_entries entries)))"
  by (induction entries names rule: tree_names.induct) (auto simp: kept_entries_def)

lemma sorted_strcmp_unique:
  "sorted_wrt (\<lambda>a b. strcmp a b \<le> 0) xs \<Longrightarrow> sorted_wrt (\<lambda>a b. strcmp a b \<le> 0) ys \<Longrightarrow> mset xs = mset ys \<Longrightarrow> xs = ys"
proof (induction xs arbitrary: ys)
  case (Cons x xs)
  then obtain y ys' where ys: "ys = y # ys'" by (cases ys) auto
  have "x \<in> set ys" "y \<in> set (x # xs)" using Cons.prems(3) ys by (metis list.set_intros(1) set_mset_mset)+
  then have "strcmp y x \<le> 0" "strcmp x y \<le> 0" using Cons.prems(1,2) ys by auto
  then have "x = y" using bytes.cmp_swap [of x y] by (metis antisym_conv neg_le_0_iff_le strcmp_eq_0)
  with Cons ys show ?case by auto
qed simp

lemma qsort_strcmp_mset: "mset xs = mset ys \<Longrightarrow> qsort strcmp xs = qsort strcmp ys"
  by (rule sorted_strcmp_unique [OF bytes.sorted_qsort bytes.sorted_qsort]) simp

text \<open>Two systems that show the same tree, perhaps enumerated in another order.\<close>

fun same_listing :: "listing \<Rightarrow> listing \<Rightarrow> bool" where
  "same_listing (Listing es c) (Listing es' c') = (mset es = mset es' \<and> c = c')"
| "same_listing Listing_missing Listing_missing = True"
| "same_listing Listing_failed Listing_failed = True"
| "same_listing _ _ = False"

definition same_tree :: "tree_system \<Rightarrow> tree_system \<Rightarrow> bool" where
  "same_tree a b \<longleftrightarrow> ts_attributes a = ts_attributes b \<and> ts_file a = ts_file b
     \<and> (\<forall>path. same_listing (ts_listing a path) (ts_listing b path))"

lemma same_listing_names:
  assumes "mset es = mset es'"
  shows "map_option (qsort strcmp) (tree_names es []) = map_option (qsort strcmp) (tree_names es' [])"
proof -
  have kept: "mset (kept_entries es) = mset (kept_entries es')" using assms by (simp add: kept_entries_def mset_filter)
  then have "set (kept_entries es) = set (kept_entries es')" "length (kept_entries es) = length (kept_entries es')"
    by (metis set_mset_mset) (metis kept size_mset)
  moreover have "qsort strcmp (map fst (kept_entries es)) = qsort strcmp (map fst (kept_entries es'))"
    by (rule qsort_strcmp_mset) (simp add: kept)
  ultimately show ?thesis by (simp add: tree_names_kept list_ex_iff)
qed

lemma hash_tree_same:
  "same_tree ts b \<Longrightarrow> hash_tree ts left path = hash_tree b left path"
  "same_tree ts b \<Longrightarrow> hash_names ts left path names = hash_names b left path names"
proof (induction ts left path and ts left path names rule: hash_tree_hash_names.induct)
  case (1 ts left path)
  have attributes: "ts_attributes ts = ts_attributes b" using 1(2) by (simp add: same_tree_def)
  have listing: "same_listing (ts_listing ts path) (ts_listing b path)" using 1(2) by (simp add: same_tree_def)
  show ?case
  proof (cases "(case ts_attributes b path of None \<Rightarrow> False | Some a \<Rightarrow> pa_reparse a) \<or> left = 0 \<or> length path + 2 \<ge> 4096")
    case True
    then show ?thesis by (simp only: hash_tree.simps attributes if_True)
  next
    case False
    note unfold = hash_tree.simps(1) [of _ left path] attributes if_not_P [OF False]
    show ?thesis
    proof (cases "ts_listing ts path")
      case (Listing es c)
      then obtain es' where es': "ts_listing b path = Listing es' c" "mset es = mset es'"
        using listing by (cases "ts_listing b path") auto
      note names = same_listing_names [OF es'(2)]
      show ?thesis
      proof (cases "tree_names es []")
        case None
        with names have "tree_names es' [] = None" by simp
        with None show ?thesis unfolding unfold Listing es'(1) by simp
      next
        case (Some ns)
        with names obtain ns' where ns': "tree_names es' [] = Some ns'" "qsort strcmp ns' = qsort strcmp ns"
          by (cases "tree_names es' []") auto
        have "hash_names ts left path (qsort strcmp ns) = hash_names b left path (qsort strcmp ns)" if c
          using 1(1) False Listing Some that 1(2) by (simp add: attributes)
        then show ?thesis unfolding unfold Listing es'(1) by (simp add: Some ns')
      qed
    qed (use listing in \<open>cases "ts_listing b path"; simp add: unfold\<close>)+
  qed
next
  case (3 ts left path name names)
  then have "ts_attributes ts = ts_attributes b" "ts_file ts = ts_file b" by (simp_all add: same_tree_def)
  with 3 show ?case by (auto simp: hash_tree.simps Let_def split: option.split)
qed (simp add: hash_tree.simps)

text \<open>The digest of the controlled state does not depend on the order in which the file system enumerates
  directories: two systems that give the same attributes and file digests and enumerate the same names
  give the same digest, and one refuses exactly when the other does.\<close>

theorem state_digest_order_independent:
  assumes "same_tree a b"
  shows "state_digest digest a root = state_digest digest b root"
proof -
  have "state_roots a r rs = state_roots b r rs" for r rs
    by (induction rs) (simp_all add: hash_tree_same [OF assms] Let_def split: option.split)
  then show ?thesis by (simp add: state_digest_def split: option.split)
qed

subsection \<open>What the digest covers\<close>

text \<open>The entries below a directory: a file with its digest, a directory without one.\<close>

definition listed :: "tree_system \<Rightarrow> string \<Rightarrow> string \<Rightarrow> path_attributes \<Rightarrow> bool" where
  "listed ts path child a \<longleftrightarrow> (\<exists>entries complete name reparse. ts_listing ts path = Listing entries complete
     \<and> (name, reparse) \<in> set entries \<and> \<not> dot_name name \<and> child = child_path path name \<and> ts_attributes ts child = Some a)"

inductive tree_entry :: "tree_system \<Rightarrow> string \<Rightarrow> string \<times> string option \<Rightarrow> bool" for ts where
  entry_file: "listed ts path child a \<Longrightarrow> \<not> pa_directory a \<Longrightarrow> tree_entry ts path (child, ts_file ts child)"
| entry_directory: "listed ts path child a \<Longrightarrow> pa_directory a \<Longrightarrow> tree_entry ts path (child, None)"
| entry_below: "listed ts path child a \<Longrightarrow> pa_directory a \<Longrightarrow> tree_entry ts child e \<Longrightarrow> tree_entry ts path e"

text \<open>The entries that the pieces name.\<close>

fun piece_entries :: "piece list \<Rightarrow> (string \<times> string option) list" where
  "piece_entries [] = []"
| "piece_entries (Piece_path p # Piece_digest d # ps) = (p, Some d) # piece_entries ps"
| "piece_entries (Piece_path p # ps) = (p, None) # piece_entries ps"
| "piece_entries (Piece_digest d # ps) = piece_entries ps"

definition starts_with_path :: "piece list \<Rightarrow> bool" where
  "starts_with_path ps \<longleftrightarrow> (case ps of Piece_digest d # _ \<Rightarrow> False | _ \<Rightarrow> True)"

lemma starts_with_path_simps [simp]: "starts_with_path []" "starts_with_path (Piece_path p # ps)"
  by (simp_all add: starts_with_path_def)

lemma piece_entries_append: "starts_with_path b \<Longrightarrow> piece_entries (a @ b) = piece_entries a @ piece_entries b"
  by (induction a rule: piece_entries.induct) (cases b; auto simp: starts_with_path_def split: piece.splits)+

lemma piece_entries_path: "starts_with_path ps \<Longrightarrow> piece_entries (Piece_path p # ps) = (p, None) # piece_entries ps"
  using piece_entries_append [of ps "[Piece_path p]"] by simp

lemma hash_tree_starts:
  "hash_tree ts left path = Some m \<Longrightarrow> starts_with_path m"
  "hash_names ts left path names = Some m \<Longrightarrow> starts_with_path m"
proof (induction ts left path and ts left path names arbitrary: m and m rule: hash_tree_hash_names.induct)
  case (1 ts left path)
  then show ?case by (auto simp: hash_tree.simps split: if_splits listing.splits option.splits)
next
  case (3 ts left path name names)
  then show ?case by (auto simp: hash_tree.simps Let_def split: if_splits option.splits)
qed (simp add: hash_tree.simps)

text \<open>The entries that start with a given child.\<close>

definition child_entries :: "tree_system \<Rightarrow> string \<Rightarrow> (string \<times> string option) set" where
  "child_entries ts child =
     (case ts_attributes ts child of
        None \<Rightarrow> {}
      | Some a \<Rightarrow> if pa_directory a then insert (child, None) {e. tree_entry ts child e} else {(child, ts_file ts child)})"

lemma tree_entry_children:
  "ts_listing ts path = Listing entries complete \<Longrightarrow>
     {e. tree_entry ts path e} = (\<Union>name \<in> fst ` set (kept_entries entries). child_entries ts (child_path path name))"
proof (intro set_eqI iffI)
  fix e assume l: "ts_listing ts path = Listing entries complete" and "e \<in> {e. tree_entry ts path e}"
  then have "tree_entry ts path e" by simp
  then show "e \<in> (\<Union>name \<in> fst ` set (kept_entries entries). child_entries ts (child_path path name))"
    by cases (use l in \<open>force simp: listed_def kept_entries_def child_entries_def\<close>)+
next
  fix e assume l: "ts_listing ts path = Listing entries complete"
    and "e \<in> (\<Union>name \<in> fst ` set (kept_entries entries). child_entries ts (child_path path name))"
  then obtain entry where entry: "entry \<in> set (kept_entries entries)" "e \<in> child_entries ts (child_path path (fst entry))"
    by blast
  obtain name reparse where pair: "entry = (name, reparse)" by (cases entry)
  have n: "(name, reparse) \<in> set entries" "\<not> dot_name name" using entry(1) by (simp_all add: kept_entries_def pair)
  obtain a where a: "ts_attributes ts (child_path path name) = Some a"
      "e \<in> (if pa_directory a then insert (child_path path name, None) {e. tree_entry ts (child_path path name) e}
             else {(child_path path name, ts_file ts (child_path path name))})"
    using entry(2) by (cases "ts_attributes ts (child_path path name)") (simp_all add: child_entries_def pair)
  from l n a(1) have "listed ts path (child_path path name) a" by (auto simp: listed_def)
  then show "e \<in> {e. tree_entry ts path e}"
    using a(2) entry_file [of ts path "child_path path name" a] entry_directory [of ts path "child_path path name" a]
      entry_below [of ts path "child_path path name" a e] by (cases "pa_directory a") auto
qed

lemma hash_tree_entries:
  "hash_tree ts left path = Some m \<Longrightarrow> set (piece_entries m) = {e. tree_entry ts path e}"
  "hash_names ts left path names = Some m \<Longrightarrow> set (piece_entries m) = (\<Union>name \<in> set names. child_entries ts (child_path path name))"
proof (induction ts left path and ts left path names arbitrary: m and m rule: hash_tree_hash_names.induct)
  case (1 ts left path)
  show ?case
  proof (cases "ts_listing ts path")
    case Listing_missing
    then have "\<not> tree_entry ts path e" for e by (auto elim: tree_entry.cases simp: listed_def)
    with 1(2) Listing_missing show ?thesis by (simp add: hash_tree.simps split: if_splits)
  next
    case Listing_failed
    with 1(2) show ?thesis by (simp add: hash_tree.simps split: if_splits)
  next
    case (Listing entries complete)
    with 1(2) obtain names where names: "tree_names entries [] = Some names" and c: "complete"
      and m: "hash_names ts left path (qsort strcmp names) = Some m"
      by (auto simp: hash_tree.simps split: if_splits option.splits)
    have "names = map fst (kept_entries entries)"
      using names by (simp add: tree_names_kept split: if_splits)
    then have "set (qsort strcmp names) = fst ` set (kept_entries entries)" by simp
    moreover have "set (piece_entries m) = (\<Union>name \<in> set (qsort strcmp names). child_entries ts (child_path path name))"
      using 1(1) 1(2) Listing names c m by (auto simp: hash_tree.simps split: if_splits)
    ultimately show ?thesis using tree_entry_children [OF Listing] by simp
  qed
next
  case (3 ts left path name names)
  let ?child = "child_path path name"
  from 3(3) obtain a pieces rest where a: "ts_attributes ts ?child = Some a" "\<not> pa_reparse a" "length ?child < 4096"
    and pieces: "(if pa_directory a then hash_tree ts (left - 1) ?child
                  else map_option (\<lambda>d. [Piece_digest d]) (ts_file ts ?child)) = Some pieces"
    and rest: "hash_names ts left path names = Some rest" and m: "m = Piece_path ?child # pieces @ rest"
    by (auto simp: hash_tree.simps Let_def split: if_splits option.splits)
  have starts: "starts_with_path rest" by (rule hash_tree_starts(2) [OF rest])
  have "set (piece_entries (Piece_path ?child # pieces)) = child_entries ts ?child"
  proof (cases "pa_directory a")
    case True
    then have p: "hash_tree ts (left - 1) ?child = Some pieces" using pieces by simp
    have "set (piece_entries pieces) = {e. tree_entry ts ?child e}"
      using 3(1) a True p by simp
    then show ?thesis
      using True a piece_entries_path [OF hash_tree_starts(1) [OF p]] by (simp add: child_entries_def)
  next
    case False
    then show ?thesis using pieces a by (auto simp: child_entries_def)
  qed
  moreover have "set (piece_entries rest) = (\<Union>name \<in> set names. child_entries ts (child_path path name))"
    using 3(2) a pieces rest by simp
  ultimately show ?case
    using piece_entries_append [OF starts, of "Piece_path ?child # pieces"] by (simp add: m)
qed (simp add: hash_tree.simps)

text \<open>The digest of the controlled state covers exactly the controlled trees. Whenever it is computed, the
  pieces that are hashed name the three roots and every entry below them, each file with its digest and
  each directory without one, and nothing else; so a file or directory that appears, vanishes, changes
  its kind or its content changes what is hashed.\<close>

theorem state_digest_covers:
  assumes "state_roots ts root controlled_roots = Some pieces"
  shows "set (piece_entries pieces) = (\<Union>r \<in> {''packages'', ''trust'', ''config''}.
    insert (child_path root r, None) {e. tree_entry ts (child_path root r) e})"
proof -
  have "starts_with_path m" if "state_roots ts root rs = Some m" for rs m
    using that by (cases rs) (auto simp: Let_def split: if_splits option.splits)
  then have "state_roots ts root rs = Some m \<Longrightarrow> set (piece_entries m)
      = (\<Union>r \<in> set rs. insert (child_path root r, None) {e. tree_entry ts (child_path root r) e})" for rs m
  proof (induction rs arbitrary: m)
    case (Cons r rs)
    from Cons.prems(1) obtain p rest where p: "hash_tree ts (TREE_DEPTH + 1) (child_path root r) = Some p"
      and rest: "state_roots ts root rs = Some rest" and m: "m = Piece_path (child_path root r) # p @ rest"
      by (auto simp: Let_def split: if_splits option.splits)
    have "piece_entries m = (child_path root r, None) # piece_entries p @ piece_entries rest"
      using piece_entries_append [OF Cons.prems(2) [OF rest], of "Piece_path (child_path root r) # p"]
        piece_entries_path [OF hash_tree_starts(1) [OF p]] by (simp add: m)
    then show ?case using hash_tree_entries(1) [OF p] Cons.IH [OF rest Cons.prems(2)] by simp
  qed simp
  from this [OF assms] show ?thesis by (simp add: controlled_roots_def)
qed

subsection \<open>A sample tree\<close>

definition sample_tree :: "bool \<Rightarrow> tree_system" where
  "sample_tree swapped = \<lparr>
     ts_attributes = (\<lambda>p. Some \<lparr>pa_directory = (p = child_path ''d'' ''config''), pa_reparse = False\<rparr>),
     ts_listing = (\<lambda>p. if p = child_path ''d'' ''config''
        then Listing (if swapped then [(''b'', False), (''.'', False), (''a'', False)]
          else [(''.'', False), (''a'', False), (''b'', False)]) True
        else Listing_missing),
     ts_file = (\<lambda>p. Some ''digest'')\<rparr>"

theorem state_digest_order_independent_witness:
  "state_digest (\<lambda>pieces. concat (map fst (piece_entries pieces))) (sample_tree True) (Some ''d'')
     = state_digest (\<lambda>pieces. concat (map fst (piece_entries pieces))) (sample_tree False) (Some ''d'')"
  by (rule state_digest_order_independent) (auto simp: same_tree_def sample_tree_def)

theorem state_digest_covers_witness:
  "\<exists>pieces. state_roots (sample_tree False) ''d'' controlled_roots = Some pieces
    \<and> (child_path (child_path ''d'' ''config'') ''a'', Some ''digest'') \<in> set (piece_entries pieces)"
proof -
  have "\<exists>pieces. state_roots (sample_tree False) ''d'' controlled_roots = Some pieces"
    by (simp add: controlled_roots_def hash_tree.simps sample_tree_def child_path_def TREE_DEPTH_def TREE_NAMES_def
        dot_name_def Let_def)
  then obtain pieces where pieces: "state_roots (sample_tree False) ''d'' controlled_roots = Some pieces" ..
  have "listed (sample_tree False) (child_path ''d'' ''config'') (child_path (child_path ''d'' ''config'') ''a'')
      \<lparr>pa_directory = False, pa_reparse = False\<rparr>"
    by (auto simp: listed_def sample_tree_def dot_name_def child_path_def)
  from entry_file [OF this] have "tree_entry (sample_tree False) (child_path ''d'' ''config'')
      (child_path (child_path ''d'' ''config'') ''a'', Some ''digest'')"
    by (simp add: sample_tree_def)
  then show ?thesis using state_digest_covers [OF pieces] pieces by auto
qed
end
