(* ===== verification/Signing.thy ===== *)
theory Signing
  imports Recovery_Record
begin

text \<open>
  Package signatures and the trust store, \<open>wpm/signing.c\<close>. The trust directory is the state: the text
  of \<open><id>.pub\<close> and the existence of \<open><id>.revoked\<close>, for ids without regard to case as the file system
  has them. Libsodium is the parameter \<open>crypto\<close>; keys, signatures and messages are byte strings. Files
  are read as C strings. A file that cannot be written leaves the store as it was.
\<close>

record crypto =
  cr_key_id :: "string \<Rightarrow> string option"
  cr_encode :: "string \<Rightarrow> string"
  cr_decode :: "nat \<Rightarrow> string \<Rightarrow> string option"
  cr_sign :: "string \<Rightarrow> string \<Rightarrow> string option"
  cr_verify :: "string \<Rightarrow> string \<Rightarrow> string \<Rightarrow> bool"
  cr_keypair :: "(string \<times> string) option"

text \<open>\<open>se_authorized\<close> is a data override or an elevated process; the other fields are the data root and
  whether the trust directory, a new file and a rename can be made.\<close>

record signing_env =
  se_capabilities :: "32 word"
  se_authorized :: bool
  se_root :: "string option"
  se_trust_dir :: bool
  se_written :: bool
  se_moved :: bool

record trust_state =
  tr_public :: "string \<Rightarrow> string option"
  tr_revoked :: "string \<Rightarrow> bool"

definition PUBLICKEYBYTES :: nat where "PUBLICKEYBYTES = 32"
definition SECRETKEYBYTES :: nat where "SECRETKEYBYTES = 64"
definition SIGNATUREBYTES :: nat where "SIGNATUREBYTES = 64"

definition has_public :: "trust_state \<Rightarrow> string \<Rightarrow> string option" where
  "has_public st key = tr_public st (lower key)"

definition is_revoked :: "trust_state \<Rightarrow> string \<Rightarrow> bool" where
  "is_revoked st key = tr_revoked st (lower key)"

subsection \<open>Fields of key files and signatures\<close>

definition key_field :: "string \<Rightarrow> string \<Rightarrow> nat \<Rightarrow> string option" where
  "key_field t name cap =
     (case strstr name t of
        None \<Rightarrow> None
      | Some p \<Rightarrow>
          let q = drop (length name) p;
              v = strcspn_take {CR, LF, DQUOTE} (if at (CHR ''='') q then tl q else q) in
          if v = [] \<or> length v \<ge> cap then None else Some v)"

function occurrences :: "string \<Rightarrow> string \<Rightarrow> nat" where
  "occurrences t v =
     (if v = [] then 0
      else (case strstr v t of None \<Rightarrow> 0 | Some p \<Rightarrow> Suc (occurrences (drop (length v) p) v)))"
  by pat_completeness auto
termination
proof (relation "measure (\<lambda>(t, v). length t)", goal_cases)
  case (2 t v p)
  then have "length p \<le> length t" "v \<noteq> []" "\<exists>r. p = v @ r" using strstr_length strstr_Some by blast+
  then show ?case by (auto simp: neq_Nil_conv)
qed simp

declare occurrences.simps [simp del]

definition key_header_supported :: "string \<Rightarrow> string \<Rightarrow> bool" where
  "key_header_supported t header =
     (case strstr header t of
        None \<Rightarrow> False
      | Some p \<Rightarrow> let q = drop (length header) p in q = [] \<or> at CR q \<or> at LF q)"

definition decode_exact :: "crypto \<Rightarrow> nat \<Rightarrow> string \<Rightarrow> string option" where
  "decode_exact cr n t =
     (case cr_decode cr n t of None \<Rightarrow> None | Some b \<Rightarrow> if length b = n then Some b else None)"

definition load_private :: "crypto \<Rightarrow> string \<Rightarrow> string option" where
  "load_private cr t =
     (if \<not> key_header_supported t ''wpm-private-key-v1'' then None
      else Option.bind (key_field t ''secret-key'' 256) (decode_exact cr SECRETKEYBYTES))"

definition load_public :: "crypto \<Rightarrow> string \<Rightarrow> string option" where
  "load_public cr t =
     (if \<not> key_header_supported t ''wpm-public-key-v1'' then None
      else Option.bind (key_field t ''public-key='' 128) (decode_exact cr PUBLICKEYBYTES))"

text \<open>The last bytes of a secret key are its public key.\<close>

definition public_part :: "string \<Rightarrow> string" where
  "public_part secret = drop (SECRETKEYBYTES - PUBLICKEYBYTES) secret"

definition private_text :: "crypto \<Rightarrow> string \<Rightarrow> string" where
  "private_text cr key = ''wpm-private-key-v1'' @ LF # ''algorithm=ed25519'' @ LF # ''secret-key='' @ cr_encode cr key @ [LF]"

definition public_text :: "crypto \<Rightarrow> string \<Rightarrow> string" where
  "public_text cr key = ''wpm-public-key-v1'' @ LF # ''algorithm=ed25519'' @ LF # ''public-key='' @ cr_encode cr key @ [LF]"

text \<open>What the two writers leave at a path: whether a file is there already, and whether a new file can be
  opened and then closed (and protected).\<close>

definition write_private :: "crypto \<Rightarrow> string option \<Rightarrow> bool \<Rightarrow> bool \<Rightarrow> string \<Rightarrow> string option \<times> bool" where
  "write_private cr old opened closed key =
     (if old \<noteq> None \<or> \<not> opened then (old, False)
      else if \<not> closed then (None, False) else (Some (private_text cr key), True))"

definition write_public :: "crypto \<Rightarrow> string option \<Rightarrow> bool \<Rightarrow> bool \<Rightarrow> string \<Rightarrow> string option \<times> bool" where
  "write_public cr old opened closed key =
     (if old \<noteq> None \<or> \<not> opened then (old, False) else (Some (public_text cr key), closed))"

subsection \<open>The trust store\<close>

definition wpm_trust_add :: "crypto \<Rightarrow> signing_env \<Rightarrow> string option \<Rightarrow> trust_state \<Rightarrow> trust_state \<times> bool" where
  "wpm_trust_add cr env supplied st =
     (if \<not> wpm_require_capability WPM_CAP_WRITE (se_capabilities env) \<or> \<not> se_authorized env then (st, False)
      else
      (case Option.bind supplied (load_public cr) of
         None \<Rightarrow> (st, False)
       | Some key \<Rightarrow>
           (case cr_key_id cr key of
              None \<Rightarrow> (st, False)
            | Some kid \<Rightarrow>
                if se_root env = None \<or> \<not> se_trust_dir env \<or> is_revoked st kid then (st, False)
                else if has_public st kid \<noteq> None then (st, True)
                else if \<not> se_written env then (st, False)
                else (st\<lparr>tr_public := (tr_public st)(lower kid \<mapsto> public_text cr key)\<rparr>, True))))"

definition wpm_trust_revoke :: "signing_env \<Rightarrow> string \<Rightarrow> trust_state \<Rightarrow> trust_state \<times> bool" where
  "wpm_trust_revoke env kid st =
     (if \<not> wpm_require_capability WPM_CAP_WRITE (se_capabilities env) \<or> \<not> se_authorized env
         \<or> length kid \<noteq> 64 \<or> se_root env = None \<or> \<not> se_trust_dir env \<or> has_public st kid = None \<or> \<not> se_moved env
      then (st, False)
      else (st\<lparr>tr_public := (tr_public st)(lower kid := None), tr_revoked := (tr_revoked st)(lower kid := True)\<rparr>,
            True))"

subsection \<open>Validation\<close>

text \<open>The members of a signature document, each of which must occur once.\<close>

definition signature_fields :: "string \<Rightarrow> (string \<times> string \<times> string) option" where
  "signature_fields t =
     (if list_all (\<lambda>name. occurrences t (DQUOTE # name @ [DQUOTE]) = 1)
           [''version'', ''algorithm'', ''key_id'', ''public_key'', ''signature'']
         \<and> wpm_json_version_one t
         \<and> strstr (DQUOTE # ''algorithm'' @ DQUOTE # '': '' @ DQUOTE # ''ed25519'' @ [DQUOTE]) t \<noteq> None
      then
      (case (key_field t (DQUOTE # ''key_id'' @ DQUOTE # '': '' @ [DQUOTE]) 65,
             key_field t (DQUOTE # ''public_key'' @ DQUOTE # '': '' @ [DQUOTE]) 128,
             key_field t (DQUOTE # ''signature'' @ DQUOTE # '': '' @ [DQUOTE]) 256) of
         (Some kid, Some key, Some detached) \<Rightarrow> Some (kid, key, detached)
       | _ \<Rightarrow> None)
      else None)"

text \<open>The read-only validation: the result is the id of the signing key, or \<open>unsigned\<close>.\<close>

definition wpm_validate_signature_bytes ::
  "crypto \<Rightarrow> signing_env \<Rightarrow> trust_state \<Rightarrow> string option \<Rightarrow> string option \<Rightarrow> bool \<Rightarrow> string option" where
  "wpm_validate_signature_bytes cr env st signature index allow_unsigned =
     (case signature of
        None \<Rightarrow> if \<not> allow_unsigned \<or> \<not> se_authorized env then None else Some ''unsigned''
      | Some t \<Rightarrow>
          (case (index, signature_fields t, se_root env) of
             (Some message, Some (kid, declared, detached_text), Some root) \<Rightarrow>
               if length kid \<noteq> 64 \<or> \<not> list_all lower_hex kid \<or> length root + 79 \<ge> 4096 \<or> is_revoked st kid
               then None
               else
               (case (Option.bind (has_public st kid) (load_public cr), decode_exact cr PUBLICKEYBYTES declared,
                      decode_exact cr SIGNATUREBYTES detached_text) of
                  (Some trusted, Some key, Some detached) \<Rightarrow>
                    if key = trusted \<and> cr_key_id cr key = Some kid \<and> cr_verify cr detached message key
                    then Some kid else None
                | _ \<Rightarrow> None)
           | _ \<Rightarrow> None))"

text \<open>The validation of an extracted package, which asks about an unknown key. The signature may be absent,
  unreadable or a text; the answer is the line that was read.\<close>

datatype file_read = File_absent | File_unreadable | File_text string

definition wpm_validate_package_signature ::
  "crypto \<Rightarrow> signing_env \<Rightarrow> file_read \<Rightarrow> string option \<Rightarrow> bool \<Rightarrow> string option \<Rightarrow> trust_state
     \<Rightarrow> trust_state \<times> string option" where
  "wpm_validate_package_signature cr env signature index allow answer st =
     (case signature of
        File_absent \<Rightarrow> (st, if allow \<and> se_authorized env then Some ''unsigned'' else None)
      | File_unreadable \<Rightarrow> (st, None)
      | File_text t \<Rightarrow>
          (case (signature_fields t, index) of
             (Some (kid, declared, detached_text), Some message) \<Rightarrow>
               if length kid \<noteq> 64 \<or> se_root env = None
                  \<or> \<not> wpm_require_capability WPM_CAP_WRITE (se_capabilities env) \<or> \<not> se_trust_dir env
                  \<or> is_revoked st kid
               then (st, None)
               else
               (case decode_exact cr PUBLICKEYBYTES declared of
                  None \<Rightarrow> (st, None)
                | Some supplied \<Rightarrow>
                    (case (case has_public st kid of None \<Rightarrow> Some supplied | Some f \<Rightarrow> load_public cr f) of
                       None \<Rightarrow> (st, None)
                     | Some key \<Rightarrow>
                         (case decode_exact cr SIGNATUREBYTES detached_text of
                            None \<Rightarrow> (st, None)
                          | Some detached \<Rightarrow>
                              if cr_key_id cr key \<noteq> Some kid \<or> \<not> cr_verify cr detached message key then (st, None)
                              else if has_public st kid \<noteq> None then (st, Some kid)
                              else if (case answer of None \<Rightarrow> True | Some a \<Rightarrow> \<not> at_class (\<lambda>c. to_lower c = CHR ''y'') a)
                                      \<or> \<not> se_authorized env \<or> \<not> se_written env
                              then (st, None)
                              else (st\<lparr>tr_public := (tr_public st)(lower kid \<mapsto> public_text cr key)\<rparr>, Some kid))))
           | _ \<Rightarrow> (st, None)))"

subsection \<open>Repository signatures\<close>

definition wpm_index_key_id :: "crypto \<Rightarrow> string option \<Rightarrow> string option" where
  "wpm_index_key_id cr public_file = Option.bind (Option.bind public_file (load_public cr)) (cr_key_id cr)"

text \<open>A member line of a signature document.\<close>

definition signature_line :: "string \<Rightarrow> string \<Rightarrow> string" where
  "signature_line name v = ''  '' @ DQUOTE # name @ DQUOTE # '': '' @ DQUOTE # v @ [DQUOTE]"

definition signature_document :: "string list \<Rightarrow> string" where
  "signature_document ls = CHR ''{'' # LF # ''  '' @ DQUOTE # ''version'' @ DQUOTE # '': 1'' @ '','' @ [LF]
     @ concat (map (\<lambda>l. l @ '','' @ [LF]) (butlast ls)) @ last ls @ [LF] @ ''}'' @ [LF]"

definition wpm_sign_repository_bytes ::
  "crypto \<Rightarrow> string \<Rightarrow> string option \<Rightarrow> string option \<Rightarrow> nat \<Rightarrow> (string \<times> string) option" where
  "wpm_sign_repository_bytes cr message private_file public_file cap =
     (case (Option.bind public_file (load_public cr), Option.bind private_file (load_private cr)) of
        (Some expected, Some secret) \<Rightarrow>
          if message = [] \<or> public_part secret \<noteq> expected then None
          else
          (case (cr_key_id cr expected, cr_sign cr message secret) of
             (Some kid, Some detached) \<Rightarrow>
               if \<not> cr_verify cr detached message expected then None
               else map_option (\<lambda>d. (d, kid)) (fits cap (signature_document
                      [signature_line ''purpose'' ''repository-index'', signature_line ''algorithm'' ''ed25519'',
                       signature_line ''key_id'' kid, signature_line ''public_key'' (cr_encode cr expected),
                       signature_line ''signature'' (cr_encode cr detached)]))
           | _ \<Rightarrow> None)
      | _ \<Rightarrow> None)"

definition wpm_verify_repository_bytes ::
  "crypto \<Rightarrow> string \<Rightarrow> string option \<Rightarrow> string option \<Rightarrow> string option \<Rightarrow> string option \<Rightarrow> bool" where
  "wpm_verify_repository_bytes cr message public_file declared_id declared_key signature =
     (case (Option.bind public_file (load_public cr), declared_id, Option.bind declared_key (decode_exact cr PUBLICKEYBYTES),
            Option.bind signature (decode_exact cr SIGNATUREBYTES)) of
        (Some expected, Some kid, Some key, Some detached) \<Rightarrow>
          message \<noteq> [] \<and> cr_key_id cr expected = Some kid \<and> key = expected \<and> cr_verify cr detached message expected
      | _ \<Rightarrow> False)"

subsection \<open>The default signing key\<close>

definition default_key_text :: "string \<Rightarrow> string \<Rightarrow> string" where
  "default_key_text path kid = ''path='' @ path @ LF # ''key-id='' @ kid @ [LF]"

text \<open>What \<open>wpm_set_default_key\<close> writes for the full path and the text of the private key.\<close>

definition wpm_set_default_key :: "crypto \<Rightarrow> signing_env \<Rightarrow> string \<Rightarrow> string option \<Rightarrow> string option" where
  "wpm_set_default_key cr env full private_file =
     (if \<not> wpm_require_capability WPM_CAP_WRITE (se_capabilities env) then None
      else
      (case Option.bind private_file (load_private cr) of
         None \<Rightarrow> None
       | Some secret \<Rightarrow> map_option (default_key_text full) (cr_key_id cr (public_part secret))))"

text \<open>\<open>1\<close> with the path, \<open>0\<close> without a setting, \<open>-1\<close> on error.\<close>

definition wpm_get_default_key :: "crypto \<Rightarrow> file_read \<Rightarrow> (string \<Rightarrow> string option) \<Rightarrow> nat \<Rightarrow> int \<times> string" where
  "wpm_get_default_key cr setting files cap =
     (case setting of
        File_absent \<Rightarrow> (0, [])
      | File_unreadable \<Rightarrow> (-1, [])
      | File_text t \<Rightarrow>
          (case (key_field t ''path'' cap, key_field t ''key-id'' 65) of
             (Some path, Some stored) \<Rightarrow>
               (case Option.bind (files path) (load_private cr) of
                  None \<Rightarrow> (-1, [])
                | Some secret \<Rightarrow> if cr_key_id cr (public_part secret) = Some stored then (1, path) else (-1, []))
           | _ \<Rightarrow> (-1, [])))"

definition wpm_clear_default_key :: "signing_env \<Rightarrow> file_read \<Rightarrow> file_read \<times> bool" where
  "wpm_clear_default_key env setting =
     (if \<not> wpm_require_capability WPM_CAP_WRITE (se_capabilities env) \<or> se_root env = None then (setting, False)
      else (File_absent, True))"

text \<open>The files at the two paths after the generation of a pair; \<open>make_default\<close> is the full path of the private
  key if it becomes the default. The second pair of each path says whether it can be opened and closed.\<close>

definition wpm_keygen ::
  "crypto \<Rightarrow> signing_env \<Rightarrow> string option \<times> bool \<times> bool \<Rightarrow> string option \<times> bool \<times> bool \<Rightarrow> string option
     \<Rightarrow> (string option \<times> string option) \<times> bool" where
  "wpm_keygen cr env private public make_default =
     (case (private, public, cr_keypair cr) of
        ((None, private_opened, private_closed), (None, public_opened, public_closed), Some (pub, sec)) \<Rightarrow>
          if \<not> wpm_require_capability WPM_CAP_WRITE (se_capabilities env) then ((None, None), False)
          else
          (case write_private cr None private_opened private_closed sec of
             (private', False) \<Rightarrow> ((private', None), False)
           | (private', True) \<Rightarrow>
               (case write_public cr None public_opened public_closed pub of
                  (public', False) \<Rightarrow> ((None, public'), False)
                | (public', True) \<Rightarrow>
                    ((private', public'),
                     case make_default of None \<Rightarrow> True | Some full \<Rightarrow> wpm_set_default_key cr env full private' \<noteq> None)))
      | _ \<Rightarrow> ((fst private, fst public), False))"

text \<open>The signature document of a package index; without a key nothing is written.\<close>

definition wpm_sign_package_index ::
  "crypto \<Rightarrow> signing_env \<Rightarrow> string option \<Rightarrow> string option \<Rightarrow> string option \<Rightarrow> string option \<times> bool" where
  "wpm_sign_package_index cr env private_path private_file index =
     (if \<not> wpm_require_capability WPM_CAP_WRITE (se_capabilities env) then (None, False)
      else if private_path = None \<or> private_path = Some [] then (None, True)
      else
      (case (Option.bind private_file (load_private cr), index) of
         (Some secret, Some message) \<Rightarrow>
           (case (cr_key_id cr (public_part secret), cr_sign cr message secret) of
              (Some kid, Some detached) \<Rightarrow>
                if \<not> se_written env then (None, False)
                else (Some (signature_document
                        [signature_line ''algorithm'' ''ed25519'', signature_line ''key_id'' kid,
                         signature_line ''public_key'' (cr_encode cr (public_part secret)),
                         signature_line ''signature'' (cr_encode cr detached)]), True)
            | _ \<Rightarrow> (None, False))
       | _ \<Rightarrow> (None, False)))"

subsection \<open>What libsodium promises\<close>

text \<open>The documented behaviour the code relies on: decoding undoes encoding, the encoded text uses none of
  the bytes that end a field and does not begin with its padding, and key ids are 64 hexadecimal digits.\<close>

definition crypto_ok :: "crypto \<Rightarrow> bool" where
  "crypto_ok cr \<longleftrightarrow>
     (\<forall>b n. length b = n \<longrightarrow> cr_decode cr n (cr_encode cr b) = Some b)
     \<and> (\<forall>b. length (cr_encode cr b) \<le> 2 * length b + 4 \<and> (b \<noteq> [] \<longrightarrow> length b < length (cr_encode cr b))
          \<and> list_all (\<lambda>c. is_alnum c \<or> c = CHR ''+'' \<or> c = CHR ''/'' \<or> c = CHR ''='') (cr_encode cr b)
          \<and> \<not> at (CHR ''='') (cr_encode cr b))
     \<and> (\<forall>k i. cr_key_id cr k = Some i \<longrightarrow> length i = 64 \<and> list_all lower_hex i)"

lemma crypto_okD:
  assumes "crypto_ok cr"
  shows "length b = n \<Longrightarrow> cr_decode cr n (cr_encode cr b) = Some b"
    and "length (cr_encode cr b) \<le> 2 * length b + 4" "b \<noteq> [] \<Longrightarrow> length b < length (cr_encode cr b)"
    and "list_all (\<lambda>c. is_alnum c \<or> c = CHR ''+'' \<or> c = CHR ''/'' \<or> c = CHR ''='') (cr_encode cr b)"
    and "\<not> at (CHR ''='') (cr_encode cr b)"
    and "cr_key_id cr k = Some i \<Longrightarrow> length i = 64" "cr_key_id cr k = Some i \<Longrightarrow> list_all lower_hex i"
  using assms unfolding crypto_ok_def by blast+

lemma decode_exact_Some: "decode_exact cr n t = Some b \<Longrightarrow> length b = n"
  by (auto simp: decode_exact_def split: option.splits if_splits)

lemma decode_exact_encode: "crypto_ok cr \<Longrightarrow> length b = n \<Longrightarrow> decode_exact cr n (cr_encode cr b) = Some b"
  by (simp add: decode_exact_def crypto_okD)

lemma field_bytes: "is_alnum c \<or> c = CHR ''+'' \<or> c = CHR ''/'' \<or> c = CHR ''='' \<Longrightarrow> c \<notin> {CR, LF, DQUOTE}"
  by (auto simp: class_defs)

lemma cspn_found:
  assumes "list_all (\<lambda>c. c \<notin> S) a" "d \<in> S"
  shows "strcspn_take S (a @ d # q) = a"
  using assms unfolding strcspn_take_def by (induction a) auto

lemma key_field_found:
  assumes "strstr name t = Some (name @ v @ d # q)" "list_all (\<lambda>c. c \<notin> {CR, LF, DQUOTE}) v" "d \<in> {CR, LF, DQUOTE}"
    and "v \<noteq> []" "length v < cap" "\<not> at (CHR ''='') v"
  shows "key_field t name cap = Some v"
proof -
  have "\<not> at (CHR ''='') (v @ d # q)" using assms(4,6) by (cases v) auto
  then show ?thesis using assms(4,5) unfolding key_field_def assms(1)
    by (simp add: cspn_found [OF assms(2,3)])
qed

lemma encode_field:
  assumes "crypto_ok cr" "length b = n" "0 < n" "2 * n + 4 < cap"
    and "strstr name t = Some (name @ cr_encode cr b @ d # q)" "d \<in> {CR, LF, DQUOTE}"
  shows "Option.bind (key_field t name cap) (decode_exact cr n) = Some b"
proof -
  have "list_all (\<lambda>c. c \<notin> {CR, LF, DQUOTE}) (cr_encode cr b)"
    using crypto_okD(4) [OF assms(1), of b] by (rule list.pred_mono_strong) (use field_bytes in blast)
  moreover have "length (cr_encode cr b) < cap" using crypto_okD(2) [OF assms(1), of b] assms(2,4) by linarith
  moreover have "cr_encode cr b \<noteq> []" using crypto_okD(3) [OF assms(1), of b] assms(2,3) by force
  ultimately have "key_field t name cap = Some (cr_encode cr b)"
    using key_field_found [OF assms(5)] crypto_okD(5) [OF assms(1)] assms(6) by blast
  then show ?thesis using decode_exact_encode [OF assms(1,2)] by simp
qed

text \<open>A written key file is read back.\<close>

lemma load_public_text:
  assumes "crypto_ok cr" "length key = PUBLICKEYBYTES"
  shows "load_public cr (public_text cr key) = Some key"
proof -
  have "strstr ''public-key='' (public_text cr key) = Some (''public-key='' @ cr_encode cr key @ LF # [])"
    by (simp add: public_text_def starts_with_def)
  then have "Option.bind (key_field (public_text cr key) ''public-key='' 128) (decode_exact cr PUBLICKEYBYTES) = Some key"
    using encode_field [OF assms(1,2), of 128 "''public-key=''" "public_text cr key" LF "[]"] by (simp add: PUBLICKEYBYTES_def)
  then show ?thesis by (simp add: load_public_def key_header_supported_def public_text_def starts_with_def)
qed

lemma load_private_text:
  assumes "crypto_ok cr" "length key = SECRETKEYBYTES"
  shows "load_private cr (private_text cr key) = Some key"
proof -
  define t where "t = private_text cr key"
  define v where "v = cr_encode cr key"
  have found: "strstr ''secret-key'' t = Some (''secret-key'' @ CHR ''='' # v @ [LF])"
    by (simp add: t_def v_def private_text_def starts_with_def)
  have "list_all (\<lambda>c. c \<notin> {CR, LF, DQUOTE}) v"
    using crypto_okD(4) [OF assms(1), of key] unfolding v_def by (rule list.pred_mono_strong) (use field_bytes in blast)
  then have "strcspn_take {CR, LF, DQUOTE} (v @ [LF]) = v" using cspn_found [of "{CR, LF, DQUOTE}" v LF "[]"] by simp
  moreover have "key \<noteq> []" using assms(2) by (auto simp: SECRETKEYBYTES_def)
  then have "v \<noteq> []" "length v < 256"
    using crypto_okD(2,3) [OF assms(1), of key] assms(2) by (auto simp: v_def SECRETKEYBYTES_def)
  ultimately have "key_field t ''secret-key'' 256 = Some v" unfolding key_field_def found by simp
  then show ?thesis
    using decode_exact_encode [OF assms]
    by (simp add: load_private_def t_def v_def key_header_supported_def private_text_def starts_with_def)
qed

subsection \<open>The accepted signatures\<close>

lemma readonly_outcome:
  assumes "wpm_validate_signature_bytes cr env st signature index allow = Some r"
  shows "(signature = None \<and> allow \<and> se_authorized env \<and> r = ''unsigned'')
    \<or> (\<exists>t declared_key detached_text message key detached file.
          signature = Some t \<and> index = Some message \<and> signature_fields t = Some (r, declared_key, detached_text)
        \<and> length r = 64 \<and> list_all lower_hex r \<and> \<not> is_revoked st r
        \<and> has_public st r = Some file \<and> load_public cr file = Some key
        \<and> decode_exact cr PUBLICKEYBYTES declared_key = Some key
        \<and> decode_exact cr SIGNATUREBYTES detached_text = Some detached
        \<and> cr_key_id cr key = Some r \<and> cr_verify cr detached message key)"
  using assms unfolding wpm_validate_signature_bytes_def
  by (auto split: option.splits if_splits prod.splits simp: bind_eq_Some_conv)

lemma package_outcome:
  assumes "wpm_validate_package_signature cr env signature index allow answer st = (st', r)"
  shows "(r = None \<longrightarrow> st' = st)
    \<and> (\<forall>i. r = Some i \<longrightarrow>
        (signature = File_absent \<and> allow \<and> se_authorized env \<and> i = ''unsigned'' \<and> st' = st)
      \<or> (\<exists>t declared_key detached_text message key detached.
            signature = File_text t \<and> index = Some message \<and> signature_fields t = Some (i, declared_key, detached_text)
          \<and> length i = 64 \<and> \<not> is_revoked st i \<and> wpm_require_capability WPM_CAP_WRITE (se_capabilities env)
          \<and> decode_exact cr SIGNATUREBYTES detached_text = Some detached
          \<and> cr_key_id cr key = Some i \<and> cr_verify cr detached message key
          \<and> (case has_public st i of
               Some file \<Rightarrow> load_public cr file = Some key \<and> st' = st
             | None \<Rightarrow> decode_exact cr PUBLICKEYBYTES declared_key = Some key
                 \<and> (\<exists>a. answer = Some a \<and> at_class (\<lambda>c. to_lower c = CHR ''y'') a) \<and> se_authorized env
                 \<and> st' = st\<lparr>tr_public := (tr_public st)(lower i \<mapsto> public_text cr key)\<rparr>)))"
proof (cases signature)
  case (File_text t)
  then show ?thesis
    using assms unfolding wpm_validate_package_signature_def
    by (auto split: option.splits if_splits prod.splits)
qed (use assms in \<open>auto simp: wpm_validate_package_signature_def split: if_splits\<close>)

text \<open>C17: the read-only validation answers with a key id only for a well formed signature document whose
  key is in the trust store under that id, is not revoked, is the declared key and signed the index; it
  answers \<open>unsigned\<close> only when unsigned packages were allowed under an authorized data root.\<close>

theorem readonly_signature_sound:
  assumes "wpm_validate_signature_bytes cr env st signature index allow = Some r"
  shows "(signature = None \<and> allow \<and> se_authorized env \<and> r = ''unsigned'')
    \<or> (\<exists>t declared_key detached_text message key detached file.
          signature = Some t \<and> index = Some message \<and> signature_fields t = Some (r, declared_key, detached_text)
        \<and> length r = 64 \<and> list_all lower_hex r \<and> \<not> is_revoked st r
        \<and> has_public st r = Some file \<and> load_public cr file = Some key
        \<and> decode_exact cr PUBLICKEYBYTES declared_key = Some key
        \<and> decode_exact cr SIGNATUREBYTES detached_text = Some detached
        \<and> cr_key_id cr key = Some r \<and> cr_verify cr detached message key)"
  using assms by (rule readonly_outcome)

text \<open>The validation of a package changes the trust store only by adding the key that it accepted, after
  a positive answer by an authorized user; an accepted key signed the index, has the declared id and is
  not revoked, and a key that is trusted already is the one in the store.\<close>

theorem package_signature_sound:
  assumes "wpm_validate_package_signature cr env signature index allow answer st = (st', r)"
  shows "(r = None \<longrightarrow> st' = st)
    \<and> (\<forall>i. r = Some i \<longrightarrow>
        (signature = File_absent \<and> allow \<and> se_authorized env \<and> i = ''unsigned'' \<and> st' = st)
      \<or> (\<exists>t declared_key detached_text message key detached.
            signature = File_text t \<and> index = Some message \<and> signature_fields t = Some (i, declared_key, detached_text)
          \<and> length i = 64 \<and> \<not> is_revoked st i \<and> wpm_require_capability WPM_CAP_WRITE (se_capabilities env)
          \<and> decode_exact cr SIGNATUREBYTES detached_text = Some detached
          \<and> cr_key_id cr key = Some i \<and> cr_verify cr detached message key
          \<and> (case has_public st i of
               Some file \<Rightarrow> load_public cr file = Some key \<and> st' = st
             | None \<Rightarrow> decode_exact cr PUBLICKEYBYTES declared_key = Some key
                 \<and> (\<exists>a. answer = Some a \<and> at_class (\<lambda>c. to_lower c = CHR ''y'') a) \<and> se_authorized env
                 \<and> st' = st\<lparr>tr_public := (tr_public st)(lower i \<mapsto> public_text cr key)\<rparr>)))"
  using assms by (rule package_outcome)

text \<open>A package that is validated by trust on first use passes the read-only validation of a later plan.\<close>

lemma first_use_then_readonly:
  assumes "crypto_ok cr"
    and "wpm_validate_package_signature cr env (File_text t) index allow answer st = (st', Some i)"
    and "has_public st i = None" "se_root env' = Some root" "length root + 79 < 4096"
  shows "wpm_validate_signature_bytes cr env' st' (Some t) index allow' = Some i"
proof -
  obtain declared_key detached_text message key detached where a:
    "index = Some message" "signature_fields t = Some (i, declared_key, detached_text)" "\<not> is_revoked st i"
    "decode_exact cr SIGNATUREBYTES detached_text = Some detached" "cr_key_id cr key = Some i"
    "cr_verify cr detached message key" "decode_exact cr PUBLICKEYBYTES declared_key = Some key"
    "st' = st\<lparr>tr_public := (tr_public st)(lower i \<mapsto> public_text cr key)\<rparr>"
    using package_outcome [OF assms(2)] assms(3) by (auto split: option.splits)
  have "has_public st' i = Some (public_text cr key)" "\<not> is_revoked st' i"
    using a(3,8) by (simp_all add: has_public_def is_revoked_def)
  moreover have "load_public cr (public_text cr key) = Some key"
    using load_public_text [OF assms(1)] decode_exact_Some [OF a(7)] by simp
  ultimately show ?thesis
    using a crypto_okD(6,7) [OF assms(1) a(5)] assms(4,5) by (simp add: wpm_validate_signature_bytes_def)
qed

subsection \<open>Revocation is final\<close>

text \<open>The operations on the trust store; \<open>Trust_package\<close> is the validation of a package.\<close>

datatype trust_call =
    Trust_add "string option"
  | Trust_revoke string
  | Trust_package file_read "string option" bool "string option"

fun trust_step :: "crypto \<Rightarrow> signing_env \<times> trust_call \<Rightarrow> trust_state \<Rightarrow> trust_state" where
  "trust_step cr (env, Trust_add supplied) st = fst (wpm_trust_add cr env supplied st)"
| "trust_step cr (env, Trust_revoke kid) st = fst (wpm_trust_revoke env kid st)"
| "trust_step cr (env, Trust_package signature index allow answer) st =
     fst (wpm_validate_package_signature cr env signature index allow answer st)"

definition trust_run :: "crypto \<Rightarrow> (signing_env \<times> trust_call) list \<Rightarrow> trust_state \<Rightarrow> trust_state" where
  "trust_run cr calls st = fold (trust_step cr) calls st"

definition revoked_key :: "trust_state \<Rightarrow> string \<Rightarrow> bool" where
  "revoked_key st key \<longleftrightarrow> is_revoked st key \<and> has_public st key = None"

lemma revoked_key_add:
  "revoked_key st key \<Longrightarrow> revoked_key (fst (wpm_trust_add cr env supplied st)) key"
  by (auto simp: wpm_trust_add_def revoked_key_def is_revoked_def has_public_def split: option.splits)

lemma revoked_key_revoke: "revoked_key st key \<Longrightarrow> revoked_key (fst (wpm_trust_revoke env kid st)) key"
  by (auto simp: wpm_trust_revoke_def revoked_key_def is_revoked_def has_public_def)

lemma revoked_key_package:
  assumes "revoked_key st key"
  shows "revoked_key (fst (wpm_validate_package_signature cr env signature index allow answer st)) key"
proof -
  obtain st' r where e: "wpm_validate_package_signature cr env signature index allow answer st = (st', r)" by force
  show ?thesis
  proof (cases r)
    case None
    then show ?thesis using package_outcome [OF e] e assms by simp
  next
    case (Some i)
    then have "st' = st \<or> \<not> is_revoked st i \<and> (\<exists>x. st' = st\<lparr>tr_public := (tr_public st)(lower i \<mapsto> x)\<rparr>)"
      using package_outcome [OF e] by (auto split: option.splits)
    then show ?thesis using e assms by (auto simp: revoked_key_def is_revoked_def has_public_def)
  qed
qed

lemma revoked_key_run: "revoked_key st key \<Longrightarrow> revoked_key (trust_run cr calls st) key"
  unfolding trust_run_def
proof (induction calls arbitrary: st)
  case (Cons c calls)
  obtain env call where c: "c = (env, call)" by force
  have "revoked_key (trust_step cr c st) key"
    unfolding c using Cons.prems by (cases call) (simp_all add: revoked_key_add revoked_key_revoke revoked_key_package)
  then show ?case using Cons.IH by simp
qed simp

text \<open>C18: after a revocation has succeeded no sequence of additions, revocations and package validations,
  under whatever capabilities and answers, makes the key trusted again, and no signature of it, in either
  spelling of the id, is ever accepted.\<close>

theorem revocation_final:
  assumes "wpm_trust_revoke env kid st = (st1, True)" "strieq key kid"
  shows "is_revoked (trust_run cr calls st1) key \<and> has_public (trust_run cr calls st1) key = None
    \<and> wpm_validate_signature_bytes cr env' (trust_run cr calls st1) signature index allow \<noteq> Some key
    \<and> snd (wpm_validate_package_signature cr env' signature' index allow answer (trust_run cr calls st1)) \<noteq> Some key"
proof -
  have "length kid = 64" "revoked_key st1 key"
    using assms by (auto simp: wpm_trust_revoke_def revoked_key_def is_revoked_def has_public_def strieq_def split: if_splits)
  then have r: "revoked_key (trust_run cr calls st1) key" "key \<noteq> ''unsigned''"
    using revoked_key_run strieq_length [OF assms(2)] by auto
  have "wpm_validate_signature_bytes cr env' (trust_run cr calls st1) signature index allow \<noteq> Some key"
    using readonly_outcome r unfolding revoked_key_def by blast
  moreover have "snd (wpm_validate_package_signature cr env' signature' index allow answer (trust_run cr calls st1)) \<noteq> Some key"
    using package_outcome [OF prod.collapse [symmetric]] r unfolding revoked_key_def by blast
  ultimately show ?thesis using r(1) unfolding revoked_key_def by blast
qed

end
