(* ===== verification/Signature_Document.thy ===== *)
theory Signature_Document
  imports Signing Json_Object
begin

text \<open>
  Signature documents from writer to reader: the documents that \<open>wpm/signing.c\<close> writes for package and
  repository indexes, the reader \<open>author_signature_document\<close> of \<open>wpm/repository.c\<close>, and the proof that what
  is signed with a key is accepted by the validation with that key.
\<close>

subsection \<open>Searching in a document\<close>

text \<open>A value is \<open>opaque\<close> if no field name of a signature document can be found in it.\<close>

definition opaque :: "string \<Rightarrow> bool" where
  "opaque v \<longleftrightarrow> list_all (\<lambda>c. c \<notin> {CR, LF, DQUOTE}) v \<and> 32 \<le> length v \<and> \<not> at (CHR ''='') v"

lemma strstr_skip: "c \<notin> set a \<Longrightarrow> strstr (c # x) (a @ r) = strstr (c # x) r"
  by (induction a) (auto simp: starts_with_def)

lemma opaque_skip: "opaque v \<Longrightarrow> strstr (DQUOTE # x) (v @ r) = strstr (DQUOTE # x) r"
  by (rule strstr_skip) (auto simp: opaque_def list_all_iff)

lemma opaque_start:
  assumes "opaque v" "DQUOTE \<in> set m" "length m \<le> 32"
  shows "\<not> starts_with (DQUOTE # m) (DQUOTE # v @ r)"
proof
  assume "starts_with (DQUOTE # m) (DQUOTE # v @ r)"
  then have "take (length m) (v @ r) = m" by (simp add: starts_with_def)
  moreover have "length m \<le> length v" using assms(1,3) by (simp add: opaque_def)
  ultimately have "take (length m) v = m" by simp
  then have "set m \<subseteq> set v" by (metis set_take_subset)
  then show False using assms(1,2) by (auto simp: opaque_def list_all_iff)
qed

lemma starts_with_Cons [simp]: "starts_with (c # m) (d # s) \<longleftrightarrow> c = d \<and> starts_with m s"
  by (auto simp: starts_with_def)

lemma starts_with_empty [simp]: "starts_with [] s" "\<not> starts_with (c # m) []"
  by (simp_all add: starts_with_def)

lemma opaque_tail [simp]: "opaque v \<Longrightarrow> DQUOTE \<in> set m \<Longrightarrow> length m \<le> 32 \<Longrightarrow> \<not> starts_with m (v @ r)"
  using opaque_start [of v m r] by simp

subsection \<open>The signature of a package\<close>

definition package_signature :: "string \<Rightarrow> string \<Rightarrow> string \<Rightarrow> string" where
  "package_signature kid key detached = signature_document
     [signature_line ''algorithm'' ''ed25519'', signature_line ''key_id'' kid,
      signature_line ''public_key'' key, signature_line ''signature'' detached]"

lemmas document_text = package_signature_def signature_document_def signature_line_def

lemma package_occurrences:
  assumes "opaque kid" "opaque key" "opaque detached"
  shows "list_all (\<lambda>name. occurrences (package_signature kid key detached) (DQUOTE # name @ [DQUOTE]) = 1)
           [''version'', ''algorithm'', ''key_id'', ''public_key'', ''signature'']"
  using assms by (simp add: document_text occurrences.simps opaque_skip)

text \<open>The version stands first in both documents.\<close>

lemma version_first:
  "wpm_json_version_one (CHR ''{'' # LF # SPC # SPC # json_quoted ''version'' @ CHR '':'' # SPC # CHR ''1'' # CHR '','' # r)"
proof -
  have "plain_label ''version''" by (simp add: plain_label_def)
  then have k: "json_key 32 (json_quoted ''version'' @ q) = Some (''version'', q)" for q
    by (rule json_key_quoted) simp
  have sp: "wpm_json_space (LF # SPC # SPC # json_quoted l @ q) = json_quoted l @ q" for l q
    by (simp add: json_quoted_def is_json_ws_def wpm_json_space_def)
  have ne: "(json_quoted l @ q = [] \<or> at (CHR ''}'') (json_quoted l @ q)) = False" for l q
    by (simp add: json_quoted_def)
  have "json_field_loop ''version'' (LF # SPC # SPC # json_quoted ''version'' @ CHR '':'' # SPC # CHR ''1'' # CHR '','' # r)
      = Some (''1,'' @ r)"
    by (subst json_field_loop.simps) (simp only: sp ne k Let_def, simp add: is_json_ws_def wpm_json_space_def)
  then have "wpm_json_field (CHR ''{'' # LF # SPC # SPC # json_quoted ''version'' @ CHR '':'' # SPC # CHR ''1'' # CHR '','' # r) ''version''
      = Some (''1,'' @ r)"
    by (simp add: wpm_json_field_def)
  then show ?thesis
    by (simp add: wpm_json_version_one_def json_version_value_def is_digit_def Let_def)
qed

lemma document_version: "wpm_json_version_one (signature_document ls)"
  using version_first by (simp add: signature_document_def json_quoted_def)

lemma package_fields:
  assumes "opaque kid" "opaque key" "opaque detached" "length kid < 65" "length key < 128" "length detached < 256"
  shows "signature_fields (package_signature kid key detached) = Some (kid, key, detached)"
proof -
  let ?d = "package_signature kid key detached"
  have v: "wpm_json_version_one ?d" by (simp add: package_signature_def document_version)
  have o: "list_all (\<lambda>c. c \<notin> {CR, LF, DQUOTE}) v" "v \<noteq> []" "\<not> at (CHR ''='') v" if "opaque v" for v
    using that by (auto simp: opaque_def)
  have "strstr (DQUOTE # ''algorithm'' @ DQUOTE # '': '' @ DQUOTE # ''ed25519'' @ [DQUOTE]) ?d \<noteq> None"
    by (simp add: document_text)
  moreover have "\<exists>q. strstr (DQUOTE # ''key_id'' @ DQUOTE # '': '' @ [DQUOTE]) ?d
      = Some ((DQUOTE # ''key_id'' @ DQUOTE # '': '' @ [DQUOTE]) @ kid @ DQUOTE # q)"
    by (simp add: document_text)
  then have "key_field ?d (DQUOTE # ''key_id'' @ DQUOTE # '': '' @ [DQUOTE]) 65 = Some kid"
    using key_field_found o [OF assms(1)] assms(4) by blast
  moreover have "\<exists>q. strstr (DQUOTE # ''public_key'' @ DQUOTE # '': '' @ [DQUOTE]) ?d
      = Some ((DQUOTE # ''public_key'' @ DQUOTE # '': '' @ [DQUOTE]) @ key @ DQUOTE # q)"
    using assms by (simp add: document_text opaque_skip)
  then have "key_field ?d (DQUOTE # ''public_key'' @ DQUOTE # '': '' @ [DQUOTE]) 128 = Some key"
    using key_field_found o [OF assms(2)] assms(5) by blast
  moreover have "\<exists>q. strstr (DQUOTE # ''signature'' @ DQUOTE # '': '' @ [DQUOTE]) ?d
      = Some ((DQUOTE # ''signature'' @ DQUOTE # '': '' @ [DQUOTE]) @ detached @ DQUOTE # q)"
    using assms by (simp add: document_text opaque_skip)
  then have "key_field ?d (DQUOTE # ''signature'' @ DQUOTE # '': '' @ [DQUOTE]) 256 = Some detached"
    using key_field_found o [OF assms(3)] assms(6) by blast
  ultimately show ?thesis
    using package_occurrences [OF assms(1-3)] v unfolding signature_fields_def by simp
qed

text \<open>The law of detached signatures: what a secret key signs verifies under its public part.\<close>

definition signing_ok :: "crypto \<Rightarrow> bool" where
  "signing_ok cr \<longleftrightarrow> crypto_ok cr \<and>
     (\<forall>message secret detached. length secret = SECRETKEYBYTES \<and> cr_sign cr message secret = Some detached \<longrightarrow>
        length detached = SIGNATUREBYTES \<and> cr_verify cr detached message (public_part secret))"

lemma load_private_length: "load_private cr t = Some b \<Longrightarrow> length b = SECRETKEYBYTES"
  by (auto simp: load_private_def bind_eq_Some_conv split: if_splits dest: decode_exact_Some)

lemma load_public_length: "load_public cr t = Some b \<Longrightarrow> length b = PUBLICKEYBYTES"
  by (auto simp: load_public_def bind_eq_Some_conv split: if_splits dest: decode_exact_Some)

lemma public_part_length: "length b = SECRETKEYBYTES \<Longrightarrow> length (public_part b) = PUBLICKEYBYTES"
  by (simp add: public_part_def SECRETKEYBYTES_def PUBLICKEYBYTES_def)

lemma opaque_encode: "crypto_ok cr \<Longrightarrow> 32 \<le> length b \<Longrightarrow> opaque (cr_encode cr b)"
proof -
  assume ok: "crypto_ok cr" and b: "32 \<le> length b"
  have "list_all (\<lambda>c. c \<notin> {CR, LF, DQUOTE}) (cr_encode cr b)"
    using crypto_okD(4) [OF ok, of b] by (rule list.pred_mono_strong) (use field_bytes in blast)
  moreover have "length b < length (cr_encode cr b)" using crypto_okD(3) [OF ok, of b] b by force
  ultimately show ?thesis using b crypto_okD(5) [OF ok, of b] by (simp add: opaque_def)
qed

lemma opaque_key_id: "crypto_ok cr \<Longrightarrow> cr_key_id cr k = Some i \<Longrightarrow> opaque i"
  using crypto_okD(6,7) [of cr k i]
  by (cases i) (auto simp: opaque_def list_all_iff lower_hex_def class_defs)

lemma package_round_trip:
  assumes ok: "signing_ok cr"
    and signed: "wpm_sign_package_index cr env (Some (c # path)) (Some private_file) (Some index) = (Some doc, True)"
    and secret: "load_private cr private_file = Some secret" and kid: "cr_key_id cr (public_part secret) = Some kid"
    and trusted: "has_public st kid = Some file" "load_public cr file = Some (public_part secret)" "\<not> is_revoked st kid"
    and root: "se_root env' = Some root" "length root + 79 < 4096"
  shows "wpm_validate_signature_bytes cr env' st (Some doc) (Some index) allow = Some kid
    \<and> (wpm_require_capability WPM_CAP_WRITE (se_capabilities env') \<and> se_trust_dir env' \<longrightarrow>
        wpm_validate_package_signature cr env' (File_text doc) (Some index) allow answer st = (st, Some kid))"
proof -
  have cr: "crypto_ok cr" using ok by (simp add: signing_ok_def)
  obtain detached where d: "cr_sign cr index secret = Some detached"
    "doc = package_signature kid (cr_encode cr (public_part secret)) (cr_encode cr detached)"
    using signed unfolding wpm_sign_package_index_def
    by (auto simp: secret kid package_signature_def split: if_splits option.splits)
  have len: "length (public_part secret) = 32" "length detached = 64"
    using ok d(1) load_private_length [OF secret] public_part_length [OF load_private_length [OF secret]]
    by (auto simp: signing_ok_def PUBLICKEYBYTES_def SIGNATUREBYTES_def)
  have v: "cr_verify cr detached index (public_part secret)"
    using ok d(1) load_private_length [OF secret] by (auto simp: signing_ok_def)
  have "signature_fields doc = Some (kid, cr_encode cr (public_part secret), cr_encode cr detached)"
    unfolding d(2) using opaque_encode [OF cr] opaque_key_id [OF cr kid] crypto_okD(6) [OF cr kid] len
      crypto_okD(2) [OF cr, of "public_part secret"] crypto_okD(2) [OF cr, of detached]
    by (intro package_fields) auto
  moreover have "decode_exact cr PUBLICKEYBYTES (cr_encode cr (public_part secret)) = Some (public_part secret)"
    "decode_exact cr SIGNATUREBYTES (cr_encode cr detached) = Some detached"
    using decode_exact_encode [OF cr, of _ 32] decode_exact_encode [OF cr, of _ 64] len
    by (simp_all add: PUBLICKEYBYTES_def SIGNATUREBYTES_def)
  ultimately show ?thesis
    using crypto_okD(6,7) [OF cr kid] trusted root kid v
    by (simp add: wpm_validate_signature_bytes_def wpm_validate_package_signature_def)
qed

text \<open>A package index that is signed with a private key is accepted, with the id of that key, by the
  read-only validation and by the validation of the package, whenever the store holds the public key
  under its id and the id is not revoked.\<close>

theorem package_signature_round_trip:
  assumes ok: "signing_ok cr"
    and signed: "wpm_sign_package_index cr env (Some (c # path)) (Some private_file) (Some index) = (Some doc, True)"
    and secret: "load_private cr private_file = Some secret" and kid: "cr_key_id cr (public_part secret) = Some kid"
    and trusted: "has_public st kid = Some file" "load_public cr file = Some (public_part secret)" "\<not> is_revoked st kid"
    and root: "se_root env' = Some root" "length root + 79 < 4096"
  shows "wpm_validate_signature_bytes cr env' st (Some doc) (Some index) allow = Some kid
    \<and> (wpm_require_capability WPM_CAP_WRITE (se_capabilities env') \<and> se_trust_dir env' \<longrightarrow>
        wpm_validate_package_signature cr env' (File_text doc) (Some index) allow answer st = (st, Some kid))"
  using assms by (rule package_round_trip)

subsection \<open>The signature of a repository\<close>

text \<open>The values that \<open>author_signature_document\<close> collects; \<open>sd_seen\<close> are the members whose bit is set.\<close>

record signature_doc =
  sd_seen :: "string list"
  sd_purpose :: string
  sd_algorithm :: string
  sd_id :: string
  sd_public :: string
  sd_signature :: string

definition no_signature :: signature_doc where
  "no_signature = \<lparr>sd_seen = [], sd_purpose = [], sd_algorithm = [], sd_id = [], sd_public = [], sd_signature = []\<rparr>"

definition signature_labels :: "string list" where
  "signature_labels = [''version'', ''purpose'', ''algorithm'', ''key_id'', ''public_key'', ''signature'']"

definition signature_capacity :: "nat \<Rightarrow> string \<Rightarrow> nat option" where
  "signature_capacity id_size key =
     (if key = ''purpose'' then Some 32 else if key = ''algorithm'' then Some 16
      else if key = ''key_id'' then Some id_size else if key = ''public_key'' then Some 128
      else if key = ''signature'' then Some 256 else None)"

definition signature_store :: "signature_doc \<Rightarrow> string \<Rightarrow> string \<Rightarrow> signature_doc" where
  "signature_store d key x =
     (if key = ''purpose'' then d\<lparr>sd_purpose := x\<rparr> else if key = ''algorithm'' then d\<lparr>sd_algorithm := x\<rparr>
      else if key = ''key_id'' then d\<lparr>sd_id := x\<rparr> else if key = ''public_key'' then d\<lparr>sd_public := x\<rparr>
      else if key = ''signature'' then d\<lparr>sd_signature := x\<rparr> else d)"

text \<open>One value: a repeated known member fails, a collected one is read, any other is skipped.\<close>

definition signature_value :: "nat \<Rightarrow> signature_doc \<Rightarrow> string \<Rightarrow> string \<Rightarrow> (signature_doc \<times> string) option" where
  "signature_value id_size d key p =
     (if key \<in> set signature_labels \<and> key \<in> set (sd_seen d) then None
      else
      (let seen = (if key \<in> set signature_labels then key # sd_seen d else sd_seen d) in
       (case signature_capacity id_size key of
          None \<Rightarrow> (case wpm_json_value_end p of (valid, q) \<Rightarrow> if valid then Some (d\<lparr>sd_seen := seen\<rparr>, q) else None)
        | Some cap \<Rightarrow>
            (case wpm_json_read_string True cap p of
               (_, None) \<Rightarrow> None
             | (x, Some q) \<Rightarrow> Some (signature_store (d\<lparr>sd_seen := seen\<rparr>) key x, q)))))"

lemma read_pair_length: "wpm_json_read_string out cap p = (x, Some q) \<Longrightarrow> length q < length p"
  using read_string_length [of out cap p q] by simp

lemma signature_value_length: "signature_value n d key p = Some (d', q) \<Longrightarrow> length q \<le> length p"
  using value_end_length [of p]
  by (auto simp: signature_value_def Let_def split: if_splits option.splits prod.splits
      dest!: read_pair_length)

function signature_members :: "nat \<Rightarrow> signature_doc \<Rightarrow> string \<Rightarrow> signature_doc option" where
  "signature_members id_size d p0 =
     (let p = wpm_json_space p0 in
      if at (CHR ''}'') p then Some d
      else
      (case wpm_json_read_string True 32 p of
         (_, None) \<Rightarrow> None
       | (key, Some q) \<Rightarrow>
           let q1 = wpm_json_space q in
           if \<not> at (CHR '':'') q1 then None
           else
           (case signature_value id_size d key (wpm_json_space (tl q1)) of
              None \<Rightarrow> None
            | Some (d', r) \<Rightarrow>
                let r1 = wpm_json_space r in
                if at (CHR '','') r1 then signature_members id_size d' (tl r1)
                else if at (CHR ''}'') r1 then signature_members id_size d' r1 else None)))"
  by pat_completeness auto
termination
proof -
  have less: "length (wpm_json_space r) < length p0"
    if "wpm_json_read_string True 32 (wpm_json_space p0) = (key, Some q)"
      "signature_value n d key (wpm_json_space (tl (wpm_json_space q))) = Some (d', r)" for p0 key q n d d' r
    using read_string_length [of True 32 "wpm_json_space p0" q] that(1) signature_value_length [OF that(2)]
      wpm_json_space_length [of p0] wpm_json_space_length [of q] wpm_json_space_length [of r]
      wpm_json_space_length [of "tl (wpm_json_space q)"]
    by simp
  show ?thesis
    by (relation "measure (\<lambda>(n, d, p). length p)") (auto dest!: less [OF sym] simp: less_imp_diff_less)
qed

declare signature_members.simps [simp del]

text \<open>The accepted document and the id it names.\<close>

definition author_signature_document ::
  "crypto \<Rightarrow> string \<Rightarrow> string \<Rightarrow> string option \<Rightarrow> nat \<Rightarrow> string option" where
  "author_signature_document cr t catalog public_file id_size =
     (let p = wpm_json_content t in
      if \<not> wpm_json_document_valid t \<or> \<not> wpm_json_version_one t \<or> \<not> at (CHR ''{'') p then None
      else
      (case signature_members id_size no_signature (tl p) of
         None \<Rightarrow> None
       | Some d \<Rightarrow>
           if set signature_labels \<subseteq> set (sd_seen d) \<and> sd_purpose d = ''repository-index'' \<and> sd_algorithm d = ''ed25519''
              \<and> length (sd_id d) = 64 \<and> list_all lower_hex (sd_id d)
              \<and> wpm_verify_repository_bytes cr catalog public_file (Some (sd_id d)) (Some (sd_public d)) (Some (sd_signature d))
           then Some (sd_id d) else None))"

text \<open>The document in the file \<open>index.sig\<close>, of at most 16384 bytes and without a NUL byte.\<close>

definition author_verify_signature ::
  "crypto \<Rightarrow> string option \<Rightarrow> string \<Rightarrow> string option \<Rightarrow> nat \<Rightarrow> string option" where
  "author_verify_signature cr signature_file catalog public_file id_size =
     (case signature_file of
        None \<Rightarrow> None
      | Some t \<Rightarrow>
          if t = [] \<or> length t \<ge> 16385 \<or> NUL \<in> set t then None
          else author_signature_document cr t catalog public_file id_size)"

subsection \<open>What is signed is accepted\<close>

definition repository_signature :: "string \<Rightarrow> string \<Rightarrow> string \<Rightarrow> string" where
  "repository_signature kid key detached = signature_document
     [signature_line ''purpose'' ''repository-index'', signature_line ''algorithm'' ''ed25519'',
      signature_line ''key_id'' kid, signature_line ''public_key'' key, signature_line ''signature'' detached]"

definition plain_value :: "string \<Rightarrow> bool" where
  "plain_value v \<longleftrightarrow> list_all (\<lambda>c. 0x20 \<le> byte c \<and> c \<noteq> DQUOTE \<and> c \<noteq> BSLASH) v"

lemma plain_value_nul: "plain_value v \<Longrightarrow> NUL \<notin> set v"
proof
  assume "plain_value v" "NUL \<in> set v"
  then have "0x20 \<le> byte NUL" unfolding plain_value_def list_all_iff by blast
  then show False by simp
qed

lemma read_plain: "plain_value v \<Longrightarrow> length v < cap \<Longrightarrow> wpm_json_read_string True cap (json_quoted v @ q) = (v, Some q)"
  using plain_escape_printable [of v] read_quoted [of v cap q] by (auto simp: plain_value_def)

lemma signature_value_plain:
  assumes "signature_capacity n key = Some cap" "key \<in> set signature_labels" "key \<notin> set (sd_seen d)"
    and "plain_value v" "length v < cap"
  shows "signature_value n d key (json_quoted v @ q) = Some (signature_store (d\<lparr>sd_seen := key # sd_seen d\<rparr>) key v, q)"
  using assms by (simp add: signature_value_def Let_def read_plain)

lemma signature_members_step:
  assumes "json_blank a" "plain_label l" "wpm_json_space w = w"
  shows "signature_members n d (a @ json_quoted l @ CHR '':'' # SPC # w) =
    (case signature_value n d l w of
       None \<Rightarrow> None
     | Some (d', r) \<Rightarrow>
         if at (CHR '','') (wpm_json_space r) then signature_members n d' (tl (wpm_json_space r))
         else if at (CHR ''}'') (wpm_json_space r) then signature_members n d' (wpm_json_space r) else None)"
proof -
  have sp: "wpm_json_space (a @ json_quoted l @ q) = json_quoted l @ q" for q using assms(1) by simp
  have no: "\<not> at (CHR ''}'') (json_quoted l @ q)" for q by (simp add: json_quoted_def)
  have key: "wpm_json_read_string True 32 (json_quoted l @ q) = (l, Some q)" for q
    using assms(2) read_plain [of l 32 q] by (simp add: plain_label_def plain_value_def)
  have w: "wpm_json_space (SPC # w) = w" using assms(3) by (simp add: is_json_ws_def wpm_json_space_def)
  show ?thesis
    by (subst signature_members.simps) (simp add: sp no key w Let_def cong: option.case_cong)
qed

definition member_line :: "string \<Rightarrow> string \<Rightarrow> string" where
  "member_line l w = [LF, SPC, SPC] @ json_quoted l @ CHR '':'' # SPC # w"

lemma repository_signature_lines:
  "repository_signature kid key detached = CHR ''{'' # member_line ''version'' (CHR ''1'' # CHR '','' #
     member_line ''purpose'' (json_quoted ''repository-index'' @ CHR '','' #
     member_line ''algorithm'' (json_quoted ''ed25519'' @ CHR '','' #
     member_line ''key_id'' (json_quoted kid @ CHR '','' #
     member_line ''public_key'' (json_quoted key @ CHR '','' #
     member_line ''signature'' (json_quoted detached @ [LF, CHR ''}'', LF]))))))"
  by (simp add: repository_signature_def signature_document_def signature_line_def member_line_def json_quoted_def)

lemma signature_members_stop: "signature_members n d (CHR ''}'' # q) = Some d"
  by (subst signature_members.simps) simp

lemma space_line_end: "wpm_json_space [LF, CHR ''}'', LF] = [CHR ''}'', LF]"
  by (simp add: wpm_json_space_def is_json_ws_def)

lemma member_line_string:
  assumes "plain_label l" "signature_capacity n l = Some cap" "l \<in> set signature_labels" "l \<notin> set (sd_seen d)"
    and "plain_value v" "length v < cap"
  shows "signature_members n d (member_line l (json_quoted v @ CHR '','' # q))
      = signature_members n (signature_store (d\<lparr>sd_seen := l # sd_seen d\<rparr>) l v) q"
    and "signature_members n d (member_line l (json_quoted v @ [LF, CHR ''}'', LF]))
      = Some (signature_store (d\<lparr>sd_seen := l # sd_seen d\<rparr>) l v)"
  using assms signature_members_step [of "[LF, SPC, SPC]" l "json_quoted v @ CHR '','' # q" n d]
    signature_members_step [of "[LF, SPC, SPC]" l "json_quoted v @ [LF, CHR ''}'', LF]" n d]
  by (simp_all add: member_line_def is_json_ws_def signature_value_plain signature_members_stop space_line_end
      del: append_Cons append_Nil)

lemma member_line_version:
  "''version'' \<notin> set (sd_seen d) \<Longrightarrow>
     signature_members n d (member_line ''version'' (CHR ''1'' # CHR '','' # q))
       = signature_members n (d\<lparr>sd_seen := ''version'' # sd_seen d\<rparr>) q"
  using signature_members_step [of "[LF, SPC, SPC]" "''version''" "CHR ''1'' # CHR '','' # q" n d]
  by (simp add: member_line_def is_json_ws_def plain_label_def wpm_json_space_def signature_value_def
      signature_labels_def signature_capacity_def wpm_json_value_end_def del: append_Cons append_Nil)

lemma plain_encode: "crypto_ok cr \<Longrightarrow> plain_value (cr_encode cr b)"
  unfolding plain_value_def
  by (rule list.pred_mono_strong [OF crypto_okD(4)]) (auto simp: class_defs)

lemma plain_lower_hex: "list_all lower_hex v \<Longrightarrow> plain_value v"
  unfolding plain_value_def by (erule list.pred_mono_strong) (auto simp: lower_hex_def class_defs)

lemma repository_members:
  assumes "plain_value kid" "plain_value key" "plain_value detached"
    and "length kid < 65" "length key < 128" "length detached < 256"
  shows "signature_members 65 no_signature (tl (repository_signature kid key detached)) =
    Some \<lparr>sd_seen = rev signature_labels, sd_purpose = ''repository-index'', sd_algorithm = ''ed25519'', sd_id = kid,
          sd_public = key, sd_signature = detached\<rparr>"
proof -
  have p: "plain_value ''repository-index''" "plain_value ''ed25519''" by (simp_all add: plain_value_def)
  have l: "plain_label ''purpose''" "plain_label ''algorithm''" "plain_label ''key_id''" "plain_label ''public_key''"
    "plain_label ''signature''" by (simp_all add: plain_label_def)
  show ?thesis
    unfolding repository_signature_lines list.sel(3)
    using assms p l
    by (simp add: member_line_version member_line_string signature_capacity_def signature_labels_def no_signature_def
        signature_store_def)
qed

lemma json_value_quoted: "plain_value v \<Longrightarrow> json_value (json_quoted v)"
  using v_string [OF json_label_body] by (simp add: plain_value_def)

lemma member_line_one:
  assumes "plain_value l" "json_value v" "json_blank b"
  shows "json_members (member_line l (v @ b))"
  using m_one [of "[LF, SPC, SPC]" l "[]" "[SPC]" v b] assms json_label_body [of l]
  by (simp add: member_line_def is_json_ws_def plain_value_def)

lemma member_line_more:
  assumes "plain_value l" "json_value v" "json_members m"
  shows "json_members (member_line l (v @ CHR '','' # m))"
  using m_more [of "[LF, SPC, SPC]" l "[]" "[SPC]" v "[]" m] assms json_label_body [of l]
  by (simp add: member_line_def is_json_ws_def plain_value_def)

lemma repository_document_valid:
  assumes "plain_value kid" "plain_value key" "plain_value detached"
    and "length kid < 65" "length key < 128" "length detached < 256"
  shows "wpm_json_document_valid (repository_signature kid key detached)"
proof -
  define m where "m = member_line ''version'' (decimal 1 @ CHR '','' #
     member_line ''purpose'' (json_quoted ''repository-index'' @ CHR '','' #
     member_line ''algorithm'' (json_quoted ''ed25519'' @ CHR '','' #
     member_line ''key_id'' (json_quoted kid @ CHR '','' #
     member_line ''public_key'' (json_quoted key @ CHR '','' #
     member_line ''signature'' (json_quoted detached @ [LF]))))))"
  have l: "plain_value ''version''" "plain_value ''purpose''" "plain_value ''algorithm''" "plain_value ''key_id''"
    "plain_value ''public_key''" "plain_value ''signature''" "plain_value ''repository-index''" "plain_value ''ed25519''"
    by (simp_all add: plain_value_def)
  have "json_members m"
    unfolding m_def using l assms(1-3)
    by (intro member_line_more member_line_one json_decimal_value json_value_quoted) (simp_all add: is_json_ws_def)
  then have v: "json_value (CHR ''{'' # m @ ''}'')" by (rule v_object)
  have one: "decimal 1 = ''1''" by code_simp
  have d: "repository_signature kid key detached = [] @ (CHR ''{'' # m @ ''}'') @ [LF]"
    unfolding repository_signature_lines m_def one by (simp add: member_line_def)
  have "json_text (repository_signature kid key detached)"
    unfolding json_text_def d using v
    by (intro exI [of _ "[]"] exI [of _ "CHR ''{'' # m @ ''}''"] exI [of _ "[LF]"]) (simp add: is_json_ws_def)
  moreover have "\<not> starts_with bom (repository_signature kid key detached)" by (simp add: d bom_def)
  moreover have "length (repository_signature kid key detached) < SIZE_MAX"
    unfolding repository_signature_lines using assms(4-6) by (simp add: member_line_def json_quoted_def SIZE_MAX_def)
  ultimately show ?thesis by (intro document_valid_complete) (simp_all add: json_document_def)
qed

lemma content_brace [simp]: "wpm_json_content (CHR ''{'' # q) = CHR ''{'' # q"
  by (simp add: wpm_json_content_def)

text \<open>The document that signs the exact catalog bytes is accepted, and names the key, by the reader of
  the repository for the same catalog and public key.\<close>

theorem repository_signature_round_trip:
  assumes ok: "signing_ok cr" and key: "private_file = Some (private_text cr secret)" "length secret = SECRETKEYBYTES"
    and signed: "wpm_sign_repository_bytes cr catalog private_file public_file cap = Some (doc, kid)"
  shows "author_verify_signature cr (Some doc) catalog public_file 65 = Some kid"
proof -
  have cr: "crypto_ok cr" using ok by (simp add: signing_ok_def)
  obtain expected detached where e: "Option.bind public_file (load_public cr) = Some expected" "catalog \<noteq> []"
    "cr_key_id cr expected = Some kid" "cr_sign cr catalog secret = Some detached" "cr_verify cr detached catalog expected"
    "doc = repository_signature kid (cr_encode cr expected) (cr_encode cr detached)"
    using signed key load_private_text [OF cr key(2)] unfolding wpm_sign_repository_bytes_def
    by (auto simp: repository_signature_def split: option.splits if_splits)
  have len: "length expected = 32" "length detached = 64"
    using ok e(1,4) key(2) load_public_length [of cr _ expected]
    by (auto simp: signing_ok_def PUBLICKEYBYTES_def SIGNATUREBYTES_def bind_eq_Some_conv)
  have plain: "plain_value kid" "plain_value (cr_encode cr expected)" "plain_value (cr_encode cr detached)"
    and id: "length kid = 64" "list_all lower_hex kid"
    using crypto_okD(6,7) [OF cr e(3)] plain_encode [OF cr] plain_lower_hex by auto
  have size: "length kid < 65" "length (cr_encode cr expected) < 128" "length (cr_encode cr detached) < 256"
    using id(1) len crypto_okD(2) [OF cr, of expected] crypto_okD(2) [OF cr, of detached] by auto
  have verify: "wpm_verify_repository_bytes cr catalog public_file (Some kid) (Some (cr_encode cr expected))
      (Some (cr_encode cr detached))"
    using e len decode_exact_encode [OF cr, of expected 32] decode_exact_encode [OF cr, of detached 64]
    by (simp add: wpm_verify_repository_bytes_def PUBLICKEYBYTES_def SIGNATUREBYTES_def)
  have head: "\<exists>q. doc = CHR ''{'' # q" by (simp add: e(6) repository_signature_lines)
  have nul: "NUL \<notin> set doc"
    using plain [THEN plain_value_nul] unfolding e(6) repository_signature_lines
    by (simp add: member_line_def json_quoted_def)
  have fit: "length doc < 16385"
    using size unfolding e(6) repository_signature_lines by (simp add: member_line_def json_quoted_def)
  have "wpm_json_version_one doc" unfolding e(6) repository_signature_def by (rule document_version)
  moreover have "wpm_json_document_valid doc" unfolding e(6) by (rule repository_document_valid [OF plain size])
  moreover have "signature_members 65 no_signature (tl (wpm_json_content doc)) =
    Some \<lparr>sd_seen = rev signature_labels, sd_purpose = ''repository-index'', sd_algorithm = ''ed25519'', sd_id = kid,
          sd_public = cr_encode cr expected, sd_signature = cr_encode cr detached\<rparr>"
    using head repository_members [OF plain size] unfolding e(6) by auto
  moreover have "at (CHR ''{'') (wpm_json_content doc)" "doc \<noteq> []" using head by auto
  ultimately show ?thesis
    using fit nul id verify by (simp add: author_verify_signature_def author_signature_document_def Let_def)
qed

subsection \<open>The default signing key\<close>

lemma strstr_extend: "strstr pat s = Some p \<Longrightarrow> strstr pat (s @ r) = Some (p @ r)"
proof (induction s)
  case Nil
  then show ?case by (cases r) (auto split: if_splits)
next
  case (Cons x s)
  show ?case
  proof (cases "starts_with pat (x # s)")
    case True
    then have "starts_with pat (x # s @ r)" by (auto simp: starts_with_iff) (metis append.assoc append_Cons)
    with True Cons.prems show ?thesis by auto
  next
    case False
    with Cons.prems have p: "strstr pat s = Some p" by simp
    then have "length pat \<le> length s" using strstr_length strstr_Some by fastforce
    with False have "\<not> starts_with pat (x # s @ r)" by (simp add: starts_with_def take_Cons' split: if_splits)
    with p Cons.IH show ?thesis by simp
  qed
qed

lemma strstr_beyond:
  assumes "strstr pat s = None" "c \<notin> set pat" "pat \<noteq> []"
  shows "strstr pat (s @ c # r) = strstr pat r"
  using assms(1)
proof (induction s)
  case Nil
  have "\<not> starts_with pat (c # r)" using assms(2,3) by (cases pat) (auto simp: starts_with_def)
  then show ?case by simp
next
  case (Cons x s)
  have "\<not> starts_with pat (x # s @ c # r)"
  proof
    assume "starts_with pat (x # s @ c # r)"
    then have p: "take (length pat) ((x # s) @ c # r) = pat" by (simp add: starts_with_def)
    show False
    proof (cases "length pat \<le> length (x # s)")
      case True
      with p have "take (length pat) (x # s) = pat" unfolding take_append by simp
      then have "starts_with pat (x # s)" by (simp add: starts_with_def)
      with Cons.prems show False by simp
    next
      case False
      then obtain k where "length pat = length (x # s) + Suc k" by (metis less_imp_Suc_add not_le add_Suc_right)
      with p have "c \<in> set pat" by (metis append_take_drop_id in_set_conv_decomp take_Suc_Cons take_append
            append.assoc append_Cons take_all_iff le_add1 diff_add_inverse)
      with assms(2) show False ..
    qed
  qed
  with Cons show ?case by (simp split: if_splits)
qed

text \<open>The default key that was set is found again when its path does not hold \<open>key-id\<close>. When it does,
  the setting is written and reported as a success, but reading it takes the rest of the path for the
  stored id and fails.\<close>

theorem default_key_read_back:
  assumes cr: "crypto_ok cr" and t: "wpm_set_default_key cr env full (files full) = Some t"
    and full: "list_all (\<lambda>c. c \<notin> {CR, LF, DQUOTE}) full" "full \<noteq> []" "\<not> at (CHR ''='') full" "length full < cap"
  shows "(strstr ''key-id'' full = None \<longrightarrow> wpm_get_default_key cr (File_text t) files cap = (1, full))
    \<and> (\<forall>rest. strstr ''key-id'' full = Some rest \<and> length rest < 70
         \<longrightarrow> fst (wpm_get_default_key cr (File_text t) files cap) = -1)"
proof -
  obtain secret kid where s: "Option.bind (files full) (load_private cr) = Some secret"
    "cr_key_id cr (public_part secret) = Some kid" "t = default_key_text full kid"
    using t unfolding wpm_set_default_key_def by (auto split: if_splits option.splits)
  have kid: "length kid = 64" "list_all lower_hex kid" using crypto_okD(6,7) [OF cr s(2)] by auto
  have "strstr ''path'' t = Some (''path'' @ CHR ''='' # full @ LF # ''key-id='' @ kid @ [LF])"
    by (simp add: s(3) default_key_text_def)
  then have path: "key_field t ''path'' cap = Some full"
    unfolding key_field_def using full cspn_found [OF full(1), of LF "''key-id='' @ kid @ [LF]"] by simp
  have "list_all (\<lambda>c. c \<notin> {CR, LF, DQUOTE}) kid" using opaque_key_id [OF cr s(2)] by (simp add: opaque_def)
  note cspn_kid = cspn_found [OF this, of LF "[]"]
  have "wpm_get_default_key cr (File_text t) files cap = (1, full)" if n: "strstr ''key-id'' full = None"
  proof -
    have "strstr ''key-id'' t = Some (''key-id'' @ CHR ''='' # kid @ [LF])"
      using strstr_beyond [OF n, of LF "''key-id='' @ kid @ [LF]"] by (simp add: s(3) default_key_text_def)
    then have "key_field t ''key-id'' 65 = Some kid" unfolding key_field_def using cspn_kid kid(1) by auto
    then show ?thesis using path s by (simp add: wpm_get_default_key_def)
  qed
  moreover have "fst (wpm_get_default_key cr (File_text t) files cap) = -1"
    if r: "strstr ''key-id'' full = Some rest" "length rest < 70" for rest
  proof -
    obtain b where b: "rest = ''key-id'' @ b" using strstr_Some [OF r(1)] by blast
    have "strstr ''key-id'' t = Some (rest @ LF # ''key-id='' @ kid @ [LF])"
      using strstr_extend [OF r(1), of "LF # ''key-id='' @ kid @ [LF]"] by (simp add: s(3) default_key_text_def)
    moreover have short: "length (strcspn_take {CR, LF, DQUOTE} (if at (CHR ''='') (b @ LF # q) then tl (b @ LF # q) else b @ LF # q)) < 64" for q
    proof -
      have "length (strcspn_take {CR, LF, DQUOTE} (v @ LF # q)) \<le> length v" for v
        unfolding strcspn_take_def by (induction v) auto
      from this [of b] this [of "tl b"] show ?thesis using r(2) b by (cases b) auto
    qed
    ultimately have "key_field t ''key-id'' 65 \<noteq> Some kid"
      using kid(1) b short [of "''key-id='' @ kid @ [LF]"] by (auto simp: key_field_def Let_def)
    then show ?thesis using path s by (auto simp: wpm_get_default_key_def split: option.splits)
  qed
  ultimately show ?thesis by blast
qed

end
