(* ===== verification/Signature_Sample.thy ===== *)
theory Signature_Sample
  imports Signature_Document
begin

text \<open>
  A crypto library for which the documented laws hold, a store and a signed index: the theorems on signatures
  at concrete inputs.
\<close>

definition hex_pair :: "char \<Rightarrow> string" where
  "hex_pair c = [lower_hex_digit (byte c div 16), lower_hex_digit (byte c mod 16)]"

definition hex_text :: "string \<Rightarrow> string" where
  "hex_text b = concat (map hex_pair b)"

definition hex_val :: "char \<Rightarrow> nat" where
  "hex_val c = (if byte c < 58 then byte c - 48 else byte c - 87)"

fun hex_bytes :: "string \<Rightarrow> string" where
  "hex_bytes (a # b # t) = char_of (16 * hex_val a + hex_val b) # hex_bytes t"
| "hex_bytes t = []"

definition sample_tail :: "string \<Rightarrow> string" where
  "sample_tail m = take 32 (m @ replicate 32 (CHR ''v''))"

lemma sample_tail_length [simp]: "length (sample_tail m) = 32"
  by (simp add: sample_tail_def)

definition sample_crypto :: crypto where
  "sample_crypto = \<lparr>cr_key_id = (\<lambda>k. if length k = 32 then Some (hex_text k) else None), cr_encode = hex_text,
     cr_decode = (\<lambda>n t. Some (hex_bytes t)),
     cr_sign = (\<lambda>m s. Some (public_part s @ sample_tail m)),
     cr_verify = (\<lambda>d m k. d = k @ sample_tail m),
     cr_keypair = Some (replicate 32 (CHR ''k''), replicate 64 (CHR ''k''))\<rparr>"

lemma hex_digit_byte: "d < 16 \<Longrightarrow> byte (lower_hex_digit d) = (if d < 10 then 48 + d else 87 + d)"
  by (simp add: lower_hex_digit_def)

lemma hex_digit_lower: "d < 16 \<Longrightarrow> lower_hex (lower_hex_digit d)"
  by (auto simp: lower_hex_def is_digit_def hex_digit_byte)

lemma hex_val_digit: "d < 16 \<Longrightarrow> hex_val (lower_hex_digit d) = d"
  by (simp add: hex_val_def hex_digit_byte)

lemma hex_bytes_text: "hex_bytes (hex_text b) = b"
proof (induction b)
  case (Cons c b)
  have "16 * hex_val (lower_hex_digit (byte c div 16)) + hex_val (lower_hex_digit (byte c mod 16)) = byte c"
    using byte_less_256 [of c] by (simp add: hex_val_digit less_mult_imp_div_less)
  with Cons show ?case by (simp add: hex_text_def hex_pair_def)
qed (simp add: hex_text_def)

lemma hex_text_length: "length (hex_text b) = 2 * length b"
  by (induction b) (simp_all add: hex_text_def hex_pair_def)

lemma hex_text_lower: "list_all lower_hex (hex_text b)"
  using byte_less_256 by (induction b) (simp_all add: hex_text_def hex_pair_def hex_digit_lower less_mult_imp_div_less)

lemma sample_crypto_ok: "crypto_ok sample_crypto"
proof -
  have "list_all (\<lambda>c. is_alnum c \<or> c = CHR ''+'' \<or> c = CHR ''/'' \<or> c = CHR ''='') (hex_text b)" for b
    using hex_text_lower by (rule list.pred_mono_strong) (auto simp: lower_hex_def class_defs)
  moreover have "\<not> at (CHR ''='') (hex_text b)" for b
    using hex_text_lower [of b] by (cases "hex_text b") (auto simp: lower_hex_def class_defs)
  ultimately show ?thesis
    by (auto simp: crypto_ok_def sample_crypto_def hex_bytes_text hex_text_length hex_text_lower split: if_splits)
qed

lemma sample_signing_ok: "signing_ok sample_crypto"
  using sample_crypto_ok
  by (auto simp: signing_ok_def sample_crypto_def public_part_def SECRETKEYBYTES_def PUBLICKEYBYTES_def SIGNATUREBYTES_def)

subsection \<open>A signed index\<close>

definition sample_secret :: string where "sample_secret = replicate 64 (CHR ''k'')"
definition sample_public :: string where "sample_public = replicate 32 (CHR ''k'')"
definition sample_id :: string where "sample_id = hex_text sample_public"

definition sample_env :: signing_env where
  "sample_env = \<lparr>se_capabilities = all_capabilities, se_authorized = True, se_root = Some ''c:'', se_trust_dir = True,
     se_written = True, se_moved = True\<rparr>"

definition empty_store :: trust_state where
  "empty_store = \<lparr>tr_public = (\<lambda>_. None), tr_revoked = (\<lambda>_. False)\<rparr>"

definition sample_store :: trust_state where
  "sample_store = empty_store\<lparr>tr_public := [lower sample_id \<mapsto> public_text sample_crypto sample_public]\<rparr>"

definition sample_signature :: "string \<Rightarrow> string" where
  "sample_signature message = package_signature sample_id (hex_text sample_public) (hex_text (sample_public @ sample_tail message))"

lemma sample_lengths: "length sample_public = 32" "length sample_secret = 64" "public_part sample_secret = sample_public"
  by (simp_all add: sample_public_def sample_secret_def public_part_def SECRETKEYBYTES_def PUBLICKEYBYTES_def)

lemma sample_key: "cr_key_id sample_crypto sample_public = Some sample_id"
  by (simp add: sample_crypto_def sample_lengths sample_id_def)

lemma sample_loads:
  "load_private sample_crypto (private_text sample_crypto sample_secret) = Some sample_secret"
  "load_public sample_crypto (public_text sample_crypto sample_public) = Some sample_public"
  using load_private_text [OF sample_crypto_ok, of sample_secret] load_public_text [OF sample_crypto_ok, of sample_public]
  by (simp_all add: sample_lengths SECRETKEYBYTES_def PUBLICKEYBYTES_def)

lemma sample_can_write: "wpm_require_capability WPM_CAP_WRITE (se_capabilities sample_env)"
  by (simp add: sample_env_def wpm_require_capability_def all_capabilities_def capability_defs)

lemma sample_signed:
  "wpm_sign_package_index sample_crypto sample_env (Some (CHR ''k'' # [])) (Some (private_text sample_crypto sample_secret))
     (Some message) = (Some (sample_signature message), True)"
proof -
  have "cr_sign sample_crypto message sample_secret = Some (sample_public @ sample_tail message)"
    by (simp add: sample_crypto_def sample_lengths)
  moreover have "cr_encode sample_crypto = hex_text" "se_written sample_env" by (simp_all add: sample_crypto_def sample_env_def)
  ultimately show ?thesis
    using sample_can_write sample_loads(1) sample_key
    by (simp add: wpm_sign_package_index_def sample_lengths sample_signature_def package_signature_def)
qed

lemma sample_trusted: "has_public sample_store sample_id = Some (public_text sample_crypto sample_public)"
  "\<not> is_revoked sample_store sample_id" "se_root sample_env = Some ''c:''"
  by (simp_all add: has_public_def is_revoked_def sample_store_def empty_store_def sample_env_def)

theorem package_signature_round_trip_witness:
  "wpm_validate_signature_bytes sample_crypto sample_env sample_store (Some (sample_signature ''index'')) (Some ''index'') False
     = Some sample_id"
proof -
  have "length ''c:'' + 79 < 4096" by simp
  from package_signature_round_trip [OF sample_signing_ok sample_signed sample_loads(1) _ sample_trusted(1) _ sample_trusted(2,3) this]
  show ?thesis using sample_key sample_loads(2) by (simp add: sample_lengths)
qed

lemma sample_validated:
  "wpm_validate_signature_bytes sample_crypto sample_env sample_store (Some (sample_signature message)) (Some message) False
     = Some sample_id"
proof -
  have "length ''c:'' + 79 < 4096" by simp
  from package_round_trip [OF sample_signing_ok sample_signed sample_loads(1) _ sample_trusted(1) _ sample_trusted(2,3) this]
  show ?thesis using sample_key sample_loads(2) by (simp add: sample_lengths)
qed

theorem readonly_signature_sound_witness:
  "\<exists>detached. cr_verify sample_crypto detached ''index'' sample_public"
  using readonly_signature_sound [OF sample_validated] sample_trusted(1) sample_loads(2) by auto

text \<open>The key is unknown, the answer is yes and the key enters the store.\<close>

lemma sample_fields:
  "signature_fields (sample_signature message)
     = Some (sample_id, hex_text sample_public, hex_text (sample_public @ sample_tail message))"
proof -
  have o: "opaque sample_id" "opaque (hex_text sample_public)" "opaque (hex_text (sample_public @ sample_tail message))"
    using opaque_encode [OF sample_crypto_ok, of sample_public]
      opaque_encode [OF sample_crypto_ok, of "sample_public @ sample_tail message"]
    by (simp_all add: sample_id_def sample_crypto_def sample_lengths)
  show ?thesis
    unfolding sample_signature_def
    by (rule package_fields [OF o]) (simp_all add: sample_id_def hex_text_length sample_lengths)
qed

lemma sample_first_use:
  "wpm_validate_package_signature sample_crypto sample_env (File_text (sample_signature message)) (Some message) False
     (Some ''Y'') empty_store = (sample_store, Some sample_id)"
proof -
  have "decode_exact sample_crypto PUBLICKEYBYTES (hex_text sample_public) = Some sample_public"
    "decode_exact sample_crypto SIGNATUREBYTES (hex_text (sample_public @ sample_tail message))
      = Some (sample_public @ sample_tail message)"
    by (simp_all add: decode_exact_def sample_crypto_def hex_bytes_text sample_lengths PUBLICKEYBYTES_def SIGNATUREBYTES_def)
  moreover have "length sample_id = 64" "cr_verify sample_crypto (sample_public @ sample_tail message) message sample_public"
    by (simp_all add: sample_id_def hex_text_length sample_lengths sample_crypto_def)
  moreover have "to_lower (CHR ''Y'') = CHR ''y''" by code_simp
  ultimately show ?thesis
    using sample_can_write sample_fields sample_key
    by (simp add: wpm_validate_package_signature_def sample_store_def empty_store_def is_revoked_def has_public_def sample_env_def)
qed

theorem package_signature_sound_witness:
  "sample_store = empty_store\<lparr>tr_public := [lower sample_id \<mapsto> public_text sample_crypto sample_public]\<rparr>
   \<and> (\<exists>key. cr_key_id sample_crypto key = Some sample_id
        \<and> sample_store = empty_store\<lparr>tr_public := [lower sample_id \<mapsto> public_text sample_crypto key]\<rparr>)"
  using package_signature_sound [OF sample_first_use] by (auto simp: sample_store_def empty_store_def has_public_def)

text \<open>The key is revoked and offered again.\<close>

theorem revocation_final_witness:
  "let st = fst (wpm_trust_revoke sample_env sample_id sample_store);
       calls = [(sample_env, Trust_add (Some (public_text sample_crypto sample_public))),
                (sample_env, Trust_package (File_text (sample_signature ''index'')) (Some ''index'') False (Some ''y''))] in
     has_public (trust_run sample_crypto calls st) sample_id = None
     \<and> wpm_validate_signature_bytes sample_crypto sample_env (trust_run sample_crypto calls st) (Some (sample_signature ''index''))
         (Some ''index'') False \<noteq> Some sample_id"
proof -
  have "length sample_id = 64" by (simp add: sample_id_def hex_text_length sample_lengths)
  moreover have "se_authorized sample_env" "se_trust_dir sample_env" "se_moved sample_env" by (simp_all add: sample_env_def)
  ultimately have "wpm_trust_revoke sample_env sample_id sample_store
      = (fst (wpm_trust_revoke sample_env sample_id sample_store), True)"
    using sample_can_write sample_trusted by (simp add: wpm_trust_revoke_def)
  from revocation_final [OF this strieq_refl] show ?thesis unfolding Let_def by blast
qed

text \<open>A repository index.\<close>

definition sample_repository_signature :: string where
  "sample_repository_signature = repository_signature sample_id (hex_text sample_public)
     (hex_text (sample_public @ sample_tail ''[]''))"

theorem repository_signature_round_trip_witness:
  "author_verify_signature sample_crypto (Some sample_repository_signature) ''[]''
     (Some (public_text sample_crypto sample_public)) 65 = Some sample_id"
proof -
  have size: "length sample_repository_signature < 1024"
    by (simp add: sample_repository_signature_def repository_signature_lines member_line_def json_quoted_def
        sample_id_def hex_text_length sample_lengths)
  have "wpm_sign_repository_bytes sample_crypto ''[]'' (Some (private_text sample_crypto sample_secret))
      (Some (public_text sample_crypto sample_public)) 1024 = Some (sample_repository_signature, sample_id)"
    using size sample_loads sample_key
    by (simp add: wpm_sign_repository_bytes_def sample_lengths sample_repository_signature_def repository_signature_def
        sample_crypto_def fits_def)
  from repository_signature_round_trip [OF sample_signing_ok refl _ this]
  show ?thesis by (simp add: sample_lengths SECRETKEYBYTES_def)
qed

text \<open>A key in the directory \<open>key-ids\<close> is set as the default but not found.\<close>

theorem default_key_read_back_witness:
  "let full = ''c:key-ids.txt''; files = (\<lambda>_. Some (private_text sample_crypto sample_secret)) in
     (\<exists>t. wpm_set_default_key sample_crypto sample_env full (files full) = Some t
        \<and> fst (wpm_get_default_key sample_crypto (File_text t) files 4096) = -1)"
proof -
  define files where "files = (\<lambda>_ :: string. Some (private_text sample_crypto sample_secret))"
  have "wpm_set_default_key sample_crypto sample_env ''c:key-ids.txt'' (files ''c:key-ids.txt'')
      = Some (default_key_text ''c:key-ids.txt'' sample_id)"
    using sample_can_write sample_loads(1) sample_key by (simp add: wpm_set_default_key_def files_def sample_lengths)
  moreover from default_key_read_back [where full = "''c:key-ids.txt''" and files = files and cap = 4096, OF sample_crypto_ok this]
  have "fst (wpm_get_default_key sample_crypto (File_text (default_key_text ''c:key-ids.txt'' sample_id)) files 4096) = -1"
    by (simp add: starts_with_def)
  ultimately show ?thesis unfolding Let_def files_def by blast
qed

end
