(* ===== verification/Zip_Entry.thy ===== *)
theory Zip_Entry
  imports Capability
begin

text \<open>
  Reading one entry of an archive, the buffers and the file times of \<open>wpm/archive.c\<close>. What minizip returns
  for the entry and the decompressor of zlib are parameters; the loop around them, its bounds and its final
  tests are the model. Bytes are characters, the output is what has been written so far.
\<close>

subsection \<open>The growing buffer\<close>

definition ZLIB_NG_BUFFER_BYTES :: nat where "ZLIB_NG_BUFFER_BYTES = 1024 * 1024"
definition SIZE_T_MAX :: nat where "SIZE_T_MAX = 2 ^ 64 - 1"

text \<open>The doubling loop; a capacity of zero cannot double and does not occur.\<close>

function grow_capacity :: "nat \<Rightarrow> nat \<Rightarrow> nat" where
  "grow_capacity capacity required =
     (if capacity < required
      then (if capacity > SIZE_T_MAX div 2 \<or> capacity = 0 then required else grow_capacity (capacity * 2) required)
      else capacity)"
  by pat_completeness auto
termination
  by (relation "measure (\<lambda>(capacity, required). required - capacity)") auto

declare grow_capacity.simps [simp del]

text \<open>The new capacity, or a failure; \<open>moved\<close> is whether \<open>realloc\<close> succeeds.\<close>

definition wpm_zlib_ng_buffer_reserve :: "bool \<Rightarrow> nat \<Rightarrow> nat \<Rightarrow> nat \<Rightarrow> nat \<times> bool" where
  "wpm_zlib_ng_buffer_reserve moved used capacity additional =
     (if additional > SIZE_T_MAX - used then (capacity, False)
      else if used + additional \<le> capacity then (capacity, True)
      else if \<not> moved then (capacity, False)
      else (grow_capacity (if capacity \<noteq> 0 then capacity else ZLIB_NG_BUFFER_BYTES) (used + additional), True))"

lemma grow_capacity_bounds:
  "capacity \<le> grow_capacity capacity required \<and> required \<le> grow_capacity capacity required
     \<and> grow_capacity capacity required \<le> max capacity (2 * required)"
  by (induction capacity required rule: grow_capacity.induct) (subst (1 2 3) grow_capacity.simps, auto)

lemma grow_capacity_max: "capacity \<le> SIZE_T_MAX \<Longrightarrow> required \<le> SIZE_T_MAX \<Longrightarrow> grow_capacity capacity required \<le> SIZE_T_MAX"
proof (induction capacity required rule: grow_capacity.induct)
  case (1 capacity required)
  have "capacity * 2 \<le> SIZE_T_MAX" if "\<not> capacity > SIZE_T_MAX div 2" using that by linarith
  with 1 show ?case by (subst grow_capacity.simps) auto
qed

text \<open>A reservation that succeeds leaves room for the additional bytes, never shrinks the buffer and stays
  within the range of \<open>size_t\<close>; a failed one leaves the capacity as it was.\<close>

lemma buffer_reserve_fits:
  assumes "wpm_zlib_ng_buffer_reserve moved used capacity additional = (capacity', reserved)"
    and "capacity \<le> SIZE_T_MAX" "used \<le> SIZE_T_MAX"
  shows "(reserved \<longrightarrow> used + additional \<le> capacity' \<and> capacity \<le> capacity' \<and> capacity' \<le> SIZE_T_MAX)
    \<and> (\<not> reserved \<longrightarrow> capacity' = capacity)"
proof -
  define start where "start = (if capacity \<noteq> 0 then capacity else ZLIB_NG_BUFFER_BYTES)"
  have "start \<le> SIZE_T_MAX" using assms(2) by (auto simp: start_def ZLIB_NG_BUFFER_BYTES_def SIZE_T_MAX_def)
  then have "additional \<le> SIZE_T_MAX - used \<Longrightarrow> grow_capacity start (used + additional) \<le> SIZE_T_MAX"
    using assms(3) by (intro grow_capacity_max) auto
  moreover have "capacity \<le> start" by (simp add: start_def)
  ultimately show ?thesis
    using assms(1,2) grow_capacity_bounds [of start "used + additional"]
    unfolding wpm_zlib_ng_buffer_reserve_def start_def [symmetric] by (auto split: if_splits)
qed

subsection \<open>The output of an entry\<close>

text \<open>\<open>zo_fails\<close> are the offsets at which writing to the output file fails; without a file there are none.
  \<open>zo_size\<close> is the length of \<open>zo_data\<close>.\<close>

record zip_output =
  zo_capacity :: nat
  zo_fails :: "nat \<Rightarrow> bool"
  zo_data :: string
  zo_crc :: "32 word"

definition zip_output_for :: "nat \<Rightarrow> (nat \<Rightarrow> bool) \<Rightarrow> zip_output" where
  "zip_output_for capacity fails = \<lparr>zo_capacity = capacity, zo_fails = fails, zo_data = [], zo_crc = 0\<rparr>"

definition wpm_zip_output_write ::
  "(32 word \<Rightarrow> string \<Rightarrow> 32 word) \<Rightarrow> zip_output \<Rightarrow> string \<Rightarrow> zip_output option" where
  "wpm_zip_output_write crc32 out data =
     (if length (zo_data out) > zo_capacity out \<or> length data > zo_capacity out - length (zo_data out)
         \<or> zo_fails out (length (zo_data out)) then None
      else Some (out\<lparr>zo_data := zo_data out @ data, zo_crc := crc32 (zo_crc out) data\<rparr>))"

lemma output_write_less:
  assumes "wpm_zip_output_write crc32 out data = Some out'"
  shows "zo_capacity out' = zo_capacity out \<and> length (zo_data out') \<le> zo_capacity out
    \<and> length (zo_data out) \<le> length (zo_data out') \<and> (data \<noteq> [] \<longrightarrow> length (zo_data out) < length (zo_data out'))"
  using assms by (auto simp: wpm_zip_output_write_def split: if_splits)

subsection \<open>Reading the current entry\<close>

datatype compression = Store | Deflate | Other_method

record zip_info =
  zi_name :: string
  zi_method :: compression
  zi_encrypted :: bool
  zi_compressed :: int
  zi_uncompressed :: int
  zi_crc :: "32 word"

text \<open>What the reader of minizip does for one entry: whether it opens and closes, and the results of the
  reads, \<open>None\<close> for an error. Behind the last one a read returns no bytes.\<close>

record zip_reader =
  zr_open :: bool
  zr_reads :: "string option list"
  zr_close :: bool

text \<open>One call of \<open>zng_inflate\<close>: the status, the number of input bytes it consumed, what it produced and
  its next state.\<close>

datatype inflate_status = Z_OK | Z_STREAM_END | Z_ERROR

record 's inflater =
  zs_start :: "'s option"
  zs_step :: "'s \<Rightarrow> string \<Rightarrow> inflate_status \<times> nat \<times> string \<times> 's"
  zs_end :: "'s \<Rightarrow> bool"

text \<open>The loop over one input buffer. The result is the output, which is also there when the loop fails,
  and on success the state and whether the end of the stream was seen.\<close>

function inflate_buffer ::
  "(32 word \<Rightarrow> string \<Rightarrow> 32 word) \<Rightarrow> ('s \<Rightarrow> string \<Rightarrow> inflate_status \<times> nat \<times> string \<times> 's)
     \<Rightarrow> 's \<Rightarrow> string \<Rightarrow> bool \<Rightarrow> zip_output \<Rightarrow> zip_output \<times> ('s \<times> bool) option" where
  "inflate_buffer crc32 step s input finished out =
     (if input = [] then (out, Some (s, finished))
      else
      (case step s input of
         (status, consumed, produced, s') \<Rightarrow>
           (case (if produced = [] then Some out else wpm_zip_output_write crc32 out produced) of
              None \<Rightarrow> (out, None)
            | Some out' \<Rightarrow>
                let rest = drop consumed input in
                if status = Z_STREAM_END then (if rest \<noteq> [] then (out', None) else (out', Some (s', True)))
                else if status \<noteq> Z_OK \<or> length rest = length input \<and> produced = [] then (out', None)
                else inflate_buffer crc32 step s' rest finished out')))"
  by pat_completeness auto
termination
  by (relation "measure (\<lambda>(crc32, step, s, input, finished, out).
      length input + (zo_capacity out - length (zo_data out)))")
    (auto split: if_splits dest!: output_write_less)

declare inflate_buffer.simps [simp del]

text \<open>The loop over the reads: \<open>got\<close> counts the compressed bytes, \<open>decode\<close> handles one buffer.\<close>

fun read_buffers ::
  "('s \<Rightarrow> string \<Rightarrow> bool \<Rightarrow> zip_output \<Rightarrow> zip_output \<times> ('s \<times> bool) option) \<Rightarrow> int
     \<Rightarrow> string option list \<Rightarrow> 's \<Rightarrow> bool \<Rightarrow> nat \<Rightarrow> zip_output \<Rightarrow> zip_output \<times> ('s \<times> bool \<times> nat) option" where
  "read_buffers decode compressed [] s finished got out = (out, Some (s, finished, got))"
| "read_buffers decode compressed (None # reads) s finished got out = (out, None)"
| "read_buffers decode compressed (Some input # reads) s finished got out =
     (if input = [] then (out, Some (s, finished, got))
      else if int (got + length input) > compressed then (out, None)
      else
      (case decode s input finished out of
         (out', None) \<Rightarrow> (out', None)
       | (out', Some (s', finished')) \<Rightarrow>
           read_buffers decode compressed reads s' finished' (got + length input) out'))"

text \<open>A stored buffer is written as it is.\<close>

definition store_buffer ::
  "(32 word \<Rightarrow> string \<Rightarrow> 32 word) \<Rightarrow> 's \<Rightarrow> string \<Rightarrow> bool \<Rightarrow> zip_output \<Rightarrow> zip_output \<times> ('s \<times> bool) option" where
  "store_buffer crc32 s input finished out =
     (case wpm_zip_output_write crc32 out input of None \<Rightarrow> (out, None) | Some out' \<Rightarrow> (out', Some (s, finished)))"

text \<open>Whether the stream was finished, the compressed bytes that were read and whether the decompressor
  closes without an error.\<close>

definition read_entry_buffers ::
  "(32 word \<Rightarrow> string \<Rightarrow> 32 word) \<Rightarrow> 's inflater \<Rightarrow> string option list \<Rightarrow> zip_info \<Rightarrow> zip_output
     \<Rightarrow> zip_output \<times> (bool \<times> nat \<times> bool) option" where
  "read_entry_buffers crc32 z reads info out =
     (if zi_method info = Store
      then (case read_buffers (store_buffer crc32) (zi_compressed info) reads () True 0 out of
              (out', r) \<Rightarrow> (out', map_option (\<lambda>(_, finished, got). (finished, got, True)) r))
      else (case zs_start z of
              None \<Rightarrow> (out, None)
            | Some s \<Rightarrow>
                (case read_buffers (inflate_buffer crc32 (zs_step z)) (zi_compressed info) reads s False 0 out of
                   (out', r) \<Rightarrow> (out', map_option (\<lambda>(s', finished, got). (finished, got, zs_end z s')) r))))"

definition wpm_zip_read_current_entry ::
  "(32 word \<Rightarrow> string \<Rightarrow> 32 word) \<Rightarrow> 's inflater \<Rightarrow> zip_reader \<Rightarrow> zip_info \<Rightarrow> zip_output \<Rightarrow> zip_output \<times> bool" where
  "wpm_zip_read_current_entry crc32 z reader info out =
     (if zi_compressed info < 0 \<or> zi_uncompressed info < 0 \<or> zi_encrypted info \<or> zi_method info = Other_method
         \<or> zi_uncompressed info > int (zo_capacity out) \<or> \<not> zr_open reader then (out, False)
      else
      (case read_entry_buffers crc32 z (zr_reads reader) info out of
         (out', None) \<Rightarrow> (out', False)
       | (out', Some (finished, got, ended)) \<Rightarrow>
           (out', zr_close reader \<and> finished \<and> int got = zi_compressed info
              \<and> int (length (zo_data out')) = zi_uncompressed info \<and> zo_crc out' = zi_crc info \<and> ended)))"

text \<open>The bytes of an entry in memory; the extraction to a file, which is deleted again on failure (\<open>None\<close>).\<close>

definition wpm_zip_read_current_memory ::
  "(32 word \<Rightarrow> string \<Rightarrow> 32 word) \<Rightarrow> 's inflater \<Rightarrow> zip_reader \<Rightarrow> zip_info \<Rightarrow> nat \<Rightarrow> string option" where
  "wpm_zip_read_current_memory crc32 z reader info capacity =
     (case wpm_zip_read_current_entry crc32 z reader info (zip_output_for capacity (\<lambda>_. False)) of
        (out, valid) \<Rightarrow> if valid then Some (zo_data out) else None)"

definition wpm_zip_extract_current_file ::
  "(32 word \<Rightarrow> string \<Rightarrow> 32 word) \<Rightarrow> 's inflater \<Rightarrow> zip_reader \<Rightarrow> zip_info \<Rightarrow> bool \<Rightarrow> (nat \<Rightarrow> bool) \<Rightarrow> bool \<Rightarrow> string option" where
  "wpm_zip_extract_current_file crc32 z reader info created fails closed =
     (if \<not> created then None
      else
      (case wpm_zip_read_current_entry crc32 z reader info (zip_output_for (nat (zi_uncompressed info)) fails) of
         (out, valid) \<Rightarrow> if valid \<and> closed then Some (zo_data out) else None))"

subsection \<open>Bounds and integrity\<close>

text \<open>What every step of the loops keeps: the capacity, what was written before, the bound on the size, and
  the checksum of what was written.\<close>

definition output_ok :: "(32 word \<Rightarrow> string \<Rightarrow> 32 word) \<Rightarrow> zip_output \<Rightarrow> zip_output \<Rightarrow> bool" where
  "output_ok crc32 out out' \<longleftrightarrow> zo_capacity out' = zo_capacity out
     \<and> (length (zo_data out) \<le> zo_capacity out \<longrightarrow> length (zo_data out') \<le> zo_capacity out)
     \<and> (zo_crc out = crc32 0 (zo_data out) \<longrightarrow> zo_crc out' = crc32 0 (zo_data out'))"

text \<open>The documented law of \<open>zng_crc32\<close>: it is computed piece by piece.\<close>

definition crc_law :: "(32 word \<Rightarrow> string \<Rightarrow> 32 word) \<Rightarrow> bool" where
  "crc_law crc32 \<longleftrightarrow> crc32 0 [] = 0 \<and> (\<forall>a b. crc32 (crc32 0 a) b = crc32 0 (a @ b))"

lemma output_ok_refl [simp]: "output_ok crc32 out out"
  by (simp add: output_ok_def)

lemma output_ok_trans [trans]: "output_ok crc32 a b \<Longrightarrow> output_ok crc32 b c \<Longrightarrow> output_ok crc32 a c"
  by (auto simp: output_ok_def)

lemma output_write_ok: "crc_law crc32 \<Longrightarrow> wpm_zip_output_write crc32 out data = Some out' \<Longrightarrow> output_ok crc32 out out'"
  by (auto simp: wpm_zip_output_write_def output_ok_def crc_law_def split: if_splits)

lemma inflate_buffer_ok:
  assumes "crc_law crc32"
  shows "output_ok crc32 out (fst (inflate_buffer crc32 step s input finished out))"
  using assms
proof (induction crc32 step s input finished out rule: inflate_buffer.induct)
  case (1 crc32 step s input finished out)
  show ?case
  proof (cases "input = []")
    case False
    obtain status consumed produced s' where st: "step s input = (status, consumed, produced, s')" by (metis surj_pair)
    show ?thesis
    proof (cases "if produced = [] then Some out else wpm_zip_output_write crc32 out produced")
      case None
      with False st show ?thesis by (subst inflate_buffer.simps) simp
    next
      case (Some out')
      have w: "output_ok crc32 out out'"
        using Some output_write_ok [OF 1(2)] by (auto split: if_splits)
      let ?rest = "drop consumed input"
      show ?thesis
      proof (cases "status = Z_STREAM_END \<or> status \<noteq> Z_OK \<or> length ?rest = length input \<and> produced = []")
        case True
        then show ?thesis using False st Some w by (subst inflate_buffer.simps) (auto simp: Let_def)
      next
        case go: False
        then have "output_ok crc32 out' (fst (inflate_buffer crc32 step s' ?rest finished out'))"
          using 1 False st Some by auto
        with w have "output_ok crc32 out (fst (inflate_buffer crc32 step s' ?rest finished out'))"
          by (rule output_ok_trans)
        with go show ?thesis using False st Some by (subst inflate_buffer.simps) (auto simp: Let_def)
      qed
    qed
  qed (simp add: inflate_buffer.simps)
qed

lemma store_buffer_ok: "crc_law crc32 \<Longrightarrow> output_ok crc32 out (fst (store_buffer crc32 s input finished out))"
  by (auto simp: store_buffer_def split: option.splits dest: output_write_ok)

lemma read_buffers_ok:
  assumes "\<And>s input finished out. output_ok crc32 out (fst (decode s input finished out))"
  shows "output_ok crc32 out (fst (read_buffers decode compressed reads s finished got out))"
  using assms
proof (induction decode compressed reads s finished got out rule: read_buffers.induct)
  case (3 decode compressed input reads s finished got out)
  obtain out' r where d: "decode s input finished out = (out', r)" by force
  have ok: "output_ok crc32 out out'" using 3(2) [where s = s and input = input and finished = finished and out = out] d by simp
  show ?case
  proof (cases "input = [] \<or> int (got + length input) > compressed \<or> r = None")
    case True
    then show ?thesis using d ok by auto
  next
    case False
    then obtain s' finished' where r: "r = Some (s', finished')" by auto
    with False d have "output_ok crc32 out' (fst (read_buffers decode compressed reads s' finished' (got + length input) out'))"
      using 3 by auto
    with ok show ?thesis using False d r by (auto intro: output_ok_trans)
  qed
qed simp_all

text \<open>The bytes that a sequence of reads delivers.\<close>

fun read_bytes :: "string option list \<Rightarrow> string" where
  "read_bytes (Some input # reads) = (if input = [] then [] else input @ read_bytes reads)"
| "read_bytes _ = []"

lemma store_buffer_data:
  "store_buffer crc32 s input finished out = (out', Some r) \<Longrightarrow> zo_data out' = zo_data out @ input"
  by (auto simp: store_buffer_def wpm_zip_output_write_def split: option.splits if_splits)

lemma read_entry_ok:
  assumes "crc_law crc32"
  shows "output_ok crc32 out (fst (read_entry_buffers crc32 z reads info out))"
proof -
  have "output_ok crc32 out (fst (read_buffers (store_buffer crc32) compressed reads () finished got out))"
    "output_ok crc32 out (fst (read_buffers (inflate_buffer crc32 (zs_step z)) compressed reads s' finished got out))"
    for compressed finished got s'
    by (rule read_buffers_ok, rule store_buffer_ok [OF assms]) (rule read_buffers_ok, rule inflate_buffer_ok [OF assms])
  then show ?thesis unfolding read_entry_buffers_def by (simp add: case_prod_beta split: option.split)
qed

lemma stored_bytes:
  "read_buffers (store_buffer crc32) compressed reads s finished got out = (out', Some r)
     \<Longrightarrow> zo_data out' = zo_data out @ read_bytes reads"
proof (induction reads arbitrary: s finished got out)
  case (Cons a reads)
  show ?case
  proof (cases a)
    case (Some input)
    show ?thesis
    proof (cases "input = []")
      case False
      with Some Cons.prems obtain out1 s' finished' where w: "store_buffer crc32 s input finished out = (out1, Some (s', finished'))"
        "read_buffers (store_buffer crc32) compressed reads s' finished' (got + length input) out1 = (out', Some r)"
        by (auto split: if_splits option.splits prod.splits)
      with Cons.IH [OF w(2)] store_buffer_data [OF w(1)] False Some show ?thesis by simp
    qed (use Some Cons.prems in simp)
  qed (use Cons.prems in simp)
qed simp

lemma zip_entry_outcome:
  assumes law: "crc_law crc32"
    and r: "wpm_zip_read_current_entry crc32 z reader info (zip_output_for capacity fails) = (out, valid)"
  shows "length (zo_data out) \<le> capacity
    \<and> (valid \<longrightarrow> int (length (zo_data out)) = zi_uncompressed info \<and> crc32 0 (zo_data out) = zi_crc info
         \<and> \<not> zi_encrypted info \<and> (zi_method info = Store \<longrightarrow> zo_data out = read_bytes (zr_reads reader)))"
proof -
  define out0 where "out0 = zip_output_for capacity fails"
  have start: "length (zo_data out0) \<le> zo_capacity out0" "zo_crc out0 = crc32 0 (zo_data out0)" "zo_capacity out0 = capacity"
    "zo_data out0 = []"
    using law by (simp_all add: out0_def zip_output_for_def crc_law_def)
  have "output_ok crc32 out0 (fst (read_entry_buffers crc32 z reads info out0))" for reads
    by (rule read_entry_ok [OF law])
  moreover have "out = out0 \<and> \<not> valid \<or> out = fst (read_entry_buffers crc32 z (zr_reads reader) info out0)"
    using r unfolding out0_def [symmetric] wpm_zip_read_current_entry_def by (auto split: if_splits option.splits prod.splits)
  ultimately have ok: "output_ok crc32 out0 out" by auto
  have "int (length (zo_data out)) = zi_uncompressed info \<and> zo_crc out = zi_crc info \<and> \<not> zi_encrypted info
      \<and> (\<exists>x. read_entry_buffers crc32 z (zr_reads reader) info out0 = (out, Some x))" if valid
    using r that unfolding out0_def [symmetric] wpm_zip_read_current_entry_def by (auto split: if_splits option.splits prod.splits)
  moreover have "zo_data out = read_bytes (zr_reads reader)"
    if "read_entry_buffers crc32 z (zr_reads reader) info out0 = (out, Some x)" "zi_method info = Store" for x
    using that stored_bytes [of crc32 "zi_compressed info" "zr_reads reader" "()" True 0 out0 out] start(4)
    by (auto simp: read_entry_buffers_def split: prod.splits)
  ultimately show ?thesis using ok start by (auto simp: output_ok_def)
qed

text \<open>C19: whatever the archive and the decompressor deliver, reading an entry never produces more bytes than
  the capacity it was given, also when it fails; when it succeeds the output has exactly the declared size
  and the declared checksum, and a stored entry is exactly the bytes that were read.\<close>

theorem zip_entry_exact:
  assumes law: "crc_law crc32"
    and r: "wpm_zip_read_current_entry crc32 z reader info (zip_output_for capacity fails) = (out, valid)"
  shows "length (zo_data out) \<le> capacity
    \<and> (valid \<longrightarrow> int (length (zo_data out)) = zi_uncompressed info \<and> crc32 0 (zo_data out) = zi_crc info
         \<and> \<not> zi_encrypted info \<and> (zi_method info = Store \<longrightarrow> zo_data out = read_bytes (zr_reads reader)))"
  using assms by (rule zip_entry_outcome)

text \<open>A stored entry in two reads, at a capacity that it just fits.\<close>

definition sample_crc :: "32 word \<Rightarrow> string \<Rightarrow> 32 word" where
  "sample_crc c data = c + sum_list (map (\<lambda>x. of_nat (byte x)) data)"

lemma sample_crc_law: "crc_law sample_crc"
  by (simp add: crc_law_def sample_crc_def)

theorem zip_entry_exact_witness:
  "let reader = \<lparr>zr_open = True, zr_reads = [Some ''ab'', Some ''c''], zr_close = True\<rparr>;
       info = \<lparr>zi_name = ''x'', zi_method = Store, zi_encrypted = False, zi_compressed = 3, zi_uncompressed = 3,
               zi_crc = sample_crc 0 ''abc''\<rparr>;
       z = \<lparr>zs_start = Some (), zs_step = (\<lambda>s i. (Z_OK, 0, [], ())), zs_end = (\<lambda>s. True)\<rparr>;
       r = wpm_zip_read_current_entry sample_crc z reader info (zip_output_for 3 (\<lambda>_. False)) in
     snd r \<and> zo_data (fst r) = read_bytes [Some ''ab'', Some ''c'']"
proof -
  define reader where "reader = \<lparr>zr_open = True, zr_reads = [Some ''ab'', Some ''c''], zr_close = True\<rparr>"
  define info where "info = \<lparr>zi_name = ''x'', zi_method = Store, zi_encrypted = False, zi_compressed = 3,
    zi_uncompressed = 3, zi_crc = sample_crc 0 ''abc''\<rparr>"
  define z :: "unit inflater" where "z = \<lparr>zs_start = Some (), zs_step = (\<lambda>s i. (Z_OK, 0, [], ())), zs_end = (\<lambda>s. True)\<rparr>"
  obtain out valid where r: "wpm_zip_read_current_entry sample_crc z reader info (zip_output_for 3 (\<lambda>_. False)) = (out, valid)"
    by force
  moreover have "snd (wpm_zip_read_current_entry sample_crc z reader info (zip_output_for 3 (\<lambda>_. False)))"
    by (simp add: wpm_zip_read_current_entry_def read_entry_buffers_def store_buffer_def wpm_zip_output_write_def
        zip_output_for_def reader_def info_def sample_crc_def)
  ultimately show ?thesis
    using zip_entry_exact [OF sample_crc_law r] unfolding Let_def reader_def [symmetric] info_def [symmetric] z_def [symmetric]
    by (simp add: reader_def info_def)
qed

subsection \<open>File times\<close>

text \<open>Seconds since 1970 and the 100 ns ticks of a file time; both are 64 bits wide, the first is signed.\<close>

definition windows_epoch_seconds :: "64 word" where "windows_epoch_seconds = 11644473600"

definition wpm_set_file_modified_time :: "64 word \<Rightarrow> 64 word option" where
  "wpm_set_file_modified_time modified =
     (if modified <s 0 then None
      else if modified > (-1) div 10000000 - windows_epoch_seconds then None
      else Some ((modified + windows_epoch_seconds) * 10000000))"

definition wpm_get_file_modified_time :: "64 word option \<Rightarrow> 64 word" where
  "wpm_get_file_modified_time ticks =
     (case ticks of
        None \<Rightarrow> 0
      | Some t \<Rightarrow> if t div 10000000 < windows_epoch_seconds then 0 else t div 10000000 - windows_epoch_seconds)"

text \<open>The time that is stored with an entry restores the time of the file to the second, for every file time
  from 1970 on, up to the last tick of the 64 bits; an earlier time becomes the beginning of 1970.\<close>

theorem file_time_round_trip:
  "wpm_set_file_modified_time (wpm_get_file_modified_time (Some t)) =
     Some (if t div 10000000 < windows_epoch_seconds then windows_epoch_seconds * 10000000 else t div 10000000 * 10000000)"
proof (cases "t div 10000000 < windows_epoch_seconds")
  case True
  then show ?thesis
    by (simp add: wpm_get_file_modified_time_def wpm_set_file_modified_time_def windows_epoch_seconds_def)
next
  case False
  define m where "m = t div 10000000 - windows_epoch_seconds"
  have u: "unat m = unat t div 10000000 - 11644473600"
    using False unfolding m_def by (simp add: unat_sub not_less unat_div windows_epoch_seconds_def)
  have t: "unat t < 2 ^ 64" using unsigned_less [of t] by simp
  have "unat t div 10000000 < 2 ^ 63" using t by (simp add: less_mult_imp_div_less)
  then have "unat m < 2 ^ 63" using u by linarith
  then have "int (unat m) < int (2 ^ 63)" by (rule of_nat_less_iff [THEN iffD2])
  then have "uint m < 2 ^ 63" unfolding of_nat_unat by simp
  moreover have "- (2 ^ 63) \<le> uint m" by (rule order_trans [OF _ uint_ge_0]) simp
  ultimately have "sint m = uint m" unfolding sint_uint by (simp add: signed_take_bit_int_eq_self_iff)
  then have pos: "\<not> m <s 0" by (simp add: word_sless_alt)
  moreover have "\<not> m > (-1) div 10000000 - windows_epoch_seconds"
    using u t by (simp add: word_less_nat_alt unat_sub unat_div windows_epoch_seconds_def)
  moreover have "m + windows_epoch_seconds = t div 10000000" by (simp add: m_def)
  ultimately show ?thesis
    using False by (simp add: wpm_get_file_modified_time_def wpm_set_file_modified_time_def m_def)
qed

end
