(* ===== verification/Package_Metadata.thy ===== *)
theory Package_Metadata
  imports Config_Text Comparison
begin

text \<open>
  The text files of a package in \<open>wpm/archive.c\<close>: lines and their blanks, the metadata in
  \<open>.wpm/package.txt\<close> with its two readers, and the ignore list with its wildcards.
\<close>

subsection \<open>Paths and lines\<close>

definition WPM_PATH_SIZE :: nat where "WPM_PATH_SIZE = 4096"

definition archive_join_path :: "nat \<Rightarrow> string \<Rightarrow> string \<Rightarrow> string option" where
  "archive_join_path cap left right =
     fits cap (left @ (if left \<noteq> [] \<and> (last left = BSLASH \<or> last left = SLASH) then [] else [BSLASH]) @ right)"

definition normalize_archive_separators :: "string \<Rightarrow> string" where
  "normalize_archive_separators path = map (\<lambda>c. if c = BSLASH then SLASH else c) path"

definition trim_line :: "string \<Rightarrow> string" where
  "trim_line line =
     dropWhile (\<lambda>c. c = SPC \<or> c = TAB) (rev (dropWhile (\<lambda>c. c \<in> {LF, CR, SPC, TAB}) (rev line)))"

definition is_slash :: "char \<Rightarrow> bool" where
  "is_slash c \<longleftrightarrow> c = BSLASH \<or> c = SLASH"

definition path_basename :: "string \<Rightarrow> string" where
  "path_basename path = rev (takeWhile (\<lambda>c. \<not> is_slash c) (rev path))"

function trim_trailing_separators :: "string \<Rightarrow> string" where
  "trim_trailing_separators path =
     (if length path > 3 \<and> is_slash (last path) then trim_trailing_separators (butlast path) else path)"
  by pat_completeness auto
termination
  by (relation "measure length") auto

declare trim_trailing_separators.simps [simp del]

definition is_valid_package_name :: "string \<Rightarrow> bool" where
  "is_valid_package_name name \<longleftrightarrow> name \<noteq> [] \<and> name \<noteq> ''.'' \<and> name \<noteq> ''..''
     \<and> list_all (\<lambda>c. c \<noteq> BSLASH \<and> c \<noteq> SLASH \<and> c \<noteq> CHR '':'') name"

subsection \<open>Metadata\<close>

record metadata =
  md_name :: string
  md_version :: string
  md_arch :: string
  md_debug :: bool

definition no_metadata :: metadata where
  "no_metadata = \<lparr>md_name = [], md_version = [], md_arch = [], md_debug = False\<rparr>"

definition is_safe_metadata_value :: "string \<Rightarrow> bool" where
  "is_safe_metadata_value v \<longleftrightarrow> v \<noteq> [] \<and> v \<noteq> ''.'' \<and> v \<noteq> ''..''
     \<and> list_all (\<lambda>c. is_alnum c \<or> c = CHR ''-'' \<or> c = CHR ''_'' \<or> c = CHR ''.'' \<or> c = CHR ''+'') v"

definition parse_bool_metadata_value :: "string \<Rightarrow> bool option" where
  "parse_bool_metadata_value v =
     (if strieq v ''true'' \<or> strieq v ''yes'' \<or> strieq v ''on'' \<or> v = ''1'' then Some True
      else if strieq v ''false'' \<or> strieq v ''no'' \<or> strieq v ''off'' \<or> v = ''0'' then Some False
      else None)"

text \<open>One member: \<open>None\<close> when the value is too long or not a boolean.\<close>

definition metadata_member :: "metadata \<Rightarrow> string \<Rightarrow> string \<Rightarrow> metadata option" where
  "metadata_member m key v =
     (if strieq key ''name'' then map_option (\<lambda>x. m\<lparr>md_name := x\<rparr>) (fits 128 v)
      else if strieq key ''version'' then map_option (\<lambda>x. m\<lparr>md_version := x\<rparr>) (fits 64 v)
      else if strieq key ''arch'' then map_option (\<lambda>x. m\<lparr>md_arch := x\<rparr>) (fits 64 v)
      else if strieq key ''debug'' then map_option (\<lambda>x. m\<lparr>md_debug := x\<rparr>) (parse_bool_metadata_value v)
      else Some m)"

definition metadata_line :: "metadata \<Rightarrow> string \<Rightarrow> metadata option" where
  "metadata_line m raw =
     (let line = trim_line raw in
      if line = [] \<or> at (CHR ''#'') line then Some m
      else
      (case strchr (CHR ''='') line of
         None \<Rightarrow> Some m
       | Some rest \<Rightarrow>
           metadata_member m (trim_line (takeWhile (\<lambda>c. c \<noteq> CHR ''='') line)) (trim_line (tl rest))))"

fun metadata_lines :: "metadata \<Rightarrow> string list \<Rightarrow> metadata option" where
  "metadata_lines m [] = Some m"
| "metadata_lines m (line # lines) =
     (case metadata_line m line of None \<Rightarrow> None | Some m' \<Rightarrow> metadata_lines m' lines)"

definition safe_metadata :: "metadata \<Rightarrow> bool" where
  "safe_metadata m \<longleftrightarrow> is_safe_metadata_value (md_name m) \<and> is_safe_metadata_value (md_version m)
     \<and> is_safe_metadata_value (md_arch m)"

text \<open>The reader of the source directory: \<open>None\<close> is a file that cannot be opened or read.\<close>

definition read_package_metadata :: "string option \<Rightarrow> metadata option" where
  "read_package_metadata content =
     (case content of
        None \<Rightarrow> None
      | Some t \<Rightarrow>
          (case metadata_lines no_metadata (text_lines WPM_PATH_SIZE t) of
             None \<Rightarrow> None
           | Some m \<Rightarrow> if safe_metadata m then Some m else None))"

text \<open>The reader of the archive: the bytes of the entry up to the first NUL, split at runs of line ends.\<close>

definition line_end :: "char \<Rightarrow> bool" where
  "line_end c \<longleftrightarrow> c = CR \<or> c = LF"

function archive_lines :: "string \<Rightarrow> string list" where
  "archive_lines t =
     (if t = [] then []
      else takeWhile (\<lambda>c. \<not> line_end c) t # archive_lines (dropWhile line_end (dropWhile (\<lambda>c. \<not> line_end c) t)))"
  by pat_completeness auto
termination
proof (relation "measure length", goal_cases)
  case (2 t)
  then obtain c t' where t: "t = c # t'" by (cases t) auto
  show ?case
    using length_dropWhile_le [of line_end "dropWhile (\<lambda>c. \<not> line_end c) t'"] length_dropWhile_le [of "\<lambda>c. \<not> line_end c" t']
      length_dropWhile_le [of line_end t']
    by (cases "line_end c") (auto simp: t)
qed simp

declare archive_lines.simps [simp del]

definition METADATA_LIMIT :: nat where "METADATA_LIMIT = 1024 * 1024"

definition read_archive_metadata :: "string option \<Rightarrow> metadata option" where
  "read_archive_metadata entry =
     (case entry of
        None \<Rightarrow> None
      | Some t \<Rightarrow>
          if length t > METADATA_LIMIT then None
          else
          (case metadata_lines no_metadata (archive_lines (takeWhile (\<lambda>c. c \<noteq> NUL) t)) of
             None \<Rightarrow> None
           | Some m \<Rightarrow> if safe_metadata m then Some m else None))"

text \<open>The name of the archive that is built.\<close>

definition built_archive_name :: "metadata \<Rightarrow> string" where
  "built_archive_name m =
     md_name m @ ''-'' @ md_arch m @ (if md_debug m then ''-debug-'' else ''-'') @ md_version m @ ''.zip''"

subsection \<open>What the readers accept\<close>

definition metadata_bounded :: "metadata \<Rightarrow> bool" where
  "metadata_bounded m \<longleftrightarrow> length (md_name m) < 128 \<and> length (md_version m) < 64 \<and> length (md_arch m) < 64"

lemma metadata_member_bounded: "metadata_member m key v = Some m' \<Longrightarrow> metadata_bounded m \<Longrightarrow> metadata_bounded m'"
  by (auto simp: metadata_member_def metadata_bounded_def split: if_splits)

lemma metadata_line_bounded: "metadata_line m l = Some m' \<Longrightarrow> metadata_bounded m \<Longrightarrow> metadata_bounded m'"
  by (auto simp: metadata_line_def Let_def split: if_splits option.splits intro: metadata_member_bounded)

lemma metadata_lines_bounded: "metadata_lines m ls = Some m' \<Longrightarrow> metadata_bounded m \<Longrightarrow> metadata_bounded m'"
  by (induction m ls rule: metadata_lines.induct) (auto split: option.splits dest: metadata_line_bounded)

lemma no_metadata_bounded: "metadata_bounded no_metadata"
  by (simp add: metadata_bounded_def no_metadata_def)

lemma accepted_cases:
  assumes "read_package_metadata content = Some m \<or> read_archive_metadata content = Some m"
  shows "metadata_bounded m" "safe_metadata m"
  using assms metadata_lines_bounded [OF _ no_metadata_bounded]
  by (auto simp: read_package_metadata_def read_archive_metadata_def split: option.splits if_splits)

lemma safe_value_plain:
  "is_safe_metadata_value v \<Longrightarrow> v \<noteq> [] \<and> list_all (\<lambda>c. c \<notin> {BSLASH, SLASH, CHR '':'', CR, LF, SPC, NUL}) v"
  by (auto simp: is_safe_metadata_value_def class_defs intro: list.pred_mono_strong)

lemma basename_plain: "list_all (\<lambda>c. \<not> is_slash c) p \<Longrightarrow> path_basename p = p"
proof -
  assume "list_all (\<lambda>c. \<not> is_slash c) p"
  then have tw: "takeWhile (\<lambda>c. \<not> is_slash c) (rev p) = rev p"
    by (intro takeWhile_eq_all_conv [THEN iffD2]) (simp add: list_all_iff)
  show ?thesis unfolding path_basename_def tw by simp
qed

text \<open>Metadata that either reader accepts fits its buffers and is safe, and the archive that is built from
  it has a plain file name: it never leaves the output directory and is a valid package name.\<close>

theorem accepted_metadata_safe:
  assumes "read_package_metadata content = Some m \<or> read_archive_metadata content = Some m"
  shows "length (md_name m) < 128 \<and> length (md_version m) < 64 \<and> length (md_arch m) < 64 \<and> safe_metadata m
    \<and> is_valid_package_name (built_archive_name m) \<and> path_basename (built_archive_name m) = built_archive_name m
    \<and> length (built_archive_name m) < 512"
proof -
  note ok = accepted_cases [OF assms]
  have v: "list_all (\<lambda>c. c \<notin> {BSLASH, SLASH, CHR '':'', CR, LF, SPC, NUL}) x" if "is_safe_metadata_value x" for x
    using safe_value_plain [OF that] ..
  have s: "is_safe_metadata_value (md_name m)" "is_safe_metadata_value (md_version m)" "is_safe_metadata_value (md_arch m)"
    using ok(2) by (simp_all add: safe_metadata_def)
  have all: "list_all (\<lambda>c. c \<notin> {BSLASH, SLASH, CHR '':'', CR, LF, SPC, NUL}) (built_archive_name m)"
    using v [OF s(1)] v [OF s(2)] v [OF s(3)] by (simp add: built_archive_name_def)
  have len: "6 \<le> length (built_archive_name m)" "length (built_archive_name m) < 512"
    using ok(1) by (simp_all add: built_archive_name_def metadata_bounded_def)
  have "is_valid_package_name (built_archive_name m)"
    using all len(1) unfolding is_valid_package_name_def by (auto intro: list.pred_mono_strong)
  moreover have "path_basename (built_archive_name m) = built_archive_name m"
    by (rule basename_plain) (use all in \<open>auto simp: is_slash_def intro: list.pred_mono_strong\<close>)
  ultimately show ?thesis using ok len by (simp add: metadata_bounded_def)
qed

text \<open>The two readers on the text of the same lines, with one line end on the disk and either in the archive.\<close>

lemma metadata_blank: "metadata_lines m ([] # ls) = metadata_lines m ls"
  by (simp add: metadata_line_def trim_line_def)

lemma archive_lines_skip: "metadata_lines m (archive_lines (dropWhile line_end t)) = metadata_lines m (archive_lines t)"
proof (cases t)
  case (Cons c t')
  show ?thesis
  proof (cases "line_end c")
    case True
    have "archive_lines t = [] # archive_lines (dropWhile line_end t)" using Cons True by (subst archive_lines.simps) simp
    then show ?thesis by (simp only: metadata_blank)
  qed (simp add: Cons)
qed simp

lemma takeWhile_until: "list_all (\<lambda>c. \<not> P c) l \<Longrightarrow> P d \<Longrightarrow> takeWhile (\<lambda>c. \<not> P c) (l @ d # q) = l"
  "list_all (\<lambda>c. \<not> P c) l \<Longrightarrow> P d \<Longrightarrow> dropWhile (\<lambda>c. \<not> P c) (l @ d # q) = d # q"
  by (induction l) auto

definition text_line :: "string \<Rightarrow> bool" where
  "text_line l \<longleftrightarrow> list_all (\<lambda>c. \<not> line_end c \<and> c \<noteq> NUL) l \<and> length l + 1 < WPM_PATH_SIZE"

lemma archive_line:
  assumes "list_all (\<lambda>c. \<not> line_end c) l" "eol = [LF] \<or> eol = [CR, LF]"
  shows "metadata_lines m (archive_lines (l @ eol @ t)) = metadata_lines m (l # archive_lines t)"
proof -
  obtain d q where e: "eol @ t = d # q" "line_end d" "dropWhile line_end (d # q) = dropWhile line_end t"
    using assms(2) by (auto simp: line_end_def)
  have "archive_lines (l @ eol @ t) = l # archive_lines (dropWhile line_end t)"
    unfolding e(1) using takeWhile_until [where P = line_end, OF assms(1) e(2)] e(3) by (subst archive_lines.simps) simp
  then show ?thesis using archive_lines_skip by (simp split: option.split)
qed

lemma archive_lines_text:
  assumes "list_all text_line ls" "eol = [LF] \<or> eol = [CR, LF]"
  shows "metadata_lines m (archive_lines (concat (map (\<lambda>l. l @ eol) ls))) = metadata_lines m ls"
  using assms(1)
proof (induction ls arbitrary: m)
  case Nil
  then show ?case by (simp add: archive_lines.simps)
next
  case (Cons l ls)
  then have "list_all (\<lambda>c. \<not> line_end c) l" by (auto simp: text_line_def list_all_iff)
  from archive_line [OF this assms(2)] Cons show ?case by (simp split: option.split)
qed

lemma metadata_line_newline: "metadata_line m (l @ [LF]) = metadata_line m l"
  by (simp add: metadata_line_def trim_line_def)

lemma package_lines_text:
  assumes "list_all text_line ls"
  shows "metadata_lines m (text_lines WPM_PATH_SIZE (concat (map (\<lambda>l. l @ [LF]) ls))) = metadata_lines m ls"
proof -
  have "list_all (full_line WPM_PATH_SIZE) (map (\<lambda>l. l @ [LF]) ls)"
    using assms by (auto simp: list_all_iff full_line_def text_line_def line_end_def)
  then have "text_lines WPM_PATH_SIZE (concat (map (\<lambda>l. l @ [LF]) ls)) = map (\<lambda>l. l @ [LF]) ls"
    by (rule text_lines_concat)
  moreover have "metadata_lines m (map (\<lambda>l. l @ [LF]) ls) = metadata_lines m ls" for m
    by (induction ls arbitrary: m) (simp_all add: metadata_line_newline split: option.split)
  ultimately show ?thesis by simp
qed

text \<open>The reader of the source directory and the reader of the archive agree on the same lines, whichever
  of the two line ends the archive holds, as long as no line exceeds the buffer of the first.\<close>

theorem metadata_readers_agree:
  assumes "list_all text_line ls" "eol = [LF] \<or> eol = [CR, LF]"
    and "length (concat (map (\<lambda>l. l @ eol) ls)) \<le> METADATA_LIMIT"
  shows "read_archive_metadata (Some (concat (map (\<lambda>l. l @ eol) ls)))
    = read_package_metadata (Some (concat (map (\<lambda>l. l @ [LF]) ls)))"
proof -
  have "NUL \<notin> set l" if "l \<in> set ls" for l
    using assms(1) that unfolding text_line_def list_all_iff by blast
  moreover have "NUL \<notin> set eol" using assms(2) by (elim disjE) simp_all
  ultimately have "NUL \<notin> set (concat (map (\<lambda>l. l @ eol) ls))" by simp
  then have tw: "takeWhile (\<lambda>c. c \<noteq> NUL) (concat (map (\<lambda>l. l @ eol) ls)) = concat (map (\<lambda>l. l @ eol) ls)"
    by (intro takeWhile_eq_all_conv [THEN iffD2]) metis
  show ?thesis
    using assms(3) archive_lines_text [OF assms(1,2)] package_lines_text [OF assms(1)]
    by (simp add: read_archive_metadata_def read_package_metadata_def tw)
qed

definition sample_package_text :: "string list" where
  "sample_package_text = [''# tool'', '' name = wpm-tool'', ''version=1.2.3+b'', [], ''arch=any'', ''debug=Yes'']"

lemma sample_package_metadata:
  "read_package_metadata (Some (concat (map (\<lambda>l. l @ [LF]) sample_package_text)))
     = Some \<lparr>md_name = ''wpm-tool'', md_version = ''1.2.3+b'', md_arch = ''any'', md_debug = True\<rparr>"
  by code_simp

theorem accepted_metadata_safe_witness:
  "is_valid_package_name (built_archive_name \<lparr>md_name = ''wpm-tool'', md_version = ''1.2.3+b'', md_arch = ''any'', md_debug = True\<rparr>)
   \<and> built_archive_name \<lparr>md_name = ''wpm-tool'', md_version = ''1.2.3+b'', md_arch = ''any'', md_debug = True\<rparr>
       = ''wpm-tool-any-debug-1.2.3+b.zip''"
  using accepted_metadata_safe [OF disjI1, OF sample_package_metadata] by (simp add: built_archive_name_def)

theorem metadata_readers_agree_witness:
  "read_archive_metadata (Some (concat (map (\<lambda>l. l @ [CR, LF]) sample_package_text)))
     = Some \<lparr>md_name = ''wpm-tool'', md_version = ''1.2.3+b'', md_arch = ''any'', md_debug = True\<rparr>"
proof -
  have "list_all text_line sample_package_text"
    by (simp add: sample_package_text_def text_line_def line_end_def WPM_PATH_SIZE_def)
  moreover have "length (concat (map (\<lambda>l. l @ [CR, LF]) sample_package_text)) \<le> METADATA_LIMIT"
    by (simp add: sample_package_text_def METADATA_LIMIT_def)
  ultimately show ?thesis
    using metadata_readers_agree [of sample_package_text "[CR, LF]"] sample_package_metadata by simp
qed

subsection \<open>The ignore list\<close>

text \<open>The two loops of \<open>wildcard_match\<close>: \<open>wildcard_rest\<close> tries every suffix of the text behind a star.\<close>

function wildcard_match :: "string \<Rightarrow> string \<Rightarrow> bool"
  and wildcard_rest :: "string \<Rightarrow> string \<Rightarrow> bool" where
  "wildcard_match [] t = (t = [])"
| "wildcard_match (c # p) t =
     (if c = CHR ''*'' then (if p = [] then True else wildcard_rest p t)
      else (case t of [] \<Rightarrow> False | d # r \<Rightarrow> c = d \<and> wildcard_match p r))"
| "wildcard_rest p t = (case t of [] \<Rightarrow> wildcard_match p [] | d # r \<Rightarrow> wildcard_match p t \<or> wildcard_rest p r)"
  by pat_completeness auto
termination
  by (relation "measures [\<lambda>x. case x of Inl (p, t) \<Rightarrow> length p | Inr (p, t) \<Rightarrow> length p,
      \<lambda>x. case x of Inl (p, t) \<Rightarrow> 0 | Inr (p, t) \<Rightarrow> 1, \<lambda>x. case x of Inl (p, t) \<Rightarrow> 0 | Inr (p, t) \<Rightarrow> length t]") auto

declare wildcard_rest.simps [simp del]

definition ignore_pattern_matches :: "string \<Rightarrow> string \<Rightarrow> bool" where
  "ignore_pattern_matches pattern path =
     (if pattern = [] then False
      else if last pattern = SLASH then strnieq (length pattern) pattern path
      else if strchr (CHR ''*'') pattern \<noteq> None
      then wildcard_match pattern path \<or> wildcard_match pattern (path_basename path)
      else strieq pattern path \<or> strieq pattern (path_basename path))"

definition is_ignored_by_list :: "string list \<Rightarrow> string \<Rightarrow> bool" where
  "is_ignored_by_list patterns path = list_ex (\<lambda>p. ignore_pattern_matches p path) patterns"

definition is_tracked_package_support_file :: "string \<Rightarrow> bool" where
  "is_tracked_package_support_file path \<longleftrightarrow> strieq path ''.wpm/package.txt'' \<or> strieq path ''.wpm/install.cmd''
     \<or> strieq path ''.wpm/remove.cmd'' \<or> strieq path ''.wpm/wpmignore.txt''"

definition MAX_IGNORE_PATTERNS :: nat where "MAX_IGNORE_PATTERNS = 128"

fun load_ignore_loop :: "string list \<Rightarrow> string list \<Rightarrow> string list" where
  "load_ignore_loop patterns [] = patterns"
| "load_ignore_loop patterns (line # lines) =
     (if length patterns \<ge> MAX_IGNORE_PATTERNS then patterns
      else let p = normalize_archive_separators (trim_line line) in
        load_ignore_loop (if p = [] \<or> at (CHR ''#'') p then patterns else patterns @ [p]) lines)"

text \<open>A missing file ignores nothing.\<close>

definition load_ignore_list :: "string option \<Rightarrow> string list" where
  "load_ignore_list content =
     (case content of None \<Rightarrow> [] | Some t \<Rightarrow> load_ignore_loop [] (text_lines WPM_PATH_SIZE t))"

text \<open>The meaning of a pattern: a star stands for any text, every other byte for itself.\<close>

inductive glob :: "string \<Rightarrow> string \<Rightarrow> bool" where
  glob_empty: "glob [] []"
| glob_star: "glob p t \<Longrightarrow> glob (CHR ''*'' # p) (a @ t)"
| glob_char: "c \<noteq> CHR ''*'' \<Longrightarrow> glob p t \<Longrightarrow> glob (c # p) (c # t)"

inductive_cases glob_NilE: "glob [] t"
inductive_cases glob_starE: "glob (CHR ''*'' # p) t"
inductive_cases glob_charE: "glob (c # p) t"

lemma wildcard_rest_iff: "wildcard_rest p t \<longleftrightarrow> (\<exists>a b. t = a @ b \<and> wildcard_match p b)"
proof (induction t)
  case (Cons d r)
  have "(\<exists>a b. d # r = a @ b \<and> wildcard_match p b) \<longleftrightarrow> wildcard_match p (d # r) \<or> (\<exists>a b. r = a @ b \<and> wildcard_match p b)"
    by (auto simp: Cons_eq_append_conv)
  with Cons show ?case by (subst wildcard_rest.simps) simp
qed (simp add: wildcard_rest.simps)

text \<open>The matcher of the ignore list, which backtracks over every suffix, accepts exactly the texts that
  the pattern describes.\<close>

theorem wildcard_match_iff: "wildcard_match p t \<longleftrightarrow> glob p t"
proof
  show "wildcard_match p t \<Longrightarrow> glob p t"
  proof (induction p arbitrary: t)
    case (Cons c p)
    show ?case
    proof (cases "c = CHR ''*''")
      case star: True
      show ?thesis
      proof (cases "p = []")
        case True
        then show ?thesis using star glob_star [OF glob_empty, of t] by simp
      next
        case False
        with star Cons.prems obtain a b where "t = a @ b" "wildcard_match p b"
          using wildcard_rest_iff by auto
        with Cons.IH star show ?thesis by (auto intro: glob_star)
      qed
    next
      case False
      with Cons show ?thesis by (cases t) (auto intro: glob_char)
    qed
  qed (simp add: glob_empty)
next
  show "glob p t \<Longrightarrow> wildcard_match p t"
  proof (induction rule: glob.induct)
    case (glob_star p t a)
    then show ?case using wildcard_rest_iff by auto
  qed simp_all
qed

text \<open>At most 128 patterns are kept, none of them empty or a comment, all with forward slashes.\<close>

definition pattern_ok :: "string \<Rightarrow> bool" where
  "pattern_ok p \<longleftrightarrow> p \<noteq> [] \<and> \<not> at (CHR ''#'') p \<and> list_all (\<lambda>c. c \<noteq> BSLASH) p"

lemma normalized_separators: "list_all (\<lambda>c. c \<noteq> BSLASH) (normalize_archive_separators l)"
  by (induction l) (simp_all add: normalize_archive_separators_def)

lemma load_ignore_loop_ok:
  assumes "length ps \<le> MAX_IGNORE_PATTERNS" "list_all pattern_ok ps"
  shows "length (load_ignore_loop ps ls) \<le> MAX_IGNORE_PATTERNS \<and> list_all pattern_ok (load_ignore_loop ps ls)"
  using assms
proof (induction ps ls rule: load_ignore_loop.induct)
  case (2 ps line ls)
  define p where "p = normalize_archive_separators (trim_line line)"
  define ps' where "ps' = (if p = [] \<or> at (CHR ''#'') p then ps else ps @ [p])"
  have "list_all pattern_ok ps'"
  proof (cases "p = [] \<or> at (CHR ''#'') p")
    case False
    then have "pattern_ok p" using normalized_separators by (simp add: pattern_ok_def p_def)
    then show ?thesis using 2(3) by (simp add: ps'_def)
  qed (use 2(3) in \<open>simp add: ps'_def\<close>)
  moreover have "length ps' \<le> MAX_IGNORE_PATTERNS" if "\<not> length ps \<ge> MAX_IGNORE_PATTERNS"
    using that by (simp add: ps'_def)
  ultimately have "\<not> length ps \<ge> MAX_IGNORE_PATTERNS \<Longrightarrow> length (load_ignore_loop ps' ls) \<le> MAX_IGNORE_PATTERNS
      \<and> list_all pattern_ok (load_ignore_loop ps' ls)"
    using 2(1) [OF _ p_def, folded ps'_def] by blast
  then show ?case
    using 2(2,3) unfolding load_ignore_loop.simps p_def [symmetric] Let_def ps'_def [symmetric] by simp
qed simp

lemma load_ignore_list_ok:
  "length (load_ignore_list content) \<le> MAX_IGNORE_PATTERNS \<and> list_all pattern_ok (load_ignore_list content)"
  using load_ignore_loop_ok [of "[]"] by (auto simp: load_ignore_list_def split: option.split)

end
