(* ===== verification/Archive_Paths.thy ===== *)
theory Archive_Paths
  imports Package_Metadata
begin

text \<open>
  Paths inside an archive and the sorted list of the paths of an index in \<open>wpm/archive.c\<close>: the test that a
  path stays below its root, and the search in a list that \<open>qsort\<close> has ordered without regard to case.
\<close>

subsection \<open>Safe paths\<close>

text \<open>The loop over the segments; \<open>segment\<close> is the text from its start to the cursor.\<close>

fun safe_segments :: "string \<Rightarrow> string \<Rightarrow> bool" where
  "safe_segments segment [] = (segment \<noteq> ''..'')"
| "safe_segments segment (c # p) =
     (if is_slash c then (if segment = ''..'' then False else safe_segments [] p)
      else safe_segments (segment @ [c]) p)"

definition is_safe_archive_path :: "string \<Rightarrow> bool" where
  "is_safe_archive_path path =
     (if path = [] \<or> at SLASH path \<or> at BSLASH path \<or> CHR '':'' \<in> set path then False
      else safe_segments [] path)"

text \<open>A component of a path is what stands between two separators or an end.\<close>

definition path_component :: "string \<Rightarrow> string \<Rightarrow> bool" where
  "path_component path x \<longleftrightarrow> list_all (\<lambda>c. \<not> is_slash c) x \<and>
     (\<exists>a b. path = a @ x @ b \<and> (a = [] \<or> is_slash (last a)) \<and> (b = [] \<or> is_slash (hd b)))"

lemma component_Nil: "path_component [] x \<longleftrightarrow> x = []"
  by (auto simp: path_component_def)

lemma segments_plain:
  "list_all (\<lambda>c. \<not> is_slash c) seg \<Longrightarrow> path_component seg x \<longleftrightarrow> x = seg"
proof
  assume plain: "list_all (\<lambda>c. \<not> is_slash c) seg" and "path_component seg x"
  then obtain a b where ab: "seg = a @ x @ b" "a = [] \<or> is_slash (last a)" "b = [] \<or> is_slash (hd b)"
    unfolding path_component_def by blast
  have "a = []" using ab(1,2) plain by (metis append_is_Nil_conv in_set_conv_decomp last_in_set list_all_iff Un_iff set_append)
  moreover have "b = []" using ab(1,3) plain by (metis hd_in_set list_all_iff Un_iff set_append)
  ultimately show "x = seg" using ab(1) by simp
next
  assume "list_all (\<lambda>c. \<not> is_slash c) seg" "x = seg"
  then show "path_component seg x"
    unfolding path_component_def by (intro conjI exI [of _ "[]"]) simp_all
qed

lemma segments_separator:
  assumes plain: "list_all (\<lambda>c. \<not> is_slash c) seg" and c: "is_slash c"
  shows "path_component (seg @ c # p) x \<longleftrightarrow> x = seg \<or> path_component p x"
proof
  assume "path_component (seg @ c # p) x"
  then obtain a b where x: "list_all (\<lambda>c. \<not> is_slash c) x" and ab: "seg @ c # p = a @ x @ b"
    "a = [] \<or> is_slash (last a)" "b = [] \<or> is_slash (hd b)"
    unfolding path_component_def by blast
  show "x = seg \<or> path_component p x"
  proof (cases "a = []")
    case True
    then have e: "seg @ c # p = x @ b" using ab(1) by simp
    have "takeWhile (\<lambda>c. \<not> is_slash c) (seg @ c # p) = seg" using plain c by (induction seg) auto
    moreover have "takeWhile (\<lambda>c. \<not> is_slash c) (x @ b) = x"
      using x ab(3) by (cases b) (auto simp: list_all_iff)
    ultimately show ?thesis using e by simp
  next
    case False
    then have l: "is_slash (last a)" using ab(2) by simp
    have seg: False if "seg = a @ us" for us
      using that False l plain last_in_set [OF False] by (auto simp: list_all_iff)
    obtain us where "seg = a @ us \<or> seg @ us = a \<and> c # p = us @ x @ b"
      using ab(1) unfolding append_eq_append_conv2 [of seg "c # p" a "x @ b"] by blast
    then have us: "seg @ us = a" "c # p = us @ x @ b" using seg by blast+
    then have "us \<noteq> []" using seg [of "[]"] by auto
    then obtain a' where "us = c # a'" using us(2) by (cases us) auto
    with us have a: "a = seg @ c # a'" "p = a' @ x @ b" by auto
    then have "a' = [] \<or> is_slash (last a')" using l by (auto split: if_splits)
    with a(2) show ?thesis using x ab(3) unfolding path_component_def by blast
  qed
next
  assume "x = seg \<or> path_component p x"
  then show "path_component (seg @ c # p) x"
  proof
    assume "x = seg"
    then show ?thesis using plain c unfolding path_component_def
      by (intro conjI exI [of _ "[]"] exI [of _ "c # p"]) auto
  next
    assume "path_component p x"
    then obtain a b where "list_all (\<lambda>c. \<not> is_slash c) x" "p = a @ x @ b" "a = [] \<or> is_slash (last a)"
      "b = [] \<or> is_slash (hd b)"
      unfolding path_component_def by blast
    then show ?thesis using c unfolding path_component_def
      by (intro conjI exI [of _ "seg @ c # a"] exI [of _ b]) auto
  qed
qed

lemma safe_segments_iff:
  "list_all (\<lambda>c. \<not> is_slash c) seg \<Longrightarrow> safe_segments seg p \<longleftrightarrow> \<not> path_component (seg @ p) ''..''"
proof (induction seg p rule: safe_segments.induct)
  case (1 seg)
  then show ?case using segments_plain by auto
next
  case (2 seg c p)
  then show ?case using segments_separator [of seg c p "''..''"] by auto
qed

text \<open>A path passes exactly when it is relative, without a drive or stream separator, and no component of
  it, under either separator, is the parent directory.\<close>

theorem safe_archive_path_iff:
  "is_safe_archive_path path \<longleftrightarrow> path \<noteq> [] \<and> \<not> is_slash (hd path) \<and> CHR '':'' \<notin> set path
     \<and> \<not> path_component path ''..''"
  using safe_segments_iff [of "[]" path] by (cases path) (auto simp: is_safe_archive_path_def is_slash_def)

subsection \<open>Sorted paths\<close>

definition compare_index_paths :: "string \<Rightarrow> string \<Rightarrow> int" where
  "compare_index_paths left right = stricmp left right"

interpretation index_paths: comparator compare_index_paths
  unfolding compare_index_paths_def stricmp_def by (rule comparator_key [OF comparator_strcmp])

lemma compare_index_paths_eq [simp]: "compare_index_paths a b = 0 \<longleftrightarrow> strieq a b"
  by (simp add: compare_index_paths_def)

text \<open>\<open>bsearch\<close> of the C library.\<close>

function bsearch :: "('a \<Rightarrow> 'a \<Rightarrow> int) \<Rightarrow> 'a \<Rightarrow> 'a list \<Rightarrow> 'a option" where
  "bsearch cmp key xs =
     (if xs = [] then None
      else
        let middle = length xs div 2; x = xs ! middle; c = cmp key x in
        if c = 0 then Some x
        else if c < 0 then bsearch cmp key (take middle xs) else bsearch cmp key (drop (Suc middle) xs))"
  by pat_completeness auto
termination
  by (relation "measure (\<lambda>(cmp, key, xs). length xs)") auto

declare bsearch.simps [simp del]

context comparator
begin

lemma bsearch_sound: "bsearch cmp key xs = Some x \<Longrightarrow> x \<in> set xs \<and> cmp key x = 0"
proof (induction cmp key xs rule: bsearch.induct)
  case (1 cmp key xs)
  then show ?case
    by (subst (asm) (3) bsearch.simps) (auto simp: Let_def split: if_splits dest: in_set_takeD in_set_dropD)
qed

lemma bsearch_complete:
  "sorted_wrt (\<lambda>a b. cmp a b \<le> 0) xs \<Longrightarrow> x \<in> set xs \<Longrightarrow> cmp key x = 0 \<Longrightarrow> bsearch cmp key xs \<noteq> None"
proof (induction "length xs" arbitrary: xs rule: less_induct)
  case less
  define m where "m = length xs div 2"
  have m: "m < length xs" using less.prems(2) by (cases xs) (simp_all add: m_def)
  have split: "xs = take m xs @ xs ! m # drop (Suc m) xs" using m by (rule id_take_nth_drop)
  show ?case
  proof (cases "cmp key (xs ! m) = 0")
    case True
    then show ?thesis using m by (subst bsearch.simps) (auto simp: Let_def m_def)
  next
    case ne: False
    have sorted: "\<forall>y \<in> set (take m xs). cmp y (xs ! m) \<le> 0" "\<forall>y \<in> set (drop (Suc m) xs). cmp (xs ! m) y \<le> 0"
      "sorted_wrt (\<lambda>a b. cmp a b \<le> 0) (take m xs)" "sorted_wrt (\<lambda>a b. cmp a b \<le> 0) (drop (Suc m) xs)"
      using less.prems(1) split sorted_wrt_append [of "\<lambda>a b. cmp a b \<le> 0" "take m xs" "xs ! m # drop (Suc m) xs"]
      by (auto simp: sorted_wrt_take sorted_wrt_drop)
    have x: "x \<in> set (take m xs) \<or> x = xs ! m \<or> x \<in> set (drop (Suc m) xs)"
      using less.prems(2) split by (metis Un_iff set_ConsD set_append)
    show ?thesis
    proof (cases "cmp key (xs ! m) < 0")
      case True
      have "x \<noteq> xs ! m" using ne less.prems(3) by auto
      moreover have "\<not> cmp (xs ! m) x \<le> 0"
        using True less.prems(3) less_le_trans [of key "xs ! m" x] by auto
      ultimately have "x \<in> set (take m xs)" using x sorted(2) by blast
      with less m sorted(3) have "bsearch cmp key (take m xs) \<noteq> None" by simp
      then show ?thesis using True m by (subst bsearch.simps) (auto simp: Let_def m_def)
    next
      case False
      have gt: "cmp (xs ! m) key < 0" using ne False cmp_swap [of key "xs ! m"] by linarith
      have "x \<noteq> xs ! m" using ne less.prems(3) by auto
      moreover have "\<not> cmp x (xs ! m) \<le> 0"
        using gt less.prems(3) le_less_trans [of x "xs ! m" key] eq_sym [of key x] by auto
      ultimately have "x \<in> set (drop (Suc m) xs)" using x sorted(1) by blast
      with less m sorted(4) have "bsearch cmp key (drop (Suc m) xs) \<noteq> None" by simp
      then show ?thesis using False ne m by (subst bsearch.simps) (auto simp: Let_def m_def)
    qed
  qed
qed

lemma bsearch_qsort: "bsearch cmp key (qsort cmp xs) \<noteq> None \<longleftrightarrow> (\<exists>x \<in> set xs. cmp key x = 0)"
  using bsearch_sound [of key "qsort cmp xs"] bsearch_complete [OF sorted_qsort, of _ xs key] by fastforce

end

definition index_contains_path :: "string list \<Rightarrow> string \<Rightarrow> bool" where
  "index_contains_path paths path = (if paths = [] then False else bsearch compare_index_paths path paths \<noteq> None)"

lemma index_contains_sorted:
  "index_contains_path (qsort compare_index_paths paths) path \<longleftrightarrow> (\<exists>p \<in> set paths. strieq path p)"
proof -
  have "index_contains_path xs path \<longleftrightarrow> bsearch compare_index_paths path xs \<noteq> None" for xs
    by (cases "xs = []") (simp_all add: index_contains_path_def bsearch.simps)
  then show ?thesis using index_paths.bsearch_qsort [of path paths] by simp
qed

text \<open>The loop that looks for equal neighbours.\<close>

fun adjacent_equal :: "string list \<Rightarrow> bool" where
  "adjacent_equal (a # b # xs) \<longleftrightarrow> strieq a b \<or> adjacent_equal (b # xs)"
| "adjacent_equal _ \<longleftrightarrow> False"

text \<open>In a sorted list equal paths stand next to each other.\<close>

lemma adjacent_equal_sorted:
  "sorted_wrt (\<lambda>a b. compare_index_paths a b \<le> 0) xs \<Longrightarrow> \<not> adjacent_equal xs \<Longrightarrow> distinct (map lower xs)"
proof (induction xs rule: adjacent_equal.induct)
  case (1 a b xs)
  have le: "compare_index_paths a b \<le> 0" "\<not> strieq a b" "\<forall>x \<in> set xs. compare_index_paths b x \<le> 0" using 1 by auto
  have "lower a \<noteq> lower x" if "x \<in> set (b # xs)" for x
  proof
    assume "lower a = lower x"
    then have "compare_index_paths x a = 0" by (simp add: strieq_def)
    then have "compare_index_paths x a \<le> 0" by linarith
    moreover have "compare_index_paths b x \<le> 0" using that le(3) by auto
    ultimately have "compare_index_paths b a \<le> 0" using index_paths.cmp_trans by blast
    then have "compare_index_paths a b = 0" using le(1) index_paths.cmp_swap [of a b] by simp
    with le(2) show False by simp
  qed
  with 1 show ?case by auto
qed simp_all

lemma distinct_qsort_paths:
  assumes "\<not> adjacent_equal (qsort compare_index_paths xs)"
  shows "distinct (map lower xs)"
proof -
  have "distinct (map lower (qsort compare_index_paths xs))"
    using adjacent_equal_sorted [OF index_paths.sorted_qsort assms] .
  moreover have "mset (map lower (qsort compare_index_paths xs)) = mset (map lower xs)" by simp
  ultimately show ?thesis by (metis mset_eq_imp_distinct_iff)
qed

subsection \<open>Index lines\<close>

definition index_header :: string where
  "index_header = ''filename,size,hash,algorithm''"

text \<open>The four columns; the last one is everything behind the third comma.\<close>

definition csv_fields :: "string \<Rightarrow> (string \<times> string \<times> string \<times> string) option" where
  "csv_fields line =
     (let cell = takeWhile (\<lambda>c. c \<noteq> CHR '','') in
      (case strchr (CHR '','') line of
         None \<Rightarrow> None
       | Some p \<Rightarrow>
           (case strchr (CHR '','') (tl p) of
              None \<Rightarrow> None
            | Some q \<Rightarrow>
                (case strchr (CHR '','') (tl q) of
                   None \<Rightarrow> None
                 | Some r \<Rightarrow> Some (trim_line (cell line), trim_line (cell (tl p)), trim_line (cell (tl q)), trim_line (tl r))))))"

text \<open>The paths of an index file, whatever its other columns hold, sorted.\<close>

definition INDEX_LINE :: nat where "INDEX_LINE = WPM_PATH_SIZE + 65 + 64"

definition index_line_path :: "string \<Rightarrow> string option" where
  "index_line_path raw =
     (let line = trim_line raw in
      if strieq line index_header \<or> CHR '','' \<notin> set line then None
      else Some (normalize_archive_separators (takeWhile (\<lambda>c. c \<noteq> CHR '','') line)))"

definition load_index_paths :: "string option \<Rightarrow> string list option" where
  "load_index_paths content =
     map_option (\<lambda>t. qsort compare_index_paths (List.map_filter index_line_path (text_lines INDEX_LINE t))) content"

end
