(* ===== verification/Archive_Validation.thy ===== *)
theory Archive_Validation
  imports Zip_Entry Archive_Paths Signing
begin

text \<open>
  The read-only validation of an archive, \<open>archive_validate_handle\<close> of \<open>wpm/archive.c\<close>: the signature of the
  index, every line of the index against the entry it names, and every entry against the index. What minizip
  finds in the archive is a parameter: its entries in order, whether their enumeration ends regularly, and the
  entry that is located for a name. The digest of an entry is a parameter too.
\<close>

record zip_entry =
  ze_info :: zip_info
  ze_reader :: zip_reader
  ze_dir :: bool

abbreviation ze_name :: "zip_entry \<Rightarrow> string" where
  "ze_name e \<equiv> zi_name (ze_info e)"

datatype located = Located zip_entry | Not_located | Locate_error

record zip_archive =
  za_entries :: "zip_entry list"
  za_end :: bool
  za_locate :: "string \<Rightarrow> located"

text \<open>The decoders of the archive and the digest in hexadecimal form.\<close>

record 's decoders =
  zd_crc :: "32 word \<Rightarrow> string \<Rightarrow> 32 word"
  zd_inflate :: "'s inflater"
  zd_hash :: "string \<Rightarrow> string"

definition entry_data :: "'s decoders \<Rightarrow> zip_entry \<Rightarrow> nat \<Rightarrow> string option" where
  "entry_data d e capacity = wpm_zip_read_current_memory (zd_crc d) (zd_inflate d) (ze_reader e) (ze_info e) capacity"

definition read_zip_text :: "'s decoders \<Rightarrow> zip_archive \<Rightarrow> string \<Rightarrow> nat \<Rightarrow> file_read" where
  "read_zip_text d za name maximum =
     (case za_locate za name of
        Not_located \<Rightarrow> File_absent
      | Locate_error \<Rightarrow> File_unreadable
      | Located e \<Rightarrow>
          if zi_uncompressed (ze_info e) < 0 \<or> zi_uncompressed (ze_info e) > int maximum then File_unreadable
          else
          (case entry_data d e (nat (zi_uncompressed (ze_info e))) of
             None \<Rightarrow> File_unreadable
           | Some t \<Rightarrow> if NUL \<in> set t then File_unreadable else File_text t))"

definition HASH_HEX :: nat where "HASH_HEX = 64"
definition MAX_INDEXED :: nat where "MAX_INDEXED = 4096"
definition MAX_ENTRIES :: nat where "MAX_ENTRIES = 8192"

text \<open>\<open>strtoull\<close> of a text of digits saturates.\<close>

definition strtoull :: "string \<Rightarrow> nat" where
  "strtoull t = min (dec_value t) ULLONG_MAX"

text \<open>One line of the index: the path to add, or nothing for a header or an empty line.\<close>

definition validate_index_line :: "'s decoders \<Rightarrow> zip_archive \<Rightarrow> string list \<Rightarrow> string \<Rightarrow> string list option" where
  "validate_index_line d za paths raw =
     (let line = trim_line raw in
      if line = [] \<or> strieq line index_header then Some paths
      else
      (case csv_fields line of
         None \<Rightarrow> None
       | Some (path, size_text, expected_hash, algorithm) \<Rightarrow>
           if \<not> is_safe_archive_path path \<or> \<not> at_class is_digit size_text \<or> length expected_hash \<noteq> HASH_HEX
              \<or> \<not> strieq algorithm ''blake2b'' \<or> \<not> list_all is_digit size_text
           then None
           else
           (case za_locate za path of
              Located e \<Rightarrow>
                if zi_uncompressed (ze_info e) < 0 \<or> nat (zi_uncompressed (ze_info e)) \<noteq> strtoull size_text then None
                else
                (case entry_data d e (strtoull size_text) of
                   None \<Rightarrow> None
                 | Some data \<Rightarrow>
                     if \<not> strieq (zd_hash d data) expected_hash \<or> length paths \<ge> MAX_INDEXED then None
                     else Some (paths @ [path]))
            | _ \<Rightarrow> None)))"

fun validate_index_lines :: "'s decoders \<Rightarrow> zip_archive \<Rightarrow> string list \<Rightarrow> string list \<Rightarrow> string list option" where
  "validate_index_lines d za paths [] = Some paths"
| "validate_index_lines d za paths (line # lines) =
     (case validate_index_line d za paths line of
        None \<Rightarrow> None
      | Some paths' \<Rightarrow> validate_index_lines d za paths' lines)"

text \<open>The sorted paths of a valid index; without an index there are none.\<close>

definition validated_paths :: "'s decoders \<Rightarrow> zip_archive \<Rightarrow> string option \<Rightarrow> string list option" where
  "validated_paths d za index =
     (case index of
        None \<Rightarrow> Some []
      | Some t \<Rightarrow>
          (case validate_index_lines d za [] (archive_lines t) of
             None \<Rightarrow> None
           | Some paths \<Rightarrow>
               let sorted = qsort compare_index_paths paths in if adjacent_equal sorted then None else Some sorted))"

definition support_entry :: "string \<Rightarrow> bool" where
  "support_entry name \<longleftrightarrow> strieq name ''.wpm/index.csv'' \<or> strieq name ''.wpm/signature.json''"

text \<open>The loop over the entries; the result are their names with forward slashes.\<close>

fun validate_entries :: "'s decoders \<Rightarrow> bool \<Rightarrow> string list \<Rightarrow> string list \<Rightarrow> zip_entry list \<Rightarrow> string list option" where
  "validate_entries d complete paths files [] = Some files"
| "validate_entries d complete paths files (e # entries) =
     (if \<not> is_safe_archive_path (ze_name e) \<or> length files \<ge> MAX_ENTRIES then None
      else if \<not> ze_dir e \<and> complete \<and> \<not> support_entry (ze_name e) \<and> \<not> index_contains_path paths (ze_name e) then None
      else if \<not> ze_dir e \<and> entry_data d e (nat (zi_uncompressed (ze_info e))) = None then None
      else validate_entries d complete paths (files @ [normalize_archive_separators (ze_name e)]) entries)"

definition file_text :: "file_read \<Rightarrow> string option" where
  "file_text f = (case f of File_text t \<Rightarrow> Some t | _ \<Rightarrow> None)"

definition archive_validate_handle ::
  "crypto \<Rightarrow> signing_env \<Rightarrow> trust_state \<Rightarrow> 's decoders \<Rightarrow> zip_archive option \<Rightarrow> bool \<Rightarrow> string option" where
  "archive_validate_handle cr env st d archive allow_unsigned =
     (case archive of
        None \<Rightarrow> None
      | Some za \<Rightarrow>
          let index_file = read_zip_text d za ''.wpm/index.csv'' (4 * 1024 * 1024);
              signature_file = read_zip_text d za ''.wpm/signature.json'' 16384;
              index = file_text index_file; signature = file_text signature_file in
          if index_file = File_unreadable \<or> signature_file = File_unreadable then None
          else
          (case wpm_validate_signature_bytes cr env st signature index allow_unsigned of
             None \<Rightarrow> None
           | Some key \<Rightarrow>
               (case validated_paths d za index of
                  None \<Rightarrow> None
                | Some paths \<Rightarrow>
                    (case validate_entries d (signature \<noteq> None \<and> index \<noteq> None) paths [] (za_entries za) of
                       None \<Rightarrow> None
                     | Some files \<Rightarrow>
                         if \<not> za_end za \<or> adjacent_equal (qsort compare_index_paths files) then None
                         else Some key))))"

subsection \<open>What a validated archive holds\<close>

text \<open>The behaviour of \<open>mz_zip_reader_locate_entry\<close> that the code relies on: the located entry is one of the
  archive and has the requested name, up to the direction of the slashes.\<close>

definition zip_locates :: "zip_archive \<Rightarrow> bool" where
  "zip_locates za \<longleftrightarrow> (\<forall>name e. za_locate za name = Located e \<longrightarrow>
     e \<in> set (za_entries za) \<and> normalize_archive_separators (ze_name e) = normalize_archive_separators name)"

definition entry_key :: "zip_entry \<Rightarrow> string" where
  "entry_key e = lower (normalize_archive_separators (ze_name e))"

lemma lower_normalize: "lower (normalize_archive_separators x) = normalize_archive_separators (lower x)"
proof -
  have "to_lower SLASH = SLASH" "to_lower BSLASH = BSLASH" "to_lower c = BSLASH \<longleftrightarrow> c = BSLASH" for c
    by (auto simp: to_lower_def is_upper_def byte_eq_iff [symmetric])
  then show ?thesis by (simp add: lower_def normalize_archive_separators_def)
qed

text \<open>A line of the index that names \<open>path\<close> and agrees with the entry that is located for it.\<close>

definition line_checked :: "'s decoders \<Rightarrow> zip_archive \<Rightarrow> string \<Rightarrow> string \<Rightarrow> bool" where
  "line_checked d za raw path \<longleftrightarrow> (\<exists>size_text expected algorithm e data.
     csv_fields (trim_line raw) = Some (path, size_text, expected, algorithm) \<and> is_safe_archive_path path
     \<and> za_locate za path = Located e \<and> 0 \<le> zi_uncompressed (ze_info e)
     \<and> nat (zi_uncompressed (ze_info e)) = strtoull size_text
     \<and> entry_data d e (strtoull size_text) = Some data \<and> strieq (zd_hash d data) expected)"

lemma validate_index_line_checked:
  "validate_index_line d za paths raw = Some paths' \<Longrightarrow>
     (\<forall>p \<in> set paths'. p \<in> set paths \<or> line_checked d za raw p) \<and> (length paths \<le> MAX_INDEXED \<longrightarrow> length paths' \<le> MAX_INDEXED)"
  by (auto simp: validate_index_line_def Let_def line_checked_def not_less split: if_splits option.splits located.splits)

lemma validate_index_lines_checked:
  "validate_index_lines d za paths ls = Some paths' \<Longrightarrow>
     (\<forall>p \<in> set paths'. p \<in> set paths \<or> (\<exists>raw \<in> set ls. line_checked d za raw p))
     \<and> (length paths \<le> MAX_INDEXED \<longrightarrow> length paths' \<le> MAX_INDEXED)"
proof (induction d za paths ls rule: validate_index_lines.induct)
  case (2 d za paths line ls)
  then obtain paths1 where p: "validate_index_line d za paths line = Some paths1"
    "validate_index_lines d za paths1 ls = Some paths'" by (auto split: option.splits)
  from 2(1) [OF p] validate_index_line_checked [OF p(1)] show ?case by fastforce
qed auto

lemma validated_paths_checked:
  assumes "validated_paths d za (Some t) = Some paths" "index_contains_path paths name"
  shows "\<exists>raw \<in> set (archive_lines t). \<exists>p. strieq name p \<and> line_checked d za raw p"
proof -
  obtain ps where "validate_index_lines d za [] (archive_lines t) = Some ps" "paths = qsort compare_index_paths ps"
    using assms(1) by (auto simp: validated_paths_def Let_def split: option.splits if_splits)
  then show ?thesis
    using assms(2) validate_index_lines_checked [of d za "[]" "archive_lines t" ps] index_contains_sorted [of ps name] by fastforce
qed

lemma validate_entries_ok:
  "validate_entries d complete paths files es = Some files' \<Longrightarrow> length files \<le> MAX_ENTRIES \<Longrightarrow>
     files' = files @ map (\<lambda>e. normalize_archive_separators (ze_name e)) es \<and> length files' \<le> MAX_ENTRIES
     \<and> (\<forall>e \<in> set es. is_safe_archive_path (ze_name e)
          \<and> (\<not> ze_dir e \<longrightarrow> entry_data d e (nat (zi_uncompressed (ze_info e))) \<noteq> None
               \<and> (complete \<and> \<not> support_entry (ze_name e) \<longrightarrow> index_contains_path paths (ze_name e))))"
proof (induction d complete paths files es rule: validate_entries.induct)
  case (2 d complete paths files e es)
  from 2(2) have step: "is_safe_archive_path (ze_name e)" "length files < MAX_ENTRIES"
    "\<not> ze_dir e \<Longrightarrow> entry_data d e (nat (zi_uncompressed (ze_info e))) \<noteq> None"
    "\<not> ze_dir e \<Longrightarrow> complete \<Longrightarrow> \<not> support_entry (ze_name e) \<Longrightarrow> index_contains_path paths (ze_name e)"
    "validate_entries d complete paths (files @ [normalize_archive_separators (ze_name e)]) es = Some files'"
    by (auto split: if_splits)
  have "files' = (files @ [normalize_archive_separators (ze_name e)]) @ map (\<lambda>e. normalize_archive_separators (ze_name e)) es
      \<and> length files' \<le> MAX_ENTRIES
      \<and> (\<forall>e \<in> set es. is_safe_archive_path (ze_name e)
          \<and> (\<not> ze_dir e \<longrightarrow> entry_data d e (nat (zi_uncompressed (ze_info e))) \<noteq> None
               \<and> (complete \<and> \<not> support_entry (ze_name e) \<longrightarrow> index_contains_path paths (ze_name e))))"
    by (rule 2(1)) (use step 2(2) in \<open>auto split: if_splits\<close>)
  with step show ?case by auto
qed simp

lemma validate_handle_Some:
  assumes "archive_validate_handle cr env st d (Some za) allow = Some key"
  defines "index \<equiv> file_text (read_zip_text d za ''.wpm/index.csv'' (4 * 1024 * 1024))"
    and "signature \<equiv> file_text (read_zip_text d za ''.wpm/signature.json'' 16384)"
  shows "\<exists>paths files. wpm_validate_signature_bytes cr env st signature index allow = Some key
    \<and> validated_paths d za index = Some paths
    \<and> validate_entries d (signature \<noteq> None \<and> index \<noteq> None) paths [] (za_entries za) = Some files
    \<and> za_end za \<and> \<not> adjacent_equal (qsort compare_index_paths files)"
  using assms(1) unfolding archive_validate_handle_def Let_def option.case index_def [symmetric] signature_def [symmetric]
  by (auto split: option.splits if_splits simp del: not_None_eq)

lemma entry_data_length:
  assumes "crc_law (zd_crc d)" "entry_data d e n = Some data"
  shows "int (length data) = zi_uncompressed (ze_info e)"
proof -
  obtain out where "wpm_zip_read_current_entry (zd_crc d) (zd_inflate d) (ze_reader e) (ze_info e)
      (zip_output_for n (\<lambda>_. False)) = (out, True)" "data = zo_data out"
    using assms(2) by (auto simp: entry_data_def wpm_zip_read_current_memory_def split: prod.splits if_splits)
  then show ?thesis using zip_entry_outcome [OF assms(1)] by blast
qed

lemma validated_entries:
  assumes "archive_validate_handle cr env st d (Some za) allow = Some key"
  shows "\<forall>e \<in> set (za_entries za). is_safe_archive_path (ze_name e)
      \<and> (\<not> ze_dir e \<longrightarrow> entry_data d e (nat (zi_uncompressed (ze_info e))) \<noteq> None)"
    and "length (za_entries za) \<le> MAX_ENTRIES" "distinct (map entry_key (za_entries za))"
proof -
  obtain complete paths files where f: "validate_entries d complete paths [] (za_entries za) = Some files"
    "\<not> adjacent_equal (qsort compare_index_paths files)"
    using validate_handle_Some [OF assms] by blast
  from validate_entries_ok [OF f(1)]
  have e: "files = map (\<lambda>e. normalize_archive_separators (ze_name e)) (za_entries za)" "length files \<le> MAX_ENTRIES"
    "\<forall>e \<in> set (za_entries za). is_safe_archive_path (ze_name e)
      \<and> (\<not> ze_dir e \<longrightarrow> entry_data d e (nat (zi_uncompressed (ze_info e))) \<noteq> None)" by auto
  show "\<forall>e \<in> set (za_entries za). is_safe_archive_path (ze_name e)
      \<and> (\<not> ze_dir e \<longrightarrow> entry_data d e (nat (zi_uncompressed (ze_info e))) \<noteq> None)" by (rule e(3))
  show "length (za_entries za) \<le> MAX_ENTRIES" using e(1,2) by simp
  have "map lower files = map entry_key (za_entries za)" by (simp add: e(1) entry_key_def)
  then show "distinct (map entry_key (za_entries za))" using distinct_qsort_paths [OF f(2)] by simp
qed

text \<open>C20: an archive that passes the validation has at most 8192 entries, all of them with safe names and no
  two with the same name up to case and the direction of slashes, and every file in it can be read to exactly
  its declared size.\<close>

theorem validated_archive_well_formed:
  assumes "archive_validate_handle cr env st d (Some za) allow = Some key" "crc_law (zd_crc d)"
  shows "length (za_entries za) \<le> MAX_ENTRIES \<and> distinct (map entry_key (za_entries za))
    \<and> (\<forall>e \<in> set (za_entries za). is_safe_archive_path (ze_name e)
        \<and> (\<not> ze_dir e \<longrightarrow> (\<exists>data. entry_data d e (nat (zi_uncompressed (ze_info e))) = Some data
              \<and> int (length data) = zi_uncompressed (ze_info e))))"
  using validated_entries [OF assms(1)] entry_data_length [OF assms(2)] by fastforce

text \<open>A line of the index records the name, the size and the digest of some data.\<close>

definition index_records :: "'s decoders \<Rightarrow> string \<Rightarrow> string \<Rightarrow> string \<Rightarrow> bool" where
  "index_records d index name data \<longleftrightarrow> (\<exists>raw \<in> set (archive_lines index). \<exists>path size_text expected algorithm.
     csv_fields (trim_line raw) = Some (path, size_text, expected, algorithm) \<and> strieq name path
     \<and> strtoull size_text = length data \<and> strieq (zd_hash d data) expected)"

lemma signed_entry_recorded:
  assumes v: "validated_paths d za (Some index) = Some paths" "index_contains_path paths (ze_name e)"
    and za: "zip_locates za" "crc_law (zd_crc d)" "distinct (map entry_key (za_entries za))" "e \<in> set (za_entries za)"
  shows "\<exists>data. entry_data d e (nat (zi_uncompressed (ze_info e))) = Some data \<and> index_records d index (ze_name e) data"
proof -
  obtain raw path where r: "raw \<in> set (archive_lines index)" "strieq (ze_name e) path" "line_checked d za raw path"
    using validated_paths_checked [OF v] by blast
  obtain size_text expected algorithm e' data where c: "csv_fields (trim_line raw) = Some (path, size_text, expected, algorithm)"
    "za_locate za path = Located e'" "nat (zi_uncompressed (ze_info e')) = strtoull size_text"
    "entry_data d e' (strtoull size_text) = Some data" "strieq (zd_hash d data) expected"
    using r(3) unfolding line_checked_def by blast
  have "e' \<in> set (za_entries za)" "normalize_archive_separators (ze_name e') = normalize_archive_separators path"
    using za(1) c(2) unfolding zip_locates_def by blast+
  moreover from this(2) have "entry_key e' = entry_key e"
    using r(2) by (simp add: entry_key_def strieq_def lower_normalize)
  ultimately have "e' = e" using za(3,4) by (auto simp: distinct_map inj_on_def)
  moreover have "strtoull size_text = length data"
    using entry_data_length [OF za(2) c(4)] c(3) by (metis nat_int)
  then have "index_records d index (ze_name e) data"
    using c(1,5) r(1,2) unfolding index_records_def by blast
  ultimately show ?thesis using c(3,4) by auto
qed

text \<open>C21: in a signed archive that passes the validation the signature over the index verifies with a trusted
  key that is not revoked, and every file except the index and the signature is recorded in that index with
  the size and the digest of exactly the bytes the archive holds for it: nothing can be added, removed from the
  index or changed without breaking the signature.\<close>

theorem signed_archive_authentic:
  assumes v: "archive_validate_handle cr env st d (Some za) allow = Some key" "key \<noteq> ''unsigned''"
    and za: "zip_locates za" "crc_law (zd_crc d)"
  shows "\<exists>index public_file public detached.
      read_zip_text d za ''.wpm/index.csv'' (4 * 1024 * 1024) = File_text index
    \<and> \<not> is_revoked st key \<and> has_public st key = Some public_file \<and> load_public cr public_file = Some public
    \<and> cr_key_id cr public = Some key \<and> cr_verify cr detached index public
    \<and> (\<forall>e \<in> set (za_entries za). \<not> ze_dir e \<and> \<not> support_entry (ze_name e) \<longrightarrow>
         (\<exists>data. entry_data d e (nat (zi_uncompressed (ze_info e))) = Some data \<and> index_records d index (ze_name e) data))"
proof -
  define index where "index = file_text (read_zip_text d za ''.wpm/index.csv'' (4 * 1024 * 1024))"
  define signature where "signature = file_text (read_zip_text d za ''.wpm/signature.json'' 16384)"
  obtain paths files where h: "wpm_validate_signature_bytes cr env st signature index allow = Some key"
    "validated_paths d za index = Some paths"
    "validate_entries d (signature \<noteq> None \<and> index \<noteq> None) paths [] (za_entries za) = Some files"
    using validate_handle_Some [OF v(1)] unfolding index_def [symmetric] signature_def [symmetric] by blast
  obtain t message public detached public_file where s: "signature = Some t" "index = Some message" "\<not> is_revoked st key"
    "has_public st key = Some public_file" "load_public cr public_file = Some public" "cr_key_id cr public = Some key"
    "cr_verify cr detached message public"
    using readonly_outcome [OF h(1)] v(2) by blast
  have "read_zip_text d za ''.wpm/index.csv'' (4 * 1024 * 1024) = File_text message"
    using s(2) by (auto simp: index_def file_text_def split: file_read.splits)
  moreover have "\<exists>data. entry_data d e (nat (zi_uncompressed (ze_info e))) = Some data \<and> index_records d message (ze_name e) data"
    if "e \<in> set (za_entries za)" "\<not> ze_dir e" "\<not> support_entry (ze_name e)" for e
  proof -
    have "index_contains_path paths (ze_name e)" using validate_entries_ok [OF h(3)] that s by simp
    then show ?thesis
      using signed_entry_recorded [OF _ _ za validated_entries(3) [OF v(1)] that(1)] h(2) s(2) by simp
  qed
  ultimately show ?thesis using s by blast
qed

end
