(* ===== verification/Package_Build.thy ===== *)
theory Package_Build
  imports Archive_Validation Signature_Document
begin

text \<open>
  Building a package, \<open>wpm_archive_build\<close> of \<open>wpm/archive.c\<close>: the index of the source tree, its signature and
  the entries of the archive, and what the validation makes of the result. The source tree is a list of named
  nodes as \<open>FindFirstFile\<close> enumerates it; \<open>GetFullPathNameA\<close>, the digest and the packing of a file are
  parameters. \<open>be_eol\<close> is the line end that a file opened as text receives on the disk.
\<close>

datatype fs_node = FS_file string | FS_dir "(string \<times> fs_node) list"

record build_env =
  be_full :: "string \<Rightarrow> string option"
  be_hash :: "string \<Rightarrow> string"
  be_eol :: string

definition index_line :: "build_env \<Rightarrow> string \<Rightarrow> string \<Rightarrow> string" where
  "index_line env path data = path @ '','' @ decimal (length data) @ '','' @ be_hash env data @ '',blake2b'' @ be_eol env"

definition dots :: "string \<Rightarrow> bool" where
  "dots name \<longleftrightarrow> name = ''.'' \<or> name = ''..''"

text \<open>The path of an entry in the archive.\<close>

definition archive_entry_path :: "string \<Rightarrow> string \<Rightarrow> string option" where
  "archive_entry_path dir name = (if dir \<noteq> [] then fits WPM_PATH_SIZE (dir @ SLASH # name) else Some name)"

definition not_indexed :: "string list \<Rightarrow> string \<Rightarrow> bool" where
  "not_indexed ignore path \<longleftrightarrow> strieq path ''.wpm/index.csv'' \<or> strieq path ''.wpm/signature.json''
     \<or> \<not> is_tracked_package_support_file path \<and> is_ignored_by_list ignore path"

text \<open>The lines of the index for a directory that has been opened.\<close>

fun write_index_entries ::
  "build_env \<Rightarrow> string list \<Rightarrow> string \<Rightarrow> string \<Rightarrow> string \<Rightarrow> (string \<times> fs_node) list \<Rightarrow> string list option" where
  "write_index_entries env ignore out src dir [] = Some []"
| "write_index_entries env ignore out src dir ((name, node) # rest) =
     (if dots name then write_index_entries env ignore out src dir rest
      else
      (case (archive_join_path WPM_PATH_SIZE src name, archive_entry_path dir name) of
         (Some source_path, Some raw) \<Rightarrow>
           let path = normalize_archive_separators raw in
           if not_indexed ignore path then write_index_entries env ignore out src dir rest
           else
           (case node of
              FS_dir es \<Rightarrow>
                if archive_join_path WPM_PATH_SIZE source_path ''*'' = None then None
                else
                (case write_index_entries env ignore out source_path path es of
                   None \<Rightarrow> None
                 | Some ls \<Rightarrow> map_option ((@) ls) (write_index_entries env ignore out src dir rest))
            | FS_file data \<Rightarrow>
                (case be_full env source_path of
                   None \<Rightarrow> None
                 | Some full \<Rightarrow>
                     if strieq full out then write_index_entries env ignore out src dir rest
                     else map_option ((#) (index_line env path data)) (write_index_entries env ignore out src dir rest)))
       | _ \<Rightarrow> None))"

definition update_package_index ::
  "build_env \<Rightarrow> string list \<Rightarrow> string \<Rightarrow> string \<Rightarrow> (string \<times> fs_node) list \<Rightarrow> string option" where
  "update_package_index env ignore out src tree =
     (if archive_join_path WPM_PATH_SIZE src (''.wpm'' @ BSLASH # ''index.csv'') = None
         \<or> archive_join_path WPM_PATH_SIZE src ''*'' = None then None
      else map_option (\<lambda>ls. index_header @ be_eol env @ concat ls) (write_index_entries env ignore out src [] tree))"

text \<open>The entries of the archive, \<open>None\<close> as the content of a directory.\<close>

fun add_directory_to_zip ::
  "build_env \<Rightarrow> string \<Rightarrow> string \<Rightarrow> string \<Rightarrow> (string \<times> fs_node) list \<Rightarrow> (string \<times> string option) list option" where
  "add_directory_to_zip env out src dir [] = Some []"
| "add_directory_to_zip env out src dir ((name, node) # rest) =
     (if dots name then add_directory_to_zip env out src dir rest
      else
      (case (archive_join_path WPM_PATH_SIZE src name, archive_entry_path dir name) of
         (Some source_path, Some path) \<Rightarrow>
           (case node of
              FS_dir es \<Rightarrow>
                if fits WPM_PATH_SIZE (path @ [SLASH]) = None \<or> archive_join_path WPM_PATH_SIZE source_path ''*'' = None
                then None
                else
                (case add_directory_to_zip env out source_path path es of
                   None \<Rightarrow> None
                 | Some zs \<Rightarrow> map_option (\<lambda>r. (path @ [SLASH], None) # zs @ r) (add_directory_to_zip env out src dir rest))
            | FS_file data \<Rightarrow>
                (case be_full env source_path of
                   None \<Rightarrow> None
                 | Some full \<Rightarrow>
                     if strieq full out then add_directory_to_zip env out src dir rest
                     else map_option ((#) (path, Some data)) (add_directory_to_zip env out src dir rest)))
       | _ \<Rightarrow> None))"

text \<open>The directory \<open>.wpm\<close> of the tree: its files and the replacement of one of them.\<close>

definition put_file :: "string \<Rightarrow> string \<Rightarrow> (string \<times> fs_node) list \<Rightarrow> (string \<times> fs_node) list" where
  "put_file name t es = filter (\<lambda>(n, _). \<not> strieq n name) es @ [(name, FS_file t)]"

fun put_wpm :: "string \<Rightarrow> string \<Rightarrow> (string \<times> fs_node) list \<Rightarrow> (string \<times> fs_node) list" where
  "put_wpm name t [] = []"
| "put_wpm name t ((n, FS_dir es) # rest) =
     (if strieq n ''.wpm'' then (n, FS_dir (put_file name t es)) # rest else (n, FS_dir es) # put_wpm name t rest)"
| "put_wpm name t ((n, FS_file data) # rest) = (n, FS_file data) # put_wpm name t rest"

fun wpm_file :: "string \<Rightarrow> (string \<times> fs_node) list \<Rightarrow> string option" where
  "wpm_file name [] = None"
| "wpm_file name ((n, FS_dir es) # rest) =
     (if strieq n ''.wpm''
      then (case find (\<lambda>(m, _). strieq m name) es of Some (_, FS_file t) \<Rightarrow> Some t | _ \<Rightarrow> None)
      else wpm_file name rest)"
| "wpm_file name ((n, FS_file data) # rest) = wpm_file name rest"

text \<open>The name of the archive and its entries. The key is the path and the text of the private key.\<close>

definition wpm_archive_build ::
  "crypto \<Rightarrow> signing_env \<Rightarrow> build_env \<Rightarrow> string \<Rightarrow> string \<Rightarrow> bool \<Rightarrow> (string \<times> string option) option
     \<Rightarrow> (string \<times> fs_node) list \<Rightarrow> (string \<times> (string \<times> string option) list) option" where
  "wpm_archive_build cr senv env source_dir output_dir update_index key tree =
     (if \<not> wpm_require_capability WPM_CAP_WRITE (se_capabilities senv) then None
      else
      (case (be_full env source_dir, be_full env output_dir, read_package_metadata (wpm_file ''package.txt'' tree)) of
         (Some source_full, Some output_full, Some m) \<Rightarrow>
           let src = trim_trailing_separators source_full in
           (case archive_join_path WPM_PATH_SIZE (trim_trailing_separators output_full) (built_archive_name m) of
              None \<Rightarrow> None
            | Some out \<Rightarrow>
                (case (if update_index
                       then map_option (\<lambda>t. put_wpm ''index.csv'' t tree)
                              (update_package_index env (load_ignore_list (wpm_file ''wpmignore.txt'' tree)) out src tree)
                       else Some tree) of
                   None \<Rightarrow> None
                 | Some indexed \<Rightarrow>
                     (case (case key of
                              Some (c # path, private_file) \<Rightarrow>
                                if \<not> update_index then None
                                else
                                (case wpm_sign_package_index cr senv (Some (c # path)) private_file (wpm_file ''index.csv'' indexed) of
                                   (Some doc, True) \<Rightarrow> Some (put_wpm ''signature.json'' doc indexed)
                                 | _ \<Rightarrow> None)
                            | _ \<Rightarrow> Some indexed) of
                        None \<Rightarrow> None
                      | Some final \<Rightarrow>
                          if archive_join_path WPM_PATH_SIZE src ''*'' = None then None
                          else map_option (Pair (built_archive_name m)) (add_directory_to_zip env out src [] final))))
       | _ \<Rightarrow> None))"

subsection \<open>The index and the archive hold the same files\<close>

text \<open>The files of an archive that the index has to list.\<close>

definition indexed_files :: "(string \<times> string option) list \<Rightarrow> (string \<times> string) list" where
  "indexed_files zs = [(n, the c). (n, c) \<leftarrow> zs, c \<noteq> None \<and> \<not> support_entry n]"

lemma indexed_files_simps [simp]:
  "indexed_files [] = []" "indexed_files ((n, None) # zs) = indexed_files zs"
  "indexed_files ((n, Some data) # zs) = (if support_entry n then indexed_files zs else (n, data) # indexed_files zs)"
  "indexed_files (a @ b) = indexed_files a @ indexed_files b"
  by (simp_all add: indexed_files_def)

text \<open>A tree of which nothing is ignored and no name holds a backslash.\<close>

fun all_indexed :: "string list \<Rightarrow> string \<Rightarrow> (string \<times> fs_node) list \<Rightarrow> bool" where
  "all_indexed ignore dir [] = True"
| "all_indexed ignore dir ((name, node) # rest) =
     (all_indexed ignore dir rest \<and>
      (dots name \<or>
       (BSLASH \<notin> set name \<and>
        (let path = (if dir \<noteq> [] then dir @ SLASH # name else name) in
         (case node of
            FS_file data \<Rightarrow> support_entry path \<or> \<not> not_indexed ignore path
          | FS_dir es \<Rightarrow> path \<noteq> [] \<and> \<not> not_indexed ignore path \<and> all_indexed ignore path es)))))"

lemma normalize_plain: "BSLASH \<notin> set p \<Longrightarrow> normalize_archive_separators p = p"
  by (induction p) (auto simp: normalize_archive_separators_def)

lemma support_not_indexed: "support_entry path \<Longrightarrow> not_indexed ignore path"
  by (auto simp: support_entry_def not_indexed_def)

lemma tree_induct [case_names Nil File Dir]:
  assumes "P []" "\<And>name data rest. P rest \<Longrightarrow> P ((name, FS_file data) # rest)"
    and "\<And>name es rest. P es \<Longrightarrow> P rest \<Longrightarrow> P ((name, FS_dir es) # rest)"
  shows "P tree"
proof -
  have "P tree" for ignore :: "string list" and dir :: string
  proof (induction ignore dir tree rule: all_indexed.induct)
    case (2 ignore dir name node rest)
    then show ?case using assms(2,3) by (cases node) (auto simp: Let_def)
  qed (rule assms(1))
  then show ?thesis .
qed

lemma entry_paths:
  assumes "archive_entry_path dir name = Some path"
  shows "path = (if dir \<noteq> [] then dir @ SLASH # name else name)"
  using assms by (auto simp: archive_entry_path_def split: if_splits)

text \<open>One step of either loop.\<close>

lemma write_index_skip: "dots name \<Longrightarrow> write_index_entries env ignore out src dir ((name, node) # rest)
    = write_index_entries env ignore out src dir rest"
  "dots name \<Longrightarrow> add_directory_to_zip env out src dir ((name, node) # rest) = add_directory_to_zip env out src dir rest"
  by simp_all

lemma write_index_file:
  assumes "write_index_entries env ignore out src dir ((name, FS_file data) # rest) = Some ls" "\<not> dots name"
  obtains source_path raw where "archive_join_path WPM_PATH_SIZE src name = Some source_path"
    "archive_entry_path dir name = Some raw"
    "\<exists>rs. write_index_entries env ignore out src dir rest = Some rs \<and>
       ls = (if not_indexed ignore (normalize_archive_separators raw) \<or> strieq (the (be_full env source_path)) out then rs
             else index_line env (normalize_archive_separators raw) data # rs)"
  using assms by (auto simp: Let_def split: option.splits if_splits)

lemma write_index_dir:
  assumes "write_index_entries env ignore out src dir ((name, FS_dir es) # rest) = Some ls" "\<not> dots name"
  obtains source_path raw where "archive_join_path WPM_PATH_SIZE src name = Some source_path"
    "archive_entry_path dir name = Some raw"
    "\<exists>rs. write_index_entries env ignore out src dir rest = Some rs \<and>
       (if not_indexed ignore (normalize_archive_separators raw) then ls = rs
        else \<exists>sub. write_index_entries env ignore out source_path (normalize_archive_separators raw) es = Some sub \<and> ls = sub @ rs)"
  using assms by (auto simp: Let_def split: option.splits if_splits)

lemma add_directory_file:
  assumes "add_directory_to_zip env out src dir ((name, FS_file data) # rest) = Some zs" "\<not> dots name"
  obtains source_path path full rs where "archive_join_path WPM_PATH_SIZE src name = Some source_path"
    "archive_entry_path dir name = Some path" "be_full env source_path = Some full"
    "add_directory_to_zip env out src dir rest = Some rs"
    "zs = (if strieq full out then rs else (path, Some data) # rs)"
  using assms by (auto split: option.splits if_splits)

lemma add_directory_dir:
  assumes "add_directory_to_zip env out src dir ((name, FS_dir es) # rest) = Some zs" "\<not> dots name"
  obtains source_path path sub rs where "archive_join_path WPM_PATH_SIZE src name = Some source_path"
    "archive_entry_path dir name = Some path" "add_directory_to_zip env out source_path path es = Some sub"
    "add_directory_to_zip env out src dir rest = Some rs" "zs = (path @ [SLASH], None) # sub @ rs"
  using assms by (auto split: option.splits if_splits)

lemma index_matches_archive:
  "write_index_entries env ignore out src dir tree = Some ls \<Longrightarrow> add_directory_to_zip env out src dir tree = Some zs
    \<Longrightarrow> all_indexed ignore dir tree \<Longrightarrow> BSLASH \<notin> set dir
    \<Longrightarrow> ls = map (\<lambda>(n, data). index_line env n data) (indexed_files zs)"
proof (induction tree arbitrary: src dir ls zs rule: tree_induct)
  case (File name data rest)
  show ?case
  proof (cases "dots name")
    case True
    show ?thesis by (rule File.IH [of src dir]) (use File.prems True in \<open>simp_all add: write_index_skip\<close>)
  next
    case False
    obtain source_path raw rs where w: "archive_join_path WPM_PATH_SIZE src name = Some source_path"
      "archive_entry_path dir name = Some raw" "write_index_entries env ignore out src dir rest = Some rs"
      "ls = (if not_indexed ignore (normalize_archive_separators raw) \<or> strieq (the (be_full env source_path)) out then rs
             else index_line env (normalize_archive_separators raw) data # rs)"
      using write_index_file [OF File.prems(1) False] by blast
    obtain full rz where a: "be_full env source_path = Some full" "add_directory_to_zip env out src dir rest = Some rz"
      "zs = (if strieq full out then rz else (raw, Some data) # rz)"
      using add_directory_file [OF File.prems(2) False] w(1,2) by (metis option.inject)
    have raw: "raw = (if dir \<noteq> [] then dir @ SLASH # name else name)" by (rule entry_paths [OF w(2)])
    have n: "BSLASH \<notin> set name" "support_entry raw \<or> \<not> not_indexed ignore raw" "all_indexed ignore dir rest"
      using File.prems(3) False raw by (simp_all add: Let_def)
    have "BSLASH \<notin> set raw" using n(1) File.prems(4) raw by simp
    then have norm: "normalize_archive_separators raw = raw" by (rule normalize_plain)
    have "rs = map (\<lambda>(n, data). index_line env n data) (indexed_files rz)"
      by (rule File.IH [OF w(3) a(2) n(3) File.prems(4)])
    then show ?thesis using w(4) a(1,3) n(2) norm support_not_indexed [of raw ignore] by auto
  qed
next
  case (Dir name es rest)
  show ?case
  proof (cases "dots name")
    case True
    show ?thesis by (rule Dir.IH(2) [of src dir]) (use Dir.prems True in \<open>simp_all add: write_index_skip\<close>)
  next
    case False
    obtain source_path raw rs where w: "archive_join_path WPM_PATH_SIZE src name = Some source_path"
      "archive_entry_path dir name = Some raw" "write_index_entries env ignore out src dir rest = Some rs"
      "if not_indexed ignore (normalize_archive_separators raw) then ls = rs
        else \<exists>sub. write_index_entries env ignore out source_path (normalize_archive_separators raw) es = Some sub \<and> ls = sub @ rs"
      using write_index_dir [OF Dir.prems(1) False] by blast
    obtain sz rz where a: "add_directory_to_zip env out source_path raw es = Some sz"
      "add_directory_to_zip env out src dir rest = Some rz" "zs = (raw @ [SLASH], None) # sz @ rz"
      using add_directory_dir [OF Dir.prems(2) False] w(1,2) by (metis option.inject)
    have raw: "raw = (if dir \<noteq> [] then dir @ SLASH # name else name)" by (rule entry_paths [OF w(2)])
    have n: "BSLASH \<notin> set name" "\<not> not_indexed ignore raw" "all_indexed ignore raw es" "all_indexed ignore dir rest"
      using Dir.prems(3) False raw by (simp_all add: Let_def)
    have plain: "BSLASH \<notin> set raw" using n(1) Dir.prems(4) raw by simp
    have norm: "normalize_archive_separators raw = raw" by (rule normalize_plain [OF plain])
    obtain sub where sub: "write_index_entries env ignore out source_path raw es = Some sub" "ls = sub @ rs"
      using w(4) n(2) norm by auto
    have "rs = map (\<lambda>(n, data). index_line env n data) (indexed_files rz)"
      by (rule Dir.IH(2) [OF w(3) a(2) n(4) Dir.prems(4)])
    moreover have "sub = map (\<lambda>(n, data). index_line env n data) (indexed_files sz)"
      by (rule Dir.IH(1) [OF sub(1) a(1) n(3) plain])
    ultimately show ?thesis using a(3) sub(2) by simp
  qed
qed simp

text \<open>Replacing a file that the index leaves out does not change the index.\<close>

lemma write_index_put_file:
  assumes "write_index_entries env ignore out src dir es = Some ls" "support_entry (normalize_archive_separators (dir @ SLASH # name))"
    and "dir \<noteq> []" "archive_join_path WPM_PATH_SIZE src name \<noteq> None" "length dir + 1 + length name < WPM_PATH_SIZE"
  shows "write_index_entries env ignore out src dir (put_file name t es) = Some ls"
proof -
  have new: "write_index_entries env ignore out src dir ((name, FS_file t) # []) = Some []"
    using assms(2-5) support_not_indexed by (auto simp: archive_entry_path_def dots_def fits_def)
  have skip: "not_indexed ignore (normalize_archive_separators (dir @ SLASH # n))" if "strieq n name" for n
  proof -
    have "strieq (normalize_archive_separators (dir @ SLASH # n)) (normalize_archive_separators (dir @ SLASH # name))"
      using that lower_normalize by (simp add: strieq_def lower_def)
    then have "support_entry (normalize_archive_separators (dir @ SLASH # n))"
      using assms(2) strieq_trans unfolding support_entry_def by blast
    then show ?thesis by (rule support_not_indexed)
  qed
  show ?thesis
    using assms(1) unfolding put_file_def
  proof (induction es arbitrary: ls)
    case Nil
    then show ?case using new by simp
  next
    case (Cons e es)
    obtain n node where e: "e = (n, node)" by force
    show ?case
    proof (cases "strieq n name")
      case True
      have "write_index_entries env ignore out src dir es = Some ls"
        using Cons.prems skip [OF True] assms(3) unfolding e
        by (auto simp: archive_entry_path_def Let_def split: if_splits option.splits)
      then show ?thesis using Cons.IH True by (simp add: e)
    next
      case False
      then show ?thesis
        using Cons.prems Cons.IH unfolding e
        by (cases node) (auto simp: Let_def split: if_splits option.splits)
    qed
  qed
qed

text \<open>A tree with one directory \<open>.wpm\<close>, and what replacing one of its files does to it.\<close>

definition has_wpm :: "(string \<times> fs_node) list \<Rightarrow> (string \<times> fs_node) list \<Rightarrow> (string \<times> fs_node) list
    \<Rightarrow> (string \<times> fs_node) list \<Rightarrow> bool" where
  "has_wpm tree a es b \<longleftrightarrow> tree = a @ (''.wpm'', FS_dir es) # b \<and> list_all (\<lambda>e. \<not> strieq (fst e) ''.wpm'') a"

lemma put_wpm_split: "has_wpm tree a es b \<Longrightarrow> has_wpm (put_wpm name t tree) a (put_file name t es) b"
proof -
  have "put_wpm name t (a @ (''.wpm'', FS_dir es) # b) = a @ (''.wpm'', FS_dir (put_file name t es)) # b"
    if "list_all (\<lambda>e. \<not> strieq (fst e) ''.wpm'') a"
    using that
  proof (induction a)
    case (Cons x a)
    obtain n node where "x = (n, node)" by force
    with Cons show ?case by (cases node) simp_all
  qed simp
  then show "has_wpm tree a es b \<Longrightarrow> has_wpm (put_wpm name t tree) a (put_file name t es) b"
    by (simp add: has_wpm_def)
qed

lemma wpm_file_put: "has_wpm tree a es b \<Longrightarrow> wpm_file name (put_wpm name t tree) = Some t"
proof -
  assume "has_wpm tree a es b"
  then have p: "put_wpm name t tree = a @ (''.wpm'', FS_dir (put_file name t es)) # b"
    "list_all (\<lambda>e. \<not> strieq (fst e) ''.wpm'') a"
    using put_wpm_split by (auto simp: has_wpm_def)
  have f: "find (\<lambda>(m, _). strieq m name) (put_file name t es) = Some (name, FS_file t)"
    unfolding put_file_def by (induction es) (auto split: prod.splits)
  have "wpm_file name (a @ (''.wpm'', FS_dir (put_file name t es)) # b) = Some t"
    using p(2)
  proof (induction a)
    case (Cons x a)
    obtain n node where "x = (n, node)" by force
    with Cons show ?case by (cases node) simp_all
  qed (simp add: f)
  then show "wpm_file name (put_wpm name t tree) = Some t" by (simp add: p(1))
qed

lemma all_indexed_append: "all_indexed ignore dir (a @ b) \<longleftrightarrow> all_indexed ignore dir a \<and> all_indexed ignore dir b"
  by (induction ignore dir a rule: all_indexed.induct) auto

lemma all_indexed_filter: "all_indexed ignore dir es \<Longrightarrow> all_indexed ignore dir (filter Q es)"
  by (induction es rule: tree_induct) auto

lemma all_indexed_put:
  assumes "has_wpm tree a es b" "all_indexed ignore [] tree" "name = ''index.csv'' \<or> name = ''signature.json''"
  shows "all_indexed ignore [] (put_wpm name t tree)"
proof -
  have "all_indexed ignore ''.wpm'' es" and n: "\<not> not_indexed ignore ''.wpm''" "all_indexed ignore [] a" "all_indexed ignore [] b"
    using assms(1,2) by (auto simp: has_wpm_def all_indexed_append dots_def Let_def)
  then have "all_indexed ignore ''.wpm'' (put_file name t es)"
    using all_indexed_filter assms(3) by (auto simp: put_file_def all_indexed_append support_entry_def)
  then show ?thesis
    using put_wpm_split [OF assms(1), of name t] n by (simp add: has_wpm_def all_indexed_append)
qed

lemma write_index_cons:
  "write_index_entries env ignore out src dir ((n, node) # rest) =
     (case write_index_entries env ignore out src dir [(n, node)] of
        None \<Rightarrow> None
      | Some x \<Rightarrow> map_option ((@) x) (write_index_entries env ignore out src dir rest))"
proof (cases "dots n \<or> archive_join_path WPM_PATH_SIZE src n = None \<or> archive_entry_path dir n = None")
  case True
  then show ?thesis by (cases "write_index_entries env ignore out src dir rest") (auto split: option.splits)
next
  case False
  then obtain p raw where p: "archive_join_path WPM_PATH_SIZE src n = Some p" "archive_entry_path dir n = Some raw" by auto
  define path where "path = normalize_archive_separators raw"
  show ?thesis
  proof (cases node)
    case (FS_file data)
    then show ?thesis using False p
      by (cases "not_indexed ignore path"; cases "be_full env p"; cases "write_index_entries env ignore out src dir rest")
        (simp_all add: path_def)
  next
    case (FS_dir es)
    then show ?thesis using False p
      by (cases "not_indexed ignore path"; cases "archive_join_path WPM_PATH_SIZE p ''*''";
          cases "write_index_entries env ignore out p path es"; cases "write_index_entries env ignore out src dir rest")
        (simp_all add: path_def)
  qed
qed

lemma write_index_append:
  "write_index_entries env ignore out src dir (a @ b) =
     (case write_index_entries env ignore out src dir a of
        None \<Rightarrow> None
      | Some x \<Rightarrow> map_option ((@) x) (write_index_entries env ignore out src dir b))"
proof (induction a)
  case Nil
  then show ?case by (cases "write_index_entries env ignore out src dir b") simp_all
next
  case (Cons e a)
  obtain n node where e: "e = (n, node)" by force
  show ?case
    unfolding e append_Cons write_index_cons [of _ _ _ _ _ _ _ "a @ b"] write_index_cons [of _ _ _ _ _ _ _ a] Cons
    by (cases "write_index_entries env ignore out src dir [(n, node)]"; cases "write_index_entries env ignore out src dir a";
        cases "write_index_entries env ignore out src dir b") simp_all
qed

lemma join_path_short:
  "length left + 1 + length right < cap \<Longrightarrow>
     \<exists>p. archive_join_path cap left right = Some p \<and> length p \<le> length left + 1 + length right"
  by (cases "left \<noteq> [] \<and> (last left = BSLASH \<or> last left = SLASH)") (auto simp: archive_join_path_def)

lemma write_index_put_wpm:
  assumes w: "write_index_entries env ignore out src [] tree = Some ls" and h: "has_wpm tree a es b"
    and name: "name = ''index.csv'' \<or> name = ''signature.json''" and src: "length src + 32 < WPM_PATH_SIZE"
  shows "write_index_entries env ignore out src [] (put_wpm name t tree) = Some ls"
proof -
  have tree: "tree = a @ [(''.wpm'', FS_dir es)] @ b" "put_wpm name t tree = a @ [(''.wpm'', FS_dir (put_file name t es))] @ b"
    using h put_wpm_split [OF h, of name t] by (simp_all add: has_wpm_def)
  have "write_index_entries env ignore out src [] [(''.wpm'', FS_dir (put_file name t es))] = Some x"
    if x: "write_index_entries env ignore out src [] [(''.wpm'', FS_dir es)] = Some x" for x
  proof -
    obtain src' where src': "archive_join_path WPM_PATH_SIZE src ''.wpm'' = Some src'" "length src' \<le> length src + 5"
      using src join_path_short [of src "''.wpm''" WPM_PATH_SIZE] by auto
    then have join: "archive_join_path WPM_PATH_SIZE src' name \<noteq> None"
      using src name join_path_short [of src' name WPM_PATH_SIZE] by auto
    have norm: "normalize_archive_separators ''.wpm'' = ''.wpm''" by (rule normalize_plain) simp
    have supp: "support_entry (normalize_archive_separators (''.wpm'' @ SLASH # name))"
      using name by (auto simp: support_entry_def normalize_archive_separators_def)
    have len: "length ''.wpm'' + 1 + length name < WPM_PATH_SIZE" using name by (auto simp: WPM_PATH_SIZE_def)
    show ?thesis
    proof (cases "not_indexed ignore ''.wpm''")
      case True
      then show ?thesis using x src'(1) norm by (simp add: archive_entry_path_def dots_def)
    next
      case False
      then obtain y where "write_index_entries env ignore out src' ''.wpm'' es = Some y" "x = y"
        "archive_join_path WPM_PATH_SIZE src' ''*'' \<noteq> None"
        using x src'(1) norm by (auto simp: archive_entry_path_def dots_def split: option.splits if_splits)
      then show ?thesis
        using write_index_put_file [OF _ supp _ join len] False src'(1) norm
        by (simp add: archive_entry_path_def dots_def)
    qed
  qed
  then show ?thesis
    using w [unfolded tree(1)] unfolding tree(2) write_index_append by (auto split: option.splits simp del: write_index_entries.simps put_wpm.simps)
qed

subsection \<open>The files of the archive\<close>

lemma archive_has_file:
  assumes "add_directory_to_zip env out src dir tree = Some zs" "(name, FS_file t) \<in> set tree" "\<not> dots name"
    and "\<And>p f. be_full env p = Some f \<Longrightarrow> \<not> strieq f out"
  shows "(if dir \<noteq> [] then dir @ SLASH # name else name, Some t) \<in> set zs"
  using assms(1,2)
proof (induction tree arbitrary: zs rule: tree_induct)
  case (File n data rest)
  show ?case
  proof (cases "dots n")
    case True
    then show ?thesis using File assms(3) by (auto simp: write_index_skip)
  next
    case False
    obtain sp path full rs where a: "archive_entry_path dir n = Some path" "be_full env sp = Some full"
      "add_directory_to_zip env out src dir rest = Some rs" "zs = (if strieq full out then rs else (path, Some data) # rs)"
      using add_directory_file [OF File.prems(1) False] by metis
    have "zs = (path, Some data) # rs" using a(2,4) assms(4) by auto
    then show ?thesis using File.IH [OF a(3)] File.prems(2) entry_paths [OF a(1)] by auto
  qed
next
  case (Dir n es rest)
  show ?case
  proof (cases "dots n")
    case True
    then show ?thesis using Dir by (auto simp: write_index_skip)
  next
    case False
    obtain rs where "add_directory_to_zip env out src dir rest = Some rs" "set rs \<subseteq> set zs"
      using add_directory_dir [OF Dir.prems(1) False] by (metis set_append set_subset_Cons sup_ge2 subset_trans)
    then show ?thesis using Dir.IH(2) Dir.prems(2) by auto
  qed
qed simp

lemma archive_has_dir:
  assumes "add_directory_to_zip env out src dir tree = Some zs" "(name, FS_dir es) \<in> set tree" "\<not> dots name"
  shows "\<exists>src' sub. add_directory_to_zip env out src' (if dir \<noteq> [] then dir @ SLASH # name else name) es = Some sub
    \<and> set sub \<subseteq> set zs"
  using assms(1,2)
proof (induction tree arbitrary: zs rule: tree_induct)
  case (File n data rest)
  show ?case
  proof (cases "dots n")
    case True
    then show ?thesis using File by (auto simp: write_index_skip)
  next
    case False
    obtain rs where "add_directory_to_zip env out src dir rest = Some rs" "set rs \<subseteq> set zs"
      using add_directory_file [OF File.prems(1) False] by (metis set_subset_Cons order_refl)
    then show ?thesis using File.IH File.prems(2) by fastforce
  qed
next
  case (Dir n xs rest)
  show ?case
  proof (cases "dots n")
    case True
    then show ?thesis using Dir assms(3) by (auto simp: write_index_skip)
  next
    case False
    obtain sp path sub rs where a: "archive_entry_path dir n = Some path" "add_directory_to_zip env out sp path xs = Some sub"
      "add_directory_to_zip env out src dir rest = Some rs" "zs = (path @ [SLASH], None) # sub @ rs"
      using add_directory_dir [OF Dir.prems(1) False] by metis
    show ?thesis
    proof (cases "(n, FS_dir xs) = (name, FS_dir es)")
      case True
      then have "path = (if dir \<noteq> [] then dir @ SLASH # name else name)" "add_directory_to_zip env out sp path es = Some sub"
        using a(2) entry_paths [OF a(1)] by auto
      moreover have "set sub \<subseteq> set zs" using a(4) by auto
      ultimately show ?thesis by blast
    next
      case other: False
      then show ?thesis using Dir.IH(2) [OF a(3)] Dir.prems(2) a(4) by fastforce
    qed
  qed
qed simp

lemma archive_has_wpm_file:
  assumes "add_directory_to_zip env out src [] tree = Some zs" "has_wpm tree a es b" "(name, FS_file t) \<in> set es"
    and "\<not> dots name" "\<And>p f. be_full env p = Some f \<Longrightarrow> \<not> strieq f out"
  shows "(''.wpm/'' @ name, Some t) \<in> set zs"
proof -
  obtain src' sub where s: "add_directory_to_zip env out src' ''.wpm'' es = Some sub" "set sub \<subseteq> set zs"
    using archive_has_dir [OF assms(1), of "''.wpm''" es] assms(2) by (auto simp: has_wpm_def dots_def)
  then show ?thesis using archive_has_file [OF s(1) assms(3,4,5)] by auto
qed

subsection \<open>Index lines read back\<close>

lemma trim_line_id:
  assumes "s \<noteq> []" "hd s \<noteq> SPC" "hd s \<noteq> TAB" "last s \<notin> {LF, CR, SPC, TAB}"
  shows "trim_line s = s"
proof -
  obtain r x where s: "rev s = x # r" "x = last s" using assms(1) by (metis hd_rev list.collapse rev_is_Nil_conv)
  then have "dropWhile (\<lambda>c. c \<in> {LF, CR, SPC, TAB}) (rev s) = rev s"
    using assms(4) unfolding s(1) by (simp add: s(2))
  then have "trim_line s = dropWhile (\<lambda>c. c = SPC \<or> c = TAB) s" by (simp add: trim_line_def)
  then show ?thesis using assms(1-3) by (cases s) auto
qed

lemma list_all_notin: "list_all (\<lambda>c. c \<notin> S) s \<Longrightarrow> x \<in> S \<Longrightarrow> x \<notin> set s"
  by (induction s) auto

lemma list_all_avoid: "list_all (\<lambda>c. c \<notin> S) s \<Longrightarrow> T \<subseteq> S \<Longrightarrow> list_all (\<lambda>c. c \<notin> T) s"
  by (induction s) auto

lemma trim_line_plain: "list_all (\<lambda>c. c \<notin> {SPC, TAB, CR, LF}) s \<Longrightarrow> trim_line s = s"
proof (cases "s = []")
  case False
  assume "list_all (\<lambda>c. c \<notin> {SPC, TAB, CR, LF}) s"
  then have "hd s \<notin> {SPC, TAB, CR, LF}" "last s \<notin> {SPC, TAB, CR, LF}"
    using list_all_notin hd_in_set [OF False] last_in_set [OF False] by metis+
  then show ?thesis using False by (intro trim_line_id) simp_all
qed (simp add: trim_line_def)

lemma trim_line_hd: "trim_line s = s \<Longrightarrow> s \<noteq> [] \<Longrightarrow> hd s \<noteq> SPC \<and> hd s \<noteq> TAB"
  using hd_dropWhile [of "\<lambda>c. c = SPC \<or> c = TAB" "rev (dropWhile (\<lambda>c. c \<in> {LF, CR, SPC, TAB}) (rev s))"]
  unfolding trim_line_def by metis

text \<open>A name that an index line can hold, and a digest as \<open>sodium_bin2hex\<close> writes it.\<close>

definition index_name :: "string \<Rightarrow> bool" where
  "index_name n \<longleftrightarrow> is_safe_archive_path n \<and> list_all (\<lambda>c. c \<notin> {CHR '','', CR, LF, NUL}) n \<and> trim_line n = n"

definition hex_digest :: "string \<Rightarrow> bool" where
  "hex_digest h \<longleftrightarrow> length h = HASH_HEX \<and> list_all lower_hex h"

definition line_of :: "build_env \<Rightarrow> string \<Rightarrow> string \<Rightarrow> string" where
  "line_of env n data = n @ CHR '','' # decimal (length data) @ CHR '','' # be_hash env data @ CHR '','' # ''blake2b''"

lemma index_line_of: "index_line env n data = line_of env n data @ be_eol env"
  by (simp add: index_line_def line_of_def)

lemma decimal_plain: "list_all (\<lambda>c. c \<notin> {CHR '','', CR, LF, NUL, SPC, TAB}) (decimal n)"
  using decimal_digits by (rule list.pred_mono_strong) (auto simp: is_digit_def)

lemma hex_plain: "hex_digest h \<Longrightarrow> list_all (\<lambda>c. c \<notin> {CHR '','', CR, LF, NUL, SPC, TAB}) h"
  unfolding hex_digest_def by (elim conjE, erule list.pred_mono_strong) (auto simp: lower_hex_def class_defs)

lemma takeWhile_cell: "CHR '','' \<notin> set a \<Longrightarrow> takeWhile (\<lambda>c. c \<noteq> CHR '','') (a @ CHR '','' # r) = a"
  by (induction a) auto

lemma line_plain: "list_all (\<lambda>c. c \<notin> {CR, LF, NUL}) s \<Longrightarrow> list_all (\<lambda>c. \<not> line_end c \<and> c \<noteq> NUL) s"
  by (erule list.pred_mono_strong) (simp add: line_end_def)

lemma line_of_fields:
  assumes "index_name n" "hex_digest (be_hash env data)"
  shows "trim_line (line_of env n data) = line_of env n data"
    and "csv_fields (line_of env n data) = Some (n, decimal (length data), be_hash env data, ''blake2b'')"
    and "list_all (\<lambda>c. \<not> line_end c \<and> c \<noteq> NUL) (line_of env n data)" "\<not> strieq (line_of env n data) index_header"
proof -
  let ?d = "decimal (length data)" and ?h = "be_hash env data"
  have n': "n \<noteq> []" "trim_line n = n" "list_all (\<lambda>c. c \<notin> {CHR '','', CR, LF, NUL}) n"
    using assms(1) unfolding index_name_def is_safe_archive_path_def by (simp_all split: if_splits)
  have n: "n \<noteq> []" "CHR '','' \<notin> set n" "trim_line n = n" "list_all (\<lambda>c. c \<notin> {CR, LF, NUL}) n"
    using n'(1,2) list_all_notin [OF n'(3), of "CHR '',''"] list_all_avoid [OF n'(3), of "{CR, LF, NUL}"] by simp_all
  have d: "CHR '','' \<notin> set ?d" "list_all (\<lambda>c. c \<notin> {SPC, TAB, CR, LF}) ?d" "list_all (\<lambda>c. c \<notin> {CR, LF, NUL}) ?d"
    using list_all_notin [OF decimal_plain, of "CHR '',''" "length data"]
      list_all_avoid [OF decimal_plain, of "{SPC, TAB, CR, LF}" "length data"]
      list_all_avoid [OF decimal_plain, of "{CR, LF, NUL}" "length data"] by simp_all
  have h: "CHR '','' \<notin> set ?h" "list_all (\<lambda>c. c \<notin> {SPC, TAB, CR, LF}) ?h" "list_all (\<lambda>c. c \<notin> {CR, LF, NUL}) ?h"
    using list_all_notin [OF hex_plain [OF assms(2)], of "CHR '',''"]
      list_all_avoid [OF hex_plain [OF assms(2)], of "{SPC, TAB, CR, LF}"]
      list_all_avoid [OF hex_plain [OF assms(2)], of "{CR, LF, NUL}"] by simp_all
  have b: "trim_line ''blake2b'' = ''blake2b''" by (rule trim_line_plain) simp
  show "trim_line (line_of env n data) = line_of env n data"
  proof (rule trim_line_id)
    show "hd (line_of env n data) \<noteq> SPC" "hd (line_of env n data) \<noteq> TAB"
      using trim_line_hd [OF n(3,1)] n(1) by (simp_all add: line_of_def)
  qed (simp_all add: line_of_def)
  show "csv_fields (line_of env n data) = Some (n, ?d, ?h, ''blake2b'')"
    using n(2,3) d(1) h(1) trim_line_plain [OF d(2)] trim_line_plain [OF h(2)] b
    unfolding csv_fields_def line_of_def Let_def by (simp add: strchr_append takeWhile_cell)
  note line_plain [OF n(4)] line_plain [OF d(3)] line_plain [OF h(3)]
  then show "list_all (\<lambda>c. \<not> line_end c \<and> c \<noteq> NUL) (line_of env n data)"
    by (simp add: line_of_def line_end_def)
  have "29 < length (line_of env n data)" using assms(2) by (simp add: line_of_def hex_digest_def HASH_HEX_def)
  then show "\<not> strieq (line_of env n data) index_header"
    using strieq_length [of "line_of env n data" index_header] by (auto simp: index_header_def)
qed

text \<open>The lines of an index text.\<close>

lemma archive_lines_join:
  assumes "list_all (\<lambda>l. l \<noteq> [] \<and> list_all (\<lambda>c. \<not> line_end c \<and> c \<noteq> NUL) l) ls" "eol = [LF] \<or> eol = [CR, LF]"
  shows "archive_lines (concat (map (\<lambda>l. l @ eol) ls)) = ls"
  using assms(1)
proof (induction ls)
  case (Cons l ls)
  let ?r = "concat (map (\<lambda>l. l @ eol) ls)"
  have l: "l \<noteq> []" "list_all (\<lambda>c. \<not> line_end c) l" using Cons.prems by (auto elim: list.pred_mono_strong)
  obtain d q where e: "eol @ ?r = d # q" "line_end d" "dropWhile line_end (d # q) = dropWhile line_end ?r"
    using assms(2) by (auto simp: line_end_def)
  have "dropWhile line_end ?r = ?r"
  proof (cases ls)
    case (Cons l' ls')
    then have "l' \<noteq> []" "\<not> line_end (hd l')" using Cons.prems by (auto simp: list_all_iff)
    then show ?thesis using Cons by (cases l') auto
  qed simp
  then have "archive_lines (l @ eol @ ?r) = l # archive_lines ?r"
    unfolding e(1) using takeWhile_until [where P = line_end, OF l(2) e(2)] e(3) by (subst archive_lines.simps) simp
  then show ?case using Cons by simp
qed (simp add: archive_lines.simps)

subsection \<open>The validation of what was built\<close>

text \<open>The behaviour of minizip and zlib that the composition relies on: an entry that was written is read back,
  and every name that was written is located.\<close>

definition pack_ok :: "'s decoders \<Rightarrow> (string \<Rightarrow> string option \<Rightarrow> zip_entry) \<Rightarrow> bool" where
  "pack_ok d pack \<longleftrightarrow> (\<forall>n c. ze_name (pack n c) = n \<and> ze_dir (pack n c) = (c = None)
     \<and> (\<forall>data. c = Some data \<longrightarrow> zi_uncompressed (ze_info (pack n c)) = int (length data)
          \<and> entry_data d (pack n c) (length data) = Some data))"

definition archive_of :: "(string \<Rightarrow> string option \<Rightarrow> zip_entry) \<Rightarrow> (string \<times> string option) list \<Rightarrow> zip_archive \<Rightarrow> bool" where
  "archive_of pack zs za \<longleftrightarrow> za_entries za = map (\<lambda>(n, c). pack n c) zs \<and> za_end za \<and> zip_locates za
     \<and> (\<forall>e \<in> set (za_entries za). \<exists>e'. za_locate za (ze_name e) = Located e')"

definition names_distinct :: "(string \<times> string option) list \<Rightarrow> bool" where
  "names_distinct zs \<longleftrightarrow> distinct (map (\<lambda>(n, c). lower (normalize_archive_separators n)) zs)"

lemma pack_okD:
  assumes "pack_ok d pack"
  shows "ze_name (pack n c) = n" "ze_dir (pack n c) = (c = None)"
    "zi_uncompressed (ze_info (pack n (Some data))) = int (length data)" "entry_data d (pack n (Some data)) (length data) = Some data"
  using assms unfolding pack_ok_def by blast+

lemma packed_locate:
  assumes "pack_ok d pack" "archive_of pack zs za" "names_distinct zs" "(n, c) \<in> set zs"
  shows "za_locate za n = Located (pack n c)"
proof -
  have e: "pack n c \<in> set (za_entries za)" using assms(2,4) by (force simp: archive_of_def)
  then obtain e' where e': "za_locate za n = Located e'"
    using assms(2) pack_okD(1) [OF assms(1)] unfolding archive_of_def by metis
  then have "e' \<in> set (za_entries za)" "normalize_archive_separators (ze_name e') = normalize_archive_separators n"
    using assms(2) unfolding archive_of_def zip_locates_def by blast+
  moreover from this obtain n' c' where "(n', c') \<in> set zs" "e' = pack n' c'"
    using assms(2) by (auto simp: archive_of_def)
  ultimately have same: "normalize_archive_separators n' = normalize_archive_separators n" and zs': "(n', c') \<in> set zs"
    using pack_okD(1) [OF assms(1)] by auto
  have inj: "inj_on (\<lambda>(n, c). lower (normalize_archive_separators n)) (set zs)"
    using assms(3) unfolding names_distinct_def distinct_map by blast
  have "(n', c') = (n, c)" by (rule inj_onD [OF inj _ zs' assms(4)]) (simp add: same)
  with e' \<open>e' = pack n' c'\<close> show ?thesis by simp
qed

lemma packed_read_text:
  assumes "pack_ok d pack" "archive_of pack zs za" "names_distinct zs" "(n, Some t) \<in> set zs"
    and "length t \<le> maximum" "NUL \<notin> set t"
  shows "read_zip_text d za n maximum = File_text t"
  using packed_locate [OF assms(1-4)] assms(5,6) pack_okD(3,4) [OF assms(1)] by (simp add: read_zip_text_def)

lemma packed_index_line:
  assumes "pack_ok d pack" "archive_of pack zs za" "names_distinct zs" "(n, Some data) \<in> set zs"
    and "index_name n" "hex_digest (be_hash env data)" "zd_hash d data = be_hash env data" "length data \<le> ULLONG_MAX"
    and "length ps < MAX_INDEXED"
  shows "validate_index_line d za ps (line_of env n data) = Some (ps @ [n])"
proof -
  have "list_all is_digit (decimal (length data))" "at_class is_digit (decimal (length data))"
    using decimal_digits [of "length data"] by (auto simp: at_class_def list_all_iff split: list.split)
  moreover have "strtoull (decimal (length data)) = length data" using assms(8) by (simp add: strtoull_def)
  moreover have "is_safe_archive_path n" "length (be_hash env data) = HASH_HEX"
    using assms(5,6) by (simp_all add: index_name_def hex_digest_def)
  moreover have "line_of env n data \<noteq> []" by (simp add: line_of_def)
  ultimately show ?thesis
    using line_of_fields [OF assms(5,6)] packed_locate [OF assms(1-4)] pack_okD(3,4) [OF assms(1)] assms(7,9)
    by (simp add: validate_index_line_def Let_def)
qed

lemma packed_index_lines:
  assumes "pack_ok d pack" "archive_of pack zs za" "names_distinct zs"
    and "\<forall>(n, data) \<in> set fs. (n, Some data) \<in> set zs \<and> index_name n \<and> length data \<le> ULLONG_MAX"
    and "\<forall>data. hex_digest (be_hash env data) \<and> zd_hash d data = be_hash env data" "length ps + length fs \<le> MAX_INDEXED"
  shows "validate_index_lines d za ps (map (\<lambda>(n, data). line_of env n data) fs) = Some (ps @ map fst fs)"
  using assms(4,6)
proof (induction fs arbitrary: ps)
  case (Cons f fs)
  obtain n data where f: "f = (n, data)" by force
  then have "validate_index_line d za ps (line_of env n data) = Some (ps @ [n])"
    using Cons.prems assms(5) by (intro packed_index_line [OF assms(1-3)]) auto
  then show ?case using Cons f by simp
qed simp

lemma adjacent_equal_distinct: "distinct (map lower xs) \<Longrightarrow> \<not> adjacent_equal xs"
  by (induction xs rule: adjacent_equal.induct) (auto simp: strieq_def)

lemma qsort_paths_distinct: "distinct (map lower xs) \<Longrightarrow> \<not> adjacent_equal (qsort compare_index_paths xs)"
proof -
  assume "distinct (map lower xs)"
  moreover have "mset (map lower (qsort compare_index_paths xs)) = mset (map lower xs)" by simp
  ultimately have "distinct (map lower (qsort compare_index_paths xs))" by (metis mset_eq_imp_distinct_iff)
  then show ?thesis by (rule adjacent_equal_distinct)
qed

lemma packed_entries:
  assumes p: "pack_ok d pack" and names: "\<forall>(n, c) \<in> set zs. is_safe_archive_path n" "length files + length zs \<le> MAX_ENTRIES"
    and indexed: "\<forall>(n, c) \<in> set zs. c \<noteq> None \<and> \<not> support_entry n \<longrightarrow> index_contains_path paths n"
  shows "validate_entries d complete paths files (map (\<lambda>(n, c). pack n c) zs)
    = Some (files @ map (\<lambda>(n, c). normalize_archive_separators n) zs)"
  using names indexed
proof (induction zs arbitrary: files)
  case (Cons z zs)
  obtain n c where z: "z = (n, c)" by force
  have "entry_data d (pack n c) (nat (zi_uncompressed (ze_info (pack n c)))) \<noteq> None" if "c \<noteq> None"
    using that pack_okD(3,4) [OF p] by (cases c) auto
  then show ?case using Cons z pack_okD(1,2) [OF p] by auto
qed simp


lemma validated_header: "trim_line index_header = index_header" "list_all (\<lambda>c. \<not> line_end c \<and> c \<noteq> NUL) index_header"
  by (rule trim_line_id) (simp_all add: index_header_def line_end_def)

lemma indexed_files_mem: "(n, data) \<in> set (indexed_files zs) \<longleftrightarrow> (n, Some data) \<in> set zs \<and> \<not> support_entry n"
  by (force simp: indexed_files_def)

lemma indexed_files_length: "length (indexed_files zs) \<le> length zs"
  by (induction zs) (auto simp: indexed_files_def)

lemma indexed_files_distinct: "names_distinct zs \<Longrightarrow> distinct (map lower (map fst (indexed_files zs)))"
proof (induction zs)
  case (Cons z zs)
  obtain n c where z: "z = (n, c)" by force
  have d: "distinct (map lower (map fst (indexed_files zs)))" using Cons by (simp add: names_distinct_def z)
  have "lower n \<notin> set (map lower (map fst (indexed_files zs)))"
  proof
    assume "lower n \<in> set (map lower (map fst (indexed_files zs)))"
    then obtain m data where "(m, Some data) \<in> set zs" "lower m = lower n"
      using indexed_files_mem by (auto simp: image_iff)
    then have "lower (normalize_archive_separators n) \<in> (\<lambda>(n, c). lower (normalize_archive_separators n)) ` set zs"
      by (force simp: lower_normalize)
    then show False using Cons.prems by (simp add: names_distinct_def z)
  qed
  with d show ?case by (cases c) (simp_all add: z)
qed (simp add: indexed_files_def)

text \<open>The index of the archive, read back, is accepted and lists every file.\<close>

definition index_text :: "build_env \<Rightarrow> (string \<times> string option) list \<Rightarrow> string" where
  "index_text env zs = index_header @ be_eol env @ concat (map (\<lambda>(n, data). index_line env n data) (indexed_files zs))"

text \<open>Every entry has a name that an index line can hold and there are not too many.\<close>

definition entries_fit :: "(string \<times> string option) list \<Rightarrow> bool" where
  "entries_fit zs \<longleftrightarrow> length zs \<le> MAX_INDEXED \<and> (\<forall>(n, c) \<in> set zs. is_safe_archive_path n)
     \<and> (\<forall>(n, data) \<in> set (indexed_files zs). index_name n \<and> length data \<le> ULLONG_MAX)"

text \<open>The digests of the builder and of the reader agree and are 64 hexadecimal digits.\<close>

definition digests_agree :: "'s decoders \<Rightarrow> build_env \<Rightarrow> bool" where
  "digests_agree d env \<longleftrightarrow> (\<forall>data. hex_digest (be_hash env data) \<and> zd_hash d data = be_hash env data)
     \<and> be_eol env \<in> {[LF], [CR, LF]}"

lemma plain_no_nul: "list_all (\<lambda>c. \<not> line_end c \<and> c \<noteq> NUL) l \<Longrightarrow> NUL \<notin> set l"
  by (induction l) auto

lemma concat_no_nul: "(\<And>l. l \<in> set ls \<Longrightarrow> NUL \<notin> set l) \<Longrightarrow> NUL \<notin> set e \<Longrightarrow> NUL \<notin> set (concat (map (\<lambda>l. l @ e) ls))"
  by (induction ls) simp_all

lemma index_text_lines:
  assumes "entries_fit zs" "digests_agree d env"
  shows "archive_lines (index_text env zs) = index_header # map (\<lambda>(n, data). line_of env n data) (indexed_files zs)"
    and "NUL \<notin> set (index_text env zs)"
proof -
  let ?ls = "index_header # map (\<lambda>(n, data). line_of env n data) (indexed_files zs)"
  have t: "index_text env zs = concat (map (\<lambda>l. l @ be_eol env) ?ls)"
    by (simp add: index_text_def index_line_of case_prod_unfold comp_def)
  have one: "line_of env n data \<noteq> [] \<and> list_all (\<lambda>c. \<not> line_end c \<and> c \<noteq> NUL) (line_of env n data)"
    if "(n, data) \<in> set (indexed_files zs)" for n data
  proof -
    have "index_name n" "hex_digest (be_hash env data)" using that assms by (auto simp: entries_fit_def digests_agree_def)
    then show ?thesis using line_of_fields(3) by (simp add: line_of_def del: list_all_append list.pred_inject)
  qed
  define plain where "plain = (\<lambda>l. l \<noteq> [] \<and> list_all (\<lambda>c. \<not> line_end c \<and> c \<noteq> NUL) l)"
  have "plain index_header" using validated_header(2) by (simp add: plain_def index_header_def)
  moreover have "plain (line_of env n data)" if "(n, data) \<in> set (indexed_files zs)" for n data
    using one [OF that] by (simp add: plain_def)
  ultimately have all: "list_all plain ?ls" by (auto simp: list_all_iff)
  then have ok: "list_all (\<lambda>l. l \<noteq> [] \<and> list_all (\<lambda>c. \<not> line_end c \<and> c \<noteq> NUL) l) ?ls" by (simp only: plain_def)
  have eol: "be_eol env = [LF] \<or> be_eol env = [CR, LF]" using assms(2) by (simp add: digests_agree_def)
  show "archive_lines (index_text env zs) = ?ls" unfolding t by (rule archive_lines_join [OF ok eol])
  have "NUL \<notin> set l" if "l \<in> set ?ls" for l
  proof -
    have "plain l" using all that by (simp only: list_all_iff)
    then show ?thesis unfolding plain_def using plain_no_nul by blast
  qed
  moreover have "NUL \<notin> set (be_eol env)" using eol by auto
  ultimately show "NUL \<notin> set (index_text env zs)" unfolding t by (rule concat_no_nul)
qed

lemma packed_index:
  assumes "pack_ok d pack" "archive_of pack zs za" "names_distinct zs" "entries_fit zs" "digests_agree d env"
  shows "validated_paths d za (Some (index_text env zs)) = Some (qsort compare_index_paths (map fst (indexed_files zs)))"
proof -
  have "validate_index_lines d za [] (map (\<lambda>(n, data). line_of env n data) (indexed_files zs))
      = Some ([] @ map fst (indexed_files zs))"
  proof (rule packed_index_lines [OF assms(1-3)])
    show "length ([] :: string list) + length (indexed_files zs) \<le> MAX_INDEXED"
      using assms(4) indexed_files_length [of zs] by (simp add: entries_fit_def)
  qed (use assms(4,5) indexed_files_mem in \<open>auto simp: entries_fit_def digests_agree_def\<close>)
  moreover have "validate_index_line d za [] index_header = Some []"
    by (simp add: validate_index_line_def validated_header(1))
  moreover have "\<not> adjacent_equal (qsort compare_index_paths (map fst (indexed_files zs)))"
    by (rule qsort_paths_distinct, rule indexed_files_distinct [OF assms(3)])
  ultimately show ?thesis
    using index_text_lines(1) [OF assms(4,5)] by (simp add: validated_paths_def Let_def)
qed

text \<open>What a signed build consists of.\<close>

lemma signed_build:
  assumes "wpm_archive_build cr senv env source_dir output_dir True (Some (c # path, Some private_file)) tree = Some (name, zs)"
  obtains source_full output_full out ls doc where "be_full env source_dir = Some source_full" "be_full env output_dir = Some output_full"
    "archive_join_path WPM_PATH_SIZE (trim_trailing_separators output_full) name = Some out"
    "write_index_entries env (load_ignore_list (wpm_file ''wpmignore.txt'' tree)) out (trim_trailing_separators source_full) [] tree = Some ls"
    "wpm_sign_package_index cr senv (Some (c # path)) (Some private_file)
       (wpm_file ''index.csv'' (put_wpm ''index.csv'' (index_header @ be_eol env @ concat ls) tree)) = (Some doc, True)"
    "add_directory_to_zip env out (trim_trailing_separators source_full) []
       (put_wpm ''signature.json'' doc (put_wpm ''index.csv'' (index_header @ be_eol env @ concat ls) tree)) = Some zs"
  using assms
  by (auto simp: wpm_archive_build_def update_package_index_def Let_def split: if_splits option.splits prod.splits bool.splits)

lemma trim_separators_length: "length (trim_trailing_separators p) \<le> length p"
  by (induction p rule: trim_trailing_separators.induct) (subst trim_trailing_separators.simps, auto)

lemma join_path_ends: "archive_join_path n left right = Some out \<Longrightarrow> \<exists>x. out = x @ right"
  by (auto simp: archive_join_path_def fits_def Let_def split: if_splits)

lemma put_file_mem: "(name, FS_file t) \<in> set (put_file name t es)"
  "(n, node) \<in> set es \<Longrightarrow> \<not> strieq n name \<Longrightarrow> (n, node) \<in> set (put_file name t es)"
  by (auto simp: put_file_def)

lemma signed_build_contents:
  assumes built: "wpm_archive_build cr senv env source_dir output_dir True (Some (c # path, Some private_file)) tree = Some (name, zs)"
    and tree: "has_wpm tree a es b" "all_indexed (load_ignore_list (wpm_file ''wpmignore.txt'' tree)) [] tree"
    and source: "\<And>full. be_full env source_dir = Some full \<Longrightarrow> length full + 32 < WPM_PATH_SIZE"
    and out: "\<And>p full x. be_full env p = Some full \<Longrightarrow> \<not> strieq full (x @ name)"
  obtains doc where "(''.wpm/index.csv'', Some (index_text env zs)) \<in> set zs" "(''.wpm/signature.json'', Some doc) \<in> set zs"
    "wpm_sign_package_index cr senv (Some (c # path)) (Some private_file) (Some (index_text env zs)) = (Some doc, True)"
proof -
  define ignore where "ignore = load_ignore_list (wpm_file ''wpmignore.txt'' tree)"
  obtain source_full output_full o' ls doc where s: "be_full env source_dir = Some source_full"
    "archive_join_path WPM_PATH_SIZE (trim_trailing_separators output_full) name = Some o'"
    "write_index_entries env ignore o' (trim_trailing_separators source_full) [] tree = Some ls"
    "wpm_sign_package_index cr senv (Some (c # path)) (Some private_file)
       (wpm_file ''index.csv'' (put_wpm ''index.csv'' (index_header @ be_eol env @ concat ls) tree)) = (Some doc, True)"
    "add_directory_to_zip env o' (trim_trailing_separators source_full) []
       (put_wpm ''signature.json'' doc (put_wpm ''index.csv'' (index_header @ be_eol env @ concat ls) tree)) = Some zs"
    by (rule signed_build [OF built]) (auto simp: ignore_def)
  define src where "src = trim_trailing_separators source_full"
  define t where "t = index_header @ be_eol env @ concat ls"
  define indexed where "indexed = put_wpm ''index.csv'' t tree"
  define final where "final = put_wpm ''signature.json'' doc indexed"
  note s = s [folded src_def t_def, folded indexed_def, folded final_def]
  have src: "length src + 32 < WPM_PATH_SIZE"
    using source [OF s(1)] trim_separators_length [of source_full] by (simp add: src_def)
  have w: "has_wpm indexed a (put_file ''index.csv'' t es) b"
    "has_wpm final a (put_file ''signature.json'' doc (put_file ''index.csv'' t es)) b"
    unfolding final_def indexed_def using put_wpm_split tree(1) by blast+
  have "write_index_entries env ignore o' src [] final = Some ls"
    unfolding final_def indexed_def
    by (rule write_index_put_wpm [OF write_index_put_wpm [OF s(3) tree(1) _ src] w(1) [unfolded indexed_def] _ src]) simp_all
  moreover have "all_indexed ignore [] final"
    unfolding final_def
    by (rule all_indexed_put [OF w(1)]) (simp_all add: indexed_def all_indexed_put [OF tree(1)] tree(2) ignore_def)
  ultimately have "ls = map (\<lambda>(n, data). index_line env n data) (indexed_files zs)"
    using index_matches_archive [OF _ s(5)] by simp
  then have t: "t = index_text env zs" by (simp add: t_def index_text_def)
  have no_out: "\<not> strieq f o'" if "be_full env p = Some f" for p f
    using join_path_ends [OF s(2)] out [OF that] by auto
  have other: "\<not> strieq ''index.csv'' ''signature.json''" by (simp add: strieq_def lower_def)
  have "(''.wpm/'' @ ''index.csv'', Some t) \<in> set zs"
    by (rule archive_has_wpm_file [OF s(5) w(2) put_file_mem(2) [OF put_file_mem(1)]])
      (simp_all add: dots_def no_out other)
  moreover have "(''.wpm/'' @ ''signature.json'', Some doc) \<in> set zs"
    by (rule archive_has_wpm_file [OF s(5) w(2) put_file_mem(1)]) (simp_all add: dots_def no_out)
  moreover have "wpm_file ''index.csv'' indexed = Some t" unfolding indexed_def by (rule wpm_file_put [OF tree(1)])
  ultimately show ?thesis using s(4) that unfolding t by simp
qed

lemma archive_entries: "archive_of pack zs za \<Longrightarrow> za_entries za = map (\<lambda>(n, c). pack n c) zs"
  by (simp add: archive_of_def)

lemma signed_doc_bounds:
  assumes ok: "signing_ok cr" and signed: "wpm_sign_package_index cr env (Some (c # path)) (Some private_file) (Some index) = (Some doc, True)"
    and secret: "load_private cr private_file = Some secret" and kid: "cr_key_id cr (public_part secret) = Some kid"
  shows "NUL \<notin> set doc" "length doc \<le> 16384"
proof -
  have cr: "crypto_ok cr" using ok by (simp add: signing_ok_def)
  obtain detached where d: "cr_sign cr index secret = Some detached"
    "doc = package_signature kid (cr_encode cr (public_part secret)) (cr_encode cr detached)"
    using signed unfolding wpm_sign_package_index_def
    by (auto simp: secret kid package_signature_def split: if_splits option.splits)
  have "NUL \<notin> set (cr_encode cr b)" for b
    using crypto_okD(4) [OF cr, of b] by (auto simp: list_all_iff class_defs)
  moreover have "NUL \<notin> set kid" using crypto_okD(7) [OF cr kid] by (auto simp: list_all_iff lower_hex_def class_defs)
  ultimately show "NUL \<notin> set doc" by (simp add: d(2) document_text)
  have "length (public_part secret) = 32" "length detached = 64"
    using ok d(1) load_private_length [OF secret] public_part_length [OF load_private_length [OF secret]]
    by (auto simp: signing_ok_def PUBLICKEYBYTES_def SIGNATUREBYTES_def)
  then show "length doc \<le> 16384"
    using crypto_okD(6) [OF cr kid] crypto_okD(2) [OF cr, of "public_part secret"] crypto_okD(2) [OF cr, of detached]
    by (simp add: d(2) document_text)
qed

lemma build_validates:
  assumes built: "wpm_archive_build cr senv env source_dir output_dir True (Some (c # path, Some private_file)) tree = Some (name, zs)"
    and tree: "has_wpm tree a es b" "all_indexed (load_ignore_list (wpm_file ''wpmignore.txt'' tree)) [] tree"
    and source: "\<And>full. be_full env source_dir = Some full \<Longrightarrow> length full + 32 < WPM_PATH_SIZE"
    and out: "\<And>p full x. be_full env p = Some full \<Longrightarrow> \<not> strieq full (x @ name)"
    and names: "names_distinct zs" "entries_fit zs" "digests_agree d env"
    and short: "length (index_text env zs) \<le> 4 * 1024 * 1024"
    and zip: "pack_ok d pack" "archive_of pack zs za"
    and key: "signing_ok cr" "load_private cr private_file = Some secret" "cr_key_id cr (public_part secret) = Some kid"
    and trusted: "has_public st kid = Some public_file" "load_public cr public_file = Some (public_part secret)" "\<not> is_revoked st kid"
    and root: "se_root env' = Some root" "length root + 79 < 4096"
  shows "archive_validate_handle cr env' st d (Some za) allow = Some kid"
proof -
  let ?index = "index_text env zs"
  obtain doc where doc: "(''.wpm/index.csv'', Some ?index) \<in> set zs" "(''.wpm/signature.json'', Some doc) \<in> set zs"
    "wpm_sign_package_index cr senv (Some (c # path)) (Some private_file) (Some ?index) = (Some doc, True)"
    by (rule signed_build_contents [OF built tree source out])
  note signed = signed_doc_bounds [OF key(1) doc(3) key(2,3)]
  have "read_zip_text d za ''.wpm/index.csv'' (4 * 1024 * 1024) = File_text ?index"
    by (rule packed_read_text [OF zip names(1) doc(1) short index_text_lines(2) [OF names(2,3)]])
  moreover have "read_zip_text d za ''.wpm/signature.json'' 16384 = File_text doc"
    by (rule packed_read_text [OF zip names(1) doc(2) signed(2,1)])
  moreover have "wpm_validate_signature_bytes cr env' st (Some doc) (Some ?index) allow = Some kid"
    using package_round_trip [OF key(1) doc(3) key(2,3) trusted root] by blast
  moreover note packed_index [OF zip names]
  moreover have "validate_entries d True (qsort compare_index_paths (map fst (indexed_files zs))) [] (za_entries za)
      = Some ([] @ map (\<lambda>(n, c). normalize_archive_separators n) zs)"
    unfolding archive_entries [OF zip(2)]
  proof (rule packed_entries [OF zip(1)])
    show "length ([] :: string list) + length zs \<le> MAX_ENTRIES"
      using names(2) by (simp add: entries_fit_def MAX_INDEXED_def MAX_ENTRIES_def)
    show "\<forall>(n, c) \<in> set zs. c \<noteq> None \<and> \<not> support_entry n
        \<longrightarrow> index_contains_path (qsort compare_index_paths (map fst (indexed_files zs))) n"
      unfolding index_contains_sorted using indexed_files_mem by force
  qed (use names(2) in \<open>simp add: entries_fit_def\<close>)
  moreover have "\<not> adjacent_equal (qsort compare_index_paths (map (\<lambda>(n, c). normalize_archive_separators n) zs))"
    using names(1) by (intro qsort_paths_distinct) (simp add: names_distinct_def case_prod_unfold comp_def)
  moreover have "za_end za" using zip(2) by (simp add: archive_of_def)
  ultimately show ?thesis by (simp add: archive_validate_handle_def Let_def file_text_def)
qed


end
