(* ===== verification/Staged_Verification.thy ===== *)
theory Staged_Verification
  imports Package_Build Config_Text
begin

text \<open>
  The extraction of an archive to a staging directory and the verification of what was extracted, in
  \<open>wpm/archive.c\<close>: the entries are written one by one below the destination, then every line of the index is
  checked against the file it names, in batches that worker threads may share, and a signed tree must hold no file
  that the index does not list. The results of the system calls are parameters.
\<close>

subsection \<open>Extraction\<close>

record extract_env =
  xe_directories :: "string \<Rightarrow> bool"
  xe_symlink :: "zip_entry \<Rightarrow> bool"
  xe_created :: "string \<Rightarrow> bool"
  xe_fails :: "string \<Rightarrow> nat \<Rightarrow> bool"
  xe_closed :: "string \<Rightarrow> bool"

definition backslashed :: "string \<Rightarrow> string" where
  "backslashed name = map (\<lambda>c. if c = SLASH then BSLASH else c) name"

text \<open>The text before the last backslash; without one there is no directory to create.\<close>

definition parent_of :: "string \<Rightarrow> string option" where
  "parent_of path = (if BSLASH \<in> set path then Some (rev (tl (dropWhile (\<lambda>c. c \<noteq> BSLASH) (rev path)))) else None)"

definition create_parent_directory :: "extract_env \<Rightarrow> string \<Rightarrow> string \<Rightarrow> string \<times> bool" where
  "create_parent_directory xe path previous =
     (case parent_of path of
        None \<Rightarrow> (previous, True)
      | Some parent \<Rightarrow>
          if strieq parent previous then (previous, True)
          else if \<not> xe_directories xe parent then (previous, False)
          else (parent, True))"

text \<open>The bytes of the files; a sum that does not fit 64 bits is refused, and only the progress bar uses it.\<close>

fun measure_archive_uncompressed_bytes :: "nat \<Rightarrow> zip_entry list \<Rightarrow> nat option" where
  "measure_archive_uncompressed_bytes n [] = Some n"
| "measure_archive_uncompressed_bytes n (e # es) =
     (if zi_uncompressed (ze_info e) < 0 then None
      else if ze_dir e then measure_archive_uncompressed_bytes n es
      else if n > ULLONG_MAX - nat (zi_uncompressed (ze_info e)) then None
      else measure_archive_uncompressed_bytes (n + nat (zi_uncompressed (ze_info e))) es)"

text \<open>What one extraction writes: the paths in order, \<open>None\<close> for a directory, and whether it completed.\<close>

fun extract_entries ::
  "extract_env \<Rightarrow> 's decoders \<Rightarrow> string \<Rightarrow> string \<Rightarrow> zip_entry list \<Rightarrow> (string \<times> string option) list \<times> bool" where
  "extract_entries xe d destination previous [] = ([], True)"
| "extract_entries xe d destination previous (e # es) =
     (if length (ze_name e) \<ge> WPM_PATH_SIZE \<or> \<not> is_safe_archive_path (ze_name e) \<or> xe_symlink xe e then ([], False)
      else
      (case archive_join_path WPM_PATH_SIZE destination (backslashed (ze_name e)) of
         None \<Rightarrow> ([], False)
       | Some path \<Rightarrow>
           if ze_dir e
           then if \<not> xe_directories xe path then ([], False)
                else (case extract_entries xe d destination previous es of (ws, ok) \<Rightarrow> ((path, None) # ws, ok))
           else
             (case create_parent_directory xe path previous of
                (previous', made) \<Rightarrow>
                  if \<not> made then ([], False)
                  else
                  (case wpm_zip_extract_current_file (zd_crc d) (zd_inflate d) (ze_reader e) (ze_info e) (xe_created xe path)
                          (xe_fails xe path) (xe_closed xe path) of
                     None \<Rightarrow> ([], False)
                   | Some data \<Rightarrow>
                       (case extract_entries xe d destination previous' es of
                          (ws, ok) \<Rightarrow> ((path, Some data) # ws, ok))))))"

definition wpm_archive_extract_with_label ::
  "32 word \<Rightarrow> extract_env \<Rightarrow> 's decoders \<Rightarrow> zip_archive option \<Rightarrow> string \<Rightarrow> (string \<times> string option) list \<times> bool" where
  "wpm_archive_extract_with_label capabilities xe d archive destination =
     (if \<not> wpm_require_capability WPM_CAP_WRITE capabilities \<or> \<not> xe_directories xe destination then ([], False)
      else
      (case archive of
         None \<Rightarrow> ([], False)
       | Some za \<Rightarrow>
           (case extract_entries xe d destination [] (za_entries za) of (ws, ok) \<Rightarrow> (ws, ok \<and> za_end za))))"

text \<open>What was written for an entry: a path below the destination without a parent component, and for a file
  exactly the bytes that the entry declares.\<close>

definition written_for :: "extract_env \<Rightarrow> 's decoders \<Rightarrow> string \<Rightarrow> zip_entry \<Rightarrow> string \<times> string option \<Rightarrow> bool" where
  "written_for xe d destination e w \<longleftrightarrow>
     archive_join_path WPM_PATH_SIZE destination (backslashed (ze_name e)) = Some (fst w)
     \<and> is_safe_archive_path (ze_name e) \<and> \<not> xe_symlink xe e
     \<and> (if ze_dir e then snd w = None
        else \<exists>data. snd w = Some data \<and> int (length data) = zi_uncompressed (ze_info e) \<and> zd_crc d 0 data = zi_crc (ze_info e))"

lemma extracted_file_exact:
  assumes "crc_law crc32" "wpm_zip_extract_current_file crc32 z reader info created fails closed = Some data"
  shows "int (length data) = zi_uncompressed info \<and> crc32 0 data = zi_crc info"
proof -
  obtain out where r: "wpm_zip_read_current_entry crc32 z reader info (zip_output_for (nat (zi_uncompressed info)) fails) = (out, True)"
    "data = zo_data out"
    using assms(2) by (auto simp: wpm_zip_extract_current_file_def split: if_splits prod.splits)
  then show ?thesis using zip_entry_outcome [OF assms(1) r(1)] by simp
qed

lemma extract_entries_written:
  assumes "crc_law (zd_crc d)" "extract_entries xe d destination previous es = (ws, ok)"
  shows "length ws \<le> length es \<and> (ok \<longrightarrow> length ws = length es)
    \<and> (\<forall>i < length ws. written_for xe d destination (es ! i) (ws ! i))"
  using assms(2)
proof (induction es arbitrary: previous ws ok)
  case (Cons e es)
  show ?case
  proof (cases "ws = []")
    case True
    then show ?thesis using Cons.prems by (auto split: if_splits option.splits prod.splits)
  next
    case False
    then obtain w previous' vs where w: "ws = w # vs" "extract_entries xe d destination previous' es = (vs, ok)"
      "written_for xe d destination e w"
      using Cons.prems assms(1)
      by (auto simp: written_for_def split: if_splits option.splits prod.splits dest: extracted_file_exact)
    have "\<forall>i < length ws. written_for xe d destination ((e # es) ! i) (ws ! i)"
      using Cons.IH [OF w(2)] w(1,3) by (auto simp: less_Suc_eq_0_disj)
    then show ?thesis using Cons.IH [OF w(2)] w(1) by simp
  qed
qed simp

text \<open>C23: every extraction, also one that stops in the middle, writes only below the destination: the paths are
  those of safe entry names in the order of the archive, no entry is a symbolic link, and each file holds exactly
  the bytes its entry declares. An extraction that reports success has written every entry.\<close>

theorem extraction_confined:
  assumes "crc_law (zd_crc d)" "wpm_archive_extract_with_label capabilities xe d (Some za) destination = (ws, ok)"
  shows "(\<forall>i < length ws. i < length (za_entries za) \<and> written_for xe d destination (za_entries za ! i) (ws ! i)
            \<and> \<not> path_component (ze_name (za_entries za ! i)) ''..'')
    \<and> (ok \<longrightarrow> length ws = length (za_entries za))"
proof -
  consider "ws = []" "\<not> ok" | ok' where "extract_entries xe d destination [] (za_entries za) = (ws, ok')" "ok = (ok' \<and> za_end za)"
    using assms(2) by (auto simp: wpm_archive_extract_with_label_def split: if_splits prod.splits)
  then show ?thesis
  proof cases
    case 2
    have "\<not> path_component n ''..''" if "is_safe_archive_path n" for n
      using that safe_segments_iff [of "[]" n] by (simp add: is_safe_archive_path_def split: if_splits)
    then show ?thesis
      using extract_entries_written [OF assms(1) 2(1)] 2(2) by (auto simp: written_for_def)
  qed simp
qed

subsection \<open>Verification of the staged files\<close>

text \<open>The reads of one file, \<open>None\<close> for an error; the count of bytes is 64 bits wide and never exceeds the
  expected size.\<close>

fun verify_reads :: "nat \<Rightarrow> string option list \<Rightarrow> string \<Rightarrow> string option" where
  "verify_reads expected [] got = Some got"
| "verify_reads expected (None # reads) got = None"
| "verify_reads expected (Some piece # reads) got =
     (if piece = [] then Some got
      else if length piece > expected - length got then None
      else verify_reads expected reads (got @ piece))"

record verify_file =
  vf_filename :: string
  vf_path :: string
  vf_hash :: string
  vf_size :: nat

text \<open>The staging directory: its tree, the index as \<open>fgets\<close> delivers it and whether it was read to its end and
  closed, whether there is a signature, the reads of a file, the closing of a file, and the thread pool if there is one.\<close>

record staged =
  sg_tree :: "(string \<times> fs_node) list"
  sg_index :: file_read
  sg_index_end :: bool
  sg_index_closed :: bool
  sg_signed :: bool
  sg_reads :: "string \<Rightarrow> string option list option"
  sg_closed :: "string \<Rightarrow> bool"
  sg_pool_wait :: "nat \<Rightarrow> bool"

definition verify_file_task :: "(string \<Rightarrow> string) \<Rightarrow> staged \<Rightarrow> verify_file \<Rightarrow> bool" where
  "verify_file_task hash sg task =
     (case sg_reads sg (vf_path task) of
        None \<Rightarrow> False
      | Some reads \<Rightarrow>
          (case verify_reads (vf_size task) reads [] of
             None \<Rightarrow> False
           | Some data \<Rightarrow>
               length data = vf_size task \<and> strieq (hash data) (vf_hash task) \<and> sg_closed sg (vf_path task)))"

text \<open>The tasks of a batch touch nothing in common, so that the order in which workers run them does not
  matter; the caller waits for them and then looks at the results.\<close>

definition verify_file_batch :: "(string \<Rightarrow> string) \<Rightarrow> staged \<Rightarrow> nat \<Rightarrow> verify_file list \<Rightarrow> bool" where
  "verify_file_batch hash sg n tasks = (if \<not> sg_pool_wait sg n then False else list_all (verify_file_task hash sg) tasks)"

text \<open>\<open>sscanf("%llu%c")\<close> that converts the number and nothing behind it: white space, a sign and digits. A value
  out of range saturates and a sign negates as in \<open>strtoull\<close>.\<close>

definition scan_space :: "char \<Rightarrow> bool" where
  "scan_space c \<longleftrightarrow> c = SPC \<or> 9 \<le> byte c \<and> byte c \<le> 13"

definition scan_llu :: "string \<Rightarrow> nat option" where
  "scan_llu t =
     (let s = dropWhile scan_space t;
          digits = (if at (CHR ''-'') s \<or> at (CHR ''+'') s then tl s else s) in
      if digits = [] \<or> \<not> list_all is_digit digits then None
      else if at (CHR ''-'') s \<and> dec_value digits \<le> ULLONG_MAX
           then Some ((ULLONG_MAX + 1 - dec_value digits) mod (ULLONG_MAX + 1))
      else Some (strtoull digits))"

definition VERIFY_BATCH :: nat where "VERIFY_BATCH = 16"

text \<open>One line of the index: nothing to check, or a task; \<open>None\<close> is an invalid entry.\<close>

definition staged_line :: "string \<Rightarrow> bool \<Rightarrow> string \<Rightarrow> verify_file option option" where
  "staged_line destination first raw =
     (let line = trim_line raw in
      if first \<and> strieq line index_header \<or> line = [] then Some None
      else
      (case csv_fields line of
         None \<Rightarrow> None
       | Some (filename, size_text, hash, algorithm) \<Rightarrow>
           (case (is_safe_archive_path filename, scan_llu size_text) of
              (True, Some expected) \<Rightarrow>
                if length hash \<noteq> HASH_HEX \<or> \<not> strieq algorithm ''blake2b'' then None
                else map_option (\<lambda>path. Some \<lparr>vf_filename = filename, vf_path = path, vf_hash = hash, vf_size = expected\<rparr>)
                       (archive_join_path WPM_PATH_SIZE destination (backslashed filename))
            | _ \<Rightarrow> None)))"

text \<open>The loop over the lines: the number of batches so far and the tasks that wait.\<close>

fun verify_lines ::
  "(string \<Rightarrow> string) \<Rightarrow> staged \<Rightarrow> string \<Rightarrow> bool \<Rightarrow> nat \<Rightarrow> verify_file list \<Rightarrow> string list \<Rightarrow> bool" where
  "verify_lines hash sg destination first n tasks [] =
     (if \<not> sg_index_end sg then False else verify_file_batch hash sg n tasks)"
| "verify_lines hash sg destination first n tasks (raw # lines) =
     (case staged_line destination first raw of
        None \<Rightarrow> False
      | Some None \<Rightarrow> verify_lines hash sg destination False n tasks lines
      | Some (Some task) \<Rightarrow>
          if length tasks + 1 = VERIFY_BATCH
          then if verify_file_batch hash sg n (tasks @ [task])
               then verify_lines hash sg destination False (n + 1) [] lines else False
          else verify_lines hash sg destination False n (tasks @ [task]) lines)"

text \<open>The walk over the staged tree; a relative path longer than its buffer is cut.\<close>

definition staged_path :: "string \<Rightarrow> string \<Rightarrow> string" where
  "staged_path dir name = normalize_archive_separators (if dir \<noteq> [] then take (WPM_PATH_SIZE - 1) (dir @ SLASH # name) else name)"

fun verify_index_completeness :: "string list \<Rightarrow> string \<Rightarrow> string \<Rightarrow> (string \<times> fs_node) list \<Rightarrow> bool" where
  "verify_index_completeness paths destination dir [] = True"
| "verify_index_completeness paths destination dir ((name, node) # rest) =
     (if dots name then verify_index_completeness paths destination dir rest
      else
        let path = staged_path dir name in
        (case node of
           FS_dir es \<Rightarrow>
             (case archive_join_path WPM_PATH_SIZE destination path of
                None \<Rightarrow> False
              | Some search_dir \<Rightarrow>
                  if archive_join_path WPM_PATH_SIZE search_dir ''*'' = None then False
                  else if \<not> verify_index_completeness paths destination path es then False
                  else verify_index_completeness paths destination dir rest)
         | FS_file data \<Rightarrow>
             if \<not> strieq path ''.wpm/index.csv'' \<and> \<not> strieq path ''.wpm/signature.json'' \<and> \<not> index_contains_path paths path
             then False
             else verify_index_completeness paths destination dir rest))"

definition index_complete :: "staged \<Rightarrow> string \<Rightarrow> string \<Rightarrow> bool" where
  "index_complete sg destination index =
     (case archive_join_path WPM_PATH_SIZE destination [] of
        None \<Rightarrow> False
      | Some search_dir \<Rightarrow>
          if archive_join_path WPM_PATH_SIZE search_dir ''*'' = None then False
          else
          (case load_index_paths (Some index) of
             None \<Rightarrow> False
           | Some paths \<Rightarrow> verify_index_completeness paths destination [] (sg_tree sg)))"

definition verify_package_index :: "(string \<Rightarrow> string) \<Rightarrow> staged \<Rightarrow> string \<Rightarrow> bool" where
  "verify_package_index hash sg destination =
     (if archive_join_path WPM_PATH_SIZE destination (''.wpm'' @ BSLASH # ''index.csv'') = None then False
      else
      (case sg_index sg of
         File_absent \<Rightarrow> True
       | File_unreadable \<Rightarrow> False
       | File_text index \<Rightarrow>
           if \<not> verify_lines hash sg destination True 0 [] (text_lines INDEX_LINE index) \<or> \<not> sg_index_closed sg then False
           else if archive_join_path WPM_PATH_SIZE destination (''.wpm'' @ BSLASH # ''signature.json'') = None then False
           else if \<not> sg_signed sg then True
           else index_complete sg destination index))"

subsection \<open>What a verified tree holds\<close>

text \<open>The lines of the index, one after the other.\<close>

fun staged_tasks :: "string \<Rightarrow> bool \<Rightarrow> string list \<Rightarrow> verify_file list option" where
  "staged_tasks destination first [] = Some []"
| "staged_tasks destination first (raw # lines) =
     (case staged_line destination first raw of
        None \<Rightarrow> None
      | Some t \<Rightarrow> map_option (\<lambda>ts. (case t of None \<Rightarrow> [] | Some task \<Rightarrow> [task]) @ ts) (staged_tasks destination False lines))"

lemma verify_lines_sequential:
  assumes "\<And>n. sg_pool_wait sg n" "sg_index_end sg"
  shows "verify_lines hash sg destination first n tasks lines \<longleftrightarrow>
    (case staged_tasks destination first lines of None \<Rightarrow> False | Some ts \<Rightarrow> list_all (verify_file_task hash sg) (tasks @ ts))"
proof (induction lines arbitrary: first n tasks)
  case (Cons raw lines)
  show ?case
    by (cases "staged_line destination first raw") (auto simp: Cons.IH verify_file_batch_def assms split: option.splits)
qed (simp add: assms verify_file_batch_def)

lemma verify_lines_sound:
  "verify_lines hash sg destination first n tasks lines \<Longrightarrow>
     \<exists>ts. staged_tasks destination first lines = Some ts \<and> list_all (verify_file_task hash sg) (tasks @ ts)"
proof (induction lines arbitrary: first n tasks)
  case (Cons raw lines)
  then obtain t where t: "staged_line destination first raw = Some t" by (auto split: option.splits)
  show ?case
  proof (cases t)
    case None
    then show ?thesis using Cons.IH Cons.prems t by force
  next
    case (Some task)
    then show ?thesis
      using Cons.prems t Cons.IH [of False "n + 1" "[]"] Cons.IH [of False n "tasks @ [task]"]
      by (auto simp: verify_file_batch_def split: if_splits)
  qed
qed (auto simp: verify_file_batch_def split: if_splits)

text \<open>The files of a tree, by their paths.\<close>

fun staged_files :: "string \<Rightarrow> (string \<times> fs_node) list \<Rightarrow> string list" where
  "staged_files dir [] = []"
| "staged_files dir ((name, FS_dir es) # rest) =
     (if dots name then [] else staged_files (staged_path dir name) es) @ staged_files dir rest"
| "staged_files dir ((name, FS_file data) # rest) = (if dots name then [] else [staged_path dir name]) @ staged_files dir rest"

lemma completeness_iff:
  "verify_index_completeness paths destination dir tree \<Longrightarrow>
     list_all (\<lambda>p. support_entry p \<or> index_contains_path paths p) (staged_files dir tree)"
  by (induction tree arbitrary: dir rule: tree_induct)
    (auto simp: Let_def support_entry_def split: if_splits option.splits)

lemma staged_tasks_mem:
  "staged_tasks destination first lines = Some ts \<Longrightarrow> raw \<in> set lines \<Longrightarrow> \<not> strieq (trim_line raw) index_header
     \<Longrightarrow> trim_line raw \<noteq> [] \<Longrightarrow> \<exists>task. (\<exists>first. staged_line destination first raw = Some (Some task)) \<and> task \<in> set ts"
proof (induction lines arbitrary: first ts)
  case (Cons l lines)
  then obtain t us where t: "staged_line destination first l = Some t" "staged_tasks destination False lines = Some us"
    "ts = (case t of None \<Rightarrow> [] | Some task \<Rightarrow> [task]) @ us" by (auto split: option.splits)
  show ?case
  proof (cases "raw = l")
    case True
    then obtain task where "t = Some task"
      using t(1) Cons.prems(3,4) by (auto simp: staged_line_def Let_def split: if_splits option.splits prod.splits bool.splits)
    then show ?thesis using t True by auto
  next
    case False
    then show ?thesis using Cons.IH [OF t(2)] Cons.prems t(3) by (auto split: option.splits)
  qed
qed simp

lemma staged_line_task:
  assumes "staged_line destination first raw = Some (Some task)"
  shows "vf_filename task = trim_line (takeWhile (\<lambda>c. c \<noteq> CHR '','') (trim_line raw)) \<and> is_safe_archive_path (vf_filename task)
    \<and> archive_join_path WPM_PATH_SIZE destination (backslashed (vf_filename task)) = Some (vf_path task)"
  using assms
  by (auto simp: staged_line_def csv_fields_def Let_def split: if_splits option.splits prod.splits bool.splits)

text \<open>The staged file that a task names has the size and the digest of its line.\<close>

definition task_verified :: "(string \<Rightarrow> string) \<Rightarrow> staged \<Rightarrow> verify_file \<Rightarrow> bool" where
  "task_verified hash sg task \<longleftrightarrow> (\<exists>reads data. sg_reads sg (vf_path task) = Some reads
     \<and> verify_reads (vf_size task) reads [] = Some data \<and> length data = vf_size task \<and> strieq (hash data) (vf_hash task))"


subsection \<open>A built package is verified after its extraction\<close>

text \<open>The paths of the directories of a tree fit their buffers.\<close>

fun walkable :: "string \<Rightarrow> string \<Rightarrow> (string \<times> fs_node) list \<Rightarrow> bool" where
  "walkable destination dir [] = True"
| "walkable destination dir ((name, FS_file data) # rest) = walkable destination dir rest"
| "walkable destination dir ((name, FS_dir es) # rest) =
     ((dots name \<or> (\<exists>s. archive_join_path WPM_PATH_SIZE destination (staged_path dir name) = Some s
          \<and> archive_join_path WPM_PATH_SIZE s ''*'' \<noteq> None) \<and> walkable destination (staged_path dir name) es)
      \<and> walkable destination dir rest)"

lemma completeness_holds:
  "walkable destination dir tree \<Longrightarrow> list_all (\<lambda>p. support_entry p \<or> index_contains_path paths p) (staged_files dir tree)
     \<Longrightarrow> verify_index_completeness paths destination dir tree"
  by (induction tree arbitrary: dir rule: tree_induct) (auto simp: Let_def support_entry_def split: if_splits)

text \<open>The staging directory holds what the index of the archive lists: the index is the one that was written, each
  listed file is read back, and no file is there that was not in the archive.\<close>

definition staged_from :: "build_env \<Rightarrow> (string \<times> string option) list \<Rightarrow> staged \<Rightarrow> string \<Rightarrow> bool" where
  "staged_from env zs sg destination \<longleftrightarrow>
     sg_index sg = File_text (index_text env zs) \<and> sg_index_end sg \<and> sg_index_closed sg \<and> (\<forall>n. sg_pool_wait sg n)
     \<and> length destination + 32 < WPM_PATH_SIZE
     \<and> (\<forall>(n, data) \<in> set (indexed_files zs). length (line_of env n data) + 2 < INDEX_LINE
          \<and> (\<exists>path reads. archive_join_path WPM_PATH_SIZE destination (backslashed n) = Some path
                \<and> sg_reads sg path = Some reads \<and> verify_reads (length data) reads [] = Some data \<and> sg_closed sg path))
     \<and> (\<forall>p \<in> set (staged_files [] (sg_tree sg)). support_entry p \<or> (\<exists>(n, data) \<in> set (indexed_files zs). strieq p (normalize_archive_separators n)))
     \<and> walkable destination [] (sg_tree sg)"

lemma trim_line_eol: "e \<in> {[LF], [CR, LF]} \<Longrightarrow> trim_line (l @ e) = trim_line l"
  by (auto simp: trim_line_def)

lemma scan_decimal:
  assumes "n \<le> ULLONG_MAX"
  shows "scan_llu (decimal n) = Some n"
proof -
  have d: "list_all is_digit (decimal n)" "decimal n \<noteq> []" using decimal_digits [of n] by simp_all
  then obtain c r where c: "decimal n = c # r" "is_digit c" by (cases "decimal n") auto
  then have "\<not> scan_space c" "c \<noteq> CHR ''-''" "c \<noteq> CHR ''+''" by (auto simp: scan_space_def is_digit_def)
  then have "dropWhile scan_space (decimal n) = decimal n" "\<not> at (CHR ''-'') (decimal n)" "\<not> at (CHR ''+'') (decimal n)"
    by (simp_all add: c(1))
  then show ?thesis using d assms by (simp add: scan_llu_def strtoull_def Let_def)
qed

lemma staged_line_of:
  assumes "index_name n" "hex_digest (be_hash env data)" "be_eol env \<in> {[LF], [CR, LF]}" "length data \<le> ULLONG_MAX"
    and "archive_join_path WPM_PATH_SIZE destination (backslashed n) = Some path"
  shows "staged_line destination first (line_of env n data @ be_eol env)
    = Some (Some \<lparr>vf_filename = n, vf_path = path, vf_hash = be_hash env data, vf_size = length data\<rparr>)"
proof -
  note f = line_of_fields [OF assms(1,2)]
  have "trim_line (line_of env n data @ be_eol env) = line_of env n data"
    using trim_line_eol [OF assms(3)] f(1) by simp
  moreover have "line_of env n data \<noteq> []" by (simp add: line_of_def)
  moreover have "is_safe_archive_path n" "length (be_hash env data) = HASH_HEX"
    using assms(1,2) by (simp_all add: index_name_def hex_digest_def)
  ultimately show ?thesis
    using f(2,4) scan_decimal [OF assms(4)] assms(5) by (simp add: staged_line_def Let_def)
qed

lemma staged_lines_of:
  assumes "\<forall>(n, data) \<in> set fs. index_name n \<and> length data \<le> ULLONG_MAX
      \<and> (\<exists>path reads. archive_join_path WPM_PATH_SIZE destination (backslashed n) = Some path
          \<and> sg_reads sg path = Some reads \<and> verify_reads (length data) reads [] = Some data \<and> sg_closed sg path)"
    and "digests_agree d env"
  shows "\<exists>ts. staged_tasks destination first (map (\<lambda>(n, data). line_of env n data @ be_eol env) fs) = Some ts
    \<and> list_all (verify_file_task (zd_hash d) sg) ts"
  using assms(1)
proof (induction fs arbitrary: first)
  case (Cons f fs)
  obtain n data where f: "f = (n, data)" by force
  obtain path reads where p: "index_name n" "length data \<le> ULLONG_MAX"
    "archive_join_path WPM_PATH_SIZE destination (backslashed n) = Some path"
    "sg_reads sg path = Some reads" "verify_reads (length data) reads [] = Some data" "sg_closed sg path"
    using Cons.prems f by auto
  have e: "hex_digest (be_hash env data)" "zd_hash d data = be_hash env data" "be_eol env \<in> {[LF], [CR, LF]}"
    using assms(2) by (simp_all add: digests_agree_def)
  have "verify_file_task (zd_hash d) sg \<lparr>vf_filename = n, vf_path = path, vf_hash = be_hash env data, vf_size = length data\<rparr>"
    using p(4-6) e(2) by (simp add: verify_file_task_def)
  then show ?case
    using Cons.IH [of False] Cons.prems staged_line_of [OF p(1) e(1,3) p(2,3), of first] f by auto
qed simp

lemma index_path_of:
  assumes "index_name n" "hex_digest (be_hash env data)" "be_eol env \<in> {[LF], [CR, LF]}"
  shows "index_line_path (line_of env n data @ be_eol env) = Some (normalize_archive_separators n)"
proof -
  note f = line_of_fields [OF assms(1,2)]
  have n: "list_all (\<lambda>c. c \<notin> {CHR '','', CR, LF, NUL}) n" using assms(1) by (simp only: index_name_def)
  have "CHR '','' \<notin> set n" by (rule list_all_notin [OF n]) simp
  then have "takeWhile (\<lambda>c. c \<noteq> CHR '','') (line_of env n data) = n" "CHR '','' \<in> set (line_of env n data)"
    by (simp_all add: line_of_def takeWhile_cell)
  then show ?thesis using trim_line_eol [OF assms(3)] f(1,4) by (simp add: index_line_path_def Let_def)
qed

text \<open>The lines that \<open>fgets\<close> delivers.\<close>

lemma index_fgets:
  assumes "entries_fit zs" "digests_agree d env" "\<forall>(n, data) \<in> set (indexed_files zs). length (line_of env n data) + 2 < INDEX_LINE"
  shows "text_lines INDEX_LINE (index_text env zs)
    = (index_header @ be_eol env) # map (\<lambda>(n, data). line_of env n data @ be_eol env) (indexed_files zs)"
proof -
  have e: "be_eol env = [LF] \<or> be_eol env = [CR, LF]" using assms(2) by (simp add: digests_agree_def)
  have full: "full_line INDEX_LINE (l @ be_eol env)" if "LF \<notin> set l" "length l + 2 < INDEX_LINE" for l
    using that e by (auto simp: full_line_split)
  have no_lf: "LF \<notin> set l" if "list_all (\<lambda>c. \<not> line_end c \<and> c \<noteq> NUL) l" for l
    using that by (induction l) (auto simp: line_end_def)
  have "full_line INDEX_LINE (index_header @ be_eol env)"
    by (rule full [OF no_lf [OF validated_header(2)]]) (simp add: index_header_def INDEX_LINE_def WPM_PATH_SIZE_def)
  moreover have "full_line INDEX_LINE (line_of env n data @ be_eol env)" if "(n, data) \<in> set (indexed_files zs)" for n data
  proof -
    have "index_name n" "hex_digest (be_hash env data)" "length (line_of env n data) + 2 < INDEX_LINE"
      using that assms by (auto simp: entries_fit_def digests_agree_def)
    then show ?thesis using full no_lf line_of_fields(3) by blast
  qed
  ultimately have "list_all (full_line INDEX_LINE)
      ((index_header @ be_eol env) # map (\<lambda>(n, data). line_of env n data @ be_eol env) (indexed_files zs))"
    by (auto simp: list_all_iff)
  from text_lines_concat [OF this] show ?thesis
    by (simp add: index_text_def index_line_of case_prod_unfold comp_def)
qed

lemma built_index_stages:
  assumes "entries_fit zs" "digests_agree d env" "staged_from env zs sg destination"
  shows "verify_package_index (zd_hash d) sg destination"
proof -
  let ?fs = "indexed_files zs"
  let ?lines = "map (\<lambda>(n, data). line_of env n data @ be_eol env) ?fs"
  have st: "sg_index sg = File_text (index_text env zs)" "sg_index_end sg" "sg_index_closed sg" "\<And>n. sg_pool_wait sg n"
    "length destination + 32 < WPM_PATH_SIZE" "walkable destination [] (sg_tree sg)"
    "\<forall>p \<in> set (staged_files [] (sg_tree sg)). support_entry p \<or> (\<exists>(n, data) \<in> set ?fs. strieq p (normalize_archive_separators n))"
    "\<forall>(n, data) \<in> set ?fs. length (line_of env n data) + 2 < INDEX_LINE"
    using assms(3) unfolding staged_from_def by auto
  have eol: "be_eol env \<in> {[LF], [CR, LF]}" using assms(2) by (simp add: digests_agree_def)
  have read: "text_lines INDEX_LINE (index_text env zs) = (index_header @ be_eol env) # ?lines"
    by (rule index_fgets [OF assms(1,2) st(8)])
  have header: "trim_line (index_header @ be_eol env) = index_header" using trim_line_eol [OF eol] validated_header(1) by simp
  have "\<forall>(n, data) \<in> set ?fs. index_name n \<and> length data \<le> ULLONG_MAX
      \<and> (\<exists>path reads. archive_join_path WPM_PATH_SIZE destination (backslashed n) = Some path
          \<and> sg_reads sg path = Some reads \<and> verify_reads (length data) reads [] = Some data \<and> sg_closed sg path)"
    using assms(1,3) unfolding entries_fit_def staged_from_def by fast
  from staged_lines_of [OF this assms(2)] obtain ts where
    ts: "staged_tasks destination False ?lines = Some ts" "list_all (verify_file_task (zd_hash d) sg) ts" by blast
  have "staged_line destination True (index_header @ be_eol env) = Some None" by (simp add: staged_line_def header)
  then have v: "verify_lines (zd_hash d) sg destination True 0 [] (text_lines INDEX_LINE (index_text env zs))"
    unfolding verify_lines_sequential [OF st(4,2)] read using ts by simp
  have "\<exists>path. archive_join_path WPM_PATH_SIZE destination right = Some path \<and> length path < WPM_PATH_SIZE - 2" if "length right < 20" for right
    using join_path_short [of destination right WPM_PATH_SIZE] st(5) that by fastforce
  from this [of "[]"] this [of "''.wpm'' @ BSLASH # ''index.csv''"] this [of "''.wpm'' @ BSLASH # ''signature.json''"]
  obtain root where paths: "archive_join_path WPM_PATH_SIZE destination [] = Some root" "length root < WPM_PATH_SIZE - 2"
    "archive_join_path WPM_PATH_SIZE destination (''.wpm'' @ BSLASH # ''index.csv'') \<noteq> None"
    "archive_join_path WPM_PATH_SIZE destination (''.wpm'' @ BSLASH # ''signature.json'') \<noteq> None" by auto
  have star: "archive_join_path WPM_PATH_SIZE root ''*'' \<noteq> None"
    using join_path_short [of root "''*''" WPM_PATH_SIZE] paths(2) by fastforce
  define found where "found = List.map_filter index_line_path (text_lines INDEX_LINE (index_text env zs))"
  have listed: "normalize_archive_separators n \<in> set found" if n: "(n, data) \<in> set ?fs" for n data
  proof -
    have "index_name n" "hex_digest (be_hash env data)" using n assms(1,2) by (auto simp: entries_fit_def digests_agree_def)
    from index_path_of [OF this eol] have "index_line_path (line_of env n data @ be_eol env) = Some (normalize_archive_separators n)" .
    moreover have "line_of env n data @ be_eol env \<in> set ?lines" using n by force
    ultimately show ?thesis unfolding found_def read by (force simp: List.map_filter_def)
  qed
  have "support_entry p \<or> index_contains_path (qsort compare_index_paths found) p" if "p \<in> set (staged_files [] (sg_tree sg))" for p
    using that st(7) listed unfolding index_contains_sorted by blast
  then have "verify_index_completeness (qsort compare_index_paths found) destination [] (sg_tree sg)"
    by (intro completeness_holds [OF st(6)]) (simp add: list_all_iff)
  then have "index_complete sg destination (index_text env zs)"
    by (simp add: index_complete_def load_index_paths_def paths(1) star found_def)
  then show ?thesis using st(1,3) v paths(3,4) by (simp add: verify_package_index_def)
qed


end
