(* ===== verification/Package_Transaction.thy ===== *)
theory Package_Transaction
  imports Staged_Verification Operation_Plan Recovery_Audit
begin

text \<open>
  Installing, upgrading and removing a package in \<open>wpm/archive.c\<close>. Each is a chain of steps that stops at the
  first failure and then clears the staging directory; the calls into \<open>operation.c\<close>, the verification of the
  staged files, the trust store and the metadata are the models of their theories, the results of the system are
  the record \<open>tx_env\<close>. The state keeps the plan, the trust store and a log of the effects in their order.
\<close>

subsection \<open>The repository of a package\<close>

text \<open>The static \<open>wpm_repository_url\<close> is empty when none is known.\<close>

definition wpm_archive_set_repository_url :: "string option \<Rightarrow> string" where
  "wpm_archive_set_repository_url url =
     (case url of
        None \<Rightarrow> []
      | Some u \<Rightarrow>
          if length u < WPM_PATH_SIZE \<and> (strnieq 8 u ''https://'' \<or> strnieq 7 u ''http://'') \<and> \<not> list_ex line_end u
          then u else [])"

definition active_repository_url :: "string \<Rightarrow> string option \<Rightarrow> string option" where
  "active_repository_url known environment =
     (if known \<noteq> [] then Some known
      else
      (case environment of
         None \<Rightarrow> None
       | Some u \<Rightarrow>
           if u = [] \<or> length u \<ge> WPM_PATH_SIZE \<or> list_ex line_end u
              \<or> \<not> strnieq 8 u ''https://'' \<and> \<not> strnieq 7 u ''http://''
           then None else Some u))"

definition repository_record_path :: "nat \<Rightarrow> string \<Rightarrow> string option" where
  "repository_record_path cap archive_path = fits cap (archive_path @ ''.repository.txt'')"

text \<open>The file next to the stored archive: its text, \<open>None\<close> when it is deleted, and the result of the call.\<close>

definition record_archive_repository :: "32 word \<Rightarrow> string \<Rightarrow> string option \<Rightarrow> bool \<Rightarrow> (string \<times> string option) option \<times> bool" where
  "record_archive_repository capabilities archive_path url written =
     (if \<not> wpm_require_capability WPM_CAP_WRITE capabilities then (None, False)
      else
      (case repository_record_path WPM_PATH_SIZE archive_path of
         None \<Rightarrow> (None, False)
       | Some path \<Rightarrow>
           (case url of
              None \<Rightarrow> (Some (path, None), True)
            | Some u \<Rightarrow> if written then (Some (path, Some (u @ [LF])), True) else (None, False))))"

text \<open>The first line of that file, \<open>None\<close> for a file that cannot be opened or is empty.\<close>

definition load_archive_repository :: "string \<Rightarrow> nat \<Rightarrow> string option \<Rightarrow> string option" where
  "load_archive_repository archive_path cap content =
     (case (repository_record_path WPM_PATH_SIZE archive_path, content) of
        (Some _, Some t) \<Rightarrow>
          (case text_lines cap t of
             [] \<Rightarrow> None
           | l # _ \<Rightarrow>
               let u = chomp l in if strnieq 8 u ''https://'' \<or> strnieq 7 u ''http://'' then Some u else None)
      | _ \<Rightarrow> None)"

subsection \<open>State and environment\<close>

datatype tx_event =
    Ev_staging_cleared
  | Ev_extracted "(string \<times> string option) list"
  | Ev_key string
  | Ev_script nat
  | Ev_stored
  | Ev_repository "(string \<times> string option) option"
  | Ev_install_audit string metadata string
  | Ev_upgrade_audit string
  | Ev_archive_deleted
  | Ev_record_deleted string
  | Ev_staging_removed

record tx =
  tx_op :: op_state
  tx_trust :: trust_state
  tx_url :: string
  tx_key :: string
  tx_exit :: nat
  tx_calls :: nat
  tx_log :: "tx_event list"

text \<open>The script: whether its file exists, whether its log and its pipe could be created, whether the process
  started, and its exit code.\<close>

record script_env =
  sc_exists :: bool
  sc_log :: bool
  sc_pipe :: bool
  sc_started :: bool
  sc_exit :: nat

record 's tx_env =
  te_worlds :: "nat \<Rightarrow> op_world"
  te_full :: "string option"
  te_root :: "string option"
  te_directories :: bool
  te_clear :: "nat \<Rightarrow> bool"
  te_at_path :: "zip_archive option"
  te_retained :: "zip_archive option"
  te_extract :: extract_env
  te_decoders :: "'s decoders"
  te_staged :: staged
  te_signature :: file_read
  te_index_bytes :: "string option"
  te_answer :: "string option"
  te_package_txt :: "string option"
  te_installed :: "package_info option list option"
  te_script :: script_env
  te_copied :: bool
  te_environment :: "string option"
  te_recorded :: bool
  te_record_text :: "string option"
  te_audit_directory :: bool
  te_audit_opened :: bool
  te_audit_closed :: bool
  te_exists :: bool
  te_deleted :: bool

type_synonym tx_step = "tx \<Rightarrow> tx \<times> bool"

text \<open>The chain of tests that leave at the first failure.\<close>

fun tx_steps :: "tx_step list \<Rightarrow> tx_step" where
  "tx_steps [] t = (t, True)"
| "tx_steps (f # fs) t = (case f t of (t', ok) \<Rightarrow> if ok then tx_steps fs t' else (t', False))"

definition tx_emit :: "tx_event \<Rightarrow> tx \<Rightarrow> tx" where
  "tx_emit ev t = t\<lparr>tx_log := tx_log t @ [ev]\<rparr>"

text \<open>A call into \<open>operation.c\<close> in the world of that moment.\<close>

definition op_step :: "'s tx_env \<Rightarrow> (op_world \<Rightarrow> op_state \<Rightarrow> op_state \<times> bool) \<Rightarrow> tx_step" where
  "op_step te f t =
     (case f (te_worlds te (tx_calls t)) (tx_op t) of (st, ok) \<Rightarrow> (t\<lparr>tx_op := st, tx_calls := tx_calls t + 1\<rparr>, ok))"

definition phase_start :: "'s tx_env \<Rightarrow> string \<Rightarrow> tx_step" where
  "phase_start te stage = op_step te (wpm_operation_phase_start stage)"

definition phase_finish :: "'s tx_env \<Rightarrow> string \<Rightarrow> tx_step" where
  "phase_finish te stage = op_step te (wpm_operation_phase_finish stage 0)"

definition wpm_operation_collecting :: "op_state \<Rightarrow> bool" where
  "wpm_operation_collecting st \<longleftrightarrow> op_active st \<and> op_collecting st"

text \<open>A test that changes nothing.\<close>

definition check :: "bool \<Rightarrow> tx_step" where
  "check ok t = (t, ok)"

subsection \<open>The common steps\<close>

text \<open>The archive that is read: the retained input of the plan when the path names it, else the file itself.\<close>

definition archive_reader_open :: "string \<Rightarrow> op_world \<Rightarrow> op_state \<Rightarrow> zip_archive option \<Rightarrow> zip_archive option \<Rightarrow> zip_archive option" where
  "archive_reader_open path w st at_path retained =
     (case wpm_operation_input (Some path) w st of
        (controlled, handed) \<Rightarrow> if controlled < 0 then None else if controlled = 0 then at_path else if handed then retained else None)"

definition extract_step :: "32 word \<Rightarrow> 's tx_env \<Rightarrow> string \<Rightarrow> string \<Rightarrow> tx_step" where
  "extract_step capabilities te archive stage t =
     (case wpm_archive_extract_with_label capabilities (te_extract te) (te_decoders te)
             (archive_reader_open archive (te_worlds te (tx_calls t)) (tx_op t) (te_at_path te) (te_retained te)) stage of
        (ws, ok) \<Rightarrow> (tx_emit (Ev_extracted ws) t, ok))"

definition signature_step :: "crypto \<Rightarrow> signing_env \<Rightarrow> 's tx_env \<Rightarrow> bool \<Rightarrow> tx_step" where
  "signature_step cr senv te allow_unsigned t =
     (case wpm_validate_package_signature cr senv (te_signature te) (te_index_bytes te) allow_unsigned (te_answer te) (tx_trust t) of
        (st, None) \<Rightarrow> (t\<lparr>tx_trust := st\<rparr>, False)
      | (st, Some key) \<Rightarrow> (tx_emit (Ev_key key) (t\<lparr>tx_trust := st, tx_key := key\<rparr>), True))"

definition index_ok :: "'s tx_env \<Rightarrow> string \<Rightarrow> bool" where
  "index_ok te stage = verify_package_index (zd_hash (te_decoders te)) (te_staged te) stage"

definition installed_architecture_is_compatible :: "string option \<Rightarrow> package_info option list option \<Rightarrow> metadata \<Rightarrow> bool" where
  "installed_architecture_is_compatible root installed candidate =
     (case (root, installed) of
        (Some _, Some found) \<Rightarrow>
          list_all (\<lambda>i. case i of
              None \<Rightarrow> True
            | Some p \<Rightarrow> \<not> strieq (pi_name p) (md_name candidate)
                \<or> (strieq (md_arch candidate) ''any'' \<longleftrightarrow> strieq (pi_arch p) ''any'')) found
      | _ \<Rightarrow> False)"

text \<open>The script of a package; \<open>tx_exit\<close> is what \<open>result_exit_code\<close> receives.\<close>

definition run_package_script :: "32 word \<Rightarrow> 's tx_env \<Rightarrow> string \<Rightarrow> string \<Rightarrow> tx_step" where
  "run_package_script capabilities te stage script t =
     (case tx_steps [op_step te (\<lambda>w st. (st, wpm_operation_before_script w st)), phase_start te ''script''] t of
        (t, ok) \<Rightarrow>
          if \<not> ok \<or> archive_join_path WPM_PATH_SIZE stage script = None then (t, False)
          else
            let t = t\<lparr>tx_exit := 0\<rparr>; sc = te_script te in
            if \<not> sc_exists sc then phase_finish te ''script'' t
            else if \<not> wpm_require_capability WPM_CAP_WRITE capabilities \<or> \<not> sc_log sc \<or> \<not> sc_pipe sc then (t, False)
            else
            (case op_step te (wpm_operation_external_start ''script'') t of
               (t, ok) \<Rightarrow>
                 if \<not> ok \<or> \<not> sc_started sc then (t, False)
                 else
                 (case op_step te (wpm_operation_script_result (sc_exit sc))
                         (tx_emit (Ev_script (sc_exit sc)) (t\<lparr>tx_exit := sc_exit sc\<rparr>)) of
                    (t, ok) \<Rightarrow> (t, ok \<and> sc_exit sc = 0))))"

definition archive_store_input :: "'s tx_env \<Rightarrow> string \<Rightarrow> tx_step" where
  "archive_store_input te destination t =
     (let controlled = wpm_operation_store_input (Some destination) (te_worlds te (tx_calls t)) (tx_op t);
          t = t\<lparr>tx_calls := tx_calls t + 1\<rparr> in
      if controlled > 0 \<or> controlled = 0 \<and> te_copied te then (tx_emit Ev_stored t, True) else (t, False))"

text \<open>The archive is copied unless it is the stored one already and no plan is active.\<close>

definition retain_step :: "'s tx_env \<Rightarrow> string \<Rightarrow> string \<Rightarrow> tx_step" where
  "retain_step te archive stored t =
     (if op_active (tx_op t) \<or> \<not> strieq archive stored then archive_store_input te stored t else (t, True))"

text \<open>A failure to record the repository is only a warning.\<close>

definition repository_step :: "32 word \<Rightarrow> 's tx_env \<Rightarrow> string \<Rightarrow> tx_step" where
  "repository_step capabilities te stored t =
     (tx_emit (Ev_repository (fst (record_archive_repository capabilities stored
        (active_repository_url (tx_url t) (te_environment te)) (te_recorded te)))) t, True)"

definition audit_written :: "32 word \<Rightarrow> 's tx_env \<Rightarrow> bool" where
  "audit_written capabilities te \<longleftrightarrow> wpm_require_capability WPM_CAP_WRITE capabilities \<and> te_audit_directory te \<and> te_audit_opened te"

definition write_installation_audit :: "32 word \<Rightarrow> 's tx_env \<Rightarrow> string \<Rightarrow> metadata \<Rightarrow> tx_step" where
  "write_installation_audit capabilities te archive_name m t =
     (if \<not> audit_written capabilities te then (t, False)
      else (tx_emit (Ev_install_audit archive_name m (tx_key t)) t, te_audit_closed te))"

definition write_upgrade_audit ::
  "32 word \<Rightarrow> 's tx_env \<Rightarrow> metadata \<Rightarrow> string \<Rightarrow> string \<Rightarrow> bool \<Rightarrow> string option \<Rightarrow> nat \<Rightarrow> tx_step" where
  "write_upgrade_audit capabilities te m old_version archive_name failed phase_name exit_code t =
     (if \<not> audit_written capabilities te then (t, False)
      else (tx_emit (Ev_upgrade_audit (upgrade_audit_text (md_name m) (md_arch m) old_version (md_version m) archive_name
              (if tx_key t = [] then None else Some (tx_key t)) failed phase_name exit_code)) t, te_audit_closed te))"

text \<open>The label \<open>cleanup\<close>: a failed removal of the staging directory makes the transaction fail.\<close>

definition tx_cleanup :: "'s tx_env \<Rightarrow> tx \<times> bool \<Rightarrow> tx \<times> bool" where
  "tx_cleanup te r =
     (case r of
        (t, success) \<Rightarrow>
          (case (if success then phase_start te ''cleanup'' t else (t, True)) of
             (t, started) \<Rightarrow>
               if \<not> started then (t, False)
               else if \<not> te_clear te 1 \<or> \<not> success
               then ((if te_clear te 1 then tx_emit Ev_staging_removed t else t), False)
               else tx_steps [phase_finish te ''cleanup'', op_step te wpm_operation_completed] (tx_emit Ev_staging_removed t)))"

subsection \<open>Installation\<close>

text \<open>The name of an archive without a final \<open>.zip\<close>.\<close>

definition strip_zip :: "string \<Rightarrow> string" where
  "strip_zip name =
     (let extension = rev (takeWhile (\<lambda>c. c \<noteq> CHR ''.'') (rev name)) in
      if CHR ''.'' \<in> set name \<and> strieq (CHR ''.'' # extension) ''.zip'' then take (length name - length extension - 1) name
      else name)"

text \<open>From the metadata on.\<close>

definition install_commit :: "signing_env \<Rightarrow> 's tx_env \<Rightarrow> string \<Rightarrow> string \<Rightarrow> string \<Rightarrow> metadata \<Rightarrow> tx_step" where
  "install_commit senv te archive stage stored m =
     tx_steps
      [check (installed_architecture_is_compatible (te_root te) (te_installed te) m),
       phase_finish te ''validate'',
       run_package_script (se_capabilities senv) te stage (''.wpm'' @ BSLASH # ''install.cmd''),
       phase_start te ''retain-archive'',
       retain_step te archive stored,
       phase_finish te ''retain-archive'', phase_start te ''audit'',
       repository_step (se_capabilities senv) te stored,
       write_installation_audit (se_capabilities senv) te (path_basename stored) m,
       phase_finish te ''audit'']"

definition install_phases :: "crypto \<Rightarrow> signing_env \<Rightarrow> 's tx_env \<Rightarrow> string \<Rightarrow> string \<Rightarrow> string \<Rightarrow> bool \<Rightarrow> tx_step" where
  "install_phases cr senv te archive stage stored allow_unsigned =
     tx_steps
      [phase_finish te ''stage'', phase_start te ''extract'',
       extract_step (se_capabilities senv) te archive stage,
       phase_finish te ''extract'', phase_start te ''validate'',
       signature_step cr senv te allow_unsigned,
       check (index_ok te stage),
       \<lambda>t. case read_package_metadata (te_package_txt te) of
             None \<Rightarrow> (t, False)
           | Some m \<Rightarrow> install_commit senv te archive stage stored m t]"

text \<open>The paths of a transaction: the staging directory and the stored archive.\<close>

definition tx_paths :: "string option \<Rightarrow> string \<Rightarrow> string \<Rightarrow> (string \<times> string) option" where
  "tx_paths root stage_name stored_name =
     Option.bind root (\<lambda>r.
     Option.bind (archive_join_path WPM_PATH_SIZE r ''temp'') (\<lambda>temp.
     Option.bind (archive_join_path WPM_PATH_SIZE r ''packages'') (\<lambda>store.
     Option.bind (archive_join_path WPM_PATH_SIZE temp stage_name) (\<lambda>stage.
     map_option (Pair stage) (archive_join_path WPM_PATH_SIZE store stored_name)))))"

definition stored_archive_name :: "op_state \<Rightarrow> string \<Rightarrow> string option" where
  "stored_archive_name st base =
     (case wpm_operation_store_name WPM_PATH_SIZE st of
        (r, name) \<Rightarrow> if r < 0 then None else if r = 0 then Some base else Some name)"

text \<open>The directories are created and the old staging directory is removed.\<close>

definition clear_staging :: "'s tx_env \<Rightarrow> tx_step" where
  "clear_staging te t =
     (if \<not> te_directories te \<or> \<not> te_clear te 0 then (t, False) else (tx_emit Ev_staging_cleared t, True))"

definition wpm_archive_install :: "crypto \<Rightarrow> signing_env \<Rightarrow> 's tx_env \<Rightarrow> string \<Rightarrow> bool \<Rightarrow> tx_step" where
  "wpm_archive_install cr senv te archive_path allow_unsigned t =
     (case op_step te (wpm_operation_archive ''install'' archive_path None (Some (tx_url t)) allow_unsigned) t of
        (t, ok) \<Rightarrow>
          if \<not> ok then (t, False)
          else if wpm_operation_collecting (tx_op t) then (t, True)
          else
          (case te_full te of
             None \<Rightarrow> (t, False)
           | Some full \<Rightarrow>
               let package_name = strip_zip (path_basename full) in
               if \<not> is_valid_package_name package_name then (t, False)
               else
               (case stored_archive_name (tx_op t) (path_basename full) of
                  None \<Rightarrow> (t, False)
                | Some stored_name \<Rightarrow>
                    (case tx_paths (te_root te) package_name stored_name of
                       None \<Rightarrow> (t, False)
                     | Some (stage, stored) \<Rightarrow>
                         (case tx_steps [phase_start te ''stage'', clear_staging te] t of
                            (t, ok) \<Rightarrow>
                              if \<not> ok then (t, False)
                              else tx_cleanup te (install_phases cr senv te full stage stored allow_unsigned t))))))"

subsection \<open>Upgrade\<close>

text \<open>What the metadata buffer holds after the reader has failed: the fields of the lines before.\<close>

fun metadata_left :: "metadata \<Rightarrow> string list \<Rightarrow> metadata" where
  "metadata_left m [] = m"
| "metadata_left m (line # lines) = (case metadata_line m line of None \<Rightarrow> m | Some m' \<Rightarrow> metadata_left m' lines)"

definition metadata_after_read :: "string option \<Rightarrow> metadata" where
  "metadata_after_read content =
     (case content of None \<Rightarrow> no_metadata | Some t \<Rightarrow> metadata_left no_metadata (text_lines WPM_PATH_SIZE t))"

text \<open>A step whose failure is recorded; the result of the record itself is not looked at.\<close>

definition or_audit :: "tx_step \<Rightarrow> (tx \<Rightarrow> tx_step) \<Rightarrow> tx_step" where
  "or_audit f audit t = (case f t of (t', ok) \<Rightarrow> if ok then (t', True) else (fst (audit t' t'), False))"

definition upgrade_failed :: "32 word \<Rightarrow> 's tx_env \<Rightarrow> string \<Rightarrow> string \<Rightarrow> metadata \<Rightarrow> string \<Rightarrow> tx \<Rightarrow> tx_step" where
  "upgrade_failed caps te old_version base m phase_name t = write_upgrade_audit caps te m old_version base True (Some phase_name) 0"

definition expected_identity :: "metadata \<Rightarrow> metadata \<Rightarrow> bool" where
  "expected_identity m expected \<longleftrightarrow>
     strieq (md_name m) (md_name expected) \<and> md_version m = md_version expected \<and> strieq (md_arch m) (md_arch expected)"

definition upgrade_commit ::
  "signing_env \<Rightarrow> 's tx_env \<Rightarrow> string \<Rightarrow> string \<Rightarrow> string \<Rightarrow> string \<Rightarrow> metadata \<Rightarrow> string \<Rightarrow> metadata \<Rightarrow> tx_step" where
  "upgrade_commit senv te archive base stage stored expected old_version m =
     (let caps = se_capabilities senv; failed = upgrade_failed caps te old_version base m in
      tx_steps
       [or_audit (check (expected_identity m expected)) (failed ''metadata''),
        or_audit (check (installed_architecture_is_compatible (te_root te) (te_installed te) m)) (failed ''architecture''),
        phase_finish te ''validate'',
        or_audit (run_package_script caps te stage (''.wpm'' @ BSLASH # ''install.cmd''))
          (\<lambda>t. write_upgrade_audit caps te m old_version base True (Some ''install-script'') (tx_exit t)),
        phase_start te ''retain-archive'',
        or_audit (retain_step te archive stored) (failed ''archive-retention''),
        phase_finish te ''retain-archive'', phase_start te ''audit'',
        repository_step caps te stored,
        write_upgrade_audit caps te m old_version base False None 0,
        phase_finish te ''audit''])"

definition upgrade_phases ::
  "crypto \<Rightarrow> signing_env \<Rightarrow> 's tx_env \<Rightarrow> string \<Rightarrow> string \<Rightarrow> string \<Rightarrow> string \<Rightarrow> bool \<Rightarrow> metadata \<Rightarrow> string \<Rightarrow> tx_step" where
  "upgrade_phases cr senv te archive base stage stored allow_unsigned expected old_version =
     (let caps = se_capabilities senv; failed = upgrade_failed caps te old_version base in
      tx_steps
       [phase_finish te ''stage'', phase_start te ''extract'',
        or_audit (extract_step caps te archive stage) (failed expected ''extraction''),
        phase_finish te ''extract'', phase_start te ''validate'',
        or_audit (signature_step cr senv te allow_unsigned) (failed expected ''signature-validation''),
        or_audit (check (index_ok te stage)) (failed expected ''index-validation''),
        \<lambda>t. case read_package_metadata (te_package_txt te) of
              None \<Rightarrow> or_audit (check False) (failed (metadata_after_read (te_package_txt te)) ''metadata'') t
            | Some m \<Rightarrow> upgrade_commit senv te archive base stage stored expected old_version m t])"

definition wpm_archive_upgrade ::
  "crypto \<Rightarrow> signing_env \<Rightarrow> 's tx_env \<Rightarrow> string \<Rightarrow> bool \<Rightarrow> metadata \<Rightarrow> string \<Rightarrow> tx_step" where
  "wpm_archive_upgrade cr senv te archive_path allow_unsigned expected old_version t =
     (case op_step te (wpm_operation_archive ''upgrade'' archive_path (Some old_version) (Some (tx_url t)) allow_unsigned)
             (t\<lparr>tx_key := [], tx_exit := 0\<rparr>) of
        (t, ok) \<Rightarrow>
          if \<not> ok then (t, False)
          else if wpm_operation_collecting (tx_op t) then (t, True)
          else
          (case te_full te of
             None \<Rightarrow> (t, False)
           | Some full \<Rightarrow>
               (case stored_archive_name (tx_op t) (path_basename full) of
                  None \<Rightarrow> (t, False)
                | Some base \<Rightarrow>
                    (case phase_start te ''stage'' t of
                       (t, ok) \<Rightarrow>
                         if \<not> ok then (t, False)
                         else
                         (case tx_paths (te_root te) base base of
                            None \<Rightarrow> (t, False)
                          | Some (stage, stored) \<Rightarrow>
                              (case clear_staging te t of
                                 (t, ok) \<Rightarrow>
                                   if \<not> ok then (t, False)
                                   else tx_cleanup te
                                     (upgrade_phases cr senv te full base stage stored allow_unsigned expected old_version t)))))))"

subsection \<open>Removal\<close>

text \<open>The script sees the repository that was recorded with the archive.\<close>

definition removal_script :: "32 word \<Rightarrow> 's tx_env \<Rightarrow> string \<Rightarrow> string \<Rightarrow> tx_step" where
  "removal_script capabilities te stage stored t =
     (let url = wpm_archive_set_repository_url (load_archive_repository stored WPM_PATH_SIZE (te_record_text te)) in
      (case run_package_script capabilities te stage (''.wpm'' @ BSLASH # ''remove.cmd'') (t\<lparr>tx_url := url\<rparr>) of
         (t, ok) \<Rightarrow> (t\<lparr>tx_url := []\<rparr>, ok)))"

definition remove_phases :: "signing_env \<Rightarrow> 's tx_env \<Rightarrow> string \<Rightarrow> string \<Rightarrow> tx_step" where
  "remove_phases senv te stage stored =
     tx_steps
      [phase_finish te ''stage'', phase_start te ''extract'',
       extract_step (se_capabilities senv) te stored stage,
       phase_finish te ''extract'', phase_start te ''validate'',
       check (index_ok te stage),
       check (read_package_metadata (te_package_txt te) \<noteq> None),
       phase_finish te ''validate'',
       removal_script (se_capabilities senv) te stage stored,
       phase_start te ''remove-record'',
       \<lambda>t. if te_deleted te then (tx_emit Ev_archive_deleted t, True) else (t, False),
       \<lambda>t. (case repository_record_path WPM_PATH_SIZE stored of None \<Rightarrow> t | Some path \<Rightarrow> tx_emit (Ev_record_deleted path) t, True),
       phase_finish te ''remove-record'']"

definition wpm_archive_remove :: "signing_env \<Rightarrow> 's tx_env \<Rightarrow> string \<Rightarrow> tx_step" where
  "wpm_archive_remove senv te package_name t =
     (let archive_name = strip_zip package_name in
      if length package_name \<ge> WPM_PATH_SIZE \<or> \<not> is_valid_package_name archive_name then (t, False)
      else
      (case (tx_paths (te_root te) archive_name (archive_name @ ''.zip''), fits WPM_PATH_SIZE (archive_name @ ''.zip'')) of
         (Some (stage, stored), Some _) \<Rightarrow>
           if \<not> te_exists te then (t, False)
           else
           (case op_step te (wpm_operation_archive ''remove'' stored None None True) t of
              (t, ok) \<Rightarrow>
                if \<not> ok then (t, False)
                else if wpm_operation_collecting (tx_op t) then (t, True)
                else
                (case tx_steps [phase_start te ''stage'', clear_staging te] t of
                   (t, ok) \<Rightarrow> if \<not> ok then (t, False) else tx_cleanup te (remove_phases senv te stage stored t)))
       | _ \<Rightarrow> (t, False)))"

subsection \<open>Reasoning about chains of steps\<close>

text \<open>A step leaves an observation of the state as it was, whether it succeeds or not.\<close>

definition keeps :: "(tx \<Rightarrow> 'b) \<Rightarrow> tx_step \<Rightarrow> bool" where
  "keeps obs f \<longleftrightarrow> (\<forall>t. obs (fst (f t)) = obs t)"

lemma keepsD: "keeps obs f \<Longrightarrow> f t = (t', ok) \<Longrightarrow> obs t' = obs t"
  by (metis fst_conv keeps_def)

lemma tx_steps_keeps: "list_all (keeps obs) fs \<Longrightarrow> keeps obs (tx_steps fs)"
proof (induction fs)
  case (Cons f fs)
  then have "keeps obs f" "keeps obs (tx_steps fs)" by simp_all
  then show ?case by (auto simp: keeps_def split: prod.split) (metis fst_conv)+
qed (simp add: keeps_def)

lemma tx_steps_append: "tx_steps (fs @ gs) t = (case tx_steps fs t of (t', ok) \<Rightarrow> if ok then tx_steps gs t' else (t', False))"
  by (induction fs arbitrary: t) (auto split: prod.split)

text \<open>When a chain has changed an observation that its first steps keep, all of them have succeeded.\<close>

lemma tx_steps_reached:
  assumes "tx_steps (fs @ gs) t = (t', ok)" "list_all (keeps obs) fs" "obs t' \<noteq> obs t"
  obtains t1 where "tx_steps fs t = (t1, True)" "tx_steps gs t1 = (t', ok)" "obs t1 = obs t"
proof -
  obtain t1 r where r: "tx_steps fs t = (t1, r)" by force
  have k: "obs t1 = obs t" using tx_steps_keeps [OF assms(2)] keepsD r by metis
  show ?thesis
  proof (cases r)
    case True
    then show ?thesis using assms(1) r k that by (simp add: tx_steps_append)
  next
    case False
    then show ?thesis using assms(1,3) r k by (simp add: tx_steps_append)
  qed
qed

lemma tx_steps_success: "tx_steps (f # fs) t = (t', True) \<longleftrightarrow> (\<exists>t1. f t = (t1, True) \<and> tx_steps fs t1 = (t', True))"
  by (auto split: prod.split)

text \<open>The observations: the log, the trust store and the scripts of the log.\<close>

fun script_exits :: "tx_event list \<Rightarrow> nat list" where
  "script_exits [] = []"
| "script_exits (Ev_script n # es) = n # script_exits es"
| "script_exits (_ # es) = script_exits es"

definition tx_scripts :: "tx \<Rightarrow> nat list" where
  "tx_scripts t = script_exits (tx_log t)"

lemma script_exits_append [simp]: "script_exits (a @ b) = script_exits a @ script_exits b"
  by (induction a rule: script_exits.induct) simp_all

lemma op_step_keeps:
  "keeps tx_log (op_step te f)" "keeps tx_trust (op_step te f)" "keeps tx_scripts (op_step te f)" "keeps tx_key (op_step te f)"
  by (auto simp: keeps_def op_step_def tx_scripts_def split: prod.split)

lemma phase_keeps:
  "keeps tx_log (phase_start te p)" "keeps tx_trust (phase_start te p)" "keeps tx_scripts (phase_start te p)"
  "keeps tx_key (phase_start te p)"
  "keeps tx_log (phase_finish te p)" "keeps tx_trust (phase_finish te p)" "keeps tx_scripts (phase_finish te p)"
  "keeps tx_key (phase_finish te p)"
  unfolding phase_start_def phase_finish_def by (rule op_step_keeps)+

lemma check_keeps: "keeps obs (check ok)"
  by (simp add: keeps_def check_def)

lemma tx_emit_simps [simp]:
  "tx_log (tx_emit ev t) = tx_log t @ [ev]" "tx_op (tx_emit ev t) = tx_op t" "tx_trust (tx_emit ev t) = tx_trust t"
  "tx_key (tx_emit ev t) = tx_key t" "tx_exit (tx_emit ev t) = tx_exit t" "tx_calls (tx_emit ev t) = tx_calls t"
  "tx_url (tx_emit ev t) = tx_url t"
  by (simp_all add: tx_emit_def)

lemma tx_scripts_emit [simp]: "tx_scripts (tx_emit ev t) = tx_scripts t @ script_exits [ev]"
  by (simp add: tx_scripts_def)

lemma extract_keeps: "keeps tx_trust (extract_step caps te archive stage)" "keeps tx_scripts (extract_step caps te archive stage)"
  by (auto simp: keeps_def extract_step_def split: prod.split)

lemma signature_keeps: "keeps tx_scripts (signature_step cr senv te allow)"
  by (auto simp: keeps_def signature_step_def tx_scripts_def split: prod.split option.split)

lemma clear_keeps: "keeps tx_trust (clear_staging te)" "keeps tx_scripts (clear_staging te)"
  by (auto simp: keeps_def clear_staging_def)

lemma upgrade_audit_keeps: "keeps tx_trust (write_upgrade_audit caps te m old base failed p n)"
  "keeps tx_scripts (write_upgrade_audit caps te m old base failed p n)"
  by (auto simp: keeps_def write_upgrade_audit_def)

lemma or_audit_keeps: "keeps obs f \<Longrightarrow> (\<And>t. keeps obs (audit t)) \<Longrightarrow> keeps obs (or_audit f audit)"
  by (auto simp: keeps_def or_audit_def split: prod.split) (metis fst_conv)+

lemma or_audit_True: "or_audit f audit t = (t', True) \<longleftrightarrow> f t = (t', True)"
  by (auto simp: or_audit_def split: prod.split)

lemma check_True: "check b t = (t', True) \<longleftrightarrow> b \<and> t' = t"
  by (auto simp: check_def)

lemmas step_keeps = phase_keeps op_step_keeps check_keeps extract_keeps signature_keeps clear_keeps upgrade_audit_keeps

lemma cleanup_scripts: "keeps tx_scripts (\<lambda>t. tx_cleanup te (t, ok))"
proof -
  have k: "tx_scripts (fst (phase_start te p t)) = tx_scripts t" for p t
    using phase_keeps(3) unfolding keeps_def by blast
  have "keeps tx_scripts (tx_steps [phase_finish te ''cleanup'', op_step te wpm_operation_completed])"
    by (rule tx_steps_keeps) (simp add: phase_keeps op_step_keeps)
  then have f: "tx_scripts (fst (tx_steps [phase_finish te ''cleanup'', op_step te wpm_operation_completed] t)) = tx_scripts t" for t
    by (simp only: keeps_def)
  show ?thesis
    using k [of "''cleanup''"] f by (auto simp: keeps_def tx_cleanup_def simp del: tx_steps.simps split: prod.split) (metis fst_conv)+
qed

subsection \<open>Scripts run only on verified files\<close>

text \<open>What has been verified when a script of a transaction runs.\<close>

definition staged_verified :: "crypto \<Rightarrow> signing_env \<Rightarrow> 's tx_env \<Rightarrow> bool \<Rightarrow> trust_state \<Rightarrow> string \<Rightarrow> metadata \<Rightarrow> bool" where
  "staged_verified cr senv te allow_unsigned trust stage m \<longleftrightarrow>
     (\<exists>trust' key. wpm_validate_package_signature cr senv (te_signature te) (te_index_bytes te) allow_unsigned (te_answer te) trust
                     = (trust', Some key))
     \<and> index_ok te stage \<and> read_package_metadata (te_package_txt te) = Some m
     \<and> installed_architecture_is_compatible (te_root te) (te_installed te) m"

lemma signature_step_True: "signature_step cr senv te allow t = (t', True) \<Longrightarrow>
   \<exists>st key. wpm_validate_package_signature cr senv (te_signature te) (te_index_bytes te) allow (te_answer te) (tx_trust t) = (st, Some key)
     \<and> t' = tx_emit (Ev_key key) (t\<lparr>tx_trust := st, tx_key := key\<rparr>)"
  by (auto simp: signature_step_def split: prod.splits option.splits)

lemma failed_keeps: "keeps tx_trust (upgrade_failed caps te old base m p t)" "keeps tx_scripts (upgrade_failed caps te old base m p t)"
  unfolding upgrade_failed_def by (rule upgrade_audit_keeps)+

lemma commit_verified:
  assumes "tx_steps (check ok1 # fs) t = (t', ok)" "tx_scripts t' \<noteq> tx_scripts t"
  shows ok1
  using assms by (auto simp: check_def split: if_splits)

lemma install_phases_verified:
  assumes "install_phases cr senv te archive stage stored allow t = (t', ok)" "tx_scripts t' \<noteq> tx_scripts t"
  shows "\<exists>m. staged_verified cr senv te allow (tx_trust t) stage m"
proof -
  let ?pre = "[phase_finish te ''stage'', phase_start te ''extract'', extract_step (se_capabilities senv) te archive stage,
       phase_finish te ''extract'', phase_start te ''validate'']"
  let ?mid = "[signature_step cr senv te allow, check (index_ok te stage)]"
  define f where "f = (\<lambda>t. case read_package_metadata (te_package_txt te) of
      None \<Rightarrow> (t, False) | Some m \<Rightarrow> install_commit senv te archive stage stored m t)"
  have e: "tx_steps (?pre @ ?mid @ [f]) t = (t', ok)"
    using assms(1) by (simp add: install_phases_def f_def del: tx_steps.simps)
  obtain t1 where t1: "tx_steps ?pre t = (t1, True)" "tx_steps (?mid @ [f]) t1 = (t', ok)" "tx_scripts t1 = tx_scripts t"
    by (rule tx_steps_reached [OF e _ assms(2)]) (simp_all add: step_keeps)
  have trust: "tx_trust t1 = tx_trust t"
    by (rule keepsD [OF tx_steps_keeps t1(1)]) (simp add: step_keeps)
  have "tx_scripts t' \<noteq> tx_scripts t1" using t1(3) assms(2) by simp
  then obtain t2 where t2: "tx_steps ?mid t1 = (t2, True)" "tx_steps [f] t2 = (t', ok)" "tx_scripts t2 = tx_scripts t1"
    using tx_steps_reached [OF t1(2), where obs = tx_scripts] by (auto simp: step_keeps simp del: tx_steps.simps)
  have s: "\<exists>st key. wpm_validate_package_signature cr senv (te_signature te) (te_index_bytes te) allow (te_answer te) (tx_trust t)
      = (st, Some key)" "index_ok te stage"
    using t2(1) unfolding tx_steps_success check_True trust [symmetric] by (auto dest: signature_step_True)
  have ft: "f t2 = (t', ok)" using t2(2) by (auto split: prod.splits if_splits)
  have new: "tx_scripts t' \<noteq> tx_scripts t2" using t2(3) t1(3) assms(2) by simp
  then obtain m where m: "read_package_metadata (te_package_txt te) = Some m"
    "install_commit senv te archive stage stored m t2 = (t', ok)"
    using ft by (auto simp: f_def split: option.splits)
  have "installed_architecture_is_compatible (te_root te) (te_installed te) m"
    by (rule commit_verified [OF m(2) [unfolded install_commit_def] new])
  then show ?thesis using s m unfolding staged_verified_def by blast
qed

lemma upgrade_phases_commit:
  assumes "upgrade_phases cr senv te archive base stage stored allow expected old t = (t', ok)" "tx_scripts t' \<noteq> tx_scripts t"
  shows "\<exists>m t2. upgrade_commit senv te archive base stage stored expected old m t2 = (t', ok) \<and> tx_scripts t' \<noteq> tx_scripts t2
    \<and> (\<exists>st key. wpm_validate_package_signature cr senv (te_signature te) (te_index_bytes te) allow (te_answer te) (tx_trust t)
         = (st, Some key)) \<and> index_ok te stage \<and> read_package_metadata (te_package_txt te) = Some m"
proof -
  let ?failed = "upgrade_failed (se_capabilities senv) te old base"
  let ?pre = "[phase_finish te ''stage'', phase_start te ''extract'',
       or_audit (extract_step (se_capabilities senv) te archive stage) (?failed expected ''extraction''),
       phase_finish te ''extract'', phase_start te ''validate'']"
  let ?mid = "[or_audit (signature_step cr senv te allow) (?failed expected ''signature-validation''),
       or_audit (check (index_ok te stage)) (?failed expected ''index-validation'')]"
  define f where "f = (\<lambda>t. case read_package_metadata (te_package_txt te) of
      None \<Rightarrow> or_audit (check False) (?failed (metadata_after_read (te_package_txt te)) ''metadata'') t
    | Some m \<Rightarrow> upgrade_commit senv te archive base stage stored expected old m t)"
  have e: "tx_steps (?pre @ ?mid @ [f]) t = (t', ok)"
    using assms(1) by (simp add: upgrade_phases_def Let_def f_def del: tx_steps.simps)
  note keep = step_keeps or_audit_keeps failed_keeps
  obtain t1 where t1: "tx_steps ?pre t = (t1, True)" "tx_steps (?mid @ [f]) t1 = (t', ok)" "tx_scripts t1 = tx_scripts t"
    by (rule tx_steps_reached [OF e _ assms(2)]) (simp_all add: keep)
  have trust: "tx_trust t1 = tx_trust t"
    by (rule keepsD [OF tx_steps_keeps t1(1)]) (simp add: keep)
  have "tx_scripts t' \<noteq> tx_scripts t1" using t1(3) assms(2) by simp
  then obtain t2 where t2: "tx_steps ?mid t1 = (t2, True)" "tx_steps [f] t2 = (t', ok)" "tx_scripts t2 = tx_scripts t1"
    using tx_steps_reached [OF t1(2), where obs = tx_scripts] by (auto simp: keep simp del: tx_steps.simps)
  have s: "\<exists>st key. wpm_validate_package_signature cr senv (te_signature te) (te_index_bytes te) allow (te_answer te) (tx_trust t)
      = (st, Some key)" "index_ok te stage"
    using t2(1) unfolding tx_steps_success or_audit_True check_True trust [symmetric] by (auto dest: signature_step_True)
  have ft: "f t2 = (t', ok)" using t2(2) by (auto split: prod.splits if_splits)
  have new: "tx_scripts t' \<noteq> tx_scripts t2" using t2(3) t1(3) assms(2) by simp
  have "keeps tx_scripts (or_audit (check False) (?failed (metadata_after_read (te_package_txt te)) ''metadata''))"
    by (simp add: keep)
  from keepsD [OF this, of t2] obtain m where m: "read_package_metadata (te_package_txt te) = Some m"
    "upgrade_commit senv te archive base stage stored expected old m t2 = (t', ok)"
    using ft new by (auto simp: f_def split: option.splits)
  then show ?thesis using s new m by blast
qed

lemma upgrade_phases_verified:
  assumes "upgrade_phases cr senv te archive base stage stored allow expected old t = (t', ok)" "tx_scripts t' \<noteq> tx_scripts t"
  shows "\<exists>m. staged_verified cr senv te allow (tx_trust t) stage m \<and> expected_identity m expected"
proof -
  let ?failed = "upgrade_failed (se_capabilities senv) te old base"
  obtain m t2 where m: "upgrade_commit senv te archive base stage stored expected old m t2 = (t', ok)" "tx_scripts t' \<noteq> tx_scripts t2"
    and s: "\<exists>st key. wpm_validate_package_signature cr senv (te_signature te) (te_index_bytes te) allow (te_answer te) (tx_trust t)
      = (st, Some key)" "index_ok te stage" "read_package_metadata (te_package_txt te) = Some m"
    using upgrade_phases_commit [OF assms] by blast
  let ?tests = "[or_audit (check (expected_identity m expected)) (?failed m ''metadata''),
       or_audit (check (installed_architecture_is_compatible (te_root te) (te_installed te) m)) (?failed m ''architecture'')]"
  obtain gs where gs: "tx_steps (?tests @ gs) t2 = (t', ok)"
    using m(1) by (auto simp: upgrade_commit_def Let_def simp del: tx_steps.simps)
  have "list_all (keeps tx_scripts) ?tests" by (simp add: step_keeps or_audit_keeps failed_keeps)
  from tx_steps_reached [OF gs this m(2)] obtain t3 where "tx_steps ?tests t2 = (t3, True)" by blast
  then show ?thesis using s m unfolding staged_verified_def tx_steps_success or_audit_True check_True by blast
qed

lemma cleanup_trusts: "tx_cleanup te (t, ok) = (t', ok') \<Longrightarrow> tx_scripts t' = tx_scripts t"
  by (rule keepsD [OF cleanup_scripts])

lemma staging_keeps:
  assumes "tx_steps [phase_start te ''stage'', clear_staging te] t = (t', ok)"
  shows "tx_scripts t' = tx_scripts t \<and> tx_trust t' = tx_trust t \<and> (\<not> ok \<longrightarrow> tx_log t' = tx_log t)"
proof -
  have "keeps tx_scripts (tx_steps [phase_start te ''stage'', clear_staging te])"
    "keeps tx_trust (tx_steps [phase_start te ''stage'', clear_staging te])"
    by (rule tx_steps_keeps, simp add: step_keeps)+
  then have "tx_scripts t' = tx_scripts t" "tx_trust t' = tx_trust t" using assms keepsD by metis+
  moreover obtain t1 r where r: "phase_start te ''stage'' t = (t1, r)" by force
  moreover have "tx_log t1 = tx_log t" by (rule keepsD [OF phase_keeps(1) r])
  ultimately show ?thesis using assms by (auto simp: clear_staging_def split: if_splits)
qed

lemma op_step_same: "op_step te f t = (t', ok) \<Longrightarrow> tx_scripts t' = tx_scripts t \<and> tx_trust t' = tx_trust t \<and> tx_log t' = tx_log t"
  using keepsD [OF op_step_keeps(1)] keepsD [OF op_step_keeps(2)] keepsD [OF op_step_keeps(3)] by metis

text \<open>A transaction that gets to its phases.\<close>

definition install_enters ::
  "'s tx_env \<Rightarrow> string \<Rightarrow> bool \<Rightarrow> tx \<Rightarrow> tx \<Rightarrow> tx \<Rightarrow> string \<Rightarrow> string \<Rightarrow> string \<Rightarrow> bool" where
  "install_enters te archive_path allow t t1 t2 full stage stored \<longleftrightarrow>
     op_step te (wpm_operation_archive ''install'' archive_path None (Some (tx_url t)) allow) t = (t1, True)
     \<and> \<not> wpm_operation_collecting (tx_op t1) \<and> te_full te = Some full
     \<and> (\<exists>stored_name. stored_archive_name (tx_op t1) (path_basename full) = Some stored_name
          \<and> tx_paths (te_root te) (strip_zip (path_basename full)) stored_name = Some (stage, stored))
     \<and> tx_steps [phase_start te ''stage'', clear_staging te] t1 = (t2, True)"

lemma install_reached:
  assumes "wpm_archive_install cr senv te archive_path allow t = (t', ok)"
  shows "tx_log t' = tx_log t \<and> (ok \<longrightarrow> wpm_operation_collecting (tx_op t'))
    \<or> (\<exists>t1 t2 full stage stored. install_enters te archive_path allow t t1 t2 full stage stored
         \<and> tx_cleanup te (install_phases cr senv te full stage stored allow t2) = (t', ok))"
proof -
  obtain t1 r where r: "op_step te (wpm_operation_archive ''install'' archive_path None (Some (tx_url t)) allow) t = (t1, r)" by force
  obtain t2 q where q: "tx_steps [phase_start te ''stage'', clear_staging te] t1 = (t2, q)" by force
  note same = op_step_same [OF r] staging_keeps [OF q]
  consider "(t', ok) = (t1, False)" | "(t', ok) = (t1, True)" "wpm_operation_collecting (tx_op t1)"
    | full stage stored where "r" "\<not> wpm_operation_collecting (tx_op t1)" "te_full te = Some full"
      "\<exists>stored_name. stored_archive_name (tx_op t1) (path_basename full) = Some stored_name
          \<and> tx_paths (te_root te) (strip_zip (path_basename full)) stored_name = Some (stage, stored)"
      "(if \<not> q then (t2, False) else tx_cleanup te (install_phases cr senv te full stage stored allow t2)) = (t', ok)"
    using assms r q
    by (auto simp: wpm_archive_install_def Let_def simp del: tx_steps.simps split: if_splits option.splits)
  then show ?thesis
  proof cases
    case 3
    then show ?thesis using r q same by (cases q) (auto simp: install_enters_def simp del: tx_steps.simps)
  qed (use same in auto)
qed

lemma scripts_of_log: "tx_log t' = tx_log t \<Longrightarrow> tx_scripts t' = tx_scripts t"
  by (simp add: tx_scripts_def)

text \<open>C25: whatever an installation does and however it ends, its script has been started only when, before it, the
  signature of the staged package was accepted under the trust store of that moment, the staged files agreed with
  the index, the metadata could be read, and the architecture was compatible with what is installed.\<close>

theorem install_script_verified:
  assumes "wpm_archive_install cr senv te archive_path allow t = (t', ok)" "tx_scripts t' \<noteq> tx_scripts t"
  shows "\<exists>stage m. staged_verified cr senv te allow (tx_trust t) stage m"
proof -
  obtain t1 t2 full stage stored where e: "install_enters te archive_path allow t t1 t2 full stage stored"
    "tx_cleanup te (install_phases cr senv te full stage stored allow t2) = (t', ok)"
    using install_reached [OF assms(1)] assms(2) scripts_of_log by metis
  obtain t3 r where r: "install_phases cr senv te full stage stored allow t2 = (t3, r)" by force
  have "tx_scripts t2 = tx_scripts t" "tx_trust t2 = tx_trust t"
    using e(1) op_step_same staging_keeps unfolding install_enters_def by metis+
  moreover have "tx_scripts t' = tx_scripts t3" using e(2) cleanup_trusts unfolding r by blast
  ultimately show ?thesis using install_phases_verified [OF r] assms(2) by metis
qed

definition upgrade_enters ::
  "'s tx_env \<Rightarrow> string \<Rightarrow> string \<Rightarrow> bool \<Rightarrow> tx \<Rightarrow> tx \<Rightarrow> tx \<Rightarrow> string \<Rightarrow> string \<Rightarrow> string \<Rightarrow> string \<Rightarrow> bool" where
  "upgrade_enters te archive_path old_version allow t t1 t2 full base stage stored \<longleftrightarrow>
     op_step te (wpm_operation_archive ''upgrade'' archive_path (Some old_version) (Some (tx_url t)) allow)
       (t\<lparr>tx_key := [], tx_exit := 0\<rparr>) = (t1, True)
     \<and> \<not> wpm_operation_collecting (tx_op t1) \<and> te_full te = Some full
     \<and> stored_archive_name (tx_op t1) (path_basename full) = Some base \<and> tx_paths (te_root te) base base = Some (stage, stored)
     \<and> tx_steps [phase_start te ''stage'', clear_staging te] t1 = (t2, True)"

lemma upgrade_reached:
  assumes "wpm_archive_upgrade cr senv te archive_path allow expected old_version t = (t', ok)"
  shows "tx_log t' = tx_log t \<and> (ok \<longrightarrow> wpm_operation_collecting (tx_op t'))
    \<or> (\<exists>t1 t2 full base stage stored. upgrade_enters te archive_path old_version allow t t1 t2 full base stage stored
         \<and> tx_cleanup te (upgrade_phases cr senv te full base stage stored allow expected old_version t2) = (t', ok))"
proof -
  obtain t1 r where r: "op_step te (wpm_operation_archive ''upgrade'' archive_path (Some old_version) (Some (tx_url t)) allow)
      (t\<lparr>tx_key := [], tx_exit := 0\<rparr>) = (t1, r)" by force
  have same: "tx_log t1 = tx_log t" using op_step_same [OF r] by simp
  obtain p q where q: "phase_start te ''stage'' t1 = (p, q)" by force
  have log: "tx_log p = tx_log t" using keepsD [OF phase_keeps(1) q] same by simp
  obtain t2 c where c: "clear_staging te p = (t2, c)" by force
  have kept: "tx_log t2 = tx_log p" if "\<not> c" using c that by (auto simp: clear_staging_def split: if_splits)
  have steps: "tx_steps [phase_start te ''stage'', clear_staging te] t1 = (t2, True)" if "q" "c" using q c that by simp
  consider "(t', ok) = (t1, False)" | "(t', ok) = (t1, True)" "wpm_operation_collecting (tx_op t1)" | "(t', ok) = (p, False)"
    | full base stage stored where r q "\<not> wpm_operation_collecting (tx_op t1)" "te_full te = Some full"
      "stored_archive_name (tx_op t1) (path_basename full) = Some base" "tx_paths (te_root te) base base = Some (stage, stored)"
      "(if \<not> c then (t2, False) else tx_cleanup te (upgrade_phases cr senv te full base stage stored allow expected old_version t2)) = (t', ok)"
    using assms r q c
    by (auto simp: wpm_archive_upgrade_def Let_def simp del: tx_steps.simps split: if_splits option.splits prod.splits)
  then show ?thesis
  proof cases
    case 4
    show ?thesis
    proof (cases c)
      case True
      then have "upgrade_enters te archive_path old_version allow t t1 t2 full base stage stored"
        using 4 r steps by (simp add: upgrade_enters_def del: tx_steps.simps)
      then show ?thesis using 4(7) True by (metis (full_types))
    next
      case False
      then show ?thesis using 4(7) kept log by auto
    qed
  qed (use same log in auto)
qed

text \<open>C26: the script of an upgrade has been started only when the staged package was verified in the same way and
  its name, version and architecture are those of the candidate that was selected.\<close>

theorem upgrade_script_verified:
  assumes "wpm_archive_upgrade cr senv te archive_path allow expected old_version t = (t', ok)" "tx_scripts t' \<noteq> tx_scripts t"
  shows "\<exists>stage m. staged_verified cr senv te allow (tx_trust t) stage m \<and> expected_identity m expected"
proof -
  obtain t1 t2 full base stage stored where e: "upgrade_enters te archive_path old_version allow t t1 t2 full base stage stored"
    "tx_cleanup te (upgrade_phases cr senv te full base stage stored allow expected old_version t2) = (t', ok)"
    using upgrade_reached [OF assms(1)] assms(2) scripts_of_log by metis
  obtain t3 r where r: "upgrade_phases cr senv te full base stage stored allow expected old_version t2 = (t3, r)" by force
  have o: "op_step te (wpm_operation_archive ''upgrade'' archive_path (Some old_version) (Some (tx_url t)) allow)
      (t\<lparr>tx_key := [], tx_exit := 0\<rparr>) = (t1, True)" and st: "tx_steps [phase_start te ''stage'', clear_staging te] t1 = (t2, True)"
    using e(1) unfolding upgrade_enters_def by blast+
  have "tx_scripts t2 = tx_scripts t" "tx_trust t2 = tx_trust t"
    using op_step_same [OF o] staging_keeps [OF st] by (simp_all add: tx_scripts_def)
  moreover have "tx_scripts t' = tx_scripts t3" using e(2) cleanup_trusts unfolding r by blast
  ultimately show ?thesis using upgrade_phases_verified [OF r] assms(2) by metis
qed

subsection \<open>The trace of a successful transaction\<close>

text \<open>The log entry of a script that ran without an error, if the package has one.\<close>

definition script_events :: "script_env \<Rightarrow> tx_event list" where
  "script_events sc = (if sc_exists sc then [Ev_script 0] else [])"

lemma phase_log: "phase_start te p t = (t', ok) \<Longrightarrow> tx_log t' = tx_log t \<and> tx_key t' = tx_key t"
  "phase_finish te p t = (t', ok) \<Longrightarrow> tx_log t' = tx_log t \<and> tx_key t' = tx_key t"
  using keepsD [OF phase_keeps(1)] keepsD [OF phase_keeps(4)] keepsD [OF phase_keeps(5)] keepsD [OF phase_keeps(8)] by metis+

lemma op_step_log: "op_step te f t = (t', ok) \<Longrightarrow> tx_log t' = tx_log t \<and> tx_key t' = tx_key t \<and> tx_exit t' = tx_exit t"
  by (auto simp: op_step_def split: prod.splits)

lemma run_script_log:
  assumes "run_package_script caps te stage script t = (t', True)"
  shows "tx_log t' = tx_log t @ script_events (te_script te) \<and> tx_key t' = tx_key t
    \<and> (sc_exists (te_script te) \<longrightarrow> sc_exit (te_script te) = 0)"
proof -
  obtain t1 r where r: "tx_steps [op_step te (\<lambda>w st. (st, wpm_operation_before_script w st)), phase_start te ''script''] t = (t1, r)"
    by force
  have "list_all (keeps tx_log) [op_step te (\<lambda>w st. (st, wpm_operation_before_script w st)), phase_start te ''script'']"
    "list_all (keeps tx_key) [op_step te (\<lambda>w st. (st, wpm_operation_before_script w st)), phase_start te ''script'']"
    by (simp_all add: step_keeps)
  then have "tx_log t1 = tx_log t" "tx_key t1 = tx_key t" using keepsD [OF tx_steps_keeps r] by blast+
  then show ?thesis
    using assms r
    by (auto simp: run_package_script_def Let_def script_events_def simp del: tx_steps.simps split: if_splits prod.splits
        dest!: op_step_log phase_log)
qed

lemma retain_log:
  assumes "retain_step te archive stored t = (t', True)"
  shows "\<exists>evs. tx_log t' = tx_log t @ evs \<and> tx_key t' = tx_key t \<and> (evs = [Ev_stored] \<or> evs = [] \<and> strieq archive stored)"
  using assms by (auto simp: retain_step_def archive_store_input_def Let_def split: if_splits)

lemma cleanup_log:
  assumes "tx_cleanup te (t, ok) = (t', True)"
  shows "ok \<and> tx_log t' = tx_log t @ [Ev_staging_removed]"
  using assms by (auto simp: tx_cleanup_def split: if_splits prod.splits dest!: op_step_log phase_log)

lemma cleanup_events:
  assumes "tx_cleanup te (t, success) = (t', ok)"
  shows "\<exists>evs. tx_log t' = tx_log t @ evs \<and> set evs \<subseteq> {Ev_staging_removed} \<and> (ok \<longrightarrow> success)"
  using assms
  by (auto simp: tx_cleanup_def step_keeps simp del: tx_steps.simps split: if_splits prod.splits
      dest!: phase_log keepsD [OF tx_steps_keeps, rotated, where obs = tx_log])

lemma extract_log: "extract_step caps te archive stage t = (t', ok) \<Longrightarrow> \<exists>ws. tx_log t' = tx_log t @ [Ev_extracted ws]"
  by (auto simp: extract_step_def split: prod.splits)

lemma commit_trace:
  assumes "install_commit senv te archive stage stored m t = (t', True)"
  shows "\<exists>evs r. tx_log t' = tx_log t @ script_events (te_script te) @ evs
      @ [Ev_repository r, Ev_install_audit (path_basename stored) m (tx_key t)]
    \<and> (evs = [Ev_stored] \<or> evs = [] \<and> strieq archive stored)
    \<and> installed_architecture_is_compatible (te_root te) (te_installed te) m
    \<and> (sc_exists (te_script te) \<longrightarrow> sc_exit (te_script te) = 0)"
proof -
  let ?caps = "se_capabilities senv"
  obtain t1 t2 t3 t4 t5 t6 t7 t8 t9 where c: "installed_architecture_is_compatible (te_root te) (te_installed te) m"
    "phase_finish te ''validate'' t = (t1, True)"
    "run_package_script ?caps te stage (''.wpm'' @ BSLASH # ''install.cmd'') t1 = (t2, True)"
    "phase_start te ''retain-archive'' t2 = (t3, True)" "retain_step te archive stored t3 = (t4, True)"
    "phase_finish te ''retain-archive'' t4 = (t5, True)" "phase_start te ''audit'' t5 = (t6, True)"
    "repository_step ?caps te stored t6 = (t7, True)" "write_installation_audit ?caps te (path_basename stored) m t7 = (t8, True)"
    "phase_finish te ''audit'' t8 = (t9, True)" "t' = t9"
    using assms unfolding install_commit_def tx_steps_success check_True by auto
  obtain evs where evs: "tx_log t4 = tx_log t3 @ evs" "tx_key t4 = tx_key t3" "evs = [Ev_stored] \<or> evs = [] \<and> strieq archive stored"
    using retain_log [OF c(5)] by blast
  obtain r where r: "tx_log t7 = tx_log t6 @ [Ev_repository r]" "tx_key t7 = tx_key t6"
    using c(8) by (auto simp: repository_step_def)
  have "tx_log t8 = tx_log t7 @ [Ev_install_audit (path_basename stored) m (tx_key t7)]"
    using c(9) by (auto simp: write_installation_audit_def split: if_splits)
  then have "tx_log t' = tx_log t @ script_events (te_script te) @ evs
      @ [Ev_repository r, Ev_install_audit (path_basename stored) m (tx_key t)]"
    using phase_log(2) [OF c(2)] run_script_log [OF c(3)] phase_log(1) [OF c(4)] evs(1,2) phase_log(2) [OF c(6)]
      phase_log(1) [OF c(7)] r phase_log(2) [OF c(10)] c(11) by simp
  then show ?thesis using evs(3) c(1) run_script_log [OF c(3)] by blast
qed

text \<open>A successful installation has, in this order and with nothing in between, cleared its staging directory,
  extracted the archive, accepted a signing key, run the install script of the package with exit code 0 if there is
  one, stored the archive unless it was installed from the store, recorded its repository, written the audit with
  the accepted key, and removed the staging directory; and the staged files had been verified.\<close>

theorem install_trace:
  assumes "wpm_archive_install cr senv te archive_path allow t = (t', True)" "\<not> wpm_operation_collecting (tx_op t')"
  shows "\<exists>full stage stored m ws key evs r.
      tx_log t' = tx_log t @ [Ev_staging_cleared, Ev_extracted ws, Ev_key key] @ script_events (te_script te) @ evs
        @ [Ev_repository r, Ev_install_audit (path_basename stored) m key, Ev_staging_removed]
    \<and> te_full te = Some full \<and> (evs = [Ev_stored] \<or> evs = [] \<and> strieq full stored)
    \<and> (sc_exists (te_script te) \<longrightarrow> sc_exit (te_script te) = 0)
    \<and> staged_verified cr senv te allow (tx_trust t) stage m"
proof -
  obtain t1 t2 full stage stored where e: "install_enters te archive_path allow t t1 t2 full stage stored"
    "tx_cleanup te (install_phases cr senv te full stage stored allow t2) = (t', True)"
    using install_reached [OF assms(1)] assms(2) by blast
  obtain t3 ok where r: "install_phases cr senv te full stage stored allow t2 = (t3, ok)" by force
  have fin: "ok" "tx_log t' = tx_log t3 @ [Ev_staging_removed]" using cleanup_log e(2) unfolding r by blast+
  have o: "op_step te (wpm_operation_archive ''install'' archive_path None (Some (tx_url t)) allow) t = (t1, True)"
    and st: "tx_steps [phase_start te ''stage'', clear_staging te] t1 = (t2, True)" and full: "te_full te = Some full"
    using e(1) unfolding install_enters_def by blast+
  have log2: "tx_log t2 = tx_log t @ [Ev_staging_cleared]" "tx_trust t2 = tx_trust t"
    using st op_step_same [OF o] staging_keeps [OF st] unfolding tx_steps_success
    by (auto simp: clear_staging_def split: if_splits dest!: phase_log)
  obtain a b c x d f m where p: "phase_finish te ''stage'' t2 = (a, True)" "phase_start te ''extract'' a = (b, True)"
    "extract_step (se_capabilities senv) te full stage b = (c, True)"
    "phase_finish te ''extract'' c = (x, True) \<and> phase_start te ''validate'' x = (d, True)"
    "signature_step cr senv te allow d = (f, True)" "index_ok te stage"
    "read_package_metadata (te_package_txt te) = Some m" "install_commit senv te full stage stored m f = (t3, True)"
    using r fin(1) unfolding install_phases_def tx_steps_success check_True
    by (auto simp: tx_steps_success check_True simp del: tx_steps.simps(2) split: option.splits)
  obtain ws where ws: "tx_log c = tx_log b @ [Ev_extracted ws]" using extract_log [OF p(3)] by blast
  have "tx_trust c = tx_trust b" by (rule keepsD [OF extract_keeps(1) p(3)])
  moreover have "tx_trust x = tx_trust c" "tx_trust d = tx_trust x"
    using p(4) keepsD [OF phase_keeps(6)] keepsD [OF phase_keeps(2)] by metis+
  moreover have "tx_trust a = tx_trust t2" "tx_trust b = tx_trust a"
    using keepsD [OF phase_keeps(6) p(1)] keepsD [OF phase_keeps(2) p(2)] by auto
  ultimately have trust: "tx_trust d = tx_trust t" using log2(2) by simp
  have "tx_log d = tx_log c" using p(4) phase_log by metis
  obtain trust' key where key: "wpm_validate_package_signature cr senv (te_signature te) (te_index_bytes te) allow (te_answer te)
      (tx_trust t) = (trust', Some key)" "tx_log f = tx_log d @ [Ev_key key]" "tx_key f = key"
    using signature_step_True [OF p(5)] trust by auto
  obtain evs q where q: "tx_log t3 = tx_log f @ script_events (te_script te) @ evs
      @ [Ev_repository q, Ev_install_audit (path_basename stored) m key]" "evs = [Ev_stored] \<or> evs = [] \<and> strieq full stored"
    "installed_architecture_is_compatible (te_root te) (te_installed te) m"
    "sc_exists (te_script te) \<longrightarrow> sc_exit (te_script te) = 0"
    using commit_trace [OF p(8)] key(3) by blast
  have "staged_verified cr senv te allow (tx_trust t) stage m"
    unfolding staged_verified_def using key(1) p(6,7) q(3) by blast
  moreover have "tx_log t' = tx_log t @ [Ev_staging_cleared, Ev_extracted ws, Ev_key key] @ script_events (te_script te) @ evs
        @ [Ev_repository q, Ev_install_audit (path_basename stored) m key, Ev_staging_removed]"
    using fin(2) q(1) key(2) \<open>tx_log d = tx_log c\<close> ws phase_log(1) [OF p(2)] phase_log(2) [OF p(1)] log2(1) by simp
  ultimately show ?thesis using full q(2,4) by blast
qed

subsection \<open>Removal\<close>

definition tx_deletions :: "tx \<Rightarrow> tx_event list" where
  "tx_deletions t = filter (\<lambda>e. e = Ev_archive_deleted) (tx_log t)"

lemma keeps_deletions: "keeps tx_log f \<Longrightarrow> keeps tx_deletions f"
  by (simp add: keeps_def tx_deletions_def)

lemma run_script_deletions: "keeps tx_deletions (run_package_script caps te stage script)"
proof -
  have "tx_deletions t' = tx_deletions t" if "run_package_script caps te stage script t = (t', ok)" for t t' ok
  proof -
    obtain t1 r where r: "tx_steps [op_step te (\<lambda>w st. (st, wpm_operation_before_script w st)), phase_start te ''script''] t = (t1, r)"
      by force
    have "tx_log t1 = tx_log t" by (rule keepsD [OF tx_steps_keeps r]) (simp add: step_keeps)
    then show ?thesis
      using that r
      by (auto simp: run_package_script_def Let_def tx_deletions_def simp del: tx_steps.simps split: if_splits prod.splits
          dest!: op_step_log phase_log)
  qed
  then show ?thesis by (simp add: keeps_def) (metis surj_pair fst_conv)
qed

lemma extract_deletions: "keeps tx_deletions (extract_step caps te archive stage)"
  by (auto simp: keeps_def extract_step_def tx_deletions_def split: prod.split)

text \<open>The phases of a removal before the record is deleted.\<close>

lemma remove_split:
  obtains fs gs where "remove_phases senv te stage stored = tx_steps (fs @ gs)"
    "fs = [phase_finish te ''stage'', phase_start te ''extract'', extract_step (se_capabilities senv) te stored stage,
       phase_finish te ''extract'', phase_start te ''validate'', check (index_ok te stage),
       check (read_package_metadata (te_package_txt te) \<noteq> None), phase_finish te ''validate'',
       removal_script (se_capabilities senv) te stage stored,
       phase_start te ''remove-record'']"
    "gs = [\<lambda>t. if te_deleted te then (tx_emit Ev_archive_deleted t, True) else (t, False),
       \<lambda>t. (case repository_record_path WPM_PATH_SIZE stored of None \<Rightarrow> t | Some path \<Rightarrow> tx_emit (Ev_record_deleted path) t, True),
       phase_finish te ''remove-record'']"
  by (simp add: remove_phases_def del: tx_steps.simps)

lemma removal_script_keeps: "keeps tx_deletions (removal_script caps te stage stored)"
proof -
  have u: "tx_deletions (t\<lparr>tx_url := x\<rparr>) = tx_deletions t" for t x by (simp add: tx_deletions_def)
  have "tx_deletions (fst (run_package_script caps te stage script t)) = tx_deletions t" for script t
    using run_script_deletions unfolding keeps_def by blast
  then show ?thesis by (simp add: keeps_def removal_script_def Let_def case_prod_beta u)
qed

lemma removal_script_log:
  assumes "removal_script caps te stage stored t = (t', True)"
  shows "tx_log t' = tx_log t @ script_events (te_script te) \<and> (sc_exists (te_script te) \<longrightarrow> sc_exit (te_script te) = 0)"
  using assms by (auto simp: removal_script_def Let_def split: prod.splits dest!: run_script_log)

lemma remove_phases_deleted:
  assumes "remove_phases senv te stage stored t = (t', ok)" "ok \<or> tx_deletions t' \<noteq> tx_deletions t"
  shows "index_ok te stage \<and> read_package_metadata (te_package_txt te) \<noteq> None \<and> te_deleted te
    \<and> (sc_exists (te_script te) \<longrightarrow> sc_exit (te_script te) = 0)
    \<and> (\<exists>ws rest. tx_log t' = tx_log t @ [Ev_extracted ws] @ script_events (te_script te) @ [Ev_archive_deleted] @ rest
         \<and> (rest = [] \<or> (\<exists>path. rest = [Ev_record_deleted path])))"
proof -
  obtain fs gs where split: "remove_phases senv te stage stored = tx_steps (fs @ gs)"
    "fs = [phase_finish te ''stage'', phase_start te ''extract'', extract_step (se_capabilities senv) te stored stage,
       phase_finish te ''extract'', phase_start te ''validate'', check (index_ok te stage),
       check (read_package_metadata (te_package_txt te) \<noteq> None), phase_finish te ''validate'',
       removal_script (se_capabilities senv) te stage stored,
       phase_start te ''remove-record'']"
    "gs = [\<lambda>t. if te_deleted te then (tx_emit Ev_archive_deleted t, True) else (t, False),
       \<lambda>t. (case repository_record_path WPM_PATH_SIZE stored of None \<Rightarrow> t | Some path \<Rightarrow> tx_emit (Ev_record_deleted path) t, True),
       phase_finish te ''remove-record'']"
    by (rule remove_split)
  have keep: "list_all (keeps tx_deletions) fs"
    unfolding split(2) by (simp add: keeps_deletions phase_keeps check_keeps extract_deletions removal_script_keeps)
  obtain t1 where t1: "tx_steps fs t = (t1, True)" "tx_steps gs t1 = (t', ok)" "tx_deletions t1 = tx_deletions t"
  proof (cases "tx_deletions t' \<noteq> tx_deletions t")
    case True
    then show ?thesis using tx_steps_reached [OF assms(1) [unfolded split(1)] keep] that by blast
  next
    case False
    obtain t1 r where r: "tx_steps fs t = (t1, r)" by force
    then show ?thesis
      using assms False that keepsD [OF tx_steps_keeps [OF keep] r] by (auto simp: split(1) tx_steps_append split: if_splits)
  qed
  have new: "ok \<or> tx_deletions t' \<noteq> tx_deletions t1" using assms(2) t1(3) by simp
  have last: "te_deleted te" "\<exists>rest. tx_log t' = tx_log t1 @ [Ev_archive_deleted] @ rest \<and> (rest = [] \<or> (\<exists>path. rest = [Ev_record_deleted path]))"
    using t1(2) new unfolding split(3)
    by (auto split: if_splits option.splits prod.splits dest!: phase_log)
  obtain a b c d e f g where p: "phase_finish te ''stage'' t = (a, True)" "phase_start te ''extract'' a = (b, True)"
    "extract_step (se_capabilities senv) te stored stage b = (c, True)" "phase_finish te ''extract'' c = (d, True)"
    "phase_start te ''validate'' d = (e, True)" "index_ok te stage" "read_package_metadata (te_package_txt te) \<noteq> None"
    "phase_finish te ''validate'' e = (f, True)"
    "removal_script (se_capabilities senv) te stage stored f = (g, True)" "phase_start te ''remove-record'' g = (t1, True)"
    using t1(1) unfolding split(2) tx_steps_success check_True by (auto simp del: not_None_eq)
  obtain ws where ws: "tx_log c = tx_log b @ [Ev_extracted ws]" using extract_log [OF p(3)] by blast
  have "tx_log t1 = tx_log t @ [Ev_extracted ws] @ script_events (te_script te)"
    using phase_log(2) [OF p(1)] phase_log(1) [OF p(2)] ws phase_log(2) [OF p(4)] phase_log(1) [OF p(5)] phase_log(2) [OF p(8)]
      removal_script_log [OF p(9)] phase_log(1) [OF p(10)] by simp
  then show ?thesis using last p(6,7) removal_script_log [OF p(9)] by auto
qed

text \<open>C27: the retained archive of a package is deleted only after its files have been verified again, its metadata
  could be read, and its removal script, if there is one, has ended with exit code 0; until then nothing is
  deleted, whatever fails. A removal that reports success has deleted it, and has done exactly this, in this
  order.\<close>

theorem removal_trace:
  assumes "wpm_archive_remove senv te package_name t = (t', ok)" "\<not> wpm_operation_collecting (tx_op t')"
    and "ok \<or> tx_deletions t' \<noteq> tx_deletions t"
  shows "te_exists te \<and> (\<exists>stage. index_ok te stage) \<and> read_package_metadata (te_package_txt te) \<noteq> None
    \<and> (sc_exists (te_script te) \<longrightarrow> sc_exit (te_script te) = 0)
    \<and> (\<exists>ws rest. tx_log t' = tx_log t @ [Ev_staging_cleared, Ev_extracted ws] @ script_events (te_script te)
          @ [Ev_archive_deleted] @ rest \<and> set rest \<subseteq> {Ev_staging_removed} \<union> range Ev_record_deleted)"
proof -
  obtain stage stored t1 r where o: "tx_paths (te_root te) (strip_zip package_name) (strip_zip package_name @ ''.zip'') = Some (stage, stored)"
    "te_exists te" "op_step te (wpm_operation_archive ''remove'' stored None None True) t = (t1, r)"
    "(if \<not> r then (t1, False) else if wpm_operation_collecting (tx_op t1) then (t1, True)
      else (case tx_steps [phase_start te ''stage'', clear_staging te] t1 of
              (t, ok) \<Rightarrow> if \<not> ok then (t, False) else tx_cleanup te (remove_phases senv te stage stored t))) = (t', ok)"
    using assms(1,3)
    by (cases "op_step te (wpm_operation_archive ''remove'' (snd (the (tx_paths (te_root te) (strip_zip package_name)
          (strip_zip package_name @ ''.zip'')))) None None True) t")
      (auto simp: wpm_archive_remove_def Let_def simp del: tx_steps.simps split: if_splits option.splits prod.splits)
  have same: "tx_log t1 = tx_log t" using op_step_same [OF o(3)] by simp
  obtain t2 q where q: "tx_steps [phase_start te ''stage'', clear_staging te] t1 = (t2, q)" by force
  have log: "tx_log t2 = tx_log t @ (if q then [Ev_staging_cleared] else [])"
    using q same by (auto simp: clear_staging_def split: prod.splits if_splits dest!: phase_log)
  have del: "tx_deletions t1 = tx_deletions t" "tx_deletions t2 = tx_deletions t"
    using same log by (simp_all add: tx_deletions_def)
  have r: r "\<not> wpm_operation_collecting (tx_op t1)" q "tx_cleanup te (remove_phases senv te stage stored t2) = (t', ok)"
    using o(4) q assms(2,3) del by (auto simp del: tx_steps.simps split: if_splits)
  obtain t3 ok3 where t3: "remove_phases senv te stage stored t2 = (t3, ok3)" by force
  obtain evs where evs: "tx_log t' = tx_log t3 @ evs" "set evs \<subseteq> {Ev_staging_removed}" "ok \<longrightarrow> ok3"
    using r(4) cleanup_events unfolding t3 by metis
  have "tx_deletions t' = tx_deletions t3 @ filter (\<lambda>e. e = Ev_archive_deleted) evs" by (simp add: tx_deletions_def evs(1))
  moreover have "filter (\<lambda>e. e = Ev_archive_deleted) evs = []" using evs(2) by (auto simp: filter_empty_conv)
  ultimately have "ok3 \<or> tx_deletions t3 \<noteq> tx_deletions t2" using assms(3) evs(3) del by auto
  from remove_phases_deleted [OF t3 this] obtain ws rest where
    "index_ok te stage" "read_package_metadata (te_package_txt te) \<noteq> None" "sc_exists (te_script te) \<longrightarrow> sc_exit (te_script te) = 0"
    "tx_log t3 = tx_log t2 @ [Ev_extracted ws] @ script_events (te_script te) @ [Ev_archive_deleted] @ rest"
    "rest = [] \<or> (\<exists>path. rest = [Ev_record_deleted path])" by blast
  moreover from this have "tx_log t' = tx_log t @ [Ev_staging_cleared, Ev_extracted ws] @ script_events (te_script te)
      @ [Ev_archive_deleted] @ (rest @ evs)" using log r(3) evs(1) by simp
  moreover have "set (rest @ evs) \<subseteq> {Ev_staging_removed} \<union> range Ev_record_deleted"
    using evs(2) calculation(5) by auto
  ultimately show ?thesis using o(2) by blast
qed

subsection \<open>A failed upgrade can be found again\<close>

lemma run_script_exit:
  assumes "run_package_script caps te stage script t = (t', ok)" "tx_scripts t' \<noteq> tx_scripts t"
  shows "tx_exit t' = sc_exit (te_script te) \<and> (ok \<longrightarrow> sc_exit (te_script te) = 0)"
proof -
  obtain t1 r where r: "tx_steps [op_step te (\<lambda>w st. (st, wpm_operation_before_script w st)), phase_start te ''script''] t = (t1, r)"
    by force
  have same: "tx_log t1 = tx_log t" by (rule keepsD [OF tx_steps_keeps r]) (simp add: step_keeps)
  show ?thesis
    using assms r same
    by (auto simp: run_package_script_def Let_def tx_scripts_def simp del: tx_steps.simps split: if_splits prod.splits
        dest!: op_step_log phase_log)
qed

lemma commit_script_failed:
  assumes c: "upgrade_commit senv te archive base stage stored expected old m t = (t', ok)"
    and s: "tx_scripts t' \<noteq> tx_scripts t" "sc_exit (te_script te) \<noteq> 0" "audit_written (se_capabilities senv) te"
  shows "\<not> ok \<and> expected_identity m expected
    \<and> (\<exists>key. Ev_upgrade_audit (upgrade_audit_text (md_name m) (md_arch m) old (md_version m) base key True
          (Some ''install-script'') (sc_exit (te_script te))) \<in> set (tx_log t'))"
proof -
  let ?caps = "se_capabilities senv"
  let ?failed = "upgrade_failed ?caps te old base m"
  let ?pre = "[or_audit (check (expected_identity m expected)) (?failed ''metadata''),
        or_audit (check (installed_architecture_is_compatible (te_root te) (te_installed te) m)) (?failed ''architecture''),
        phase_finish te ''validate'']"
  let ?run = "run_package_script ?caps te stage (''.wpm'' @ BSLASH # ''install.cmd'')"
  let ?audit = "\<lambda>t. write_upgrade_audit ?caps te m old base True (Some ''install-script'') (tx_exit t)"
  let ?post = "[phase_start te ''retain-archive'', or_audit (retain_step te archive stored) (?failed ''archive-retention''),
        phase_finish te ''retain-archive'', phase_start te ''audit'', repository_step ?caps te stored,
        write_upgrade_audit ?caps te m old base False None 0, phase_finish te ''audit'']"
  have gs: "tx_steps (?pre @ or_audit ?run ?audit # ?post) t = (t', ok)"
    using c by (simp add: upgrade_commit_def Let_def del: tx_steps.simps)
  have "keeps tx_scripts (retain_step te archive stored)" "keeps tx_scripts (repository_step ?caps te stored)"
    by (auto simp: keeps_def retain_step_def archive_store_input_def repository_step_def Let_def tx_scripts_def)
  then have post: "list_all (keeps tx_scripts) ?post"
    by (simp add: step_keeps or_audit_keeps failed_keeps)
  have "list_all (keeps tx_scripts) ?pre" by (simp add: step_keeps or_audit_keeps failed_keeps)
  from tx_steps_reached [OF gs this s(1)] obtain t1 where t1: "tx_steps ?pre t = (t1, True)"
    "tx_steps (or_audit ?run ?audit # ?post) t1 = (t', ok)" "tx_scripts t1 = tx_scripts t" by blast
  have id: "expected_identity m expected" using t1(1) unfolding tx_steps_success or_audit_True check_True by blast
  obtain t2 r where r: "?run t1 = (t2, r)" by force
  show ?thesis
  proof (cases r)
    case True
    have "?run t1 = (t2, True)" using r True by simp
    from run_script_log [OF this] have l: "tx_log t2 = tx_log t1 @ script_events (te_script te)" "\<not> sc_exists (te_script te)"
      using s(2) by auto
    have o: "or_audit ?run ?audit t1 = (t2, True)" using r True by (simp add: or_audit_def)
    have "tx_steps ?post t2 = (t', ok)"
      using t1(2) unfolding tx_steps.simps(2) [of "or_audit ?run ?audit"] o by (simp only: prod.case if_True)
    from keepsD [OF tx_steps_keeps [OF post] this] have "tx_scripts t' = tx_scripts t2" .
    then have "tx_scripts t' = tx_scripts t1" using l by (simp add: tx_scripts_def script_events_def)
    then show ?thesis using s(1) t1(3) by simp
  next
    case False
    then have "(t', ok) = (fst (?audit t2 t2), False)" using t1(2) r by (simp add: or_audit_def)
    then have t': "\<not> ok" "t' = fst (?audit t2 t2)" by simp_all
    have "keeps tx_scripts (?audit t2)" by (rule upgrade_audit_keeps)
    then have "tx_scripts t2 \<noteq> tx_scripts t1" using t'(2) s(1) t1(3) by (simp add: keeps_def)
    then have "tx_exit t2 = sc_exit (te_script te)" using run_script_exit [OF r] by blast
    then show ?thesis using t' s(3) id by (auto simp: write_upgrade_audit_def)
  qed
qed

text \<open>The record a failed script of an upgrade leaves, as the list of recoveries shows it.\<close>

definition script_failure :: "metadata \<Rightarrow> string \<Rightarrow> string \<Rightarrow> nat \<Rightarrow> failure_record" where
  "script_failure m base old exit_status = \<lparr>fr_file = [], fr_name = md_name m, fr_arch = md_arch m, fr_old_version = old,
     fr_new_version = md_version m, fr_archive = base, fr_phase = ''install-script'', fr_exit_code = exit_status\<rparr>"

definition reported_back :: "failure_record \<Rightarrow> string option \<Rightarrow> bool" where
  "reported_back r key \<longleftrightarrow> (audit_writable r \<and> (\<forall>k. key = Some k \<longrightarrow> one_line k) \<and> length (audit_of r key True) < 16385
     \<longrightarrow> recovery_record (Some (audit_of r key True)) = Some r)"

lemma script_failure_text:
  "audit_of (script_failure m base old exit_status) key True
   = upgrade_audit_text (md_name m) (md_arch m) old (md_version m) base key True (Some ''install-script'') exit_status"
  by (simp add: audit_of_def script_failure_def)

lemma script_failure_reported_back: "reported_back (script_failure m base old exit_status) key"
proof -
  have "fr_file (script_failure m base old exit_status) = []" by (simp add: script_failure_def)
  then show ?thesis
    unfolding reported_back_def using failed_audit_round_trip [of "script_failure m base old exit_status" key] by simp
qed


end
