(* ===== verification/Archive_Sample.thy ===== *)
theory Archive_Sample
  imports Package_Build Signature_Sample
begin

text \<open>
  A small package that is built, signed and validated: the theorems on archives at concrete inputs. Entries are
  stored, the digest of a file is its hexadecimal text.
\<close>

definition sample_decoders :: "unit decoders" where
  "sample_decoders = \<lparr>zd_crc = sample_crc,
     zd_inflate = \<lparr>zs_start = Some (), zs_step = (\<lambda>s i. (Z_OK, 0, [], ())), zs_end = (\<lambda>s. True)\<rparr>,
     zd_hash = (\<lambda>data. take 64 (hex_text data @ replicate 64 (CHR ''0'')))\<rparr>"

definition sample_pack :: "string \<Rightarrow> string option \<Rightarrow> zip_entry" where
  "sample_pack n c =
     (let data = (case c of None \<Rightarrow> [] | Some t \<Rightarrow> t) in
      \<lparr>ze_info = \<lparr>zi_name = n, zi_method = Store, zi_encrypted = False, zi_compressed = int (length data),
                  zi_uncompressed = int (length data), zi_crc = sample_crc 0 data\<rparr>,
       ze_reader = \<lparr>zr_open = True, zr_reads = [Some data], zr_close = True\<rparr>, ze_dir = (c = None)\<rparr>)"

definition packed_sample :: "(string \<times> string option) list \<Rightarrow> zip_archive" where
  "packed_sample zs =
     (let es = map (\<lambda>(n, c). sample_pack n c) zs in
      \<lparr>za_entries = es, za_end = True,
       za_locate = (\<lambda>n. case find (\<lambda>e. normalize_archive_separators (ze_name e) = normalize_archive_separators n) es of
                          None \<Rightarrow> Not_located | Some e \<Rightarrow> Located e)\<rparr>)"

definition sample_build :: build_env where
  "sample_build = \<lparr>be_full = (\<lambda>p. if length p < 28 then Some p else None), be_hash = zd_hash sample_decoders, be_eol = [CR, LF]\<rparr>"

lemma sample_pack_ok: "pack_ok sample_decoders sample_pack"
  by (auto simp: pack_ok_def sample_pack_def Let_def entry_data_def wpm_zip_read_current_memory_def wpm_zip_read_current_entry_def
      read_entry_buffers_def store_buffer_def wpm_zip_output_write_def zip_output_for_def sample_decoders_def sample_crc_def)

lemma packed_sample_of: "archive_of sample_pack zs (packed_sample zs)"
proof -
  define es where "es = map (\<lambda>(n, c). sample_pack n c) zs"
  define test where "test = (\<lambda>n e. normalize_archive_separators (ze_name e) = normalize_archive_separators n)"
  have l: "za_locate (packed_sample zs) n = (case find (test n) es of None \<Rightarrow> Not_located | Some e \<Rightarrow> Located e)" for n
    by (simp add: packed_sample_def Let_def es_def test_def)
  have found: "e \<in> set es \<and> test n e" if "find (test n) es = Some e" for n e
    using that by (auto simp: find_Some_iff)
  have "\<exists>e'. za_locate (packed_sample zs) (ze_name e) = Located e'" if "e \<in> set es" for e
  proof -
    have "find (test (ze_name e)) es \<noteq> None" unfolding find_None_iff using that by (auto simp: test_def)
    then show ?thesis unfolding l by auto
  qed
  moreover have "e \<in> set es \<and> test n e" if "za_locate (packed_sample zs) n = Located e" for n e
    using that found unfolding l by (cases "find (test n) es") auto
  moreover have "za_entries (packed_sample zs) = es" "za_end (packed_sample zs)"
    by (simp_all add: packed_sample_def Let_def es_def)
  ultimately show ?thesis
    unfolding archive_of_def zip_locates_def by (simp add: es_def test_def)
qed

lemma sample_digest: "digests_agree sample_decoders sample_build"
proof -
  have "list_all lower_hex (take 64 (hex_text data @ replicate 64 (CHR ''0'')))" for data
  proof -
    have "list_all lower_hex (hex_text data @ replicate 64 (CHR ''0''))"
      using hex_text_lower [of data] by (simp add: list_all_iff lower_hex_def is_digit_def)
    then show ?thesis by (auto simp: list_all_iff dest: in_set_takeD)
  qed
  moreover have "length (take 64 (x @ replicate 64 (CHR ''0''))) = 64" for x by simp
  ultimately show ?thesis
    by (simp only: digests_agree_def hex_digest_def sample_build_def sample_decoders_def HASH_HEX_def build_env.simps decoders.simps) simp
qed

definition sample_package :: string where
  "sample_package = concat (map (\<lambda>l. l @ [LF]) sample_package_text)"

definition source_tree :: "(string \<times> fs_node) list" where
  "source_tree = [(''.'', FS_dir []), (''..'', FS_dir []), (''.wpm'', FS_dir [(''package.txt'', FS_file sample_package)]),
     (''bin'', FS_dir [(''tool.exe'', FS_file ''MZ'')])]"

definition sample_index :: string where
  "sample_index = index_header @ [CR, LF] @ index_line sample_build ''.wpm/package.txt'' sample_package
     @ index_line sample_build ''bin/tool.exe'' ''MZ''"

definition sample_entries :: "(string \<times> string option) list" where
  "sample_entries = [(''.wpm/'', None), (''.wpm/package.txt'', Some sample_package), (''.wpm/index.csv'', Some sample_index),
     (''.wpm/signature.json'', Some (sample_signature sample_index)), (''bin/'', None), (''bin/tool.exe'', Some ''MZ'')]"

lemma sample_hash_length: "length (be_hash sample_build data) = 64"
  by (simp add: sample_build_def sample_decoders_def)

lemma decimal_short: "length (decimal n) \<le> Suc n"
  by (induction n rule: decimal.induct) (subst decimal.simps, auto)

definition sample_name :: string where "sample_name = ''wpm-tool-any-debug-1.2.3+b.zip''"

lemma sample_normalize: "normalize_archive_separators (c # p) = (if c = BSLASH then SLASH else c) # normalize_archive_separators p"
  "normalize_archive_separators [] = []"
  by (simp_all add: normalize_archive_separators_def)

lemma sample_full: "length p < 28 \<Longrightarrow> be_full sample_build p = Some p" "be_eol sample_build = [CR, LF]"
  by (simp_all add: sample_build_def)

lemma sample_index_lines:
  "write_index_entries sample_build [] ''o'' ''c:s'' [] source_tree
     = Some [index_line sample_build ''.wpm/package.txt'' sample_package, index_line sample_build ''bin/tool.exe'' ''MZ'']"
  by (simp add: source_tree_def dots_def archive_join_path_def archive_entry_path_def fits_def not_indexed_def
      sample_normalize sample_full strieq_def lower_def WPM_PATH_SIZE_def is_ignored_by_list_def)

lemma sample_built:
  "wpm_archive_build sample_crypto sample_env sample_build ''c:s'' ''d:'' True
     (Some (CHR ''k'' # [], Some (private_text sample_crypto sample_secret))) source_tree = Some (sample_name, sample_entries)"
proof -
  define signed where "signed = sample_signature sample_index"
  define md where "md = \<lparr>md_name = ''wpm-tool'', md_version = ''1.2.3+b'', md_arch = ''any'', md_debug = True\<rparr>"
  define out where "out = ''d:'' @ BSLASH # sample_name"
  have m: "read_package_metadata (wpm_file ''package.txt'' source_tree) = Some md"
    using sample_package_metadata by (simp add: source_tree_def strieq_def lower_def sample_package_def md_def)
  have w: "write_index_entries sample_build [] out ''c:s'' [] source_tree
      = Some [index_line sample_build ''.wpm/package.txt'' sample_package, index_line sample_build ''bin/tool.exe'' ''MZ'']"
    by (simp add: out_def sample_name_def source_tree_def dots_def archive_join_path_def archive_entry_path_def fits_def not_indexed_def
        sample_normalize sample_full strieq_def lower_def WPM_PATH_SIZE_def is_ignored_by_list_def)
  have "load_ignore_list (wpm_file ''wpmignore.txt'' source_tree) = []"
    by (simp add: source_tree_def load_ignore_list_def strieq_def lower_def)
  then have i: "update_package_index sample_build (load_ignore_list (wpm_file ''wpmignore.txt'' source_tree)) out ''c:s'' source_tree
      = Some sample_index"
    using w by (simp add: update_package_index_def archive_join_path_def fits_def WPM_PATH_SIZE_def sample_index_def sample_full)
  have f: "wpm_file ''index.csv'' (put_wpm ''index.csv'' sample_index source_tree) = Some sample_index"
    by (simp add: source_tree_def put_file_def strieq_def lower_def)
  have z: "add_directory_to_zip sample_build out ''c:s'' []
      (put_wpm ''signature.json'' signed (put_wpm ''index.csv'' sample_index source_tree)) = Some sample_entries"
    by (simp add: out_def sample_name_def source_tree_def put_file_def dots_def archive_join_path_def archive_entry_path_def fits_def
        sample_full strieq_def lower_def WPM_PATH_SIZE_def sample_entries_def signed_def)
  have t: "trim_trailing_separators ''c:s'' = ''c:s''" "trim_trailing_separators ''d:'' = ''d:''"
    by (simp_all add: trim_trailing_separators.simps)
  have n: "built_archive_name md = sample_name" by (simp add: built_archive_name_def md_def sample_name_def)
  have j: "archive_join_path WPM_PATH_SIZE ''d:'' sample_name = Some out" "archive_join_path WPM_PATH_SIZE ''c:s'' ''*'' \<noteq> None"
    by (simp_all add: archive_join_path_def fits_def WPM_PATH_SIZE_def out_def sample_name_def)
  show ?thesis
    using sample_can_write m i f z t n j sample_signed [of sample_index]
    by (simp add: wpm_archive_build_def sample_full signed_def Let_def)
qed

lemma source_tree_facts:
  "has_wpm source_tree [(''.'', FS_dir []), (''..'', FS_dir [])] [(''package.txt'', FS_file sample_package)]
     [(''bin'', FS_dir [(''tool.exe'', FS_file ''MZ'')])]"
  "all_indexed (load_ignore_list (wpm_file ''wpmignore.txt'' source_tree)) [] source_tree"
proof -
  have i: "load_ignore_list (wpm_file ''wpmignore.txt'' source_tree) = []"
    by (simp add: source_tree_def load_ignore_list_def strieq_def lower_def)
  show "has_wpm source_tree [(''.'', FS_dir []), (''..'', FS_dir [])] [(''package.txt'', FS_file sample_package)]
     [(''bin'', FS_dir [(''tool.exe'', FS_file ''MZ'')])]"
    by (simp add: has_wpm_def source_tree_def strieq_def lower_def)
  show "all_indexed (load_ignore_list (wpm_file ''wpmignore.txt'' source_tree)) [] source_tree"
    unfolding i by (simp add: source_tree_def dots_def not_indexed_def is_ignored_by_list_def support_entry_def strieq_def lower_def)
qed

lemma sample_paths:
  "be_full sample_build ''c:s'' = Some full \<Longrightarrow> length full + 32 < WPM_PATH_SIZE"
  "be_full sample_build p = Some full' \<Longrightarrow> \<not> strieq full' (x @ sample_name)"
  using strieq_length [of full' "x @ sample_name"]
  by (auto simp: sample_full WPM_PATH_SIZE_def) (auto simp: sample_build_def sample_name_def split: if_splits)

lemma sample_files: "indexed_files sample_entries = [(''.wpm/package.txt'', sample_package), (''bin/tool.exe'', ''MZ'')]"
  by (simp add: sample_entries_def support_entry_def strieq_def lower_def)

lemma sample_index_text: "index_text sample_build sample_entries = sample_index"
  by (simp add: index_text_def sample_files sample_index_def sample_full)

lemma sample_distinct: "names_distinct sample_entries"
  by (simp add: names_distinct_def sample_entries_def sample_normalize lower_def)

lemma sample_package_small: "length sample_package \<le> 100"
  by (simp add: sample_package_def sample_package_text_def)

lemma sample_fit: "entries_fit sample_entries"
proof -
  have "list_all (\<lambda>(n, c). is_safe_archive_path n) sample_entries"
    by (simp add: sample_entries_def is_safe_archive_path_def is_slash_def)
  then have safe: "\<forall>(n, c) \<in> set sample_entries. is_safe_archive_path n" by (simp only: list_all_iff)
  have "index_name ''.wpm/package.txt''" "index_name ''bin/tool.exe''"
    by (simp_all add: index_name_def is_safe_archive_path_def is_slash_def trim_line_def)
  moreover have "length sample_entries \<le> MAX_INDEXED" by (simp add: sample_entries_def MAX_INDEXED_def)
  ultimately show ?thesis
    using sample_package_small safe unfolding entries_fit_def sample_files by (simp add: ULLONG_MAX_def)
qed

lemma sample_short: "length (index_text sample_build sample_entries) \<le> 4 * 1024 * 1024"
  using sample_package_small decimal_short [of "length sample_package"] decimal_short [of "Suc (Suc 0)"]
  unfolding sample_index_text by (simp add: sample_index_def index_line_def sample_hash_length sample_full index_header_def)

lemma sample_keys: "cr_key_id sample_crypto (public_part sample_secret) = Some sample_id"
  "load_public sample_crypto (public_text sample_crypto sample_public) = Some (public_part sample_secret)"
  "length ''c:'' + 79 < 4096"
  using sample_key sample_loads(2) by (simp_all add: sample_lengths)


lemma sample_valid:
  "archive_validate_handle sample_crypto sample_env sample_store sample_decoders (Some (packed_sample sample_entries)) False
     = Some sample_id"
  by (rule build_validates [OF sample_built source_tree_facts _ _ sample_distinct sample_fit
      sample_digest sample_short sample_pack_ok packed_sample_of sample_signing_ok sample_loads(1) sample_keys(1)
      sample_trusted(1) sample_keys(2) sample_trusted(2,3) sample_keys(3)]) (rule sample_paths; assumption)+

lemma sample_decoders_crc: "crc_law (zd_crc sample_decoders)"
  using sample_crc_law by (simp add: sample_decoders_def)

lemma sample_tool: "sample_pack ''bin/tool.exe'' (Some ''MZ'') \<in> set (za_entries (packed_sample sample_entries))"
  by (simp add: packed_sample_def Let_def sample_entries_def)

theorem validated_archive_well_formed_witness:
  "length (za_entries (packed_sample sample_entries)) = 6
   \<and> distinct (map entry_key (za_entries (packed_sample sample_entries)))
   \<and> entry_data sample_decoders (sample_pack ''bin/tool.exe'' (Some ''MZ'')) 2 \<noteq> None"
proof -
  note w = validated_archive_well_formed [OF sample_valid sample_decoders_crc]
  have "\<exists>data. entry_data sample_decoders (sample_pack ''bin/tool.exe'' (Some ''MZ''))
      (nat (zi_uncompressed (ze_info (sample_pack ''bin/tool.exe'' (Some ''MZ''))))) = Some data"
    using w sample_tool by (fastforce simp: sample_pack_def Let_def)
  then show ?thesis using w by (auto simp: packed_sample_def Let_def sample_entries_def sample_pack_def numeral_2_eq_2)
qed

theorem signed_archive_authentic_witness:
  "\<exists>index data. read_zip_text sample_decoders (packed_sample sample_entries) ''.wpm/index.csv'' (4 * 1024 * 1024) = File_text index
     \<and> entry_data sample_decoders (sample_pack ''bin/tool.exe'' (Some ''MZ'')) 2 = Some data
     \<and> index_records sample_decoders index ''bin/tool.exe'' data"
proof -
  define e where "e = sample_pack ''bin/tool.exe'' (Some ''MZ'')"
  have locates: "zip_locates (packed_sample sample_entries)"
    using packed_sample_of [of sample_entries] unfolding archive_of_def by blast
  have "sample_id \<noteq> ''unsigned''"
  proof
    assume "sample_id = ''unsigned''"
    then have "length sample_id = length ''unsigned''" by (rule arg_cong)
    then show False by (simp add: sample_id_def hex_text_length sample_lengths)
  qed
  note a = signed_archive_authentic [OF sample_valid this locates sample_decoders_crc]
  have e: "e \<in> set (za_entries (packed_sample sample_entries))" "\<not> ze_dir e" "ze_name e = ''bin/tool.exe''"
    "nat (zi_uncompressed (ze_info e)) = 2" "\<not> support_entry (ze_name e)"
    using sample_tool by (simp_all add: e_def sample_pack_def Let_def support_entry_def strieq_def lower_def)
  then show ?thesis using a unfolding e_def [symmetric] by (metis (no_types, lifting))
qed

end
