(* ===== verification/Transaction_Sample.thy ===== *)
theory Transaction_Sample
  imports Package_Transaction Archive_Sample Operation_Sample
begin

text \<open>
  The package of \<open>Archive_Sample\<close> is extracted, verified, installed, upgraded and removed: the theorems on
  transactions at concrete inputs. No plan is active, and the calls of the system succeed unless stated.
\<close>

subsection \<open>The staging directory\<close>

definition sample_stage :: string where
  "sample_stage = ''c:'' @ BSLASH # ''temp'' @ BSLASH # ''demo''"

definition sample_extract :: extract_env where
  "sample_extract = \<lparr>xe_directories = (\<lambda>p. True), xe_symlink = (\<lambda>e. False), xe_created = (\<lambda>p. True),
     xe_fails = (\<lambda>p n. False), xe_closed = (\<lambda>p. True)\<rparr>"

text \<open>The build environment whose index is read in text mode.\<close>

definition text_build :: build_env where
  "text_build = sample_build\<lparr>be_eol := [LF]\<rparr>"

definition sample_staged :: staged where
  "sample_staged = \<lparr>sg_tree = [(''.'', FS_dir []), (''..'', FS_dir []),
       (''.wpm'', FS_dir [(''index.csv'', FS_file sample_index), (''package.txt'', FS_file sample_package),
          (''signature.json'', FS_file (sample_signature sample_index))]),
       (''bin'', FS_dir [(''tool.exe'', FS_file ''MZ'')])],
     sg_index = File_text (index_text text_build sample_entries), sg_index_end = True, sg_index_closed = True, sg_signed = True,
     sg_reads = (\<lambda>p. if p = sample_stage @ BSLASH # ''.wpm'' @ BSLASH # ''package.txt'' then Some [Some sample_package, Some []]
        else if p = sample_stage @ BSLASH # ''bin'' @ BSLASH # ''tool.exe'' then Some [Some ''M'', Some ''Z'', Some []] else None),
     sg_closed = (\<lambda>p. True), sg_pool_wait = (\<lambda>n. True)\<rparr>"

lemma text_digest: "digests_agree sample_decoders text_build"
  using sample_digest by (simp add: digests_agree_def text_build_def)

lemma sample_staged_from: "staged_from text_build sample_entries sample_staged sample_stage"
proof -
  have line: "length (line_of text_build n data) + 2 < INDEX_LINE" if "length n < 30" "length data \<le> 100" for n data
    using that decimal_short [of "length data"] sample_hash_length [of data]
    by (simp add: line_of_def text_build_def INDEX_LINE_def WPM_PATH_SIZE_def)
  have "sample_package \<noteq> []" by (simp add: sample_package_def sample_package_text_def)
  then show ?thesis
    unfolding staged_from_def sample_files
    using line [of "''.wpm/package.txt''" sample_package] line [of "''bin/tool.exe''" "''MZ''"] sample_package_small
    by (simp add: sample_staged_def sample_stage_def backslashed_def archive_join_path_def fits_def WPM_PATH_SIZE_def
        staged_path_def sample_normalize dots_def support_entry_def strieq_def lower_def)
qed

lemma sample_staged_verified: "verify_package_index (zd_hash sample_decoders) sample_staged sample_stage"
  by (rule built_index_stages [OF sample_fit text_digest sample_staged_from])



subsection \<open>The extraction\<close>

definition tool_entries :: "(string \<times> string option) list" where
  "tool_entries = [(''bin/'', None), (''bin/tool.exe'', Some ''MZ'')]"

definition tool_written :: "(string \<times> string option) list" where
  "tool_written = [(sample_stage @ BSLASH # ''bin'' @ [BSLASH], None),
     (sample_stage @ BSLASH # ''bin'' @ BSLASH # ''tool.exe'', Some ''MZ'')]"

lemma tool_extracted:
  "wpm_archive_extract_with_label all_capabilities sample_extract sample_decoders (Some (packed_sample tool_entries)) sample_stage
     = (tool_written, True)"
proof -
  have "wpm_require_capability WPM_CAP_WRITE all_capabilities" using sample_can_write by (simp add: sample_env_def)
  then show ?thesis
    by (simp add: wpm_archive_extract_with_label_def sample_extract_def tool_written_def tool_entries_def packed_sample_def
        sample_pack_def Let_def is_safe_archive_path_def is_slash_def backslashed_def archive_join_path_def fits_def WPM_PATH_SIZE_def
        create_parent_directory_def parent_of_def sample_stage_def strieq_def lower_def wpm_zip_extract_current_file_def
        wpm_zip_read_current_entry_def read_entry_buffers_def store_buffer_def wpm_zip_output_write_def zip_output_for_def
        sample_decoders_def sample_crc_def)
qed

theorem extraction_confined_witness:
  "length tool_written = 2 \<and> written_for sample_extract sample_decoders sample_stage
     (za_entries (packed_sample tool_entries) ! 1) (tool_written ! 1)"
proof -
  have n: "length tool_written = 2" by (simp add: tool_written_def)
  then have "1 < length tool_written" by simp
  then show ?thesis using n extraction_confined [OF sample_decoders_crc tool_extracted] by blast
qed

subsection \<open>The transactions\<close>

definition sample_te :: "bool \<Rightarrow> nat \<Rightarrow> unit tx_env" where
  "sample_te script exit_status = \<lparr>te_worlds = (\<lambda>n. sample_world True), te_full = Some (''c:'' @ BSLASH # ''demo''),
     te_root = Some ''c:'', te_directories = True, te_clear = (\<lambda>n. True),
     te_at_path = Some (packed_sample tool_entries), te_retained = None, te_extract = sample_extract, te_decoders = sample_decoders,
     te_staged = sample_staged, te_signature = File_text (sample_signature sample_index), te_index_bytes = Some sample_index,
     te_answer = None, te_package_txt = Some sample_package, te_installed = Some [],
     te_script = \<lparr>sc_exists = script, sc_log = True, sc_pipe = True, sc_started = True, sc_exit = exit_status\<rparr>,
     te_copied = True, te_environment = None, te_recorded = True, te_record_text = None, te_audit_directory = True,
     te_audit_opened = True, te_audit_closed = True, te_exists = True, te_deleted = True\<rparr>"

definition sample_tx :: tx where
  "sample_tx = \<lparr>tx_op = op_start, tx_trust = sample_store, tx_url = [], tx_key = [], tx_exit = 0, tx_calls = 0, tx_log = []\<rparr>"

definition sample_md :: metadata where
  "sample_md = \<lparr>md_name = ''wpm-tool'', md_version = ''1.2.3+b'', md_arch = ''any'', md_debug = True\<rparr>"

text \<open>The states on the way. Without an active plan the calls into it do nothing.\<close>

definition tx_at :: "nat \<Rightarrow> string \<Rightarrow> nat \<Rightarrow> tx_event list \<Rightarrow> tx" where
  "tx_at n k x l = \<lparr>tx_op = op_start, tx_trust = sample_store, tx_url = [], tx_key = k, tx_exit = x, tx_calls = n, tx_log = l\<rparr>"

lemma tx_at_fields:
  "tx_op (tx_at n k x l) = op_start" "tx_trust (tx_at n k x l) = sample_store" "tx_url (tx_at n k x l) = []"
  "tx_key (tx_at n k x l) = k" "tx_exit (tx_at n k x l) = x" "tx_calls (tx_at n k x l) = n" "tx_log (tx_at n k x l) = l"
  "(tx_at n k x l)\<lparr>tx_exit := x'\<rparr> = tx_at n k x' l" "(tx_at n k x l)\<lparr>tx_key := k'\<rparr> = tx_at n k' x l"
  "(tx_at n k x l)\<lparr>tx_url := []\<rparr> = tx_at n k x l" "(tx_at n k x l)\<lparr>tx_calls := m\<rparr> = tx_at m k x l"
  "tx_emit e (tx_at n k x l) = tx_at n k x (l @ [e])"
  by (simp_all add: tx_at_def tx_emit_def)

lemma idle_steps:
  "p \<noteq> [] \<Longrightarrow> phase_start te p (tx_at n k x l) = (tx_at (n + 1) k x l, True)"
  "p \<noteq> [] \<Longrightarrow> phase_finish te p (tx_at n k x l) = (tx_at (n + 1) k x l, True)"
  "op_step te (wpm_operation_archive a ar old src al) (tx_at n k x l) = (tx_at (n + 1) k x l, True)"
  "op_step te (wpm_operation_external_start a) (tx_at n k x l) = (tx_at (n + 1) k x l, True)"
  "op_step te (wpm_operation_script_result m) (tx_at n k x l) = (tx_at (n + 1) k x l, True)"
  "op_step te wpm_operation_completed (tx_at n k x l) = (tx_at (n + 1) k x l, True)"
  by (simp_all add: phase_start_def phase_finish_def op_step_def op_start_def wpm_operation_phase_start_def
      wpm_operation_phase_finish_def wpm_operation_archive_def wpm_operation_external_start_def wpm_operation_script_result_def
      wpm_operation_completed_def tx_at_def)

definition sample_install_cmd :: string where "sample_install_cmd = ''.wpm'' @ BSLASH # ''install.cmd''"
definition sample_stored :: string where "sample_stored = ''c:'' @ BSLASH # ''packages'' @ BSLASH # ''demo''"
definition sample_kept :: string where "sample_kept = ''c:'' @ BSLASH # ''packages'' @ BSLASH # ''demo.zip''"
definition sample_full_path :: string where "sample_full_path = ''c:'' @ BSLASH # ''demo''"

lemma sample_caps: "se_capabilities sample_env = all_capabilities" "wpm_require_capability WPM_CAP_WRITE all_capabilities"
  "wpm_require_capability WPM_CAP_SCRIPT all_capabilities"
  by (simp_all add: sample_env_def wpm_require_capability_def all_capabilities_def capability_defs)

lemma sample_extract_step:
  "extract_step all_capabilities (sample_te s e) a sample_stage (tx_at n k x l) = (tx_at n k x (l @ [Ev_extracted tool_written]), True)"
proof -
  have "archive_reader_open a (te_worlds (sample_te s e) n) op_start (te_at_path (sample_te s e)) (te_retained (sample_te s e))
      = Some (packed_sample tool_entries)"
    by (simp add: archive_reader_open_def wpm_operation_input_def current_item_def op_start_def sample_te_def)
  then show ?thesis
    using tool_extracted by (simp add: extract_step_def tx_at_fields) (simp add: sample_te_def)
qed

lemma sample_signature_step:
  "signature_step sample_crypto sample_env (sample_te s e) False (tx_at n k x l)
     = (tx_at n sample_id x (l @ [Ev_key sample_id]), True)"
proof -
  have "length ''c:'' + 79 < 4096" by simp
  from package_round_trip [OF sample_signing_ok sample_signed sample_loads(1) _ sample_trusted(1) _ sample_trusted(2,3) this]
  have "wpm_validate_package_signature sample_crypto sample_env (File_text (sample_signature sample_index)) (Some sample_index)
      False None sample_store = (sample_store, Some sample_id)"
    using sample_key sample_loads(2) sample_can_write by (simp add: sample_lengths) (simp add: sample_env_def)
  then show ?thesis by (simp add: signature_step_def sample_te_def tx_at_def tx_emit_def)
qed

lemma sample_index_ok: "index_ok (sample_te s e) sample_stage"
  using sample_staged_verified by (simp add: index_ok_def sample_te_def)

lemma sample_metadata_read: "read_package_metadata (te_package_txt (sample_te s e)) = Some sample_md"
  using sample_package_metadata by (simp add: sample_te_def sample_package_def sample_md_def)

lemma sample_compatible: "installed_architecture_is_compatible (Some ''c:'') (te_installed (sample_te s e)) m"
  by (simp add: installed_architecture_is_compatible_def sample_te_def)

lemma sample_script_path: "archive_join_path WPM_PATH_SIZE sample_stage (''.wpm'' @ BSLASH # ''install.cmd'') \<noteq> None"
  "archive_join_path WPM_PATH_SIZE sample_stage (''.wpm'' @ BSLASH # ''remove.cmd'') \<noteq> None"
  by (simp_all add: sample_stage_def archive_join_path_def fits_def WPM_PATH_SIZE_def)

lemma sample_script_run:
  assumes "archive_join_path WPM_PATH_SIZE sample_stage script \<noteq> None"
  shows "run_package_script all_capabilities (sample_te True e) sample_stage script (tx_at n k x l)
     = (tx_at (n + 4) k e (l @ [Ev_script e]), e = 0)"
proof -
  have "op_step (sample_te True e) (\<lambda>w st. (st, wpm_operation_before_script w st)) (tx_at n k x l) = (tx_at (n + 1) k x l, True)"
    using sample_caps(3)
    by (simp add: op_step_def tx_at_fields sample_te_def wpm_operation_before_script_def op_start_def sample_world_def)
  moreover obtain path where "archive_join_path WPM_PATH_SIZE sample_stage script = Some path" using assms by blast
  moreover have "te_script (sample_te True e) = \<lparr>sc_exists = True, sc_log = True, sc_pipe = True, sc_started = True, sc_exit = e\<rparr>"
    by (simp add: sample_te_def)
  ultimately show ?thesis
    using sample_caps(2) by (simp add: run_package_script_def Let_def idle_steps tx_at_fields eval_nat_numeral)
qed

lemma sample_te_parts:
  "te_full (sample_te s e) = Some sample_full_path" "te_root (sample_te s e) = Some ''c:''" "te_exists (sample_te s e)"
  "te_deleted (sample_te s e)" "te_script (sample_te s e) = \<lparr>sc_exists = s, sc_log = True, sc_pipe = True, sc_started = True, sc_exit = e\<rparr>"
  "te_audit_closed (sample_te s e)" "te_environment (sample_te s e) = None" "te_record_text (sample_te s e) = None"
  "te_clear (sample_te s e) n" "te_recorded (sample_te s e)"
  by (simp_all add: sample_te_def sample_full_path_def)

lemma sample_steps:
  "archive_store_input (sample_te s e) dest (tx_at n k x l) = (tx_at (n + 1) k x (l @ [Ev_stored]), True)"
  "clear_staging (sample_te s e) (tx_at n k x l) = (tx_at n k x (l @ [Ev_staging_cleared]), True)"
  "audit_written all_capabilities (sample_te s e)"
  "stored_archive_name op_start base = Some base" "\<not> wpm_operation_collecting op_start" "\<not> op_active op_start"
  using sample_caps(2)
  by (simp_all add: archive_store_input_def wpm_operation_store_input_def op_start_def tx_at_fields sample_te_def Let_def
      clear_staging_def audit_written_def stored_archive_name_def wpm_operation_store_name_def wpm_operation_collecting_def)

lemma sample_tx_paths:
  "path_basename sample_full_path = ''demo''" "strip_zip ''demo'' = ''demo''" "is_valid_package_name ''demo''"
  "tx_paths (Some ''c:'') ''demo'' ''demo'' = Some (sample_stage, sample_stored)" "\<not> strieq sample_full_path sample_stored"
  "tx_paths (Some ''c:'') ''demo'' ''demo.zip'' = Some (sample_stage, sample_kept)" "path_basename sample_stored = ''demo''"
  "repository_record_path WPM_PATH_SIZE sample_stored = Some (sample_stored @ ''.repository.txt'')"
  "repository_record_path WPM_PATH_SIZE sample_kept = Some (sample_kept @ ''.repository.txt'')"
  by (simp_all add: path_basename_def sample_full_path_def is_slash_def strip_zip_def Let_def strieq_def lower_def is_valid_package_name_def
      tx_paths_def archive_join_path_def fits_def WPM_PATH_SIZE_def sample_stage_def sample_stored_def
      sample_kept_def repository_record_path_def)

lemma sample_repository:
  "active_repository_url [] None = None"
  "record_archive_repository all_capabilities sample_stored None True = (Some (sample_stored @ ''.repository.txt'', None), True)"
  "load_archive_repository sample_kept WPM_PATH_SIZE None = None" "wpm_archive_set_repository_url None = []"
  using sample_caps(2) sample_tx_paths(8,9)
  by (simp_all add: active_repository_url_def record_archive_repository_def load_archive_repository_def wpm_archive_set_repository_url_def)

lemmas sample_run = idle_steps tx_at_fields sample_extract_step sample_signature_step sample_index_ok sample_metadata_read
  sample_compatible sample_script_run [OF sample_script_path(1), simplified append.simps]
  sample_script_run [OF sample_script_path(2), simplified append.simps] sample_te_parts
  sample_steps sample_tx_paths sample_repository sample_caps check_def or_audit_def retain_step_def repository_step_def
  tx_cleanup_def

definition install_log :: "tx_event list" where
  "install_log = [Ev_staging_cleared, Ev_extracted tool_written, Ev_key sample_id, Ev_script 0, Ev_stored,
     Ev_repository (Some (sample_stored @ ''.repository.txt'', None)), Ev_install_audit ''demo'' sample_md sample_id,
     Ev_staging_removed]"

lemma sample_installed:
  "wpm_archive_install sample_crypto sample_env (sample_te True 0) a False (tx_at 0 [] 0 []) = (tx_at 19 sample_id 0 install_log, True)"
  unfolding wpm_archive_install_def
  by (simp add: sample_run install_phases_def install_commit_def write_installation_audit_def Let_def install_log_def)

lemma sample_new_scripts: "tx_scripts (tx_at n k x (l @ [Ev_script e] @ r)) \<noteq> tx_scripts (tx_at m k' x' [])"
  by (auto simp: tx_scripts_def tx_at_fields)

theorem install_script_verified_witness:
  "\<exists>stage m. staged_verified sample_crypto sample_env (sample_te True 0) False sample_store stage m"
  using install_script_verified [OF sample_installed] by (simp add: tx_scripts_def tx_at_fields install_log_def)

theorem install_trace_witness:
  "\<exists>full stored m ws key evs r. install_log = [Ev_staging_cleared, Ev_extracted ws, Ev_key key, Ev_script 0] @ evs
        @ [Ev_repository r, Ev_install_audit (path_basename stored) m key, Ev_staging_removed]
     \<and> te_full (sample_te True 0) = Some full \<and> (evs = [Ev_stored] \<or> evs = [] \<and> strieq full stored)"
proof -
  have "\<not> wpm_operation_collecting (tx_op (tx_at 19 sample_id 0 install_log))" using sample_steps(5) by (simp add: tx_at_fields)
  from install_trace [OF sample_installed this] show ?thesis
    by (simp add: tx_at_fields script_events_def sample_te_parts) blast
qed

text \<open>An upgrade whose script ends with exit code 3: the audit is written, nothing is stored.\<close>

definition failed_log :: "tx_event list" where
  "failed_log = [Ev_staging_cleared, Ev_extracted tool_written, Ev_key sample_id, Ev_script 3,
     Ev_upgrade_audit (upgrade_audit_text ''wpm-tool'' ''any'' ''1.0.0'' ''1.2.3+b'' ''demo'' (Some sample_id) True
       (Some ''install-script'') 3), Ev_staging_removed]"

lemma sample_upgrade_failed:
  "wpm_archive_upgrade sample_crypto sample_env (sample_te True 3) a False sample_md ''1.0.0'' (tx_at 0 [] 0 [])
     = (tx_at 11 sample_id 3 failed_log, False)"
proof -
  have "expected_identity sample_md sample_md" by (simp add: expected_identity_def)
  moreover have "sample_id \<noteq> []" by (simp add: sample_id_def sample_public_def hex_text_def hex_pair_def)
  ultimately show ?thesis
    unfolding wpm_archive_upgrade_def
    by (simp add: sample_run upgrade_phases_def upgrade_commit_def write_upgrade_audit_def Let_def failed_log_def)
      (simp add: sample_md_def)
qed

lemma failed_scripts: "tx_scripts (tx_at 11 sample_id 3 failed_log) \<noteq> tx_scripts (tx_at 0 [] 0 [])"
  by (simp add: tx_scripts_def tx_at_fields failed_log_def)

theorem upgrade_script_verified_witness:
  "\<exists>stage m. staged_verified sample_crypto sample_env (sample_te True 3) False sample_store stage m \<and> expected_identity m sample_md"
  using upgrade_script_verified [OF sample_upgrade_failed failed_scripts] by (simp add: tx_at_fields)


definition removal_log :: "tx_event list" where
  "removal_log = [Ev_staging_cleared, Ev_extracted tool_written, Ev_script 0, Ev_archive_deleted,
     Ev_record_deleted (sample_kept @ ''.repository.txt''), Ev_staging_removed]"

lemma sample_removed:
  "wpm_archive_remove sample_env (sample_te True 0) ''demo'' (tx_at 0 [] 0 []) = (tx_at 16 [] 0 removal_log, True)"
proof -
  have fit: "fits WPM_PATH_SIZE ''demo.zip'' = Some ''demo.zip''" by (simp add: fits_def WPM_PATH_SIZE_def)
  have "length ''demo'' < WPM_PATH_SIZE" by (simp add: WPM_PATH_SIZE_def)
  then show ?thesis
    unfolding wpm_archive_remove_def
    by (simp add: fit sample_run remove_phases_def removal_script_def Let_def removal_log_def)
qed

theorem removal_trace_witness:
  "(\<exists>stage. index_ok (sample_te True 0) stage) \<and> (\<exists>ws rest. removal_log = [Ev_staging_cleared, Ev_extracted ws, Ev_script 0,
     Ev_archive_deleted] @ rest \<and> set rest \<subseteq> {Ev_staging_removed} \<union> range Ev_record_deleted)"
proof -
  have "\<not> wpm_operation_collecting (tx_op (tx_at 16 [] 0 removal_log))" using sample_steps(5) by (simp add: tx_at_fields)
  from removal_trace [OF sample_removed this] show ?thesis
    by (simp add: tx_at_fields script_events_def sample_te_parts)
qed

end
