(* ===== verification/Https_Message.thy ===== *)
theory Https_Message
  imports Prelude Capability
begin

text \<open>
  The HTTPS client of \<open>wpm/https.c\<close>, first part: addresses, redirects, the choice of the backend, and the reading
  of lines and headers. Mbed TLS is a parameter: a connection is the list of the results of \<open>mbedtls_ssl_read\<close>,
  behind whose end every call fails. \<open>cn_stream\<close> is what a connection delivers, the bytes and whether they end
  with an authenticated close; all readers depend on it alone, however TLS cuts it into records.
\<close>

subsection \<open>Numbers and copies\<close>

definition HTTPS_URL_SIZE :: nat where "HTTPS_URL_SIZE = 4096"
definition HTTPS_LINE_SIZE :: nat where "HTTPS_LINE_SIZE = 8192"
definition HTTPS_HEADER_LIMIT :: nat where "HTTPS_HEADER_LIMIT = 65536"

definition https_copy :: "nat \<Rightarrow> string \<Rightarrow> string option" where
  "https_copy cap from = (if length from \<ge> cap then None else Some from)"

definition https_digit :: "nat \<Rightarrow> char \<Rightarrow> nat option" where
  "https_digit radix c =
     (if is_digit c then Some (byte c - 48)
      else if radix = 16 \<and> 97 \<le> byte c \<and> byte c \<le> 102 then Some (byte c - 97 + 10)
      else if radix = 16 \<and> 65 \<le> byte c \<and> byte c \<le> 70 then Some (byte c - 65 + 10)
      else None)"

fun https_number_loop :: "nat \<Rightarrow> nat \<Rightarrow> string \<Rightarrow> nat option" where
  "https_number_loop radix value [] = Some value"
| "https_number_loop radix value (c # s) =
     (case https_digit radix c of
        None \<Rightarrow> None
      | Some digit \<Rightarrow>
          if digit \<ge> radix \<or> value > (ULLONG_MAX - digit) div radix then None
          else https_number_loop radix (value * radix + digit) s)"

definition https_number :: "nat \<Rightarrow> string \<Rightarrow> nat option" where
  "https_number radix s = (if s = [] then None else https_number_loop radix 0 s)"

text \<open>The value of the digits, without a bound.\<close>

definition radix_value :: "nat \<Rightarrow> string \<Rightarrow> nat" where
  "radix_value radix s = foldl (\<lambda>v c. v * radix + the (https_digit radix c)) 0 s"

lemma radix_value_Nil [simp]: "radix_value radix [] = 0"
  by (simp add: radix_value_def)

lemma radix_value_fold:
  "foldl (\<lambda>v c. v * radix + the (https_digit radix c)) v s = v * radix ^ length s + radix_value radix s"
proof (induction s arbitrary: v)
  case (Cons c s)
  have "radix_value radix (c # s) = the (https_digit radix c) * radix ^ length s + radix_value radix s"
    using Cons [of "the (https_digit radix c)"] by (simp add: radix_value_def)
  then show ?case using Cons [of "v * radix + the (https_digit radix c)"] by (simp add: algebra_simps)
qed (simp add: radix_value_def)

lemma https_number_loop_iff:
  assumes "0 < radix"
  shows "https_number_loop radix v s = Some n \<longleftrightarrow>
     (\<forall>c \<in> set s. \<exists>d < radix. https_digit radix c = Some d) \<and> n = v * radix ^ length s + radix_value radix s \<and> (s = [] \<or> n \<le> ULLONG_MAX)"
proof (induction s arbitrary: v)
  case (Cons c s)
  show ?case
  proof (cases "https_digit radix c")
    case (Some d)
    have split: "radix_value radix (c # s) = d * radix ^ length s + radix_value radix s"
      using radix_value_fold [of radix d s] Some by (simp add: radix_value_def)
    have bound: "v > (ULLONG_MAX - d) div radix \<longleftrightarrow> v * radix + d > ULLONG_MAX" if "d < radix" "d \<le> ULLONG_MAX"
    proof -
      have "v > (ULLONG_MAX - d) div radix \<longleftrightarrow> v * radix > ULLONG_MAX - d"
        using assms by (simp add: div_less_iff_less_mult)
      then show ?thesis using that by linarith
    qed
    have "d \<le> 15" using Some by (auto simp: https_digit_def is_digit_def split: if_splits)
    then have small: "d \<le> ULLONG_MAX" by (simp add: ULLONG_MAX_def)
    have grow: "v * radix + d \<le> (v * radix + d) * radix ^ length s + radix_value radix s"
      using assms by (simp add: trans_le_add1)
    show ?thesis
      using Some bound small grow by (auto simp: Cons.IH split algebra_simps)
  qed simp
qed (auto simp: radix_value_def)

text \<open>The number is accepted exactly when it consists of digits and fits 64 bits.\<close>

lemma https_number_iff:
  assumes "0 < radix"
  shows "https_number radix s = Some n \<longleftrightarrow>
    s \<noteq> [] \<and> (\<forall>c \<in> set s. \<exists>d < radix. https_digit radix c = Some d) \<and> n = radix_value radix s \<and> n \<le> ULLONG_MAX"
  by (auto simp: https_number_def https_number_loop_iff [OF assms])

subsection \<open>Addresses\<close>

record https_url =
  hu_host :: string
  hu_authority :: string
  hu_path :: string
  hu_port :: nat

definition url_char :: "char \<Rightarrow> bool" where
  "url_char c \<longleftrightarrow> 32 < byte c \<and> byte c < 127 \<and> c \<noteq> BSLASH"

definition host_char :: "char \<Rightarrow> bool" where
  "host_char c \<longleftrightarrow> is_alnum c \<or> c = CHR ''-'' \<or> c = CHR ''.''"

definition https_port :: "string \<Rightarrow> nat option" where
  "https_port authority =
     (case strchr (CHR '':'') authority of
        None \<Rightarrow> Some 443
      | Some colon \<Rightarrow>
          (case https_number 10 (tl colon) of None \<Rightarrow> None | Some port \<Rightarrow> if port = 0 \<or> port > 65535 then None else Some port))"

abbreviation url_end :: "char set" where
  "url_end \<equiv> {SLASH, CHR ''?'', CHR ''#''}"

definition https_parse_url :: "string \<Rightarrow> https_url option" where
  "https_parse_url t =
     (if \<not> strnieq 8 t ''https://'' \<or> length t \<ge> HTTPS_URL_SIZE \<or> \<not> list_all url_char t then None
      else
      (case https_copy 264 (strcspn_take url_end (drop 8 t)) of
         None \<Rightarrow> None
       | Some authority \<Rightarrow>
           (case (https_port authority, https_copy 254 (takeWhile (\<lambda>c. c \<noteq> CHR '':'') authority)) of
              (Some port, Some host) \<Rightarrow>
                if host = [] \<or> \<not> list_all host_char host then None
                else
                  let rest = strcspn_drop url_end (drop 8 t); path = takeWhile (\<lambda>c. c \<noteq> CHR ''#'') rest in
                  map_option (\<lambda>p. \<lparr>hu_host = host, hu_authority = authority, hu_path = p, hu_port = port\<rparr>)
                    (if at SLASH rest then https_copy HTTPS_URL_SIZE path
                     else map_option ((#) SLASH) (https_copy (HTTPS_URL_SIZE - 1) path))
            | _ \<Rightarrow> None)))"

text \<open>The path up to and with its last slash.\<close>

definition path_directory :: "string \<Rightarrow> string option" where
  "path_directory path = (if SLASH \<in> set path then Some (rev (dropWhile (\<lambda>c. c \<noteq> SLASH) (rev path))) else None)"

definition https_redirect :: "https_url \<Rightarrow> string \<Rightarrow> string option" where
  "https_redirect base location =
     (if location = [] then None
      else if strnieq 8 location ''https://'' then https_copy HTTPS_URL_SIZE location
      else if take 2 location = ''//'' then https_copy HTTPS_URL_SIZE (''https:'' @ location)
      else if at SLASH location then https_copy HTTPS_URL_SIZE (''https://'' @ hu_authority base @ location)
      else if length (strcspn_take (insert (CHR '':'') url_end) location) < length (strcspn_take url_end location)
           then None
      else
        let path = takeWhile (\<lambda>c. c \<noteq> CHR ''?'') (hu_path base) in
        Option.bind (if at (CHR ''?'') location \<or> at (CHR ''#'') location then Some path else path_directory path)
          (\<lambda>p. https_copy HTTPS_URL_SIZE (''https://'' @ hu_authority base @ p @ location)))"

definition https_request :: "https_url \<Rightarrow> string" where
  "https_request url =
     ''GET '' @ hu_path url @ '' HTTP/1.1'' @ [CR, LF] @ ''Host: '' @ hu_authority url @ [CR, LF] @ ''User-Agent: WPM'' @ [CR, LF]
     @ ''Accept: */*'' @ [CR, LF] @ ''Accept-Encoding: identity'' @ [CR, LF] @ ''Connection: close'' @ [CR, LF] @ [CR, LF]"

text \<open>What an accepted address looks like.\<close>

definition url_wf :: "https_url \<Rightarrow> bool" where
  "url_wf url \<longleftrightarrow> list_all url_char (hu_authority url) \<and> length (hu_authority url) < 264
     \<and> (\<forall>c \<in> set (hu_authority url). c \<notin> url_end)
     \<and> hu_host url \<noteq> [] \<and> list_all host_char (hu_host url) \<and> length (hu_host url) < 254
     \<and> hu_host url = takeWhile (\<lambda>c. c \<noteq> CHR '':'') (hu_authority url) \<and> https_port (hu_authority url) = Some (hu_port url)
     \<and> 0 < hu_port url \<and> hu_port url \<le> 65535
     \<and> at SLASH (hu_path url) \<and> list_all url_char (hu_path url) \<and> CHR ''#'' \<notin> set (hu_path url) \<and> length (hu_path url) < HTTPS_URL_SIZE"

lemma https_copy_Some [simp]: "https_copy cap s = Some r \<longleftrightarrow> r = s \<and> length s < cap"
  by (auto simp: https_copy_def)

lemma list_all_takeWhile: "list_all P s \<Longrightarrow> list_all P (takeWhile Q s)"
  by (induction s) auto

lemma list_all_dropWhile: "list_all P s \<Longrightarrow> list_all P (dropWhile Q s)"
  by (induction s) auto

lemma list_all_drop: "list_all P s \<Longrightarrow> list_all P (drop n s)"
  by (induction s arbitrary: n) (auto simp: drop_Cons split: nat.split)

lemma https_port_range: "https_port a = Some p \<Longrightarrow> 0 < p \<and> p \<le> 65535"
  by (auto simp: https_port_def split: option.splits if_splits)

lemma parsed_url_wf:
  assumes "https_parse_url t = Some url"
  shows "url_wf url"
proof -
  let ?a = "strcspn_take url_end (drop 8 t)"
  let ?r = "strcspn_drop url_end (drop 8 t)"
  let ?p = "takeWhile (\<lambda>c. c \<noteq> CHR ''#'') ?r"
  have t: "list_all url_char t" "length ?a < 264" "https_port ?a = Some (hu_port url)" "hu_authority url = ?a"
    "hu_host url = takeWhile (\<lambda>c. c \<noteq> CHR '':'') ?a" "length (hu_host url) < 254" "hu_host url \<noteq> []" "list_all host_char (hu_host url)"
    "if at SLASH ?r then hu_path url = ?p \<and> length ?p < HTTPS_URL_SIZE
     else hu_path url = SLASH # ?p \<and> length ?p < HTTPS_URL_SIZE - 1"
    using assms by (auto simp: https_parse_url_def Let_def split: if_splits option.splits)
  have "list_all url_char ?a" "list_all url_char ?p"
    using t(1) by (simp_all add: strcspn_take_def strcspn_drop_def list_all_takeWhile list_all_dropWhile list_all_drop)
  moreover have "\<forall>c \<in> set ?a. c \<notin> url_end" by (auto simp: strcspn_take_def dest: set_takeWhileD)
  moreover have "CHR ''#'' \<notin> set ?p" by (auto dest: set_takeWhileD)
  moreover have "url_char SLASH" by (simp add: url_char_def)
  moreover have "at SLASH ?p" if "at SLASH ?r" using that by (auto simp: at_iff)
  ultimately show ?thesis
    using t https_port_range [OF t(3)] unfolding url_wf_def by (auto simp: HTTPS_URL_SIZE_def split: if_splits)
qed

subsection \<open>What is requested\<close>

text \<open>The lines of the request; none of them holds a line end, so that nothing in an address or a redirect can add a
  header.\<close>

definition request_lines :: "https_url \<Rightarrow> string list" where
  "request_lines url = [''GET '' @ hu_path url @ '' HTTP/1.1'', ''Host: '' @ hu_authority url, ''User-Agent: WPM'', ''Accept: */*'',
     ''Accept-Encoding: identity'', ''Connection: close'', []]"

lemma url_char_no_line_end: "list_all url_char s \<Longrightarrow> CR \<notin> set s \<and> LF \<notin> set s \<and> SPC \<notin> set s"
  by (induction s) (auto simp: url_char_def)

lemma request_of_wf:
  assumes "url_wf url"
  shows "https_request url = concat (map (\<lambda>l. l @ [CR, LF]) (request_lines url))
    \<and> (\<forall>l \<in> set (request_lines url). CR \<notin> set l \<and> LF \<notin> set l) \<and> length (https_request url) < HTTPS_URL_SIZE + 512"
proof -
  have "list_all url_char (hu_path url)" "list_all url_char (hu_authority url)" "length (hu_path url) < 4096" "length (hu_authority url) < 264"
    using assms by (simp_all add: url_wf_def HTTPS_URL_SIZE_def)
  then show ?thesis
    using url_char_no_line_end [of "hu_path url"] url_char_no_line_end [of "hu_authority url"]
    by (simp add: https_request_def request_lines_def HTTPS_URL_SIZE_def)
qed

text \<open>A redirect that names neither a scheme nor a host.\<close>

definition relative_location :: "string \<Rightarrow> bool" where
  "relative_location location \<longleftrightarrow> \<not> strnieq 8 location ''https://'' \<and> take 2 location \<noteq> ''//''"

lemma path_directory_slash: "at SLASH path \<Longrightarrow> path_directory path = Some p \<Longrightarrow> at SLASH p"
proof -
  assume path: "at SLASH path" and "path_directory path = Some p"
  then have p: "p = rev (dropWhile (\<lambda>c. c \<noteq> SLASH) (rev path))" "SLASH \<in> set path" by (auto simp: path_directory_def split: if_splits)
  then have "path = p @ rev (takeWhile (\<lambda>c. c \<noteq> SLASH) (rev path))"
    by (metis rev_append rev_rev_ident takeWhile_dropWhile_id)
  moreover have "p \<noteq> []" using p by (auto simp: dropWhile_eq_Nil_conv)
  ultimately show ?thesis using path by (cases p) (auto simp: at_iff)
qed

lemma authority_of_next:
  assumes "\<forall>c \<in> set a. c \<notin> url_end" "at SLASH p"
  shows "strcspn_take url_end (drop 8 (''https://'' @ a @ p)) = a"
proof -
  obtain q where "p = SLASH # q" using assms(2) by (auto simp: at_iff)
  moreover have "takeWhile (\<lambda>c. c \<notin> url_end) (a @ SLASH # q) = a"
    using assms(1) by (subst takeWhile_append2) auto
  ultimately show ?thesis by (simp add: strcspn_take_def)
qed

lemma redirect_next:
  assumes "url_wf base" "https_redirect base location = Some next"
  shows "strnieq 8 next ''https://'' \<and> length next < HTTPS_URL_SIZE
    \<and> (relative_location location \<longrightarrow> strcspn_take url_end (drop 8 next) = hu_authority base)"
proof -
  have wf: "\<forall>c \<in> set (hu_authority base). c \<notin> url_end" "at SLASH (hu_path base)"
    using assms(1) by (simp_all add: url_wf_def)
  have https: "strnieq 8 (''https://'' @ x) ''https://''" "strnieq 8 (''https:'' @ SLASH # SLASH # x) ''https://''" for x
    by (simp_all add: strnieq_def)
  consider (abs) "strnieq 8 location ''https://''" "next = location" "length next < HTTPS_URL_SIZE"
    | (host) "take 2 location = ''//''" "next = ''https:'' @ location" "length next < HTTPS_URL_SIZE"
    | (path) "at SLASH location" "next = ''https://'' @ hu_authority base @ location" "length next < HTTPS_URL_SIZE"
    | (rel) p where "at SLASH p" "next = ''https://'' @ hu_authority base @ p @ location" "length next < HTTPS_URL_SIZE"
  proof -
    have "at SLASH (takeWhile (\<lambda>c. c \<noteq> CHR ''?'') (hu_path base))" using wf(2) by (auto simp: at_iff)
    note this path_directory_slash [OF this]
    then show ?thesis
      using assms(2) that
      by (auto simp: https_redirect_def Let_def split: if_splits option.splits elim!: bind_eq_Some_conv [THEN iffD1, elim_format])
  qed
  then show ?thesis
  proof cases
    case host
    then obtain x where "location = SLASH # SLASH # x" by (cases location; cases "tl location") auto
    then show ?thesis using host https(2) by (simp add: relative_location_def)
  next
    case (rel p)
    have "at SLASH (p @ location)" using rel(1) by (auto simp: at_iff)
    from authority_of_next [OF wf(1) this] show ?thesis using rel https(1) by simp
  qed (use https authority_of_next [OF wf(1)] in \<open>auto simp: relative_location_def\<close>)
qed

lemma parsed_authority: "https_parse_url t = Some url \<Longrightarrow> hu_authority url = strcspn_take url_end (drop 8 t)"
  by (auto simp: https_parse_url_def Let_def split: if_splits option.splits)

text \<open>Hosts and ports depend on the authority alone.\<close>

lemma same_authority_same_host: "url_wf a \<Longrightarrow> url_wf b \<Longrightarrow> hu_authority a = hu_authority b \<Longrightarrow> hu_host a = hu_host b \<and> hu_port a = hu_port b"
  by (simp add: url_wf_def)

subsection \<open>The backend\<close>

datatype wpm_https_backend = WPM_HTTPS_INVALID | WPM_HTTPS_BUNDLED | WPM_HTTPS_URLMON

definition https_select_backend :: "string option \<Rightarrow> string option \<Rightarrow> nat \<Rightarrow> nat \<Rightarrow> wpm_https_backend" where
  "https_select_backend backend ca_file major minor =
     (let no_ca = (case ca_file of None \<Rightarrow> True | Some f \<Rightarrow> f = []) in
      case (case backend of None \<Rightarrow> None | Some b \<Rightarrow> if b = [] \<or> strieq b ''auto'' then None else Some b) of
        Some b \<Rightarrow>
          if strieq b ''bundled'' then WPM_HTTPS_BUNDLED
          else if strieq b ''urlmon'' \<and> no_ca then WPM_HTTPS_URLMON
          else WPM_HTTPS_INVALID
      | None \<Rightarrow>
          if \<not> no_ca then WPM_HTTPS_BUNDLED
          else if major > 6 \<or> major = 6 \<and> minor \<ge> 2 then WPM_HTTPS_URLMON else WPM_HTTPS_BUNDLED)"

text \<open>The values of the two variables, empty when they are not set.\<close>

definition wpm_https_get_backend :: "string \<Rightarrow> string \<Rightarrow> nat \<Rightarrow> nat \<Rightarrow> wpm_https_backend" where
  "wpm_https_get_backend backend ca_file major minor =
     (if length backend \<ge> 32 \<or> length ca_file \<ge> 4096 then WPM_HTTPS_INVALID
      else https_select_backend (Some backend) (Some ca_file) major minor)"

lemma backend_honours_ca_file: "wpm_https_get_backend backend ca_file major minor = WPM_HTTPS_URLMON \<Longrightarrow> ca_file = []"
  by (auto simp: wpm_https_get_backend_def https_select_backend_def Let_def split: option.splits if_splits)

subsection \<open>The stream\<close>

text \<open>The results of \<open>mbedtls_ssl_read\<close>: a retry, bytes, the authenticated close, an error.\<close>

datatype tls_read = Tls_want | Tls_data string | Tls_close | Tls_fail

record connection =
  cn_buffer :: string
  cn_reads :: "tls_read list"

text \<open>The loop over retries; no bytes are an error.\<close>

fun tls_next :: "tls_read list \<Rightarrow> tls_read \<times> tls_read list" where
  "tls_next [] = (Tls_fail, [])"
| "tls_next (Tls_want # rs) = tls_next rs"
| "tls_next (Tls_data d # rs) = (if d = [] then Tls_fail else Tls_data d, rs)"
| "tls_next (r # rs) = (r, rs)"

datatype https_result = Read_error | Read_end | Read_bytes string

definition https_take :: "nat \<Rightarrow> connection \<Rightarrow> connection \<times> https_result" where
  "https_take n c = (c\<lparr>cn_buffer := drop n (cn_buffer c)\<rparr>, Read_bytes (take n (cn_buffer c)))"

definition https_read :: "nat \<Rightarrow> connection \<Rightarrow> connection \<times> https_result" where
  "https_read n c =
     (if n = 0 then (c, Read_end)
      else if cn_buffer c = []
      then (case tls_next (cn_reads c) of
              (Tls_close, rs) \<Rightarrow> (c\<lparr>cn_reads := rs\<rparr>, Read_end)
            | (Tls_data d, rs) \<Rightarrow> https_take n (c\<lparr>cn_buffer := d, cn_reads := rs\<rparr>)
            | (_, rs) \<Rightarrow> (c\<lparr>cn_reads := rs\<rparr>, Read_error))
      else https_take n c)"

text \<open>What the connection delivers: the bytes up to the first error or close, and whether it is a close.\<close>

fun tls_stream :: "tls_read list \<Rightarrow> string \<times> bool" where
  "tls_stream [] = ([], False)"
| "tls_stream (Tls_want # rs) = tls_stream rs"
| "tls_stream (Tls_data d # rs) = (if d = [] then ([], False) else (d @ fst (tls_stream rs), snd (tls_stream rs)))"
| "tls_stream (Tls_close # rs) = ([], True)"
| "tls_stream (Tls_fail # rs) = ([], False)"

definition cn_stream :: "connection \<Rightarrow> string \<times> bool" where
  "cn_stream c = (cn_buffer c @ fst (tls_stream (cn_reads c)), snd (tls_stream (cn_reads c)))"

lemma tls_next_stream:
  "(case tls_next rs of
      (Tls_data d, rs') \<Rightarrow> d \<noteq> [] \<and> tls_stream rs = (d @ fst (tls_stream rs'), snd (tls_stream rs'))
    | (Tls_close, rs') \<Rightarrow> tls_stream rs = ([], True)
    | (Tls_fail, rs') \<Rightarrow> tls_stream rs = ([], False)
    | (Tls_want, rs') \<Rightarrow> False)"
  by (induction rs rule: tls_next.induct) (auto split: tls_read.splits)

text \<open>A read of at least one byte delivers a prefix of the stream, or its end when there is none.\<close>

lemma https_read_stream:
  assumes "https_read n c = (c', r)" "0 < n" "cn_stream c = (bytes, clean)"
  shows "case r of
      Read_bytes d \<Rightarrow> d \<noteq> [] \<and> length d \<le> n \<and> bytes = d @ fst (cn_stream c') \<and> snd (cn_stream c') = clean
    | Read_end \<Rightarrow> bytes = [] \<and> clean
    | Read_error \<Rightarrow> bytes = [] \<and> \<not> clean"
proof (cases "cn_buffer c = []")
  case False
  then show ?thesis
    using assms by (auto simp: https_read_def https_take_def cn_stream_def)
next
  case True
  obtain t rs where t: "tls_next (cn_reads c) = (t, rs)" by force
  note tls_next_stream [of "cn_reads c", unfolded t]
  then show ?thesis
    using assms True t by (cases t) (auto simp: https_read_def https_take_def cn_stream_def)
qed

lemma https_read_byte:
  assumes "cn_stream c = (b # bytes, clean)"
  obtains c' where "https_read 1 c = (c', Read_bytes [b])" "cn_stream c' = (bytes, clean)"
proof -
  obtain c' r where r: "https_read 1 c = (c', r)" by force
  obtain d where "r = Read_bytes d" "d = [b]" "cn_stream c' = (bytes, clean)"
    using https_read_stream [OF r _ assms]
    by (cases r) (auto simp: length_Suc_conv le_Suc_eq Cons_eq_append_conv prod_eq_iff)
  then show thesis using that r by simp
qed

lemma https_read_none:
  assumes "cn_stream c = ([], clean)"
  shows "\<nexists>c' d. https_read 1 c = (c', Read_bytes d)"
  using https_read_stream [OF _ _ assms] by fastforce

subsection \<open>Lines\<close>

definition line_char :: "char \<Rightarrow> bool" where
  "line_char c \<longleftrightarrow> (32 \<le> byte c \<or> c = TAB) \<and> byte c \<noteq> 127"

text \<open>The rest of the connection, the line without its end, and what is left of the budget.\<close>

fun https_line_loop :: "nat \<Rightarrow> string \<Rightarrow> connection \<Rightarrow> (connection \<times> string \<times> nat) option" where
  "https_line_loop budget line c =
     (if budget = 0 \<or> length line + 1 \<ge> HTTPS_LINE_SIZE then None
      else
      (case https_read 1 c of
         (c, Read_bytes (b # _)) \<Rightarrow>
           if b = CR
           then if budget - 1 = 0 then None
                else (case https_read 1 c of
                        (c, Read_bytes (b # _)) \<Rightarrow> if b = LF then Some (c, line, budget - 2) else None
                      | _ \<Rightarrow> None)
           else if byte b < 32 \<and> b \<noteq> TAB \<or> byte b = 127 then None
           else https_line_loop (budget - 1) (line @ [b]) c
       | _ \<Rightarrow> None))"

declare https_line_loop.simps [simp del]

definition https_line :: "nat \<Rightarrow> connection \<Rightarrow> (connection \<times> string \<times> nat) option" where
  "https_line budget c = https_line_loop budget [] c"

text \<open>A line is read exactly when the stream begins with it, and what it is does not depend on the records.\<close>

lemma https_line_loop_sound:
  assumes "https_line_loop budget acc c = Some (c', line, left)" "cn_stream c = (bytes, clean)"
  shows "\<exists>l. line = acc @ l \<and> list_all line_char l \<and> bytes = l @ CR # LF # fst (cn_stream c') \<and> snd (cn_stream c') = clean
    \<and> budget = left + length l + 2 \<and> length line + 1 < HTTPS_LINE_SIZE"
  using assms
proof (induction budget acc c arbitrary: bytes rule: https_line_loop.induct)
  case (1 budget acc c)
  have nonzero: "budget \<noteq> 0" "length acc + 1 < HTTPS_LINE_SIZE"
    using 1(2) by (subst (asm) https_line_loop.simps, simp split: if_splits)+
  show ?case
  proof (cases bytes)
    case Nil
    obtain c1 r where "https_read 1 c = (c1, r)" by force
    with https_read_none [of c clean] 1(2,3) Nil show ?thesis
      by (subst (asm) https_line_loop.simps) (auto split: if_splits https_result.splits)
  next
    case (Cons b more)
    obtain c1 where c1: "https_read 1 c = (c1, Read_bytes [b])" "cn_stream c1 = (more, clean)"
      by (rule https_read_byte [OF 1(3) [unfolded Cons]])
    show ?thesis
    proof (cases "b = CR")
      case True
      show ?thesis
      proof (cases more)
        case Nil
        obtain c2 r where "https_read 1 c1 = (c2, r)" by force
        with https_read_none [of c1 clean] 1(2) c1 Nil True show ?thesis
          by (subst (asm) https_line_loop.simps) (auto split: if_splits https_result.splits)
      next
        case m: (Cons d rest)
        obtain c2 where c2: "https_read 1 c1 = (c2, Read_bytes [d])" "cn_stream c2 = (rest, clean)"
          by (rule https_read_byte [OF c1(2) [unfolded m]])
        have "d = LF \<and> line = acc \<and> c' = c2 \<and> left = budget - 2 \<and> 2 \<le> budget"
          using 1(2) nonzero c1(1) c2(1) True by (subst (asm) https_line_loop.simps) (auto split: if_splits)
        then show ?thesis using c2(2) Cons m True nonzero by (intro exI [of _ "[]"]) auto
      qed
    next
      case False
      have ok: "line_char b" "https_line_loop (budget - 1) (acc @ [b]) c1 = Some (c', line, left)"
        using 1(2) nonzero c1(1) False by (subst (asm) https_line_loop.simps, auto simp: line_char_def split: if_splits)+
      then have "\<exists>l. line = (acc @ [b]) @ l \<and> list_all line_char l \<and> more = l @ CR # LF # fst (cn_stream c') \<and> snd (cn_stream c') = clean
          \<and> budget - 1 = left + length l + 2 \<and> length line + 1 < HTTPS_LINE_SIZE"
        using 1(1) [of c1 "Read_bytes [b]" "[b]" b "[]" more] nonzero c1 False ok(1) [unfolded line_char_def] by auto
      then obtain l where "line = acc @ b # l" "list_all line_char l" "more = l @ CR # LF # fst (cn_stream c')" "snd (cn_stream c') = clean"
        "budget - 1 = left + length l + 2" "length line + 1 < HTTPS_LINE_SIZE" by auto
      then show ?thesis using ok(1) Cons nonzero by (intro exI [of _ "b # l"]) auto
    qed
  qed
qed

lemma https_line_loop_complete:
  assumes "cn_stream c = (l @ CR # LF # rest, clean)" "list_all line_char l" "length l + 2 \<le> budget" "length acc + length l + 1 < HTTPS_LINE_SIZE"
  shows "\<exists>c'. https_line_loop budget acc c = Some (c', acc @ l, budget - length l - 2) \<and> cn_stream c' = (rest, clean)"
  using assms
proof (induction l arbitrary: budget acc c)
  case Nil
  obtain c1 where c1: "https_read 1 c = (c1, Read_bytes [CR])" "cn_stream c1 = (LF # rest, clean)"
    by (rule https_read_byte [OF Nil(1) [unfolded append_Nil]])
  obtain c2 where c2: "https_read 1 c1 = (c2, Read_bytes [LF])" "cn_stream c2 = (rest, clean)"
    by (rule https_read_byte [OF c1(2)])
  show ?case using Nil c1 c2 by (subst https_line_loop.simps) auto
next
  case (Cons b l)
  obtain c1 where c1: "https_read 1 c = (c1, Read_bytes [b])" "cn_stream c1 = (l @ CR # LF # rest, clean)"
    by (rule https_read_byte [OF Cons.prems(1) [unfolded append_Cons]])
  have "b \<noteq> CR" "\<not> (byte b < 32 \<and> b \<noteq> TAB \<or> byte b = 127)" using Cons.prems(2) by (auto simp: line_char_def)
  moreover have "length l + 2 \<le> budget - 1" "length (acc @ [b]) + length l + 1 < HTTPS_LINE_SIZE" using Cons.prems(3,4) by simp_all
  moreover obtain c' where "https_line_loop (budget - 1) (acc @ [b]) c1 = Some (c', (acc @ [b]) @ l, budget - 1 - length l - 2)"
    "cn_stream c' = (rest, clean)"
    using Cons.IH [OF c1(2) _ calculation(3,4)] Cons.prems(2) by auto
  ultimately show ?case
    using Cons.prems c1(1) by (subst https_line_loop.simps) auto
qed

lemma https_line_iff:
  assumes "cn_stream c = (bytes, clean)"
  shows "(\<exists>c'. https_line budget c = Some (c', line, left) \<and> cn_stream c' = (rest, clean)) \<longleftrightarrow>
    bytes = line @ CR # LF # rest \<and> list_all line_char line \<and> budget = left + length line + 2 \<and> length line + 1 < HTTPS_LINE_SIZE"
  (is "?read \<longleftrightarrow> ?starts")
proof
  show "?read \<Longrightarrow> ?starts" unfolding https_line_def using https_line_loop_sound [OF _ assms] by fastforce
  assume ?starts
  then show ?read
    unfolding https_line_def using https_line_loop_complete [of c line rest clean budget "[]"] assms by auto
qed

lemma https_line_sound:
  assumes "https_line budget c = Some (c', line, left)"
  shows "cn_stream c = (line @ CR # LF # fst (cn_stream c'), snd (cn_stream c')) \<and> list_all line_char line
    \<and> budget = left + length line + 2 \<and> length line + 1 < HTTPS_LINE_SIZE"
proof -
  have "https_line_loop budget [] c = Some (c', line, left)" using assms by (simp add: https_line_def)
  from https_line_loop_sound [OF this prod.collapse [symmetric]] show ?thesis by (auto simp: prod_eq_iff)
qed

lemma https_line_less: "https_line budget c = Some (c', line, left) \<Longrightarrow> left < budget"
  using https_line_sound by fastforce

text \<open>Two connections that deliver the same.\<close>

definition same_stream :: "connection \<Rightarrow> connection \<Rightarrow> bool" where
  "same_stream c d \<longleftrightarrow> cn_stream c = cn_stream d"

lemma https_line_same:
  assumes "same_stream c d"
  shows "rel_option (\<lambda>(c', l, k) (d', l', k'). same_stream c' d' \<and> l = l' \<and> k = k') (https_line budget c) (https_line budget d)"
proof -
  have half: "\<exists>d'. https_line budget d = Some (d', l, k) \<and> same_stream c' d'"
    if "https_line budget c = Some (c', l, k)" "same_stream c d" for c d c' l k
  proof -
    note read = https_line_sound [OF that(1)]
    obtain bytes clean rest where s: "cn_stream c = (bytes, clean)" "cn_stream c' = (rest, clean)"
      using read by (metis prod.collapse)
    then have "cn_stream d = (bytes, clean)" using that(2) by (simp add: same_stream_def)
    from https_line_iff [OF this] https_line_iff [OF s(1)] s(2) that(1)
    show ?thesis unfolding same_stream_def by metis
  qed
  show ?thesis
  proof (cases "https_line budget c")
    case None
    then show ?thesis using half [of d _ _ _ c] assms by (cases "https_line budget d") (auto simp: same_stream_def)
  next
    case (Some r)
    obtain c' l k where r: "r = (c', l, k)" by (cases r) auto
    with Some half [of c c' l k d] assms show ?thesis by auto
  qed
qed

subsection \<open>Headers\<close>

definition token_char :: "char \<Rightarrow> bool" where
  "token_char c \<longleftrightarrow> is_alnum c \<or> c \<in> set (''!#$%&*+-.^_|~'' @ [CHR 0x27, CHR 0x60])"

definition blank :: "char \<Rightarrow> bool" where
  "blank c \<longleftrightarrow> c = SPC \<or> c = TAB"

text \<open>Name and value of a field.\<close>

definition https_field :: "string \<Rightarrow> (string \<times> string) option" where
  "https_field line =
     (case strchr (CHR '':'') line of
        None \<Rightarrow> None
      | Some colon \<Rightarrow>
          let name = takeWhile (\<lambda>c. c \<noteq> CHR '':'') line in
          if name = [] \<or> \<not> list_all token_char name then None
          else Some (name, rev (dropWhile blank (rev (dropWhile blank (tl colon))))))"

record https_response =
  rs_status :: nat
  rs_chunked :: bool
  rs_has_length :: bool
  rs_length :: nat
  rs_location :: string

definition response_of :: "nat \<Rightarrow> https_response" where
  "response_of status = \<lparr>rs_status = status, rs_chunked = False, rs_has_length = False, rs_length = 0, rs_location = []\<rparr>"

definition header_field :: "https_response \<Rightarrow> string \<Rightarrow> string \<Rightarrow> https_response option" where
  "header_field r name val =
     (if strieq name ''Content-Length'' then
        if rs_has_length r then None
        else map_option (\<lambda>n. r\<lparr>rs_length := n, rs_has_length := True\<rparr>) (https_number 10 val)
      else if strieq name ''Transfer-Encoding'' then
        if rs_chunked r \<or> \<not> strieq val ''chunked'' then None else Some (r\<lparr>rs_chunked := True\<rparr>)
      else if strieq name ''Content-Encoding'' then
        if strieq val ''identity'' then Some r else None
      else if strieq name ''Location'' then
        if rs_location r \<noteq> [] then None else map_option (\<lambda>l. r\<lparr>rs_location := l\<rparr>) (https_copy HTTPS_URL_SIZE val)
      else Some r)"

definition status_of_line :: "string \<Rightarrow> nat option" where
  "status_of_line line =
     (if length line < 12 \<or> take 9 line \<noteq> ''HTTP/1.1 '' \<and> take 9 line \<noteq> ''HTTP/1.0 ''
         \<or> byte (line ! 9) < 49 \<or> byte (line ! 9) > 53 \<or> \<not> is_digit (line ! 10) \<or> \<not> is_digit (line ! 11)
         \<or> length line > 12 \<and> line ! 12 \<noteq> SPC
      then None
      else Some (digit_val (line ! 9) * 100 + digit_val (line ! 10) * 10 + digit_val (line ! 11)))"

function header_lines :: "nat \<Rightarrow> connection \<Rightarrow> https_response \<Rightarrow> (connection \<times> nat \<times> https_response) option" where
  "header_lines budget c r =
     (case https_line budget c of
        None \<Rightarrow> None
      | Some (c, line, left) \<Rightarrow>
          if line = [] then Some (c, left, r)
          else
          (case https_field line of
             None \<Rightarrow> None
           | Some (name, val) \<Rightarrow> (case header_field r name val of None \<Rightarrow> None | Some r \<Rightarrow> header_lines left c r)))"
  by pat_completeness auto
termination
  by (relation "measure (\<lambda>(budget, c, r). budget)") (auto dest: https_line_less)

declare header_lines.simps [simp del]

text \<open>At most five interim answers in one budget of bytes.\<close>

fun headers_loop :: "nat \<Rightarrow> nat \<Rightarrow> connection \<Rightarrow> (connection \<times> https_response) option" where
  "headers_loop 0 budget c = None"
| "headers_loop (Suc tries) budget c =
     Option.bind (https_line budget c) (\<lambda>(c, line, left).
     Option.bind (status_of_line line) (\<lambda>status.
     Option.bind (header_lines left c (response_of status)) (\<lambda>(c, left, r).
       if rs_chunked r \<and> rs_has_length r then None
       else if rs_status r \<ge> 200 then Some (c, r)
       else if rs_status r = 101 \<or> rs_chunked r \<or> rs_has_length r then None
       else headers_loop tries left c)))"

definition https_headers :: "connection \<Rightarrow> (connection \<times> https_response) option" where
  "https_headers c = headers_loop 5 HTTPS_HEADER_LIMIT c"

text \<open>What an accepted answer looks like.\<close>

definition response_wf :: "https_response \<Rightarrow> bool" where
  "response_wf r \<longleftrightarrow> length (rs_location r) < HTTPS_URL_SIZE \<and> list_all line_char (rs_location r)
     \<and> rs_length r \<le> ULLONG_MAX \<and> (\<not> rs_has_length r \<longrightarrow> rs_length r = 0) \<and> rs_status r \<le> 599"

lemma list_all_rev_dropWhile: "list_all P s \<Longrightarrow> list_all P (rev (dropWhile Q (rev (dropWhile Q s))))"
  by (simp add: list_all_dropWhile)

lemma https_field_chars: "https_field line = Some (name, val) \<Longrightarrow> list_all line_char line \<Longrightarrow> list_all line_char val"
proof -
  assume f: "https_field line = Some (name, val)" and l: "list_all line_char line"
  then obtain colon where c: "strchr (CHR '':'') line = Some colon" "val = rev (dropWhile blank (rev (dropWhile blank (tl colon))))"
    by (auto simp: https_field_def Let_def split: option.splits if_splits)
  obtain a r where "line = a @ CHR '':'' # r" "colon = CHR '':'' # r" using strchr_Some [OF c(1)] by blast
  then show ?thesis using l c(2) list_all_rev_dropWhile [of line_char r blank] by simp
qed

lemma header_field_wf:
  "header_field r name val = Some r' \<Longrightarrow> response_wf r \<Longrightarrow> list_all line_char val \<Longrightarrow> response_wf r' \<and> rs_status r' = rs_status r"
  by (auto simp: header_field_def response_wf_def https_number_iff split: if_splits)

lemma https_line_chars: "https_line budget c = Some (c', line, left) \<Longrightarrow> list_all line_char line"
  using https_line_sound by fastforce

lemma header_lines_wf:
  "header_lines budget c r = Some (c', left, r') \<Longrightarrow> response_wf r \<Longrightarrow> response_wf r' \<and> rs_status r' = rs_status r"
proof (induction budget c r rule: header_lines.induct)
  case (1 budget c r)
  then obtain c1 line k where l: "https_line budget c = Some (c1, line, k)"
    by (subst (asm) (2) header_lines.simps) (auto split: option.splits)
  show ?case
  proof (cases "line = []")
    case True
    then show ?thesis using 1 l by (subst (asm) (2) header_lines.simps) auto
  next
    case False
    obtain name val r1 where f: "https_field line = Some (name, val)" "header_field r name val = Some r1"
      "header_lines k c1 r1 = Some (c', left, r')"
      using 1(2) l False by (subst (asm) header_lines.simps) (auto split: option.splits)
    have "response_wf r1 \<and> rs_status r1 = rs_status r"
      using header_field_wf [OF f(2) 1(3)] https_field_chars [OF f(1) https_line_chars [OF l]] by blast
    then show ?thesis using 1(1) [OF l refl refl False f(1) refl f(2) f(3)] by simp
  qed
qed

lemma status_range: "status_of_line line = Some n \<Longrightarrow> 100 \<le> n \<and> n \<le> 599"
proof -
  assume "status_of_line line = Some n"
  then have l: "49 \<le> byte (line ! 9)" "byte (line ! 9) \<le> 53" "is_digit (line ! 10)" "is_digit (line ! 11)"
    and n: "n = digit_val (line ! 9) * 100 + digit_val (line ! 10) * 10 + digit_val (line ! 11)"
    by (auto simp: status_of_line_def not_less split: if_splits)
  have "1 \<le> digit_val (line ! 9)" "digit_val (line ! 9) \<le> 5" using l(1,2) by (simp_all add: digit_val_def)
  then show ?thesis using n digit_val_le [OF l(3)] digit_val_le [OF l(4)] by simp
qed

lemma headers_wf:
  "headers_loop tries budget c = Some (c', r) \<Longrightarrow> response_wf r \<and> 200 \<le> rs_status r \<and> \<not> (rs_chunked r \<and> rs_has_length r)"
proof (induction tries arbitrary: budget c)
  case (Suc tries)
  then obtain c1 line left n c2 left2 r2 where h: "https_line budget c = Some (c1, line, left)" "status_of_line line = Some n"
    "header_lines left c1 (response_of n) = Some (c2, left2, r2)" "\<not> (rs_chunked r2 \<and> rs_has_length r2)"
    "if 200 \<le> rs_status r2 then c' = c2 \<and> r = r2 else headers_loop tries left2 c2 = Some (c', r)"
    by (auto simp: bind_eq_Some_conv split: if_splits)
  have "response_wf (response_of n)" using status_range [OF h(2)] by (simp add: response_wf_def response_of_def HTTPS_URL_SIZE_def)
  then show ?case using header_lines_wf [OF h(3)] h(4,5) Suc.IH by (cases "200 \<le> rs_status r2") auto
qed simp

text \<open>The answer does not depend on the records.\<close>

lemma https_line_cong:
  "https_line budget c = Some (c', l, k) \<Longrightarrow> same_stream c d \<Longrightarrow> \<exists>d'. https_line budget d = Some (d', l, k) \<and> same_stream c' d'"
  using https_line_same [of c d budget] by (cases "https_line budget d") auto

lemma header_lines_cong:
  "header_lines budget c r = Some (c', left, r') \<Longrightarrow> same_stream c d
     \<Longrightarrow> \<exists>d'. header_lines budget d r = Some (d', left, r') \<and> same_stream c' d'"
proof (induction budget c r arbitrary: d rule: header_lines.induct)
  case (1 budget c r)
  then obtain c1 line k where l: "https_line budget c = Some (c1, line, k)"
    by (subst (asm) (2) header_lines.simps) (auto split: option.splits)
  obtain d1 where d1: "https_line budget d = Some (d1, line, k)" "same_stream c1 d1" using https_line_cong [OF l 1(3)] by blast
  show ?case
  proof (cases "line = []")
    case True
    then have "c' = c1 \<and> left = k \<and> r' = r" using 1(2) l by (subst (asm) header_lines.simps) simp
    then show ?thesis using d1 True by (subst header_lines.simps) simp
  next
    case False
    obtain name val r1 where f: "https_field line = Some (name, val)" "header_field r name val = Some r1"
      "header_lines k c1 r1 = Some (c', left, r')"
      using 1(2) l False by (subst (asm) header_lines.simps) (auto split: option.splits)
    from 1(1) [OF l refl refl False f(1) refl f(2,3) d1(2)] show ?thesis
      using d1(1) False f(1,2) by (subst header_lines.simps) simp
  qed
qed

lemma headers_cong:
  "headers_loop tries budget c = Some (c', r) \<Longrightarrow> same_stream c d
     \<Longrightarrow> \<exists>d'. headers_loop tries budget d = Some (d', r) \<and> same_stream c' d'"
proof (induction tries arbitrary: budget c d)
  case (Suc tries)
  then obtain c1 line left n c2 left2 r2 where h: "https_line budget c = Some (c1, line, left)" "status_of_line line = Some n"
    "header_lines left c1 (response_of n) = Some (c2, left2, r2)" "\<not> (rs_chunked r2 \<and> rs_has_length r2)"
    "if 200 \<le> rs_status r2 then c' = c2 \<and> r = r2
     else \<not> (rs_status r2 = 101 \<or> rs_chunked r2 \<or> rs_has_length r2) \<and> headers_loop tries left2 c2 = Some (c', r)"
    by (auto simp: bind_eq_Some_conv split: if_splits)
  obtain d1 where d1: "https_line budget d = Some (d1, line, left)" "same_stream c1 d1" using https_line_cong [OF h(1) Suc.prems(2)] by blast
  obtain d2 where d2: "header_lines left d1 (response_of n) = Some (d2, left2, r2)" "same_stream c2 d2"
    using header_lines_cong [OF h(3) d1(2)] by blast
  show ?case
  proof (cases "200 \<le> rs_status r2")
    case True
    then show ?thesis using h d1 d2 by auto
  next
    case False
    then obtain d' where "headers_loop tries left2 d2 = Some (d', r)" "same_stream c' d'" using h(5) Suc.IH d2(2) by metis
    then show ?thesis using h d1 d2 False by auto
  qed
qed simp

text \<open>The head of an answer is a part of the stream within the limit of the header.\<close>

lemma header_lines_stream:
  "header_lines budget c r = Some (c', left, r')
     \<Longrightarrow> \<exists>t. cn_stream c = (t @ fst (cn_stream c'), snd (cn_stream c')) \<and> budget = left + length t"
proof (induction budget c r rule: header_lines.induct)
  case (1 budget c r)
  then obtain c1 line k where l: "https_line budget c = Some (c1, line, k)"
    by (subst (asm) (2) header_lines.simps) (auto split: option.splits)
  note read = https_line_sound [OF l]
  show ?case
  proof (cases "line = []")
    case True
    then have "c' = c1 \<and> left = k" using 1(2) l by (subst (asm) header_lines.simps) simp
    then show ?thesis using read True by (intro exI [of _ "[CR, LF]"]) auto
  next
    case False
    obtain name val r1 where f: "https_field line = Some (name, val)" "header_field r name val = Some r1"
      "header_lines k c1 r1 = Some (c', left, r')"
      using 1(2) l False by (subst (asm) header_lines.simps) (auto split: option.splits)
    from 1(1) [OF l refl refl False f(1) refl f(2,3)] obtain t where
      "cn_stream c1 = (t @ fst (cn_stream c'), snd (cn_stream c'))" "k = left + length t" by blast
    then show ?thesis using read by (intro exI [of _ "line @ CR # LF # t"]) auto
  qed
qed

lemma headers_stream:
  "headers_loop tries budget c = Some (c', r)
     \<Longrightarrow> \<exists>t. cn_stream c = (t @ fst (cn_stream c'), snd (cn_stream c')) \<and> length t \<le> budget"
proof (induction tries arbitrary: budget c)
  case (Suc tries)
  then obtain c1 line left n c2 left2 r2 where h: "https_line budget c = Some (c1, line, left)"
    "header_lines left c1 (response_of n) = Some (c2, left2, r2)"
    "c' = c2 \<or> headers_loop tries left2 c2 = Some (c', r)"
    by (auto simp: bind_eq_Some_conv split: if_splits)
  obtain t where t: "cn_stream c1 = (t @ fst (cn_stream c2), snd (cn_stream c2))" "left = left2 + length t"
    using header_lines_stream [OF h(2)] by blast
  have "\<exists>u. cn_stream c2 = (u @ fst (cn_stream c'), snd (cn_stream c')) \<and> length u \<le> left2"
    using h(3)
  proof
    assume "c' = c2"
    then show ?thesis by (intro exI [of _ "[]"]) simp
  qed (rule Suc.IH)
  then obtain u where u: "cn_stream c2 = (u @ fst (cn_stream c'), snd (cn_stream c'))" "length u \<le> left2" by blast
  show ?case
    using https_line_sound [OF h(1)] t u by (intro exI [of _ "line @ CR # LF # t @ u"]) auto
qed simp

end
