(* ===== verification/Https_Download.thy ===== *)
theory Https_Download
  imports Https_Message
begin

unbundle bit_operations_syntax

text \<open>
  The HTTPS client of \<open>wpm/https.c\<close>, second part: the body of an answer with its three framings, and the download
  that follows redirects and replaces the destination only at the end.
\<close>

subsection \<open>The body\<close>

text \<open>What is left of a connection; every byte and every result of a read counts.\<close>

fun reads_size :: "tls_read list \<Rightarrow> nat" where
  "reads_size [] = 0"
| "reads_size (Tls_data d # rs) = Suc (length d) + reads_size rs"
| "reads_size (r # rs) = Suc (reads_size rs)"

definition cn_size :: "connection \<Rightarrow> nat" where
  "cn_size c = length (cn_buffer c) + reads_size (cn_reads c)"

lemma tls_next_size:
  "tls_next rs = (t, rs') \<Longrightarrow> reads_size rs' + (case t of Tls_data d \<Rightarrow> Suc (length d) | _ \<Rightarrow> 0) \<le> reads_size rs"
  by (induction rs rule: tls_next.induct) (auto split: if_splits)

lemma https_read_size:
  "https_read n c = (c', r) \<Longrightarrow> cn_size c' \<le> cn_size c \<and> (\<forall>d. r = Read_bytes d \<longrightarrow> cn_size c' < cn_size c)"
proof -
  assume a: "https_read n c = (c', r)"
  show ?thesis
  proof (cases "n \<noteq> 0 \<and> cn_buffer c = []")
    case True
    obtain t rs where t: "tls_next (cn_reads c) = (t, rs)" by force
    then show ?thesis
      using a True tls_next_size [OF t] by (cases t) (auto simp: https_read_def https_take_def cn_size_def)
  next
    case False
    then show ?thesis
      using a by (auto simp: https_read_def https_take_def cn_size_def split: if_splits)
  qed
qed

lemma https_line_loop_size: "https_line_loop budget acc c = Some (c', line, left) \<Longrightarrow> cn_size c' < cn_size c"
proof (induction budget acc c rule: https_line_loop.induct)
  case (1 budget acc c)
  obtain c1 r where r: "https_read 1 c = (c1, r)" by force
  then obtain b bs where b: "r = Read_bytes (b # bs)"
    using 1(2) by (subst (asm) https_line_loop.simps) (auto split: if_splits https_result.splits list.splits)
  have nonzero: "\<not> (budget = 0 \<or> HTTPS_LINE_SIZE \<le> length acc + 1)"
    using 1(2) by (subst (asm) https_line_loop.simps) (auto split: if_splits)
  have less: "cn_size c1 < cn_size c" using https_read_size [OF r] b by blast
  show ?case
  proof (cases "b = CR")
    case True
    obtain c2 r2 where r2: "https_read 1 c1 = (c2, r2)" by force
    have "c' = c2" using 1(2) r b True r2
      by (subst (asm) https_line_loop.simps) (auto split: if_splits https_result.splits list.splits)
    then show ?thesis using https_read_size [OF r2] less by simp
  next
    case False
    have next_char: "\<not> (byte b < 32 \<and> b \<noteq> TAB \<or> byte b = 127)" "https_line_loop (budget - 1) (acc @ [b]) c1 = Some (c', line, left)"
      using 1(2) r b False nonzero by (subst (asm) https_line_loop.simps, simp split: if_splits)+
    from 1(1) [OF nonzero r [symmetric] b refl False next_char] less show ?thesis by simp
  qed
qed

lemma https_line_size: "https_line budget c = Some (c', line, left) \<Longrightarrow> cn_size c' < cn_size c"
  unfolding https_line_def by (rule https_line_loop_size)

text \<open>Bytes to the file. \<open>wr\<close> is whether a write after the given bytes succeeds; without a limit the body ends with
  the authenticated close. The result is what has been written and the connection, \<open>None\<close> on failure.\<close>

definition BODY_CHUNK :: nat where "BODY_CHUNK = 16384"

function body_data :: "(string \<Rightarrow> string \<Rightarrow> bool) \<Rightarrow> nat option \<Rightarrow> string \<Rightarrow> connection \<Rightarrow> string \<times> connection option" where
  "body_data wr limit got c =
     (if limit = Some 0 then (got, Some c)
      else
      (case https_read (case limit of None \<Rightarrow> BODY_CHUNK | Some n \<Rightarrow> min BODY_CHUNK n) c of
         (c, Read_error) \<Rightarrow> (got, None)
       | (c, Read_end) \<Rightarrow> (got, if limit = None then Some c else None)
       | (c, Read_bytes d) \<Rightarrow>
           if length got > ULLONG_MAX - length d \<or> \<not> wr got d then (got, None)
           else body_data wr (map_option (\<lambda>n. n - length d) limit) (got @ d) c))"
  by pat_completeness auto
termination
  by (relation "measure (\<lambda>(wr, limit, got, c). cn_size c)") (auto dest: https_read_size [OF sym])

declare body_data.simps [simp del]

lemma body_data_size: "body_data wr limit got c = (out, Some c') \<Longrightarrow> cn_size c' \<le> cn_size c"
proof (induction wr limit got c rule: body_data.induct)
  case (1 wr limit got c)
  show ?case
  proof (cases "limit = Some 0")
    case True
    then show ?thesis using 1(2) by (subst (asm) body_data.simps) simp
  next
    case False
    obtain c1 r where r: "https_read (case limit of None \<Rightarrow> BODY_CHUNK | Some n \<Rightarrow> min BODY_CHUNK n) c = (c1, r)" by force
    note less = https_read_size [OF r]
    show ?thesis
    proof (cases r)
      case (Read_bytes d)
      then have "\<not> (length got > ULLONG_MAX - length d \<or> \<not> wr got d)"
        "body_data wr (map_option (\<lambda>n. n - length d) limit) (got @ d) c1 = (out, Some c')"
        using 1(2) False r by (subst (asm) body_data.simps, auto split: if_splits)+
      from 1(1) [OF False r [symmetric] Read_bytes this] less show ?thesis by simp
    qed (use 1(2) False r less in \<open>subst (asm) body_data.simps, auto split: if_splits\<close>)+
  qed
qed

text \<open>The trailer behind the last chunk.\<close>

function trailer_lines :: "nat \<Rightarrow> connection \<Rightarrow> connection option" where
  "trailer_lines budget c =
     (case https_line budget c of
        None \<Rightarrow> None
      | Some (c, line, left) \<Rightarrow>
          if line = [] then Some c
          else
          (case https_field line of
             None \<Rightarrow> None
           | Some (name, val) \<Rightarrow>
               if strieq name ''Content-Length'' \<or> strieq name ''Transfer-Encoding'' then None else trailer_lines left c))"
  by pat_completeness auto
termination
  by (relation "measure (\<lambda>(budget, c). budget)") (auto dest: https_line_less)

declare trailer_lines.simps [simp del]

definition chunk_size :: "string \<Rightarrow> nat option" where
  "chunk_size line = https_number 16 (takeWhile (\<lambda>c. c \<noteq> CHR '';'') line)"

function body_chunks :: "(string \<Rightarrow> string \<Rightarrow> bool) \<Rightarrow> string \<Rightarrow> connection \<Rightarrow> string \<times> connection option" where
  "body_chunks wr got c =
     (case https_line HTTPS_LINE_SIZE c of
        None \<Rightarrow> (got, None)
      | Some (c, line, left) \<Rightarrow>
          (case chunk_size line of
             None \<Rightarrow> (got, None)
           | Some n \<Rightarrow>
               if n = 0 then (got, trailer_lines HTTPS_HEADER_LIMIT c)
               else
               (case body_data wr (Some n) got c of
                  (got, None) \<Rightarrow> (got, None)
                | (got, Some c) \<Rightarrow>
                    (case https_line 2 c of
                       None \<Rightarrow> (got, None)
                     | Some (c, line, left) \<Rightarrow> if line \<noteq> [] then (got, None) else body_chunks wr got c))))"
  by pat_completeness auto
termination
  by (relation "measure (\<lambda>(wr, got, c). cn_size c)")
    (auto dest!: https_line_size body_data_size [OF sym])

declare body_chunks.simps [simp del]

definition https_body :: "(string \<Rightarrow> string \<Rightarrow> bool) \<Rightarrow> https_response \<Rightarrow> connection \<Rightarrow> string \<times> connection option" where
  "https_body wr r c =
     (if rs_chunked r then body_chunks wr [] c else body_data wr (if rs_has_length r then Some (rs_length r) else None) [] c)"

subsection \<open>The framing of a body\<close>

lemma body_data_sound:
  "body_data wr limit got c = (out, Some c') \<Longrightarrow>
     \<exists>d. out = got @ d \<and> (case limit of Some n \<Rightarrow> length d = n \<and> cn_stream c = (d @ fst (cn_stream c'), snd (cn_stream c'))
                           | None \<Rightarrow> cn_stream c = (d, True))"
proof (induction wr limit got c rule: body_data.induct)
  case (1 wr limit got c)
  show ?case
  proof (cases "limit = Some 0")
    case True
    then show ?thesis using 1(2) by (subst (asm) body_data.simps) simp
  next
    case False
    define n where "n = (case limit of None \<Rightarrow> BODY_CHUNK | Some n \<Rightarrow> min BODY_CHUNK n)"
    have n: "0 < n" "\<And>m. limit = Some m \<Longrightarrow> n \<le> m" using False by (auto simp: n_def BODY_CHUNK_def split: option.split)
    obtain c1 r where r: "https_read n c = (c1, r)" by force
    note stream = https_read_stream [OF r n(1) prod.collapse [symmetric]]
    show ?thesis
    proof (cases r)
      case (Read_bytes d)
      then have next_data: "\<not> (length got > ULLONG_MAX - length d \<or> \<not> wr got d)"
        "body_data wr (map_option (\<lambda>n. n - length d) limit) (got @ d) c1 = (out, Some c')"
        using 1(2) False r by (subst (asm) body_data.simps, auto simp: n_def split: if_splits)+
      from 1(1) [OF False r [unfolded n_def, symmetric] Read_bytes next_data] obtain e where
        e: "out = (got @ d) @ e" "case map_option (\<lambda>n. n - length d) limit of
           Some n \<Rightarrow> length e = n \<and> cn_stream c1 = (e @ fst (cn_stream c'), snd (cn_stream c')) | None \<Rightarrow> cn_stream c1 = (e, True)"
        by blast
      have s: "fst (cn_stream c) = d @ fst (cn_stream c1)" "snd (cn_stream c1) = snd (cn_stream c)" "length d \<le> n"
        using stream Read_bytes by auto
      show ?thesis
        using e s n(2) by (intro exI [of _ "d @ e"]) (auto simp: prod_eq_iff split: option.splits)
    next
      case Read_end
      then have "out = got" "limit = None"
        using 1(2) False r by (subst (asm) body_data.simps, auto simp: n_def split: if_splits)+
      then show ?thesis using stream Read_end by (auto simp: prod_eq_iff)
    qed (use 1(2) False r in \<open>subst (asm) body_data.simps, auto simp: n_def\<close>)
  qed
qed

lemma body_data_complete:
  assumes "\<forall>g d. wr g d" "length got + length d \<le> ULLONG_MAX"
  shows "limit = Some (length d) \<Longrightarrow> cn_stream c = (d @ rest, clean)
      \<Longrightarrow> \<exists>c'. body_data wr limit got c = (got @ d, Some c') \<and> cn_stream c' = (rest, clean)"
    and "limit = None \<Longrightarrow> cn_stream c = (d, True) \<Longrightarrow> \<exists>c'. body_data wr limit got c = (got @ d, Some c')"
proof -
  have "(limit = Some (length d) \<longrightarrow> cn_stream c = (d @ rest, clean)
      \<longrightarrow> (\<exists>c'. body_data wr limit got c = (got @ d, Some c') \<and> cn_stream c' = (rest, clean)))
    \<and> (limit = None \<longrightarrow> cn_stream c = (d, True) \<longrightarrow> (\<exists>c'. body_data wr limit got c = (got @ d, Some c')))"
    using assms(2)
  proof (induction "cn_size c" arbitrary: c d got limit rule: less_induct)
    case less
    define n where "n = (case limit of None \<Rightarrow> BODY_CHUNK | Some n \<Rightarrow> min BODY_CHUNK n)"
    obtain c1 r where r: "https_read n c = (c1, r)" by force
    have step: "body_data wr limit got c = body_data wr (map_option (\<lambda>n. n - length p) limit) (got @ p) c1"
      if p: "limit \<noteq> Some 0" "r = Read_bytes p" "length p \<le> length d" for p
    proof -
      have "\<not> length got > ULLONG_MAX - length p" using p(3) less(2) by linarith
      then show ?thesis using p(1,2) r assms(1) by (subst body_data.simps) (simp add: n_def [symmetric])
    qed
    show ?case
    proof (intro conjI impI)
      assume l: "limit = Some (length d)" "cn_stream c = (d @ rest, clean)"
      show "\<exists>c'. body_data wr limit got c = (got @ d, Some c') \<and> cn_stream c' = (rest, clean)"
      proof (cases "d = []")
        case True
        then show ?thesis using l by (subst body_data.simps) simp
      next
        case False
        then have n: "0 < n" "n \<le> length d" using l(1) by (simp_all add: n_def BODY_CHUNK_def)
        obtain p where p: "r = Read_bytes p" "p \<noteq> []" "length p \<le> n" "d @ rest = p @ fst (cn_stream c1)" "snd (cn_stream c1) = clean"
          using https_read_stream [OF r n(1) l(2)] False by (cases r) auto
        define q where "q = drop (length p) d"
        have le: "length p \<le> length d" using p(3) n(2) by simp
        have "take (length p) (d @ rest) = p" "drop (length p) (d @ rest) = fst (cn_stream c1)" using p(4) by simp_all
        then have q: "d = p @ q" "fst (cn_stream c1) = q @ rest"
          using le append_take_drop_id [of "length p" d] by (simp_all add: q_def)
        have "cn_size c1 < cn_size c" using https_read_size [OF r] p(1) by blast
        from less(1) [OF this, of "got @ p" q "Some (length q)"] obtain c' where
          "body_data wr (Some (length q)) (got @ p) c1 = ((got @ p) @ q, Some c')" "cn_stream c' = (rest, clean)"
          using less(2) p(5) q by (auto simp: prod_eq_iff)
        then show ?thesis using step [OF _ p(1)] l(1) False q(1) by auto
      qed
    next
      assume l: "limit = None" "cn_stream c = (d, True)"
      have n: "0 < n" using l(1) by (simp add: n_def BODY_CHUNK_def)
      note stream = https_read_stream [OF r n l(2)]
      show "\<exists>c'. body_data wr limit got c = (got @ d, Some c')"
      proof (cases r)
        case (Read_bytes p)
        then have p: "d = p @ fst (cn_stream c1)" "snd (cn_stream c1)" using stream by auto
        have "cn_size c1 < cn_size c" using https_read_size [OF r] Read_bytes by blast
        from less(1) [OF this, of "got @ p" "fst (cn_stream c1)" None] obtain c' where
          "body_data wr None (got @ p) c1 = ((got @ p) @ fst (cn_stream c1), Some c')"
          using less(2) p by (auto simp: prod_eq_iff)
        then show ?thesis using step [OF _ Read_bytes] l(1) p(1) by (metis append.assoc length_append le_add1 option.simps(3) option.map(1))
      next
        case Read_end
        then show ?thesis using stream l(1) r by (subst body_data.simps) (simp add: n_def)
      qed (use stream in simp)
    qed
  qed
  then show "limit = Some (length d) \<Longrightarrow> cn_stream c = (d @ rest, clean)
      \<Longrightarrow> \<exists>c'. body_data wr limit got c = (got @ d, Some c') \<and> cn_stream c' = (rest, clean)"
    and "limit = None \<Longrightarrow> cn_stream c = (d, True) \<Longrightarrow> \<exists>c'. body_data wr limit got c = (got @ d, Some c')" by blast+
qed

text \<open>The grammar of chunks, with the bounds of the reader: the bytes, the data in them, and what follows.\<close>

definition chunk_line :: "nat \<Rightarrow> string \<Rightarrow> bool" where
  "chunk_line budget l \<longleftrightarrow> list_all line_char l \<and> length l + 2 \<le> budget \<and> length l + 1 < HTTPS_LINE_SIZE"

inductive trailer :: "nat \<Rightarrow> string \<Rightarrow> bool" where
  trailer_end: "2 \<le> budget \<Longrightarrow> trailer budget [CR, LF]"
| trailer_field: "chunk_line budget l \<Longrightarrow> l \<noteq> [] \<Longrightarrow> https_field l = Some (name, val)
     \<Longrightarrow> \<not> strieq name ''Content-Length'' \<Longrightarrow> \<not> strieq name ''Transfer-Encoding''
     \<Longrightarrow> trailer (budget - length l - 2) t \<Longrightarrow> trailer budget (l @ CR # LF # t)"

inductive chunked :: "string \<Rightarrow> string \<Rightarrow> string \<Rightarrow> bool" where
  chunked_end: "chunk_line HTTPS_LINE_SIZE l \<Longrightarrow> chunk_size l = Some 0 \<Longrightarrow> trailer HTTPS_HEADER_LIMIT t
     \<Longrightarrow> chunked (l @ CR # LF # t @ rest) [] rest"
| chunked_data: "chunk_line HTTPS_LINE_SIZE l \<Longrightarrow> d \<noteq> [] \<Longrightarrow> chunk_size l = Some (length d) \<Longrightarrow> chunked s data rest
     \<Longrightarrow> chunked (l @ CR # LF # d @ CR # LF # s) (d @ data) rest"

lemma read_line:
  assumes "cn_stream c = (l @ CR # LF # rest, clean)" "chunk_line budget l"
  shows "\<exists>c'. https_line budget c = Some (c', l, budget - length l - 2) \<and> cn_stream c' = (rest, clean)"
  using https_line_loop_complete [of c l rest clean budget "[]"] assms unfolding chunk_line_def https_line_def by auto

lemma line_read:
  assumes "https_line budget c = Some (c', l, left)"
  shows "cn_stream c = (l @ CR # LF # fst (cn_stream c'), snd (cn_stream c'))" "chunk_line budget l" "left = budget - length l - 2"
  using https_line_sound [OF assms] by (simp_all add: chunk_line_def)

lemma trailer_sound:
  "trailer_lines budget c = Some c' \<Longrightarrow> \<exists>t. trailer budget t \<and> cn_stream c = (t @ fst (cn_stream c'), snd (cn_stream c'))"
proof (induction budget c rule: trailer_lines.induct)
  case (1 budget c)
  then obtain c1 line k where l: "https_line budget c = Some (c1, line, k)"
    by (subst (asm) (2) trailer_lines.simps) (auto split: option.splits)
  note read = line_read [OF l]
  show ?case
  proof (cases "line = []")
    case True
    then have "c' = c1" using 1(2) l by (subst (asm) trailer_lines.simps) simp
    then show ?thesis using read True by (intro exI [of _ "[CR, LF]"]) (auto simp: chunk_line_def intro: trailer_end)
  next
    case False
    obtain name val where f: "https_field line = Some (name, val)"
      "\<not> (strieq name ''Content-Length'' \<or> strieq name ''Transfer-Encoding'')" "trailer_lines k c1 = Some c'"
      using 1(2) l False by (subst (asm) trailer_lines.simps) (auto split: option.splits if_splits)
    from 1(1) [OF l refl refl False f(1) refl f(2,3)] obtain t where
      t: "trailer k t" "cn_stream c1 = (t @ fst (cn_stream c'), snd (cn_stream c'))" by blast
    have "trailer budget (line @ CR # LF # t)"
      using t(1) f(2) unfolding read(3) by (intro trailer_field [OF read(2) False f(1)]) auto
    then show ?thesis using read(1) t(2) by (intro exI [of _ "line @ CR # LF # t"]) auto
  qed
qed

lemma trailer_complete:
  "trailer budget t \<Longrightarrow> cn_stream c = (t @ rest, clean) \<Longrightarrow> \<exists>c'. trailer_lines budget c = Some c' \<and> cn_stream c' = (rest, clean)"
proof (induction budget t arbitrary: c rule: trailer.induct)
  case (trailer_end budget)
  have "cn_stream c = ([] @ CR # LF # rest, clean)" "chunk_line budget []"
    using trailer_end by (simp_all add: chunk_line_def HTTPS_LINE_SIZE_def)
  from read_line [OF this] obtain c' where "https_line budget c = Some (c', [], budget - 2)" "cn_stream c' = (rest, clean)"
    by auto
  then show ?case by (subst trailer_lines.simps) simp
next
  case (trailer_field budget l name val t)
  have "cn_stream c = (l @ CR # LF # t @ rest, clean)" using trailer_field.prems by simp
  then obtain c1 where c1: "https_line budget c = Some (c1, l, budget - length l - 2)" "cn_stream c1 = (t @ rest, clean)"
    using read_line [OF _ trailer_field.hyps(1)] by blast
  then show ?case using trailer_field.IH [OF c1(2)] trailer_field.hyps by (subst trailer_lines.simps) simp
qed

lemma body_chunks_sound:
  "body_chunks wr got c = (out, Some c') \<Longrightarrow>
     \<exists>data rest. out = got @ data \<and> chunked (fst (cn_stream c)) data rest"
proof (induction wr got c rule: body_chunks.induct)
  case (1 wr got c)
  then obtain c1 line k n where l: "https_line HTTPS_LINE_SIZE c = Some (c1, line, k)" "chunk_size line = Some n"
    by (subst (asm) (2) body_chunks.simps) (auto split: option.splits)
  note read = line_read [OF l(1)]
  show ?case
  proof (cases "n = 0")
    case True
    then have "out = got" "trailer_lines HTTPS_HEADER_LIMIT c1 = Some c'"
      using 1(2) l by (subst (asm) body_chunks.simps, simp)+
    with trailer_sound [OF this(2)] obtain t where "out = got" "trailer HTTPS_HEADER_LIMIT t" "fst (cn_stream c1) = t @ fst (cn_stream c')"
      by auto
    then show ?thesis
      using read(1) chunked_end [OF read(2)] l(2) True by (intro exI [of _ "[]"] exI [of _ "fst (cn_stream c')"]) auto
  next
    case False
    obtain got2 c2 where b: "body_data wr (Some n) got c1 = (got2, Some c2)"
      using 1(2) l False by (subst (asm) body_chunks.simps) (auto split: option.splits prod.splits)
    obtain c3 left3 where e: "https_line 2 c2 = Some (c3, [], left3)" "body_chunks wr got2 c3 = (out, Some c')"
      using 1(2) l False b by (subst (asm) body_chunks.simps) (auto split: option.splits prod.splits if_splits)
    obtain d where d: "got2 = got @ d" "length d = n" "fst (cn_stream c1) = d @ fst (cn_stream c2)"
      using body_data_sound [OF b] by auto
    have "fst (cn_stream c2) = CR # LF # fst (cn_stream c3)" using line_read(1) [OF e(1)] by simp
    moreover from 1(1) [OF l(1) refl refl l(2) False b [symmetric] refl e(1) refl refl _ e(2)] obtain data rest where
      r: "out = got2 @ data" "chunked (fst (cn_stream c3)) data rest" by auto
    ultimately show ?thesis
      using chunked_data [OF read(2) _ _ r(2), of d] d l(2) False read(1) r(1) by (intro exI [of _ "d @ data"] exI [of _ rest]) auto
  qed
qed

lemma body_chunks_complete:
  assumes "\<forall>g d. wr g d"
  shows "chunked bytes data rest \<Longrightarrow> cn_stream c = (bytes, clean) \<Longrightarrow> length got + length data \<le> ULLONG_MAX
     \<Longrightarrow> \<exists>c'. body_chunks wr got c = (got @ data, Some c') \<and> cn_stream c' = (rest, clean)"
proof (induction bytes data rest arbitrary: c got rule: chunked.induct)
  case (chunked_end l t rest)
  obtain c1 where c1: "https_line HTTPS_LINE_SIZE c = Some (c1, l, HTTPS_LINE_SIZE - length l - 2)" "cn_stream c1 = (t @ rest, clean)"
    using read_line [OF chunked_end.prems(1) chunked_end.hyps(1)] by blast
  obtain c' where "trailer_lines HTTPS_HEADER_LIMIT c1 = Some c'" "cn_stream c' = (rest, clean)"
    using trailer_complete [OF chunked_end.hyps(3) c1(2)] by blast
  then show ?case using c1(1) chunked_end.hyps(2) by (subst body_chunks.simps) simp
next
  case (chunked_data l d s data rest)
  obtain c1 where c1: "https_line HTTPS_LINE_SIZE c = Some (c1, l, HTTPS_LINE_SIZE - length l - 2)"
    "cn_stream c1 = (d @ CR # LF # s, clean)"
    using read_line [OF chunked_data.prems(1) chunked_data.hyps(1)] by auto
  have "length got + length d \<le> ULLONG_MAX" using chunked_data.prems(2) by simp
  from body_data_complete(1) [OF assms this refl c1(2)] obtain c2 where
    c2: "body_data wr (Some (length d)) got c1 = (got @ d, Some c2)" "cn_stream c2 = ([] @ CR # LF # s, clean)" by auto
  have "chunk_line 2 []" by (simp add: chunk_line_def HTTPS_LINE_SIZE_def)
  from read_line [OF c2(2) this] obtain c3 where c3: "https_line 2 c2 = Some (c3, [], 0)" "cn_stream c3 = (s, clean)"
    by auto
  obtain c' where "body_chunks wr (got @ d) c3 = ((got @ d) @ data, Some c')" "cn_stream c' = (rest, clean)"
    using chunked_data.IH [OF c3(2), of "got @ d"] chunked_data.prems(2) by auto
  then show ?case
    using c1(1) c2(1) c3(1) chunked_data.hyps(2,3) by (subst body_chunks.simps) simp
qed

text \<open>The body that an answer frames in the bytes behind its header.\<close>

definition framed :: "https_response \<Rightarrow> string \<Rightarrow> bool \<Rightarrow> string \<Rightarrow> bool" where
  "framed r bytes clean data \<longleftrightarrow>
     (if rs_chunked r then \<exists>rest. chunked bytes data rest
      else if rs_has_length r then length data = rs_length r \<and> (\<exists>rest. bytes = data @ rest)
      else bytes = data \<and> clean)"

lemma https_body_framed:
  assumes "https_body wr r c = (data, Some c')"
  shows "framed r (fst (cn_stream c)) (snd (cn_stream c)) data"
proof (cases "rs_chunked r")
  case True
  then show ?thesis using assms body_chunks_sound [of wr "[]" c data c'] by (auto simp: https_body_def framed_def)
next
  case False
  then show ?thesis
    using assms body_data_sound [of wr "if rs_has_length r then Some (rs_length r) else None" "[]" c data c']
    by (auto simp: https_body_def framed_def prod_eq_iff split: if_splits)
qed

lemma framed_https_body:
  assumes "framed r bytes clean data" "cn_stream c = (bytes, clean)" "\<forall>g d. wr g d" "length data \<le> ULLONG_MAX"
  shows "\<exists>c'. https_body wr r c = (data, Some c')"
proof (cases "rs_chunked r")
  case True
  then show ?thesis using assms body_chunks_complete [OF assms(3), of bytes data _ c clean "[]"] by (fastforce simp: https_body_def framed_def)
next
  case False
  have "length ([] :: string) + length data \<le> ULLONG_MAX" using assms(4) by simp
  note complete = body_data_complete [OF assms(3) this]
  show ?thesis
  proof (cases "rs_has_length r")
    case True
    then obtain rest where "cn_stream c = (data @ rest, clean)" "rs_length r = length data"
      using assms(1,2) False by (auto simp: framed_def)
    then show ?thesis using complete(1) [OF refl] True False by (fastforce simp: https_body_def)
  next
    case no_length: False
    then have "cn_stream c = (data, True)" using assms(1,2) False by (auto simp: framed_def)
    then show ?thesis using complete(2) [OF refl] no_length False by (fastforce simp: https_body_def)
  qed
qed

lemma body_data_bound:
  "body_data wr limit got c = (out, Some c') \<Longrightarrow> length got \<le> ULLONG_MAX \<Longrightarrow> length out \<le> ULLONG_MAX"
proof (induction wr limit got c rule: body_data.induct)
  case (1 wr limit got c)
  obtain c1 r where r: "https_read (case limit of None \<Rightarrow> BODY_CHUNK | Some n \<Rightarrow> min BODY_CHUNK n) c = (c1, r)" by force
  show ?case
  proof (cases "limit = Some 0 \<or> (\<nexists>d. r = Read_bytes d)")
    case True
    then show ?thesis using 1(2,3) r by (subst (asm) body_data.simps) (cases r; auto split: if_splits)
  next
    case False
    then obtain d where d: "r = Read_bytes d" "limit \<noteq> Some 0" by blast
    have next_data: "\<not> (length got > ULLONG_MAX - length d \<or> \<not> wr got d)"
      "body_data wr (map_option (\<lambda>n. n - length d) limit) (got @ d) c1 = (out, Some c')"
      using 1(2) d r by (subst (asm) body_data.simps, auto split: if_splits)+
    show ?thesis
    proof (cases "length d \<le> ULLONG_MAX")
      case True
      have "length got \<le> ULLONG_MAX - length d" using next_data(1) by (simp add: not_less)
      then have "length (got @ d) \<le> ULLONG_MAX" using True by simp
      from 1(1) [OF d(2) r [symmetric] d(1) next_data this] show ?thesis .
    next
      case False
      have "length d \<le> BODY_CHUNK"
        using https_read_stream [OF r _ prod.collapse [symmetric]] d by (cases limit) (auto simp: BODY_CHUNK_def)
      then show ?thesis using False by (simp add: BODY_CHUNK_def ULLONG_MAX_def)
    qed
  qed
qed

lemma body_chunks_bound: "body_chunks wr got c = (out, Some c') \<Longrightarrow> length got \<le> ULLONG_MAX \<Longrightarrow> length out \<le> ULLONG_MAX"
proof (induction wr got c rule: body_chunks.induct)
  case (1 wr got c)
  then obtain c1 line k n where l: "https_line HTTPS_LINE_SIZE c = Some (c1, line, k)" "chunk_size line = Some n"
    by (subst (asm) (2) body_chunks.simps) (auto split: option.splits)
  show ?case
  proof (cases "n = 0")
    case True
    then show ?thesis using 1(2,3) l by (subst (asm) body_chunks.simps) simp
  next
    case False
    obtain got2 c2 where b: "body_data wr (Some n) got c1 = (got2, Some c2)"
      using 1(2) l False by (subst (asm) body_chunks.simps) (auto split: option.splits prod.splits)
    obtain c3 left3 where e: "https_line 2 c2 = Some (c3, [], left3)" "body_chunks wr got2 c3 = (out, Some c')"
      using 1(2) l False b by (subst (asm) body_chunks.simps) (auto split: option.splits prod.splits if_splits)
    from 1(1) [OF l(1) refl refl l(2) False b [symmetric] refl e(1) refl refl _ e(2) body_data_bound [OF b 1(3)]]
    show ?thesis by simp
  qed
qed

lemma https_body_bound: "https_body wr r c = (data, Some c') \<Longrightarrow> length data \<le> ULLONG_MAX"
  using body_chunks_bound [of wr "[]" c data c'] body_data_bound [of wr _ "[]" c data c'] by (auto simp: https_body_def split: if_splits)

text \<open>C30: the body is accepted exactly when the bytes behind the header are framed as the header says, with the
  grammar of chunks, the declared length, or an authenticated close, and fit 64 bits; what is written is then exactly
  the data of that framing.\<close>

theorem https_body_iff:
  assumes "cn_stream c = (bytes, clean)" "\<forall>g d. wr g d"
  shows "(\<exists>c'. https_body wr r c = (data, Some c')) \<longleftrightarrow> framed r bytes clean data \<and> length data \<le> ULLONG_MAX"
  using https_body_framed [of wr r c data] https_body_bound [of wr r c data] framed_https_body [OF _ assms] assms(1) by fastforce

subsection \<open>The download\<close>

text \<open>The results of the system: Winsock and the certificates, the verified connection to an address at each hop,
  whether the request was sent, and the steps of the temporary file.\<close>

record https_env =
  he_capabilities :: "32 word"
  he_ready :: bool
  he_open :: "nat \<Rightarrow> https_url \<Rightarrow> connection option"
  he_sent :: "nat \<Rightarrow> string \<Rightarrow> bool"
  he_created :: bool
  he_write :: "string \<Rightarrow> string \<Rightarrow> bool"
  he_flushed :: bool
  he_closed :: bool
  he_moved :: bool

text \<open>The addresses that were opened, whether the temporary file was created, and the data that replaced the
  destination. Without a replacement a created temporary file is deleted.\<close>

record download =
  dl_hops :: "https_url list"
  dl_created :: bool
  dl_destination :: "string option"

definition no_download :: download where
  "no_download = \<lparr>dl_hops = [], dl_created = False, dl_destination = None\<rparr>"

definition dl_deleted :: "download \<Rightarrow> bool" where
  "dl_deleted dl \<longleftrightarrow> dl_destination dl = None \<and> dl_created dl"

definition is_redirect :: "nat \<Rightarrow> bool" where
  "is_redirect status \<longleftrightarrow> status \<in> {301, 302, 303, 307, 308}"

definition save_body :: "https_env \<Rightarrow> https_response \<Rightarrow> connection \<Rightarrow> download" where
  "save_body he r c =
     (if \<not> he_created he then no_download
      else
      (case https_body (he_write he) r c of
         (data, None) \<Rightarrow> no_download\<lparr>dl_created := True\<rparr>
       | (data, Some c) \<Rightarrow>
           if \<not> he_flushed he \<or> \<not> he_closed he \<or> \<not> he_moved he then no_download\<lparr>dl_created := True\<rparr>
           else no_download\<lparr>dl_created := True, dl_destination := Some data\<rparr>))"

fun download_loop :: "nat \<Rightarrow> https_env \<Rightarrow> nat \<Rightarrow> string \<Rightarrow> download" where
  "download_loop 0 he i current = no_download"
| "download_loop (Suc tries) he i current =
     (case https_parse_url current of
        None \<Rightarrow> no_download
      | Some url \<Rightarrow>
          let rest =
            (case he_open he i url of
               None \<Rightarrow> no_download
             | Some c \<Rightarrow>
                 if length (https_request url) \<ge> HTTPS_URL_SIZE + 512 \<or> \<not> he_sent he i (https_request url) then no_download
                 else
                 (case https_headers c of
                    None \<Rightarrow> no_download
                  | Some (c, r) \<Rightarrow>
                      if is_redirect (rs_status r)
                      then (case https_redirect url (rs_location r) of
                              None \<Rightarrow> no_download
                            | Some target \<Rightarrow> download_loop tries he (i + 1) target)
                      else if rs_status r \<noteq> 200 then no_download
                      else save_body he r c)) in
          rest\<lparr>dl_hops := url # dl_hops rest\<rparr>)"

definition wpm_https_download :: "https_env \<Rightarrow> string \<Rightarrow> string \<Rightarrow> download" where
  "wpm_https_download he initial destination =
     (if \<not> wpm_require_capability (WPM_CAP_WRITE OR WPM_CAP_NETWORK) (he_capabilities he) then no_download
      else if length destination + 27 \<ge> HTTPS_URL_SIZE \<or> https_copy HTTPS_URL_SIZE initial = None \<or> \<not> he_ready he then no_download
      else download_loop 11 he 0 initial)"

text \<open>One hop leads to the next: the answer of the first is a redirect to the second.\<close>

definition hop_step :: "https_env \<Rightarrow> nat \<Rightarrow> https_url \<Rightarrow> https_url \<Rightarrow> bool" where
  "hop_step he i url url' \<longleftrightarrow>
     (\<exists>c c' r target. he_open he i url = Some c \<and> https_headers c = Some (c', r) \<and> is_redirect (rs_status r)
        \<and> https_redirect url (rs_location r) = Some target \<and> https_parse_url target = Some url'
        \<and> (relative_location (rs_location r) \<longrightarrow> hu_host url' = hu_host url \<and> hu_port url' = hu_port url))"

text \<open>The last hop delivered the data.\<close>

definition hop_delivers :: "https_env \<Rightarrow> nat \<Rightarrow> https_url \<Rightarrow> string \<Rightarrow> bool" where
  "hop_delivers he i url data \<longleftrightarrow>
     (\<exists>c c' r. he_open he i url = Some c \<and> https_headers c = Some (c', r) \<and> rs_status r = 200
        \<and> framed r (fst (cn_stream c')) (snd (cn_stream c')) data)"

lemma save_body_outcome:
  "dl_hops (save_body he r c) = [] \<and> (dl_destination (save_body he r c) = Some data \<longrightarrow> (\<exists>c'. https_body (he_write he) r c = (data, Some c')))"
  by (auto simp: save_body_def no_download_def split: prod.splits option.splits)

lemma download_loop_hops:
  "download_loop tries he i current = dl \<Longrightarrow>
     length (dl_hops dl) \<le> tries
     \<and> (\<forall>url \<in> set (dl_hops dl). url_wf url)
     \<and> (\<forall>k. Suc k < length (dl_hops dl) \<longrightarrow> hop_step he (i + k) (dl_hops dl ! k) (dl_hops dl ! Suc k))
     \<and> (dl_hops dl \<noteq> [] \<longrightarrow> https_parse_url current = Some (hd (dl_hops dl)))
     \<and> (\<forall>data. dl_destination dl = Some data \<longrightarrow> dl_hops dl \<noteq> []
          \<and> hop_delivers he (i + length (dl_hops dl) - 1) (last (dl_hops dl)) data)"
proof (induction tries he i current arbitrary: dl rule: download_loop.induct)
  case (1 he i current)
  then show ?case by (auto simp: no_download_def)
next
  case (2 tries he i current)
  show ?case
  proof (cases "https_parse_url current")
    case None
    then show ?thesis using 2(2) by (auto simp: no_download_def)
  next
    case (Some url)
    note wf = parsed_url_wf [OF Some]
    define rest where "rest =
            (case he_open he i url of
               None \<Rightarrow> no_download
             | Some c \<Rightarrow>
                 if length (https_request url) \<ge> HTTPS_URL_SIZE + 512 \<or> \<not> he_sent he i (https_request url) then no_download
                 else
                 (case https_headers c of
                    None \<Rightarrow> no_download
                  | Some (c, r) \<Rightarrow>
                      if is_redirect (rs_status r)
                      then (case https_redirect url (rs_location r) of
                              None \<Rightarrow> no_download
                            | Some target \<Rightarrow> download_loop tries he (i + 1) target)
                      else if rs_status r \<noteq> 200 then no_download
                      else save_body he r c))"
    have dl: "dl_hops dl = url # dl_hops rest" "dl_destination dl = dl_destination rest"
      using 2(2) Some by (auto simp: rest_def Let_def)
    consider (stop) "dl_hops rest = []" "dl_destination rest = None"
      | (body) c c1 r data c2 where "he_open he i url = Some c" "https_headers c = Some (c1, r)" "rs_status r = 200"
          "https_body (he_write he) r c1 = (data, Some c2)" "dl_hops rest = []" "dl_destination rest = Some data"
      | (redirect) c c1 r target where "he_open he i url = Some c" "\<not> (length (https_request url) \<ge> HTTPS_URL_SIZE + 512 \<or> \<not> he_sent he i (https_request url))"
          "https_headers c = Some (c1, r)" "is_redirect (rs_status r)" "https_redirect url (rs_location r) = Some target"
          "rest = download_loop tries he (i + 1) target"
    proof (cases "he_open he i url")
      case None
      then show thesis using stop by (simp add: rest_def no_download_def)
    next
      case c: (Some c)
      show thesis
      proof (cases "length (https_request url) \<ge> HTTPS_URL_SIZE + 512 \<or> \<not> he_sent he i (https_request url) \<or> https_headers c = None")
        case True
        then have "rest = no_download" using c by (auto simp: rest_def)
        then show thesis using stop by (simp add: no_download_def)
      next
        case sent: False
        then obtain c1 r where h: "https_headers c = Some (c1, r)" by auto
        show thesis
        proof (cases "is_redirect (rs_status r)")
          case True
          show thesis
          proof (cases "https_redirect url (rs_location r)")
            case None
            then have "rest = no_download" using c sent h True by (simp add: rest_def)
            then show thesis using stop by (simp add: no_download_def)
          next
            case (Some target)
            have "rest = download_loop tries he (i + 1) target" using c sent h True Some by (simp add: rest_def)
            then show thesis using redirect [OF c _ h True Some] sent by blast
          qed
        next
          case False
          show thesis
          proof (cases "rs_status r = 200")
            case True
            then have "rest = save_body he r c1" using c sent h False by (simp add: rest_def)
            then show thesis using save_body_outcome [of he r c1] stop body [OF c h True] by (cases "dl_destination rest") auto
          next
            case other: False
            then have "rest = no_download" using c sent h False by (simp add: rest_def)
            then show thesis using stop by (simp add: no_download_def)
          qed
        qed
      qed
    qed
    then show ?thesis
    proof cases
      case stop
      then show ?thesis using dl wf Some by auto
    next
      case body
      have "hop_delivers he i url data" unfolding hop_delivers_def using body https_body_framed [OF body(4)] by blast
      then show ?thesis using dl wf Some body(5,6) by auto
    next
      case redirect
      note next_url = redirect_next [OF wf redirect(5)]
      have ih: "length (dl_hops rest) \<le> tries" "\<forall>url \<in> set (dl_hops rest). url_wf url"
        "\<forall>k. Suc k < length (dl_hops rest) \<longrightarrow> hop_step he (i + 1 + k) (dl_hops rest ! k) (dl_hops rest ! Suc k)"
        "dl_hops rest \<noteq> [] \<longrightarrow> https_parse_url target = Some (hd (dl_hops rest))"
        "\<forall>data. dl_destination rest = Some data \<longrightarrow> dl_hops rest \<noteq> []
          \<and> hop_delivers he (i + 1 + length (dl_hops rest) - 1) (last (dl_hops rest)) data"
        using 2(1) [OF Some redirect(1,2,3) refl redirect(4,5) redirect(6) [symmetric]] by blast+
      have first: "hop_step he i url (hd (dl_hops rest))" if "dl_hops rest \<noteq> []"
      proof -
        have p: "https_parse_url target = Some (hd (dl_hops rest))" using ih(4) that by blast
        have "relative_location (rs_location r) \<Longrightarrow> hu_authority (hd (dl_hops rest)) = hu_authority url"
          using parsed_authority [OF p] next_url by simp
        then show ?thesis
          unfolding hop_step_def using redirect p same_authority_same_host [OF parsed_url_wf [OF p] wf] by blast
      qed
      have "hop_step he (i + k) (dl_hops dl ! k) (dl_hops dl ! Suc k)" if "Suc k < length (dl_hops dl)" for k
        using that dl first ih(3) by (cases k) (auto simp: hd_conv_nth)
      then show ?thesis using ih(1,2,5) dl wf Some by (auto simp: Suc_diff_le)
    qed
  qed
qed

text \<open>C32: every download opens at most eleven addresses. Each is well formed, with a host of letters, digits, dots and
  hyphens, a port, and a path, its request consists of exactly seven lines that nothing in the address can extend,
  the first is the given one, and each later one is the target of a redirect that the one before has answered; a
  redirect without a scheme and a host stays on its host and port.\<close>

theorem download_hops_confined:
  assumes "wpm_https_download he initial destination = dl"
  shows "length (dl_hops dl) \<le> 11 \<and> (dl_hops dl \<noteq> [] \<longrightarrow> https_parse_url initial = Some (hd (dl_hops dl)))
    \<and> (\<forall>url \<in> set (dl_hops dl). url_wf url
          \<and> https_request url = concat (map (\<lambda>l. l @ [CR, LF]) (request_lines url))
          \<and> (\<forall>l \<in> set (request_lines url). CR \<notin> set l \<and> LF \<notin> set l))
    \<and> (\<forall>k. Suc k < length (dl_hops dl) \<longrightarrow> hop_step he k (dl_hops dl ! k) (dl_hops dl ! Suc k))"
proof (cases "dl_hops dl = []")
  case False
  then have "download_loop 11 he 0 initial = dl"
    using assms by (auto simp: wpm_https_download_def no_download_def split: if_splits)
  note hops = download_loop_hops [OF this]
  then have "\<forall>url \<in> set (dl_hops dl). url_wf url" by blast
  then have "\<forall>url \<in> set (dl_hops dl). url_wf url \<and> https_request url = concat (map (\<lambda>l. l @ [CR, LF]) (request_lines url))
      \<and> (\<forall>l \<in> set (request_lines url). CR \<notin> set l \<and> LF \<notin> set l)"
    using request_of_wf by blast
  then show ?thesis using hops by simp
qed simp

text \<open>C33: the destination is replaced only when writing and the network are permitted, the last address was answered
  with status 200 over a verified connection, and the data is exactly what that answer frames; otherwise it keeps
  its content and a temporary file that was created is deleted.\<close>

theorem download_complete_or_untouched:
  assumes "wpm_https_download he initial destination = dl"
  shows "(\<forall>data. dl_destination dl = Some data \<longrightarrow>
        wpm_require_capability (WPM_CAP_WRITE OR WPM_CAP_NETWORK) (he_capabilities he) \<and> dl_hops dl \<noteq> []
        \<and> hop_delivers he (length (dl_hops dl) - 1) (last (dl_hops dl)) data)
    \<and> (dl_destination dl = None \<and> dl_created dl \<longrightarrow> dl_deleted dl)"
proof -
  have "download_loop 11 he 0 initial = dl \<and> wpm_require_capability (WPM_CAP_WRITE OR WPM_CAP_NETWORK) (he_capabilities he)"
    if "dl_destination dl = Some data" for data
    using assms that by (auto simp: wpm_https_download_def no_download_def split: if_splits)
  then show ?thesis using download_loop_hops [of 11 he 0 initial dl] by (auto simp: dl_deleted_def)
qed

text \<open>The answer of a connection as far as it decides a download: the header, and the data of the body.\<close>

definition fetched :: "connection \<Rightarrow> (https_response \<times> string option) option" where
  "fetched c =
     (case https_headers c of
        None \<Rightarrow> None
      | Some (c, r) \<Rightarrow> Some (r, case https_body (\<lambda>g d. True) r c of (data, None) \<Rightarrow> None | (data, Some c) \<Rightarrow> Some data))"

lemma https_body_same:
  assumes "same_stream c d" "https_body (\<lambda>g d. True) r c = (data, Some c')"
  shows "\<exists>d'. https_body (\<lambda>g d. True) r d = (data, Some d')"
  using https_body_framed [OF assms(2)] https_body_bound [OF assms(2)] assms(1)
  by (intro framed_https_body [where bytes = "fst (cn_stream c)" and clean = "snd (cn_stream c)"]) (simp_all add: same_stream_def)

lemma fetched_same:
  assumes "same_stream c d" "https_headers c = Some (c', r)"
  shows "fetched d = fetched c"
proof -
  obtain d' where d: "https_headers d = Some (d', r)" "same_stream c' d'"
    using headers_cong assms unfolding https_headers_def by blast
  have "same_stream d' c'" using d(2) by (simp add: same_stream_def)
  note same = https_body_same [OF d(2)] https_body_same [OF this]
  have "(case https_body (\<lambda>g d. True) r c' of (data, None) \<Rightarrow> None | (data, Some c) \<Rightarrow> Some data)
      = (case https_body (\<lambda>g d. True) r d' of (data, None) \<Rightarrow> None | (data, Some c) \<Rightarrow> Some data)"
    by (cases "https_body (\<lambda>g d. True) r c'"; cases "snd (https_body (\<lambda>g d. True) r c')";
        cases "https_body (\<lambda>g d. True) r d'"; cases "snd (https_body (\<lambda>g d. True) r d')")
      (use same in fastforce)+
  then show ?thesis using assms(2) d(1) by (simp add: fetched_def)
qed

text \<open>C31: the header is bounded and unambiguous: it takes at most 65536 bytes of the stream, the status is final, there
  is no length together with chunks, the location fits its buffer and holds no line end; and the whole answer, header
  and data, depends only on the bytes that the connection delivers and on their authenticated end, however TLS cuts
  them into records.\<close>

theorem answer_of_stream:
  "(https_headers c = Some (c', r) \<longrightarrow> response_wf r \<and> 200 \<le> rs_status r \<and> \<not> (rs_chunked r \<and> rs_has_length r)
      \<and> (\<exists>head. cn_stream c = (head @ fst (cn_stream c'), snd (cn_stream c')) \<and> length head \<le> HTTPS_HEADER_LIMIT))
   \<and> (cn_stream c = cn_stream d \<longrightarrow> fetched c = fetched d)"
proof (intro conjI impI)
  assume same: "cn_stream c = cn_stream d"
  show "fetched c = fetched d"
  proof (cases "https_headers c")
    case None
    then have "https_headers d = None"
      using headers_cong [of 5 HTTPS_HEADER_LIMIT d _ _ c] same
      by (cases "https_headers d") (auto simp: https_headers_def same_stream_def)
    then show ?thesis using None by (simp add: fetched_def)
  next
    case (Some p)
    obtain c1 r1 where "p = (c1, r1)" by force
    then show ?thesis using fetched_same [of c d c1 r1] Some same by (simp add: same_stream_def)
  qed
qed (use headers_wf headers_stream in \<open>unfold https_headers_def, blast+\<close>)

subsection \<open>A download\<close>

definition bytes_text :: "string list \<Rightarrow> string" where
  "bytes_text ls = concat (map (\<lambda>l. l @ [CR, LF]) ls)"

definition sample_connection :: "nat \<Rightarrow> connection" where
  "sample_connection i =
     (if i = 0 then \<lparr>cn_buffer = [], cn_reads = [Tls_data (bytes_text [''HTTP/1.1 302 x'', ''Location: b'', []])]\<rparr>
      else \<lparr>cn_buffer = [], cn_reads = [Tls_want, Tls_data (bytes_text [''HTTP/1.1 200 x'', ''Transfer-Encoding: chunked'', [], ''2'']),
              Tls_data ''ok'', Tls_data (bytes_text [[], ''0'', []]), Tls_close]\<rparr>)"

definition sample_he :: https_env where
  "sample_he = \<lparr>he_capabilities = all_capabilities, he_ready = True, he_open = (\<lambda>i url. Some (sample_connection i)),
     he_sent = (\<lambda>i t. True), he_created = True, he_write = (\<lambda>g d. True), he_flushed = True, he_closed = True, he_moved = True\<rparr>"

lemmas run_https = https_line_def https_line_loop.simps https_read_def https_take_def HTTPS_LINE_SIZE_def HTTPS_HEADER_LIMIT_def
  header_lines.simps https_field_def token_char_def header_field_def strieq_def lower_def class_defs blank_def

lemma first_answer: "https_headers c =
  Option.bind (https_line HTTPS_HEADER_LIMIT c) (\<lambda>(c, line, left).
     Option.bind (status_of_line line) (\<lambda>status.
     Option.bind (header_lines left c (response_of status)) (\<lambda>(c, left, r).
       if rs_chunked r \<and> rs_has_length r then None
       else if rs_status r \<ge> 200 then Some (c, r)
       else if rs_status r = 101 \<or> rs_chunked r \<or> rs_has_length r then None
       else headers_loop 4 left c)))"
proof -
  have "(5 :: nat) = Suc 4" by simp
  then show ?thesis unfolding https_headers_def by (simp only: headers_loop.simps)
qed

lemma sample_redirected:
  "https_headers (sample_connection 0) = Some (\<lparr>cn_buffer = [], cn_reads = []\<rparr>, (response_of 302)\<lparr>rs_location := ''b''\<rparr>)"
  by (simp add: first_answer sample_connection_def bytes_text_def status_of_line_def is_digit_def)
    (simp add: run_https response_of_def https_copy_def HTTPS_URL_SIZE_def digit_val_def)

definition sample_body :: connection where
  "sample_body = \<lparr>cn_buffer = ''2'' @ [CR, LF], cn_reads = [Tls_data ''ok'', Tls_data (bytes_text [[], ''0'', []]), Tls_close]\<rparr>"

lemma sample_answered:
  "https_headers (sample_connection 1) = Some (sample_body, (response_of 200)\<lparr>rs_chunked := True\<rparr>)"
  by (simp add: first_answer sample_connection_def bytes_text_def status_of_line_def is_digit_def)
    (simp add: run_https response_of_def digit_val_def sample_body_def bytes_text_def)

lemma sample_data:
  "https_body (\<lambda>g d. True) ((response_of 200)\<lparr>rs_chunked := True\<rparr>) sample_body = (''ok'', Some \<lparr>cn_buffer = [], cn_reads = [Tls_close]\<rparr>)"
  by (simp add: https_body_def response_of_def sample_body_def bytes_text_def body_chunks.simps body_data.simps trailer_lines.simps
      chunk_size_def https_number_def https_digit_def ULLONG_MAX_def BODY_CHUNK_def run_https)

definition first_url :: https_url where
  "first_url = \<lparr>hu_host = ''h.org'', hu_authority = ''h.org:8443'', hu_path = ''/a/x'', hu_port = 8443\<rparr>"
definition second_url :: https_url where
  "second_url = \<lparr>hu_host = ''h.org'', hu_authority = ''h.org:8443'', hu_path = ''/a/b'', hu_port = 8443\<rparr>"

lemma sample_urls:
  "https_parse_url ''https://h.org:8443/a/x#y'' = Some first_url" "https_redirect first_url ''b'' = Some ''https://h.org:8443/a/b''"
  "https_parse_url ''https://h.org:8443/a/b'' = Some second_url"
  by (simp_all add: https_parse_url_def https_redirect_def first_url_def second_url_def strnieq_def lower_def url_char_def strcspn_take_def
      strcspn_drop_def https_copy_def HTTPS_URL_SIZE_def https_port_def https_number_def https_digit_def class_defs ULLONG_MAX_def host_char_def
      path_directory_def Let_def to_lower_def)

lemma sample_downloaded:
  "wpm_https_download sample_he ''https://h.org:8443/a/x#y'' ''d''
     = \<lparr>dl_hops = [first_url, second_url], dl_created = True, dl_destination = Some ''ok''\<rparr>"
proof -
  have c: "wpm_require_capability (WPM_CAP_WRITE OR WPM_CAP_NETWORK) all_capabilities"
    by (simp add: wpm_require_capability_def all_capabilities_def capability_defs)
  have r: "length (https_request first_url) < HTTPS_URL_SIZE + 512" "length (https_request second_url) < HTTPS_URL_SIZE + 512"
    using request_of_wf parsed_url_wf sample_urls(1,3) by blast+
  have run: "download_loop (Suc (Suc n)) sample_he 0 ''https://h.org:8443/a/x#y''
      = \<lparr>dl_hops = [first_url, second_url], dl_created = True, dl_destination = Some ''ok''\<rparr>" for n
    using sample_urls sample_redirected sample_answered sample_data r
    by (simp add: sample_he_def is_redirect_def save_body_def no_download_def response_of_def)
  have "(11 :: nat) = Suc (Suc 9)" by simp
  then have "download_loop 11 sample_he 0 ''https://h.org:8443/a/x#y''
      = \<lparr>dl_hops = [first_url, second_url], dl_created = True, dl_destination = Some ''ok''\<rparr>"
    using run by (simp only:)
  then show ?thesis using c by (simp add: wpm_https_download_def sample_he_def https_copy_def HTTPS_URL_SIZE_def)
qed

theorem download_hops_confined_witness:
  "hop_step sample_he 0 first_url second_url \<and> url_wf second_url"
  using download_hops_confined [OF sample_downloaded] by simp

theorem download_complete_or_untouched_witness:
  "hop_delivers sample_he 1 second_url ''ok''"
  using download_complete_or_untouched [OF sample_downloaded] by simp

lemma sample_body_stream: "cn_stream sample_body = (bytes_text [''2'', ''ok'', ''0'', []], True)"
  by (simp add: cn_stream_def sample_body_def bytes_text_def)

theorem https_body_iff_witness:
  "framed ((response_of 200)\<lparr>rs_chunked := True\<rparr>) (bytes_text [''2'', ''ok'', ''0'', []]) True ''ok''"
proof -
  have "\<forall>g d. (\<lambda>(g :: string) (d :: string). True) g d" by simp
  from https_body_iff [OF sample_body_stream this] show ?thesis using sample_data by blast
qed

theorem answer_of_stream_witness:
  "response_wf ((response_of 200)\<lparr>rs_chunked := True\<rparr>)
   \<and> fetched sample_body = fetched \<lparr>cn_buffer = bytes_text [''2'', ''ok'', ''0'', []], cn_reads = [Tls_want, Tls_close]\<rparr>"
proof -
  have "cn_stream \<lparr>cn_buffer = bytes_text [''2'', ''ok'', ''0'', []], cn_reads = [Tls_want, Tls_close]\<rparr> = cn_stream sample_body"
    by (simp add: cn_stream_def sample_body_def bytes_text_def)
  then show ?thesis
    using answer_of_stream [of "sample_connection 1" sample_body "(response_of 200)\<lparr>rs_chunked := True\<rparr>" "sample_connection 1"]
      answer_of_stream [of sample_body _ _ "\<lparr>cn_buffer = bytes_text [''2'', ''ok'', ''0'', []], cn_reads = [Tls_want, Tls_close]\<rparr>"]
      sample_answered by simp
qed

end
