(* ===== verification/Command_Line.thy ===== *)
theory Command_Line
  imports Semver Recovery_Record Repo_Config Capability
begin

text \<open>
  The command line of \<open>wpm/wpm.c\<close>, first part: the names of the commands, the options each command knows, the tests
  of \<open>validate_command_options\<close>, \<open>validate_command_operands\<close> and \<open>validate_command_actions\<close>, and the loops that read
  the validated arguments. \<open>args\<close> is \<open>argv\<close> from \<open>command_index + 1\<close> on. A loop reads \<open>argv[++i]\<close> as the next
  argument, \<open>None\<close> at the end where C reads the terminating null pointer; \<open>None\<close> of \<open>command_bounded_option\<close> and
  \<open>validate_command_actions\<close> means that this pointer is dereferenced. Messages are not modelled.
\<close>

subsection \<open>Commands and their options\<close>

datatype command =
    CMD_UNKNOWN | CMD_INIT | CMD_BUILD | CMD_VERIFY | CMD_INSTALL | CMD_REMOVE | CMD_REPO | CMD_KEYGEN | CMD_TRUST
  | CMD_KEY | CMD_CONFIG | CMD_UPDATE | CMD_UPGRADE | CMD_RECOVERY | CMD_LIST | CMD_SHOW

definition parse_command :: "string \<Rightarrow> command" where
  "parse_command cmd =
     (if cmd = ''show'' then CMD_SHOW
      else if cmd = ''list'' then CMD_LIST
      else if cmd = ''recovery'' then CMD_RECOVERY
      else if cmd = ''init'' then CMD_INIT
      else if cmd = ''build'' then CMD_BUILD
      else if cmd = ''verify'' then CMD_VERIFY
      else if cmd = ''install'' then CMD_INSTALL
      else if cmd = ''remove'' then CMD_REMOVE
      else if cmd = ''repo'' then CMD_REPO
      else if cmd = ''keygen'' then CMD_KEYGEN
      else if cmd = ''key'' then CMD_KEY
      else if cmd = ''trust'' then CMD_TRUST
      else if cmd = ''config'' then CMD_CONFIG
      else if cmd = ''update'' then CMD_UPDATE
      else if cmd = ''upgrade'' then CMD_UPGRADE
      else CMD_UNKNOWN)"

fun command_name :: "command \<Rightarrow> string" where
  "command_name CMD_INIT = ''init''"
| "command_name CMD_BUILD = ''build''"
| "command_name CMD_VERIFY = ''verify''"
| "command_name CMD_INSTALL = ''install''"
| "command_name CMD_REMOVE = ''remove''"
| "command_name CMD_REPO = ''repo''"
| "command_name CMD_KEYGEN = ''keygen''"
| "command_name CMD_KEY = ''key''"
| "command_name CMD_TRUST = ''trust''"
| "command_name CMD_CONFIG = ''config''"
| "command_name CMD_RECOVERY = ''recovery''"
| "command_name CMD_LIST = ''list''"
| "command_name CMD_SHOW = ''show''"
| "command_name CMD_UPDATE = ''update''"
| "command_name CMD_UPGRADE = ''upgrade''"
| "command_name CMD_UNKNOWN = ''command''"

definition command_option_takes_value :: "command \<Rightarrow> string \<Rightarrow> bool" where
  "command_option_takes_value cmd option \<longleftrightarrow>
     cmd = CMD_BUILD \<and> option = ''--sign''
     \<or> (cmd = CMD_INSTALL \<or> cmd = CMD_UPGRADE \<or> cmd = CMD_LIST \<or> cmd = CMD_SHOW) \<and> (option = ''--arch'' \<or> option = ''--version'')
     \<or> cmd = CMD_REPO \<and> option = ''--priority''
     \<or> cmd = CMD_REPO \<and> (option = ''--sign'' \<or> option = ''--index-key'')
     \<or> cmd = CMD_RECOVERY \<and> (option = ''--limit'' \<or> option = ''--name'' \<or> option = ''--arch'' \<or> option = ''--archive'')
     \<or> (cmd = CMD_LIST \<or> cmd = CMD_SHOW) \<and> option = ''--repo''
     \<or> cmd = CMD_CONFIG \<and> option = ''--package''"

definition command_option_is_known :: "command \<Rightarrow> string \<Rightarrow> bool" where
  "command_option_is_known cmd option \<longleftrightarrow>
     (cmd = CMD_INSTALL \<or> cmd = CMD_REMOVE \<or> cmd = CMD_UPGRADE)
       \<and> (option = ''--yes'' \<or> option = ''-y'' \<or> option = ''--dry-run'' \<or> option = ''--confirm'')
     \<or> option = ''--verbose''
     \<or> command_option_takes_value cmd option
     \<or> (case cmd of
           CMD_BUILD \<Rightarrow> option = ''--no-index''
         | CMD_VERIFY \<Rightarrow> option = ''--read-only'' \<or> option = ''--allow-unsigned''
         | CMD_INSTALL \<Rightarrow> option = ''--allow-unsigned'' \<or> option = ''--offline''
         | CMD_REPO \<Rightarrow> option = ''--dry-run'' \<or> option = ''--replace-signature'' \<or> option = ''--json'' \<or> option = ''--allow-unsigned''
             \<or> option = ''--links'' \<or> option = ''--allow-insecure-http'' \<or> option = ''--offline''
         | CMD_KEYGEN \<Rightarrow> option = ''--default''
         | CMD_KEY \<Rightarrow> option = ''--clear''
         | CMD_UPDATE \<Rightarrow> option = ''--offline''
         | CMD_RECOVERY \<Rightarrow> option = ''--offline'' \<or> option = ''--json'' \<or> option = ''--allow-unsigned''
         | CMD_LIST \<Rightarrow> option = ''--offline'' \<or> option = ''--json'' \<or> option = ''--available''
         | CMD_SHOW \<Rightarrow> option = ''--offline'' \<or> option = ''--json''
         | CMD_UPGRADE \<Rightarrow> option = ''--all'' \<or> option = ''-y'' \<or> option = ''--yes'' \<or> option = ''--allow-unsigned'' \<or> option = ''--offline''
         | _ \<Rightarrow> False)"

subsection \<open>The shape of the arguments\<close>

abbreviation dash :: "string \<Rightarrow> bool" where
  "dash \<equiv> at (CHR ''-'')"

definition negative_priority :: "command \<Rightarrow> string \<Rightarrow> string \<Rightarrow> bool" where
  "negative_priority cmd option val \<longleftrightarrow> cmd = CMD_REPO \<and> option = ''--priority'' \<and> dash val \<and> at_class is_digit (tl val)"

fun validate_command_options :: "command \<Rightarrow> string list \<Rightarrow> bool" where
  "validate_command_options cmd [] = True"
| "validate_command_options cmd (option # rest) =
     (if \<not> dash option then validate_command_options cmd rest
      else if \<not> command_option_is_known cmd option then False
      else if command_option_takes_value cmd option
      then (case rest of
              [] \<Rightarrow> False
            | val # rest \<Rightarrow>
                if dash val \<and> \<not> negative_priority cmd option val then False
                else if option = ''--arch'' \<and> \<not> strieq val ''any'' \<and> \<not> strieq val ''x86'' \<and> \<not> strieq val ''x64'' \<and> \<not> strieq val ''arm64''
                then False
                else if option = ''--version'' \<and> \<not> wpm_repo_version_is_valid (Some val) then False
                else validate_command_options cmd rest)
      else validate_command_options cmd rest)"

text \<open>The operands; the C function stores the first \<open>capacity\<close> of them and returns the length of the list.\<close>

fun collect_command_operands :: "command \<Rightarrow> string list \<Rightarrow> string list" where
  "collect_command_operands cmd [] = []"
| "collect_command_operands cmd (a # rest) =
     (if dash a \<and> command_option_is_known cmd a
      then (if command_option_takes_value cmd a then (case rest of [] \<Rightarrow> [] | _ # rest \<Rightarrow> collect_command_operands cmd rest)
            else collect_command_operands cmd rest)
      else a # collect_command_operands cmd rest)"

definition validate_command_operands :: "command \<Rightarrow> string list \<Rightarrow> bool" where
  "validate_command_operands cmd args =
     (let operands = length (collect_command_operands cmd args) in
      case cmd of
        CMD_LIST \<Rightarrow> operands \<le> 1
      | CMD_SHOW \<Rightarrow> operands = 1
      | CMD_INIT \<Rightarrow> operands \<le> 1
      | CMD_BUILD \<Rightarrow> 1 \<le> operands \<and> operands \<le> 2
      | CMD_VERIFY \<Rightarrow> 1 \<le> operands
      | CMD_INSTALL \<Rightarrow> 1 \<le> operands
      | CMD_REMOVE \<Rightarrow> 1 \<le> operands
      | CMD_KEYGEN \<Rightarrow> operands = 2
      | CMD_UPDATE \<Rightarrow> operands = 0
      | _ \<Rightarrow> True)"

definition command_has_option :: "string list \<Rightarrow> string \<Rightarrow> bool" where
  "command_has_option args wanted \<longleftrightarrow> wanted \<in> set args"

fun bounded_digits :: "nat \<Rightarrow> nat \<Rightarrow> string \<Rightarrow> nat option" where
  "bounded_digits maximum val [] = Some val"
| "bounded_digits maximum val (c # p) =
     (if \<not> is_digit c \<or> val > (maximum - digit_val c) div 10 then None else bounded_digits maximum (val * 10 + digit_val c) p)"

text \<open>\<open>None\<close>: the null pointer behind the arguments is read; \<open>Some None\<close>: failure; otherwise the value, if any.\<close>

fun bounded_option_loop :: "string \<Rightarrow> nat \<Rightarrow> nat option \<Rightarrow> string list \<Rightarrow> nat option option option" where
  "bounded_option_loop option maximum result [] = Some (Some result)"
| "bounded_option_loop option maximum result (a # rest) =
     (if a \<noteq> option then bounded_option_loop option maximum result rest
      else
      (case rest of
         [] \<Rightarrow> if result \<noteq> None then Some None else None
       | p # rest \<Rightarrow>
           if result \<noteq> None \<or> p = [] then Some None
           else
           (case bounded_digits maximum 0 p of
              None \<Rightarrow> Some None
            | Some val \<Rightarrow> if val = 0 then Some None else bounded_option_loop option maximum (Some val) rest)))"

definition command_bounded_option :: "string list \<Rightarrow> string \<Rightarrow> nat \<Rightarrow> nat option option option" where
  "command_bounded_option args option maximum = bounded_option_loop option maximum None args"

text \<open>The loops that look for one of some options and take the argument behind it.\<close>

fun scan_values :: "string list \<Rightarrow> string list \<Rightarrow> (string \<times> string option) list" where
  "scan_values wanted [] = []"
| "scan_values wanted (a # rest) =
     (if a \<notin> set wanted then scan_values wanted rest
      else (case rest of [] \<Rightarrow> [(a, None)] | val # rest \<Rightarrow> (a, Some val) # scan_values wanted rest))"

definition last_value :: "string \<Rightarrow> (string \<times> string option) list \<Rightarrow> string option" where
  "last_value option found = (case filter (\<lambda>f. fst f = option) found of [] \<Rightarrow> None | fs \<Rightarrow> snd (last fs))"

subsection \<open>The actions\<close>

text \<open>The number of arguments that equal an option.\<close>

definition option_count :: "string list \<Rightarrow> string \<Rightarrow> nat" where
  "option_count args option = length (filter ((=) option) args)"

definition list_actions :: "command \<Rightarrow> string list \<Rightarrow> bool option" where
  "list_actions cmd args =
     (case command_bounded_option args ''--repo'' 32 of
        None \<Rightarrow> None
      | Some None \<Rightarrow> Some False
      | Some (Some ordinal) \<Rightarrow> Some (\<not> (ordinal \<noteq> None \<and> cmd = CMD_LIST \<and> \<not> command_has_option args ''--available'')))"

text \<open>The two filters; \<open>None\<close> when one is repeated.\<close>

fun recovery_filters :: "string option \<Rightarrow> string option \<Rightarrow> string list \<Rightarrow> (string option \<times> string option) option" where
  "recovery_filters name arch [] = Some (name, arch)"
| "recovery_filters name arch (a # rest) =
     (if a = ''--name''
      then (if name \<noteq> None then None
            else (case rest of [] \<Rightarrow> Some (None, arch) | val # rest \<Rightarrow> recovery_filters (Some val) arch rest))
      else if a = ''--arch''
      then (if arch \<noteq> None then None
            else (case rest of [] \<Rightarrow> Some (name, None) | val # rest \<Rightarrow> recovery_filters name (Some val) rest))
      else recovery_filters name arch rest)"

definition recovery_actions :: "string list \<Rightarrow> string list \<Rightarrow> bool option" where
  "recovery_actions operands args =
     (case command_bounded_option args ''--limit'' 4096 of
        None \<Rightarrow> None
      | Some None \<Rightarrow> Some False
      | Some (Some _) \<Rightarrow>
          Some (case recovery_filters None None args of
             None \<Rightarrow> False
           | Some (name, arch) \<Rightarrow>
               if \<not> wpm_recovery_filters_valid name arch then False
               else if option_count args ''--archive'' > 1 then False
               else if length operands = 2 \<and> operands ! 0 = ''inspect'' \<and> wpm_recovery_id_valid (Some (operands ! 1)) then True
               else if option_count args ''--archive'' > 0 \<or> command_has_option args ''--allow-unsigned'' then False
               else operands = [''records''] \<or> operands = [] \<or> operands = [''list'']))"

text \<open>None of the options is given.\<close>

definition without :: "string list \<Rightarrow> string list \<Rightarrow> bool" where
  "without args options \<longleftrightarrow> \<not> list_ex (command_has_option args) options"

definition repo_actions :: "string list \<Rightarrow> string list \<Rightarrow> bool" where
  "repo_actions operands args =
     (let count = length operands; action = (if operands = [] then ''list'' else operands ! 0); has = command_has_option args in
      if option_count args ''--sign'' > 1 \<or> option_count args ''--index-key'' > 1 then False
      else if (has ''--sign'' \<or> has ''--replace-signature'') \<and> action \<noteq> ''sign'' then False
      else if has ''--index-key'' \<and> action \<noteq> ''verify'' \<and> action \<noteq> ''sign'' then False
      else if has ''--json'' \<and> action \<noteq> ''diagnose'' then False
      else if has ''--allow-unsigned'' \<and> action \<noteq> ''verify'' \<and> action \<noteq> ''add-package'' \<and> action \<noteq> ''sign'' \<and> action \<noteq> ''index'' then False
      else if action = ''index'' then count = 2 \<and> without args [''--priority'', ''--links'', ''--offline'', ''--allow-insecure-http'']
      else if action = ''sign''
        then count = 2 \<and> has ''--sign'' \<and> has ''--index-key''
          \<and> without args [''--priority'', ''--links'', ''--offline'', ''--allow-insecure-http'']
      else if action = ''add-package'' then count = 3 \<and> without args [''--priority'', ''--allow-insecure-http'', ''--offline'', ''--links'']
      else if action = ''verify''
        then count = 2 \<and> without args [''--priority'', ''--allow-insecure-http'', ''--offline'', ''--links'', ''--dry-run'']
      else if has ''--dry-run'' \<and> action \<noteq> ''init'' then False
      else if action = ''init'' then count = 2 \<and> without args [''--priority'', ''--allow-insecure-http'', ''--offline'', ''--links'']
      else if has ''--links'' \<and> action \<noteq> ''diagnose'' then False
      else if action = ''diagnose'' then count = 1 \<and> without args [''--priority'', ''--allow-insecure-http'']
      else (action = ''list'' \<or> action = ''update'') \<and> count = 1
        \<or> count = 0 \<or> action = ''add'' \<and> count = 2 \<or> action = ''remove'' \<and> count = 2)"

definition config_actions :: "string list \<Rightarrow> string list \<Rightarrow> bool" where
  "config_actions operands args \<longleftrightarrow>
     length operands \<ge> 2 \<and> operands ! 1 = ''prerelease''
     \<and> (operands ! 0 = ''get'' \<and> length operands = 2
        \<or> operands ! 0 = ''set'' \<and> length operands = 3 \<and> (strieq (operands ! 2) ''true'' \<or> strieq (operands ! 2) ''false'')
        \<or> operands ! 0 = ''unset'' \<and> length operands = 2 \<and> command_has_option args ''--package'')"

definition validate_command_actions :: "command \<Rightarrow> string list \<Rightarrow> bool option" where
  "validate_command_actions cmd args =
     (let operands = collect_command_operands cmd args; count = length operands;
          action = (if operands = [] then ''list'' else operands ! 0) in
      if cmd = CMD_VERIFY \<and> command_has_option args ''--allow-unsigned'' \<and> \<not> command_has_option args ''--read-only''
      then Some False
      else
      (case cmd of
         CMD_LIST \<Rightarrow> list_actions cmd args
       | CMD_SHOW \<Rightarrow> list_actions cmd args
       | CMD_RECOVERY \<Rightarrow> recovery_actions operands args
       | CMD_REPO \<Rightarrow> Some (repo_actions operands args)
       | CMD_KEY \<Rightarrow> Some (count = 1 \<and> action = ''default'' \<and> command_has_option args ''--clear''
                        \<or> count = 2 \<and> action = ''default'' \<and> \<not> command_has_option args ''--clear'')
       | CMD_TRUST \<Rightarrow> Some (count = 0 \<or> count = 1 \<and> action = ''list'' \<or> count = 2 \<and> (action = ''add'' \<or> action = ''revoke''))
       | CMD_CONFIG \<Rightarrow> Some (config_actions operands args)
       | _ \<Rightarrow> Some True))"

subsection \<open>What validated arguments are\<close>

datatype argument = Operand string | Flag string | Valued string string

fun tokens :: "argument \<Rightarrow> string list" where
  "tokens (Operand a) = [a]"
| "tokens (Flag a) = [a]"
| "tokens (Valued a v) = [a, v]"

fun argument_ok :: "command \<Rightarrow> argument \<Rightarrow> bool" where
  "argument_ok cmd (Operand a) \<longleftrightarrow> \<not> dash a"
| "argument_ok cmd (Flag a) \<longleftrightarrow> command_option_is_known cmd a \<and> \<not> command_option_takes_value cmd a"
| "argument_ok cmd (Valued a v) \<longleftrightarrow> command_option_takes_value cmd a \<and> (\<not> dash v \<or> negative_priority cmd a v)
     \<and> (a = ''--arch'' \<longrightarrow> supported_arch v) \<and> (a = ''--version'' \<longrightarrow> wpm_repo_version_is_valid (Some v))"

abbreviation arguments_ok :: "command \<Rightarrow> argument list \<Rightarrow> bool" where
  "arguments_ok cmd \<equiv> list_all (argument_ok cmd)"

definition argument_tokens :: "argument list \<Rightarrow> string list" where
  "argument_tokens items = concat (map tokens items)"

lemma argument_tokens_simps [simp]:
  "argument_tokens [] = []" "argument_tokens (i # items) = tokens i @ argument_tokens items"
  by (simp_all add: argument_tokens_def)

lemma known_option_dash: "command_option_is_known cmd a \<Longrightarrow> dash a"
  by (auto simp: command_option_is_known_def command_option_takes_value_def split: command.splits)

lemma takes_value_known: "command_option_takes_value cmd a \<Longrightarrow> command_option_is_known cmd a"
  by (simp add: command_option_is_known_def)

lemma takes_value_dash: "command_option_takes_value cmd a \<Longrightarrow> dash a"
  by (rule known_option_dash [OF takes_value_known])

text \<open>An option name is not a negative number.\<close>

definition option_name :: "string \<Rightarrow> bool" where
  "option_name a \<longleftrightarrow> dash a \<and> \<not> at_class is_digit (tl a)"

lemma validated_tokens: "arguments_ok cmd items \<Longrightarrow> validate_command_options cmd (argument_tokens items)"
proof (induction items)
  case (Cons i items)
  then show ?case
    by (cases i) (auto simp: known_option_dash takes_value_dash takes_value_known supported_arch_def)
qed simp

lemma tokens_of_validated: "validate_command_options cmd args \<Longrightarrow> \<exists>items. args = argument_tokens items \<and> arguments_ok cmd items"
proof (induction cmd args rule: validate_command_options.induct)
  case (1 cmd)
  show ?case by (intro exI [of _ "[]"]) simp
next
  case (2 cmd option rest)
  consider (operand) "\<not> dash option" | (flag) "dash option" "command_option_is_known cmd option" "\<not> command_option_takes_value cmd option"
    | (valued) "dash option" "command_option_takes_value cmd option"
    using 2(4) takes_value_known by (auto split: if_splits)
  then show ?case
  proof cases
    case operand
    then obtain items where "rest = argument_tokens items" "arguments_ok cmd items" using 2 by auto
    with operand show ?thesis by (intro exI [of _ "Operand option # items"]) simp
  next
    case flag
    then obtain items where "rest = argument_tokens items" "arguments_ok cmd items" using 2 by auto
    with flag show ?thesis by (intro exI [of _ "Flag option # items"]) simp
  next
    case valued
    note known = takes_value_known [OF valued(2)]
    then obtain val more where rest: "rest = val # more" using 2(4) valued by (auto split: list.splits)
    then obtain items where items: "more = argument_tokens items" "arguments_ok cmd items"
      using 2(2) 2(4) valued known by (auto split: if_splits)
    have "argument_ok cmd (Valued option val)"
      using 2(4) valued known rest by (auto simp: supported_arch_def split: if_splits)
    with items rest show ?thesis by (intro exI [of _ "Valued option val # items"]) simp
  qed
qed

text \<open>C34: the test of the options accepts exactly the sequences of operands, flags of the command, and options of the
  command with their value, where an architecture is supported and a version is a semantic version; no value begins
  with a dash, apart from a negative priority.\<close>

theorem validated_arguments_iff:
  "validate_command_options cmd args \<longleftrightarrow> (\<exists>items. args = argument_tokens items \<and> arguments_ok cmd items)"
  using validated_tokens tokens_of_validated by blast

lemma collect_tokens:
  "arguments_ok cmd items \<Longrightarrow> collect_command_operands cmd (argument_tokens items) = [a. Operand a \<leftarrow> items]"
proof (induction items)
  case (Cons i items)
  then show ?case by (cases i) (auto simp: known_option_dash takes_value_dash takes_value_known)
qed simp

lemma has_option_tokens:
  assumes "arguments_ok cmd items" "option_name a"
  shows "command_has_option (argument_tokens items) a \<longleftrightarrow> Flag a \<in> set items \<or> (\<exists>v. Valued a v \<in> set items)"
  using assms(1)
proof (induction items)
  case (Cons i items)
  have "a \<noteq> v" if "\<not> dash v \<or> negative_priority cmd b v" for b v
    using that assms(2) by (auto simp: option_name_def negative_priority_def)
  then show ?case using Cons assms(2)
    by (cases i) (auto simp: command_has_option_def option_name_def)
qed (simp add: command_has_option_def)

lemma scan_values_tokens:
  assumes "arguments_ok cmd items" "\<forall>a \<in> set wanted. command_option_takes_value cmd a"
  shows "scan_values wanted (argument_tokens items) = [(a, Some v). Valued a v \<leftarrow> items, a \<in> set wanted]"
  using assms(1)
proof (induction items)
  case (Cons i items)
  have name: "option_name a" if "a \<in> set wanted" for a
    using bspec [OF assms(2) that] by (auto simp: command_option_takes_value_def option_name_def is_digit_def)
  have "v \<notin> set wanted" if "\<not> dash v \<or> negative_priority cmd b v" for b v
    using that name by (auto simp: option_name_def negative_priority_def)
  moreover have "a \<notin> set wanted" if "\<not> command_option_takes_value cmd a" for a using that assms(2) by blast
  moreover have "a \<notin> set wanted" if "\<not> dash a" for a using that assms(2) takes_value_dash by blast
  ultimately show ?case using Cons by (cases i) auto
qed simp

text \<open>C35: the loops behind the test read validated arguments as that grammar says: the operands are exactly the operand
  arguments in their order, an option is found exactly when it is given as an option and never as a value or an
  operand, and every loop over options with values finds exactly those options, each with its own value.\<close>

theorem validated_arguments_read:
  assumes "arguments_ok cmd items" "args = argument_tokens items"
  shows "collect_command_operands cmd args = [a. Operand a \<leftarrow> items]
    \<and> (\<forall>a. option_name a \<longrightarrow> (command_has_option args a \<longleftrightarrow> Flag a \<in> set items \<or> (\<exists>v. Valued a v \<in> set items)))
    \<and> (\<forall>wanted. (\<forall>a \<in> set wanted. command_option_takes_value cmd a)
          \<longrightarrow> scan_values wanted args = [(a, Some v). Valued a v \<leftarrow> items, a \<in> set wanted])"
  using collect_tokens [OF assms(1)] has_option_tokens [OF assms(1)] scan_values_tokens [OF assms(1)] assms(2) by blast

subsection \<open>Bounded numbers\<close>

text \<open>\<open>atoi\<close>, which reads an option again after it was tested.\<close>

definition atoi :: "string \<Rightarrow> int" where
  "atoi s = fst (strtol10 s)"

fun option_values :: "string \<Rightarrow> argument list \<Rightarrow> string list" where
  "option_values a [] = []"
| "option_values a (Valued b v # items) = (if b = a then v # option_values a items else option_values a items)"
| "option_values a (i # items) = option_values a items"

lemma bounded_digits_fold:
  assumes "9 \<le> maximum"
  shows "bounded_digits maximum val p = Some n \<longleftrightarrow>
    list_all is_digit p \<and> n = foldl (\<lambda>r c. 10 * r + digit_val c) val p \<and> (p = [] \<or> n \<le> maximum)"
proof (induction p arbitrary: val)
  case (Cons c p)
  have grow: "10 * val + digit_val c \<le> foldl (\<lambda>r c. 10 * r + digit_val c) (10 * val + digit_val c) p"
    by (rule digits_from_ge)
  have fits: "val > (maximum - digit_val c) div 10 \<longleftrightarrow> 10 * val + digit_val c > maximum" if "is_digit c"
    using digit_val_le [OF that] assms by (auto simp: div_less_iff_less_mult not_le [symmetric])
  show ?case
    using Cons [of "val * 10 + digit_val c"] fits grow by (auto simp: mult.commute)
qed auto

lemma bounded_digits_iff:
  "9 \<le> maximum \<Longrightarrow> bounded_digits maximum 0 p = Some n \<longleftrightarrow> list_all is_digit p \<and> n = dec_value p \<and> n \<le> maximum"
  by (auto simp: bounded_digits_fold dec_value_def)

lemma atoi_digits:
  assumes "list_all is_digit p" "p \<noteq> []" "int (dec_value p) \<le> LONG_MAX"
  shows "atoi p = int (dec_value p)"
proof -
  obtain c d where p: "p = c # d" "is_digit c" using assms by (cases p) auto
  have "takeWhile is_digit d = d" using assms(1) p by (simp add: list_all_iff takeWhile_eq_all_conv)
  then show ?thesis
    using assms(3) is_space_digit [OF p(2)] p 
    by (auto simp: atoi_def strtol10_def Let_def LONG_MIN_def simp del: takeWhile_eq_all_conv)
qed

lemma bounded_loop_tokens:
  assumes "arguments_ok cmd items" "command_option_takes_value cmd option"
  shows "bounded_option_loop option maximum result (argument_tokens items)
    = bounded_option_loop option maximum result (concat (map (\<lambda>v. [option, v]) (option_values option items)))"
  using assms(1)
proof (induction items arbitrary: result)
  case (Cons i items)
  have name: "option_name option"
    using assms(2) by (auto simp: command_option_takes_value_def option_name_def is_digit_def)
  have "v \<noteq> option" if "\<not> dash v \<or> negative_priority cmd b v" for b v
    using that name by (auto simp: option_name_def negative_priority_def)
  moreover have "a \<noteq> option" if "\<not> command_option_takes_value cmd a" for a using that assms(2) by blast
  moreover have "a \<noteq> option" if "\<not> dash a" for a using that assms(2) takes_value_dash by blast
  ultimately show ?case using Cons by (cases i) (auto split: option.split)
qed simp

text \<open>On validated arguments the reader of a bounded number never reads behind the arguments. It accepts exactly
  an option that is absent or given once with decimal digits of a value from 1 to the maximum, without overflow, and the
  later \<open>atoi\<close> reads the same number.\<close>

theorem bounded_option_iff:
  assumes "arguments_ok cmd items" "command_option_takes_value cmd option" "9 \<le> maximum" "int maximum \<le> LONG_MAX"
  shows "command_bounded_option (argument_tokens items) option maximum \<noteq> None
    \<and> (command_bounded_option (argument_tokens items) option maximum = Some (Some result) \<longleftrightarrow>
        option_values option items = [] \<and> result = None
        \<or> (\<exists>p. option_values option items = [p] \<and> p \<noteq> [] \<and> list_all is_digit p \<and> 1 \<le> dec_value p \<and> dec_value p \<le> maximum
              \<and> result = Some (dec_value p) \<and> atoi p = int (dec_value p)))"
proof -
  note tokens = bounded_loop_tokens [OF assms(1,2), of maximum None]
  consider (none) "option_values option items = []" | (one) p where "option_values option items = [p]"
    | (many) p q r where "option_values option items = p # q # r"
    by (cases "option_values option items"; cases "tl (option_values option items)") auto
  then show ?thesis
  proof cases
    case none
    then have "command_bounded_option (argument_tokens items) option maximum = Some (Some None)"
      using tokens by (simp add: command_bounded_option_def)
    then show ?thesis using none by auto
  next
    case one
    have "atoi p = int (dec_value p)" if "p \<noteq> []" "list_all is_digit p" "dec_value p \<le> maximum"
      using atoi_digits [OF that(2,1)] that(3) assms(4) by simp
    moreover have "command_bounded_option (argument_tokens items) option maximum
        = Some (if p = [] then None else case bounded_digits maximum 0 p of None \<Rightarrow> None | Some v \<Rightarrow> if v = 0 then None else Some (Some v))"
      using tokens one by (auto simp: command_bounded_option_def split: option.splits)
    ultimately show ?thesis
      using one bounded_digits_iff [OF assms(3), of p] by (cases "bounded_digits maximum 0 p") auto
  next
    case many
    have "command_bounded_option (argument_tokens items) option maximum = Some None"
      proof -
      have "bounded_option_loop option maximum (Some n) (option # q # rest) = Some None" for n rest by simp
      then show ?thesis using tokens many by (simp add: command_bounded_option_def split: option.split)
    qed
    then show ?thesis using many by simp
  qed
qed

lemma actions_defined:
  assumes "validate_command_options cmd args"
  shows "validate_command_actions cmd args \<noteq> None"
proof -
  obtain items where items: "arguments_ok cmd items" "args = argument_tokens items"
    using tokens_of_validated [OF assms] by blast
  have bound: "command_bounded_option args option maximum \<noteq> None" if "command_option_takes_value cmd option" for option maximum
  proof -
    have "bounded_option_loop option maximum result (concat (map (\<lambda>v. [option, v]) vs)) \<noteq> None" for vs result
      by (induction vs arbitrary: result) (auto split: option.splits)
    then show ?thesis using bounded_loop_tokens [OF items(1) that] items(2) by (simp add: command_bounded_option_def)
  qed
  have "list_actions cmd args \<noteq> None" if "cmd = CMD_LIST \<or> cmd = CMD_SHOW"
    using bound [of "''--repo''" 32] that by (auto simp: list_actions_def command_option_takes_value_def split: option.splits)
  moreover have "recovery_actions operands args \<noteq> None" if "cmd = CMD_RECOVERY" for operands
    using bound [of "''--limit''" 4096] that
    by (cases "command_bounded_option args ''--limit'' 4096"; cases "the (command_bounded_option args ''--limit'' 4096)")
      (simp_all add: recovery_actions_def command_option_takes_value_def)
  ultimately show ?thesis
    by (cases cmd) (auto simp: validate_command_actions_def Let_def)
qed

end
