(* ===== verification/Command_Dispatch.thy ===== *)
theory Command_Dispatch
  imports Command_Line Operation
begin

text \<open>
  The command line of \<open>wpm/wpm.c\<close>, second part: the function \<open>main\<close>. \<open>wpm_main\<close> maps the arguments behind the
  program name to what is to be done; \<open>dispatch\<close> is the switch over the command as the list of the calls into the
  other parts, which run until one fails, with the exit code when none does; \<open>run_main\<close> runs them, with the plan of
  \<open>operation.c\<close>. The called functions, the directories and the log are parameters. Lists of arguments begin behind the
  program name, so that \<open>argv[i]\<close> is the element \<open>i - 1\<close>.
\<close>

subsection \<open>Global options\<close>

definition complete_self_upgrade :: string where
  "complete_self_upgrade = ''--complete-self-upgrade''"

definition wpm_set_color_policy :: "string \<Rightarrow> bool" where
  "wpm_set_color_policy val \<longleftrightarrow> val = ''auto'' \<or> val = ''always'' \<or> val = ''never''"

text \<open>The loop that removes the color and verbose options; \<open>None\<close> for an invalid color.\<close>

fun strip_globals :: "string list \<Rightarrow> bool \<Rightarrow> string list \<Rightarrow> (string list \<times> bool) option" where
  "strip_globals kept verbose [] = Some (kept, verbose)"
| "strip_globals kept verbose (a # rest) =
     (if a = ''--verbose'' \<and> hd (kept @ [a]) \<noteq> complete_self_upgrade then strip_globals kept True rest
      else if a = ''--color''
      then (case rest of [] \<Rightarrow> None | val # rest \<Rightarrow> if wpm_set_color_policy val then strip_globals kept verbose rest else None)
      else if take 8 a = ''--color=''
      then (if wpm_set_color_policy (drop 8 a) then strip_globals kept verbose rest else None)
      else if take 7 a = ''--color'' then None
      else strip_globals (kept @ [a]) verbose rest)"

record main_flags =
  mf_verbose :: bool
  mf_offline :: bool
  mf_version :: bool
  mf_diagnose :: bool
  mf_help :: bool
  mf_index :: "nat option"

text \<open>The loop over the global flags from argument \<open>i\<close> on; \<open>None\<close> is the general help before a command.\<close>

fun scan_flags :: "nat \<Rightarrow> string list \<Rightarrow> main_flags \<Rightarrow> main_flags option" where
  "scan_flags i [] f = Some f"
| "scan_flags i (a # rest) f =
     (if a = ''--verbose'' then scan_flags (i + 1) rest (f\<lparr>mf_verbose := True\<rparr>)
      else if a = ''--offline'' then scan_flags (i + 1) rest (f\<lparr>mf_offline := True\<rparr>)
      else if a = ''--dry-run'' then scan_flags (i + 1) rest f
      else if a = ''--version'' \<and> mf_index f = None then scan_flags (i + 1) rest (f\<lparr>mf_version := True\<rparr>)
      else if a = ''--help'' \<or> a = ''-h'' then (if mf_index f = None then None else scan_flags (i + 1) rest (f\<lparr>mf_help := True\<rparr>))
      else if a = ''--diagnose'' then scan_flags (i + 1) rest (f\<lparr>mf_diagnose := True\<rparr>)
      else if mf_index f = None then scan_flags (i + 1) rest (f\<lparr>mf_index := Some i\<rparr>)
      else scan_flags (i + 1) rest f)"

text \<open>The bits of \<open>diagnostic_json_shape\<close>.\<close>

fun diagnostic_shape_loop :: "string set \<Rightarrow> string list \<Rightarrow> string set option" where
  "diagnostic_shape_loop seen [] = Some seen"
| "diagnostic_shape_loop seen (a # rest) =
     (if a \<notin> {''--diagnose'', ''--json'', ''--offline'', ''--dry-run''} \<or> a \<in> seen then None
      else diagnostic_shape_loop (insert a seen) rest)"

definition diagnostic_json_shape :: "string list \<Rightarrow> bool \<Rightarrow> bool" where
  "diagnostic_json_shape args verbose \<longleftrightarrow>
     (case diagnostic_shape_loop {} args of None \<Rightarrow> False | Some seen \<Rightarrow> \<not> verbose \<and> ''--diagnose'' \<in> seen \<and> ''--json'' \<in> seen)"

subsection \<open>What is to be done\<close>

text \<open>A command with its arguments: \<open>iv_argv\<close> are all arguments, \<open>iv_index\<close> the position of the command in them,
  \<open>iv_plan\<close> says that a plan is collected first.\<close>

record invocation =
  iv_command :: command
  iv_argv :: "string list"
  iv_index :: nat
  iv_verbose :: bool
  iv_offline :: bool
  iv_dry_run :: bool
  iv_yes :: bool
  iv_confirm :: bool
  iv_plan :: bool
  iv_capabilities :: "32 word"

definition iv_args :: "invocation \<Rightarrow> string list" where
  "iv_args iv = drop (iv_index iv + 1) (iv_argv iv)"

text \<open>The completion of a self-upgrade: archive, new version, architecture, old version, the unsigned flag, and the log.\<close>

datatype main_action =
    Main_error | Main_undefined | Main_query | Main_banner bool | Main_usage command | Main_version bool | Main_diagnose
  | Main_diagnose_json | Main_complete string string string string bool "string option" | Main_run invocation

definition plan_command :: "command \<Rightarrow> bool" where
  "plan_command cmd \<longleftrightarrow> cmd = CMD_INSTALL \<or> cmd = CMD_REMOVE \<or> cmd = CMD_UPGRADE"

definition repository_dry_run :: "command \<Rightarrow> string list \<Rightarrow> bool" where
  "repository_dry_run cmd args \<longleftrightarrow> cmd = CMD_REPO
     \<and> (case collect_command_operands cmd args of
           [] \<Rightarrow> False | action # _ \<Rightarrow> action = ''init'' \<or> action = ''add-package'' \<or> action = ''sign'' \<or> action = ''index'')"

text \<open>The commands that only read.\<close>

definition readonly_command :: "command \<Rightarrow> string list \<Rightarrow> bool" where
  "readonly_command cmd args \<longleftrightarrow>
     cmd = CMD_REPO \<and> (case collect_command_operands cmd args of [] \<Rightarrow> False | action # _ \<Rightarrow> action = ''diagnose'' \<or> action = ''verify'')
     \<or> cmd = CMD_RECOVERY \<or> cmd = CMD_LIST \<or> cmd = CMD_SHOW
     \<or> cmd = CMD_VERIFY \<and> command_has_option args ''--read-only''"

definition consent_flags :: "string set" where
  "consent_flags = {''--confirm'', ''--yes'', ''-y''}"

definition main_command :: "bool \<Rightarrow> main_flags \<Rightarrow> string list \<Rightarrow> nat \<Rightarrow> main_action" where
  "main_command dry_run f argv index =
     (let cmd = parse_command (argv ! index); args = drop (index + 1) argv in
      if cmd = CMD_UNKNOWN then Main_error
      else if dry_run \<and> \<not> plan_command cmd \<and> \<not> repository_dry_run cmd args then Main_error
      else if \<not> validate_command_options cmd args then Main_error
      else if \<not> validate_command_operands cmd args then Main_error
      else
      (case validate_command_actions cmd args of
         None \<Rightarrow> Main_undefined
       | Some False \<Rightarrow> Main_error
       | Some True \<Rightarrow>
           let confirm = plan_command cmd \<and> command_has_option args ''--confirm'';
               yes = plan_command cmd \<and> (command_has_option args ''--yes'' \<or> command_has_option args ''-y'');
               args' = (if plan_command cmd then filter (\<lambda>a. a \<noteq> ''--dry-run'') (filter (\<lambda>a. a \<notin> consent_flags) args) else args) in
           if (cmd = CMD_REPO \<or> cmd = CMD_RECOVERY \<or> cmd = CMD_LIST \<or> cmd = CMD_SHOW)
              \<and> command_has_option args ''--json'' \<and> mf_verbose f then Main_error
           else if dry_run \<and> (yes \<or> confirm) \<or> confirm \<and> yes then Main_error
           else
             Main_run \<lparr>iv_command = cmd, iv_argv = take (index + 1) argv @ args', iv_index = index, iv_verbose = mf_verbose f,
               iv_offline = mf_offline f, iv_dry_run = dry_run, iv_yes = yes, iv_confirm = confirm,
               iv_plan = plan_command cmd \<and> (dry_run \<or> confirm),
               iv_capabilities = wpm_set_readonly (readonly_command cmd args) (wpm_set_readonly dry_run all_capabilities)\<rparr>))"

definition main_help :: "string list \<Rightarrow> main_action" where
  "main_help topic =
     (case topic of
        [] \<Rightarrow> Main_usage CMD_UNKNOWN
      | [name] \<Rightarrow> if parse_command name = CMD_UNKNOWN then Main_error else Main_usage (parse_command name)
      | _ \<Rightarrow> Main_error)"

definition main_flagged :: "bool \<Rightarrow> string list \<Rightarrow> main_flags \<Rightarrow> main_action" where
  "main_flagged dry_run argv f =
     (let help = (case mf_index f of None \<Rightarrow> None
                  | Some index \<Rightarrow>
                      if argv ! index = ''help'' then Some (main_help (drop (index + 1) argv))
                      else if mf_help f then Some (main_help [argv ! index])
                      else None) in
      case help of
        Some action \<Rightarrow> action
      | None \<Rightarrow>
          if mf_diagnose f \<and> command_has_option argv ''--json''
          then (if diagnostic_json_shape argv (mf_verbose f) then Main_diagnose_json else Main_error)
          else if mf_version f then Main_version (mf_verbose f)
          else if mf_diagnose f then Main_diagnose
          else (case mf_index f of
                  None \<Rightarrow> if dry_run then Main_error else Main_banner (mf_verbose f)
                | Some index \<Rightarrow> main_command dry_run f argv index))"

definition main_complete :: "string list \<Rightarrow> main_action" where
  "main_complete argv =
     Main_complete (argv ! 1) (argv ! 3) (argv ! 4) (argv ! 5) (atoi (argv ! 6) \<noteq> 0)
       (if length argv \<ge> 8 \<and> argv ! 7 \<noteq> ''--verbose'' then Some (argv ! 7) else None)"

definition output_option :: "string \<Rightarrow> bool" where
  "output_option a \<longleftrightarrow> a = ''--output'' \<or> take 9 a = ''--output=''"

definition wpm_main :: "string list \<Rightarrow> main_action" where
  "wpm_main argv =
     (let dry_run = command_has_option argv ''--dry-run'' in
      if list_ex output_option argv then Main_query
      else if dry_run \<and> argv \<noteq> [] \<and> hd argv = complete_self_upgrade then Main_error
      else
      (case strip_globals [] False argv of
         None \<Rightarrow> Main_error
       | Some (argv, verbose) \<Rightarrow>
           if argv = [] then Main_banner verbose
           else if length argv \<in> {7, 8, 9} \<and> hd argv = complete_self_upgrade
           then (if wpm_require_capability (WPM_CAP_WRITE OR WPM_CAP_HANDOFF) (wpm_set_readonly dry_run all_capabilities)
                 then main_complete argv else Main_error)
           else
           (case scan_flags 0 argv \<lparr>mf_verbose = verbose, mf_offline = False, mf_version = False, mf_diagnose = False,
                                    mf_help = False, mf_index = None\<rparr> of
              None \<Rightarrow> Main_usage CMD_UNKNOWN
            | Some f \<Rightarrow> main_flagged dry_run argv f)))"

subsection \<open>Dispatch\<close>

datatype call =
    Do_build string string bool "string option"
  | Do_verify string
  | Do_verify_readonly string bool
  | Do_archive_install string bool
  | Do_repo_install string "string option" "string option" bool bool
  | Do_remove string
  | Do_repo_list
  | Do_repo_init string bool
  | Do_repo_add_package string string bool bool
  | Do_repo_index string bool bool
  | Do_repo_sign string "string option" "string option" bool bool bool
  | Do_repo_verify_index string bool "string option"
  | Do_repo_diagnose bool bool
  | Do_repo_add string int bool
  | Do_repo_remove string
  | Do_repo_update bool
  | Do_clear_default_key
  | Do_set_default_key string
  | Do_trust_add string
  | Do_trust_list
  | Do_trust_revoke string
  | Do_query_json "string option" "string option" "string option" nat bool bool
  | Do_show string "string option" "string option" nat
  | Do_list_available "string option" "string option" "string option" nat
  | Do_list_installed "string option" "string option" "string option"
  | Do_recovery_records nat bool "string option" "string option" bool "string option" "string option"
  | Do_recovery_list nat bool "string option" "string option"
  | Do_prerelease_get "string option"
  | Do_prerelease_set "string option" bool
  | Do_prerelease_unset string
  | Do_keygen string string bool
  | Do_upgrade "string list" bool "string option" "string option" bool bool bool
  | Do_init string

text \<open>What a command does: its calls, and whether it succeeds when all of them do. \<open>None\<close> would be an operand that was
  never stored.\<close>

type_synonym dispatched = "(call list \<times> bool) option"

abbreviation usage_error :: dispatched where
  "usage_error \<equiv> Some ([], False)"

abbreviation do_call :: "call \<Rightarrow> dispatched" where
  "do_call c \<equiv> Some ([c], True)"

record build_arguments =
  ba_source :: "string option"
  ba_output :: "string option"
  ba_no_index :: bool
  ba_key :: "string option"

fun build_loop :: "build_arguments \<Rightarrow> string list \<Rightarrow> build_arguments option" where
  "build_loop b [] = Some b"
| "build_loop b (a # rest) =
     (if a = ''--verbose'' then build_loop b rest
      else if a = ''--no-index'' then build_loop (b\<lparr>ba_no_index := True\<rparr>) rest
      else if a = ''--sign'' \<and> rest \<noteq> [] then build_loop (b\<lparr>ba_key := Some (hd rest)\<rparr>) (tl rest)
      else if ba_source b = None then build_loop (b\<lparr>ba_source := Some a\<rparr>) rest
      else if ba_output b = None then build_loop (b\<lparr>ba_output := Some a\<rparr>) rest
      else None)"

text \<open>\<open>default_key\<close> is the result of \<open>wpm_get_default_key\<close>.\<close>

definition dispatch_build :: "int \<times> string \<Rightarrow> string list \<Rightarrow> dispatched" where
  "dispatch_build default_key args =
     (case build_loop \<lparr>ba_source = None, ba_output = None, ba_no_index = False, ba_key = None\<rparr> args of
        None \<Rightarrow> usage_error
      | Some b \<Rightarrow>
          (case ba_source b of
             None \<Rightarrow> usage_error
           | Some source \<Rightarrow>
               if ba_key b = None \<and> fst default_key < 0 then usage_error
               else
                 let key = (if ba_key b = None \<and> fst default_key > 0 then Some (snd default_key) else ba_key b) in
                 do_call (Do_build source (case ba_output b of None \<Rightarrow> ''.'' | Some d \<Rightarrow> d) (\<not> ba_no_index b) key)))"

definition dispatch_verify :: "string list \<Rightarrow> dispatched" where
  "dispatch_verify args =
     (let packages = filter (\<lambda>a. a \<noteq> ''--verbose'' \<and> a \<noteq> ''--read-only'' \<and> a \<noteq> ''--allow-unsigned'') args in
      Some (map (if command_has_option args ''--read-only''
                 then (\<lambda>p. Do_verify_readonly p (command_has_option args ''--allow-unsigned'')) else Do_verify) packages,
            packages \<noteq> []))"

record install_arguments =
  ia_allow :: bool
  ia_arch :: "string option"
  ia_version :: "string option"
  ia_count :: nat

fun install_scan :: "install_arguments \<Rightarrow> string list \<Rightarrow> install_arguments" where
  "install_scan i [] = i"
| "install_scan i (a # rest) =
     (if a = ''--allow-unsigned'' then install_scan (i\<lparr>ia_allow := True\<rparr>) rest
      else if a = ''--arch'' \<and> rest \<noteq> [] then install_scan (i\<lparr>ia_arch := Some (hd rest)\<rparr>) (tl rest)
      else if a = ''--version'' \<and> rest \<noteq> [] then install_scan (i\<lparr>ia_version := Some (hd rest)\<rparr>) (tl rest)
      else if a \<noteq> ''--verbose'' \<and> a \<noteq> ''--offline'' then install_scan (i\<lparr>ia_count := ia_count i + 1\<rparr>) rest
      else install_scan i rest)"

fun install_packages :: "string list \<Rightarrow> string list" where
  "install_packages [] = []"
| "install_packages (a # rest) =
     (if a = ''--verbose'' \<or> a = ''--offline'' \<or> a = ''--allow-unsigned'' then install_packages rest
      else if a = ''--arch'' \<or> a = ''--version'' then (case rest of [] \<Rightarrow> [] | _ # rest \<Rightarrow> install_packages rest)
      else a # install_packages rest)"

definition zip_path :: "string \<Rightarrow> bool" where
  "zip_path p \<longleftrightarrow> CHR ''.'' \<in> set p \<and> strieq (CHR ''.'' # rev (takeWhile (\<lambda>c. c \<noteq> CHR ''.'') (rev p))) ''.zip''"

fun install_calls :: "bool \<Rightarrow> install_arguments \<Rightarrow> string list \<Rightarrow> call list \<times> bool" where
  "install_calls offline i [] = ([], True)"
| "install_calls offline i (p # ps) =
     (if zip_path p
      then (if ia_arch i \<noteq> None \<or> ia_version i \<noteq> None then ([], False)
            else apfst ((#) (Do_archive_install p (ia_allow i))) (install_calls offline i ps))
      else apfst ((#) (Do_repo_install p (ia_arch i) (ia_version i) offline (ia_allow i))) (install_calls offline i ps))"

definition dispatch_install :: "bool \<Rightarrow> string list \<Rightarrow> dispatched" where
  "dispatch_install offline args =
     (let i = install_scan \<lparr>ia_allow = False, ia_arch = None, ia_version = None, ia_count = 0\<rparr> args in
      if ia_count i = 0 then usage_error else Some (install_calls offline i (install_packages args)))"

text \<open>Removal takes every argument from \<open>argv[2]\<close> on.\<close>

definition dispatch_remove :: "string list \<Rightarrow> dispatched" where
  "dispatch_remove argv = (if length argv < 2 then usage_error else Some (map Do_remove (drop 1 argv), True))"

fun repo_add_loop :: "int \<times> bool \<Rightarrow> string list \<Rightarrow> (int \<times> bool) option" where
  "repo_add_loop (prio, http) [] = Some (prio, http)"
| "repo_add_loop (prio, http) (a # rest) =
     (if a = ''--priority'' \<and> rest \<noteq> [] then repo_add_loop (atoi (hd rest), http) (tl rest)
      else if a = ''--allow-insecure-http'' then repo_add_loop (prio, True) rest
      else None)"

text \<open>The operand \<open>n\<close>, when it was stored.\<close>

definition with_operand :: "string list \<Rightarrow> nat \<Rightarrow> (string \<Rightarrow> dispatched) \<Rightarrow> dispatched" where
  "with_operand operands n f = (if n < length operands then f (operands ! n) else None)"

definition list_shape :: "string list \<Rightarrow> bool" where
  "list_shape args \<longleftrightarrow> length args = 1 \<or> length args = 2 \<and> args ! 1 = ''--offline''"

text \<open>The action of \<open>repo\<close>: the first argument, or the first operand when it is one of four.\<close>

definition repo_action :: "string list \<Rightarrow> string" where
  "repo_action args =
     (let first = (case args of [] \<Rightarrow> ''list'' | a # _ \<Rightarrow> a) in
      case collect_command_operands CMD_REPO args of
        [] \<Rightarrow> first
      | a # _ \<Rightarrow> if a = ''verify'' \<or> a = ''diagnose'' \<or> a = ''init'' \<or> a = ''add-package'' then a else first)"

definition dispatch_repo :: "bool \<Rightarrow> bool \<Rightarrow> string list \<Rightarrow> dispatched" where
  "dispatch_repo dry_run offline args =
     (let operands = collect_command_operands CMD_REPO args; has = command_has_option args;
          action = repo_action args;
          keys = scan_values [''--sign'', ''--index-key''] args in
      if action = ''list'' \<and> list_shape args then do_call Do_repo_list
      else if action = ''init'' then with_operand operands 1 (\<lambda>d. do_call (Do_repo_init d dry_run))
      else if action = ''add-package''
      then with_operand operands 1 (\<lambda>d. with_operand operands 2 (\<lambda>a.
             do_call (Do_repo_add_package d a (has ''--allow-unsigned'') dry_run)))
      else if action = ''index'' then with_operand operands 1 (\<lambda>d. do_call (Do_repo_index d (has ''--allow-unsigned'') dry_run))
      else if action = ''sign''
      then with_operand operands 1 (\<lambda>d. do_call (Do_repo_sign d (last_value ''--sign'' keys) (last_value ''--index-key'' keys)
             (has ''--replace-signature'') (has ''--allow-unsigned'') dry_run))
      else if action = ''verify''
      then with_operand operands 1 (\<lambda>d. do_call (Do_repo_verify_index d (has ''--allow-unsigned'')
             (last_value ''--index-key'' (scan_values [''--index-key''] args))))
      else if action = ''diagnose'' then do_call (Do_repo_diagnose (has ''--json'') (has ''--links''))
      else if action = ''add''
      then (case (if length args \<ge> 2 then repo_add_loop (0, False) (drop 2 args) else None) of
              None \<Rightarrow> usage_error
            | Some (prio, http) \<Rightarrow> do_call (Do_repo_add (args ! 1) prio http))
      else if action = ''remove'' \<and> length args = 2 then do_call (Do_repo_remove (args ! 1))
      else if action = ''update'' \<and> list_shape args then do_call (Do_repo_update offline)
      else usage_error)"

definition dispatch_key :: "string list \<Rightarrow> dispatched" where
  "dispatch_key args =
     (case args of
        action # val # _ \<Rightarrow>
          if action = ''default'' then do_call (if val = ''--clear'' then Do_clear_default_key else Do_set_default_key val) else usage_error
      | _ \<Rightarrow> usage_error)"

definition dispatch_trust :: "string list \<Rightarrow> dispatched" where
  "dispatch_trust args =
     (let action = (case args of [] \<Rightarrow> ''list'' | a # _ \<Rightarrow> a) in
      if action = ''add'' \<and> length args \<ge> 2 then do_call (Do_trust_add (args ! 1))
      else if action = ''list'' then do_call Do_trust_list
      else if action = ''revoke'' \<and> length args \<ge> 2 then do_call (Do_trust_revoke (args ! 1))
      else usage_error)"

definition dispatch_list :: "command \<Rightarrow> string list \<Rightarrow> dispatched" where
  "dispatch_list cmd args =
     (let operands = collect_command_operands cmd args; found = scan_values [''--arch'', ''--version'', ''--repo''] args;
          name = (case operands of [] \<Rightarrow> None | a # _ \<Rightarrow> Some a);
          arch = last_value ''--arch'' found; version = last_value ''--version'' found;
          ordinal = (case last_value ''--repo'' found of None \<Rightarrow> 0 | Some v \<Rightarrow> nat (atoi v mod 2 ^ 32)) in
      if command_has_option args ''--json''
      then do_call (Do_query_json name arch version ordinal (command_has_option args ''--available'') (cmd = CMD_SHOW))
      else if cmd = CMD_SHOW then with_operand operands 0 (\<lambda>n. do_call (Do_show n arch version ordinal))
      else if command_has_option args ''--available'' then do_call (Do_list_available name arch version ordinal)
      else do_call (Do_list_installed name arch version))"

definition dispatch_recovery :: "string list \<Rightarrow> dispatched" where
  "dispatch_recovery args =
     (let operands = collect_command_operands CMD_RECOVERY args;
          found = scan_values [''--limit'', ''--name'', ''--arch'', ''--archive''] args;
          limit = (case last_value ''--limit'' found of None \<Rightarrow> 128 | Some v \<Rightarrow> nat (atoi v mod 2 ^ 32));
          name = last_value ''--name'' found; arch = last_value ''--arch'' found; json = command_has_option args ''--json'' in
      do_call
        (if operands \<noteq> [] \<and> operands ! 0 \<noteq> ''list''
         then Do_recovery_records limit json (if length operands = 2 then Some (operands ! 1) else None) (last_value ''--archive'' found)
                (command_has_option args ''--allow-unsigned'') name arch
         else Do_recovery_list limit json name arch))"

fun package_loop :: "string option \<Rightarrow> string list \<Rightarrow> string option" where
  "package_loop package [] = package"
| "package_loop package (a # rest) =
     (if a = ''--package'' \<and> rest \<noteq> [] then package_loop (Some (hd rest)) (tl rest) else package_loop package rest)"

definition dispatch_config :: "string list \<Rightarrow> dispatched" where
  "dispatch_config args =
     (let package = package_loop None (drop 2 args) in
      case args of
        action # setting # rest \<Rightarrow>
          if setting \<noteq> ''prerelease'' then usage_error
          else if action = ''get'' then do_call (Do_prerelease_get package)
          else if action = ''set'' \<and> rest \<noteq> []
          then (if strieq (hd rest) ''true'' \<or> strieq (hd rest) ''false''
                then do_call (Do_prerelease_set package (strieq (hd rest) ''true'')) else usage_error)
          else (case package of Some p \<Rightarrow> if action = ''unset'' then do_call (Do_prerelease_unset p) else usage_error
                | None \<Rightarrow> usage_error)
      | _ \<Rightarrow> usage_error)"

definition dispatch_keygen :: "string list \<Rightarrow> dispatched" where
  "dispatch_keygen args =
     (case args of
        [private, public] \<Rightarrow> do_call (Do_keygen private public False)
      | [private, public, third] \<Rightarrow> if third = ''--default'' then do_call (Do_keygen private public True) else usage_error
      | _ \<Rightarrow> usage_error)"

record upgrade_arguments =
  ua_names :: "string list"
  ua_all :: bool
  ua_allow :: bool
  ua_yes :: bool
  ua_arch :: "string option"
  ua_version :: "string option"

fun upgrade_loop :: "upgrade_arguments \<Rightarrow> string list \<Rightarrow> upgrade_arguments" where
  "upgrade_loop u [] = u"
| "upgrade_loop u (a # rest) =
     (if a = ''--all'' then upgrade_loop (u\<lparr>ua_all := True\<rparr>) rest
      else if a = ''-y'' \<or> a = ''--yes'' then upgrade_loop (u\<lparr>ua_yes := True\<rparr>) rest
      else if a = ''--allow-unsigned'' then upgrade_loop (u\<lparr>ua_allow := True\<rparr>) rest
      else if a = ''--arch'' \<and> rest \<noteq> [] then upgrade_loop (u\<lparr>ua_arch := Some (hd rest)\<rparr>) (tl rest)
      else if a = ''--version'' \<and> rest \<noteq> [] then upgrade_loop (u\<lparr>ua_version := Some (hd rest)\<rparr>) (tl rest)
      else if a \<noteq> ''--offline'' \<and> a \<noteq> ''--verbose'' \<and> length (ua_names u) < 128 then upgrade_loop (u\<lparr>ua_names := ua_names u @ [a]\<rparr>) rest
      else upgrade_loop u rest)"

definition dispatch_upgrade :: "bool \<Rightarrow> bool \<Rightarrow> string list \<Rightarrow> dispatched" where
  "dispatch_upgrade offline assume_yes args =
     (let u = upgrade_loop \<lparr>ua_names = [], ua_all = False, ua_allow = False, ua_yes = assume_yes, ua_arch = None, ua_version = None\<rparr> args in
      if \<not> ua_all u \<and> ua_names u = [] \<or> ua_all u \<and> ua_names u \<noteq> [] \<or> ua_all u \<and> ua_version u \<noteq> None then usage_error
      else do_call (Do_upgrade (ua_names u) (ua_all u) (ua_arch u) (ua_version u) offline (ua_allow u) (ua_yes u)))"

definition wpm_package_name_is_valid :: "string \<Rightarrow> bool" where
  "wpm_package_name_is_valid name \<longleftrightarrow> name \<noteq> [] \<and> name \<noteq> ''.'' \<and> name \<noteq> ''..''
     \<and> list_all (\<lambda>c. is_alnum c \<or> c = CHR ''-'' \<or> c = CHR ''_'' \<or> c = CHR ''.'') name"

text \<open>\<open>directory\<close> is the result of \<open>wpm_current_directory_name\<close>.\<close>

definition dispatch_init :: "string option \<Rightarrow> string list \<Rightarrow> dispatched" where
  "dispatch_init directory argv =
     (case (if length argv > 2 then None
            else if length argv = 2 then (if length (argv ! 1) \<ge> 128 then None else Some (argv ! 1))
            else directory) of
        None \<Rightarrow> usage_error
      | Some name \<Rightarrow> if wpm_package_name_is_valid name then do_call (Do_init name) else usage_error)"

definition dispatch :: "int \<times> string \<Rightarrow> string option \<Rightarrow> invocation \<Rightarrow> dispatched" where
  "dispatch default_key directory iv =
     (let args = iv_args iv in
      case iv_command iv of
        CMD_BUILD \<Rightarrow> dispatch_build default_key args
      | CMD_VERIFY \<Rightarrow> dispatch_verify args
      | CMD_INSTALL \<Rightarrow> dispatch_install (iv_offline iv) args
      | CMD_REMOVE \<Rightarrow> dispatch_remove (iv_argv iv)
      | CMD_REPO \<Rightarrow> dispatch_repo (iv_dry_run iv) (iv_offline iv) args
      | CMD_KEY \<Rightarrow> dispatch_key args
      | CMD_TRUST \<Rightarrow> dispatch_trust args
      | CMD_LIST \<Rightarrow> dispatch_list CMD_LIST args
      | CMD_SHOW \<Rightarrow> dispatch_list CMD_SHOW args
      | CMD_RECOVERY \<Rightarrow> dispatch_recovery args
      | CMD_CONFIG \<Rightarrow> dispatch_config args
      | CMD_UNKNOWN \<Rightarrow> usage_error
      | CMD_KEYGEN \<Rightarrow> dispatch_keygen args
      | CMD_UPGRADE \<Rightarrow> dispatch_upgrade (iv_offline iv) (iv_yes iv \<or> iv_confirm iv) args
      | CMD_INIT \<Rightarrow> dispatch_init directory (iv_argv iv)
      | CMD_UPDATE \<Rightarrow> do_call (Do_repo_update (iv_offline iv)))"

subsection \<open>Execution\<close>

text \<open>The parameters of a run: whether the directories could be created before a pass, the effect of a call on the plan,
  and the world of \<open>operation.c\<close> at the begin and at the confirmation of the plan.\<close>

record main_env =
  me_directories :: "nat \<Rightarrow> bool"
  me_call :: "nat \<Rightarrow> call \<Rightarrow> op_state \<Rightarrow> op_state \<times> bool"
  me_begin :: op_world
  me_confirm :: op_world

text \<open>The calls run until one fails. The trace records for each whether the plan was being collected.\<close>

fun run_calls :: "(nat \<Rightarrow> call \<Rightarrow> op_state \<Rightarrow> op_state \<times> bool) \<Rightarrow> nat \<Rightarrow> call list \<Rightarrow> op_state \<Rightarrow> (bool \<times> call) list \<times> op_state \<times> bool" where
  "run_calls run n [] st = ([], st, True)"
| "run_calls run n (c # cs) st =
     (case run n c st of
        (st', ok) \<Rightarrow> if ok then apfst ((#) (op_collecting st, c)) (run_calls run (n + 1) cs st') else ([(op_collecting st, c)], st', False))"

text \<open>The label \<open>operation_dispatch\<close> and the way back to it: pass \<open>i\<close>, the trace and the exit code.\<close>

fun run_passes :: "nat \<Rightarrow> main_env \<Rightarrow> 32 word \<Rightarrow> call list \<times> bool \<Rightarrow> nat \<Rightarrow> op_state \<Rightarrow> ((bool \<times> call) list \<times> nat) option" where
  "run_passes 0 me caps d i st = None"
| "run_passes (Suc fuel) me caps (cs, succeeds) i st =
     (case run_calls (me_call me) 0 cs st of
        (trace, st, ok) \<Rightarrow>
          if \<not> ok \<or> \<not> succeeds then Some (trace, 1)
          else if \<not> op_collecting st then Some (trace, 0)
          else
          (case wpm_operation_confirm ((me_confirm me)\<lparr>w_capabilities := caps\<rparr>) st of
             (st, confirmation) \<Rightarrow>
               if confirmation \<le> 0 then Some (trace, if confirmation < 0 then 1 else 0)
               else if \<not> me_directories me (i + 1) then Some (trace, 1)
               else map_option (apfst ((@) trace)) (run_passes fuel me caps (cs, succeeds) (i + 1) st)))"

definition run_main :: "nat \<Rightarrow> main_env \<Rightarrow> int \<times> string \<Rightarrow> string option \<Rightarrow> invocation \<Rightarrow> ((bool \<times> call) list \<times> nat) option" where
  "run_main fuel me default_key directory iv =
     (let st = (if iv_plan iv then wpm_operation_begin (iv_yes iv) ((me_begin me)\<lparr>w_capabilities := iv_capabilities iv\<rparr>) op_start else op_start) in
      if \<not> wpm_is_readonly (iv_capabilities iv) \<and> \<not> iv_dry_run iv \<and> \<not> op_active st \<and> \<not> me_directories me 0 then Some ([], 1)
      else
      (case dispatch default_key directory iv of
         None \<Rightarrow> None
       | Some d \<Rightarrow> run_passes fuel me (iv_capabilities iv) d 0 st))"

subsection \<open>What main does\<close>

lemma scan_flags_keeps: "scan_flags i args f = Some f' \<Longrightarrow> mf_index f = Some k \<Longrightarrow> mf_index f' = Some k"
  by (induction args arbitrary: i f) (auto split: if_splits)

lemma scan_flags_index:
  "scan_flags i args f = Some f' \<Longrightarrow> mf_index f = None \<Longrightarrow> mf_index f' = Some k \<Longrightarrow> i \<le> k \<and> k < i + length args"
proof (induction args arbitrary: i f)
  case (Cons a rest)
  define g where "g = f\<lparr>mf_index := Some i\<rparr>"
  have found: "k = i" if "scan_flags (i + 1) rest g = Some f'"
    using scan_flags_keeps [OF that, of i] Cons.prems(3) by (simp add: g_def)
  have later: "i \<le> k \<and> k < i + length (a # rest)" if "scan_flags (i + 1) rest h = Some f'" "mf_index h = None" for h
    using Cons.IH [OF that Cons.prems(3)] by simp
  show ?case
    using Cons.prems(1,2) found later unfolding g_def by (simp split: if_split_asm)
qed simp

lemma strip_globals_prefix: "strip_globals kept v args = Some (out, verbose) \<Longrightarrow> \<exists>more. out = kept @ more"
  by (induction kept v args rule: strip_globals.induct) (auto split: if_splits list.splits)

lemma strip_globals_verbose:
  "strip_globals kept v args = Some (out, verbose) \<Longrightarrow> hd out \<noteq> complete_self_upgrade \<Longrightarrow> ''--verbose'' \<notin> set kept \<Longrightarrow>
    ''--verbose'' \<notin> set out"
proof (induction kept v args rule: strip_globals.induct)
  case (2 kept v a rest)
  show ?case
  proof (cases "a = ''--verbose'' \<and> hd (kept @ [a]) = complete_self_upgrade")
    case True
    then have "strip_globals (kept @ [a]) v rest = Some (out, verbose)" using "2.prems"(1) by clarsimp
    from strip_globals_prefix [OF this] have "hd out = hd (kept @ [a])" by (auto simp: hd_append)
    then show ?thesis using True "2.prems"(2) by clarsimp
  next
    case False
    then show ?thesis using 2 by (auto split: if_splits list.splits)
  qed
qed auto

lemma main_run_command:
  assumes "wpm_main argv = Main_run iv"
  obtains f argv' index where "main_command (command_has_option argv ''--dry-run'') f argv' index = Main_run iv"
    "index < length argv'" "''--verbose'' \<notin> set argv'"
proof -
  define dry where "dry = command_has_option argv ''--dry-run''"
  obtain argv' verbose where strip: "strip_globals [] False argv = Some (argv', verbose)"
    using assms by (auto simp: wpm_main_def Let_def split: if_splits option.splits)
  define f0 where "f0 = \<lparr>mf_verbose = verbose, mf_offline = False, mf_version = False, mf_diagnose = False, mf_help = False, mf_index = None :: nat option\<rparr>"
  obtain f where f: "scan_flags 0 argv' f0 = Some f" "main_flagged dry argv' f = Main_run iv"
    using assms strip by (auto simp: wpm_main_def Let_def f0_def dry_def main_complete_def split: if_splits option.splits)
  then obtain index where index: "mf_index f = Some index" "main_command dry f argv' index = Main_run iv"
    by (auto simp: main_flagged_def main_help_def Let_def split: if_splits option.splits list.splits)
  have "index < length argv'" using scan_flags_index [OF f(1)] index(1) by (simp add: f0_def)
  moreover have "''--verbose'' \<notin> set argv'"
  proof (cases "hd argv' = complete_self_upgrade")
    case False
    then show ?thesis using strip_globals_verbose [OF strip] by simp
  next
    case True
    then obtain rest where "argv' = complete_self_upgrade # rest" using \<open>index < length argv'\<close> by (cases argv') auto
    moreover from this have "mf_index f = Some 0"
      using f(1) scan_flags_keeps [of _ _ _ f 0] by (simp add: f0_def complete_self_upgrade_def)
    ultimately have "parse_command (argv' ! index) = CMD_UNKNOWN" using index(1) by (simp add: parse_command_def complete_self_upgrade_def)
    then show ?thesis using index(2) by (simp add: main_command_def Let_def)
  qed
  ultimately show thesis using that index(2) by (simp add: dry_def)
qed

text \<open>What an accepted command has passed.\<close>

lemma main_command_run:
  assumes "main_command dry_run f argv index = Main_run iv"
  defines "cmd \<equiv> parse_command (argv ! index)" and "args \<equiv> drop (index + 1) argv"
  shows "iv_command iv = cmd" "cmd \<noteq> CMD_UNKNOWN" "validate_command_options cmd args" "validate_command_operands cmd args"
    "validate_command_actions cmd args = Some True" "iv_index iv = index"
    "iv_argv iv = take (index + 1) argv
      @ (if plan_command cmd then filter (\<lambda>a. a \<noteq> ''--dry-run'') (filter (\<lambda>a. a \<notin> consent_flags) args) else args)"
    "iv_dry_run iv = dry_run" "dry_run \<longrightarrow> plan_command cmd \<or> repository_dry_run cmd args"
    "iv_plan iv \<longleftrightarrow> plan_command cmd \<and> (dry_run \<or> iv_confirm iv)"
    "iv_yes iv \<longleftrightarrow> plan_command cmd \<and> (command_has_option args ''--yes'' \<or> command_has_option args ''-y'')"
    "iv_confirm iv \<longleftrightarrow> plan_command cmd \<and> command_has_option args ''--confirm''"
    "\<not> (dry_run \<and> (iv_yes iv \<or> iv_confirm iv)) \<and> \<not> (iv_confirm iv \<and> iv_yes iv)"
    "iv_capabilities iv = wpm_set_readonly (readonly_command cmd args) (wpm_set_readonly dry_run all_capabilities)"
proof -
  define confirm where "confirm \<longleftrightarrow> plan_command cmd \<and> command_has_option args ''--confirm''"
  define yes where "yes \<longleftrightarrow> plan_command cmd \<and> (command_has_option args ''--yes'' \<or> command_has_option args ''-y'')"
  define args' where "args' = (if plan_command cmd then filter (\<lambda>a. a \<noteq> ''--dry-run'') (filter (\<lambda>a. a \<notin> consent_flags) args) else args)"
  have unfolded: "cmd \<noteq> CMD_UNKNOWN \<and> (dry_run \<longrightarrow> plan_command cmd \<or> repository_dry_run cmd args)
      \<and> validate_command_options cmd args \<and> validate_command_operands cmd args
      \<and> validate_command_actions cmd args = Some True \<and> \<not> (dry_run \<and> (yes \<or> confirm) \<or> confirm \<and> yes)
      \<and> iv = \<lparr>iv_command = cmd, iv_argv = take (index + 1) argv @ args', iv_index = index, iv_verbose = mf_verbose f,
               iv_offline = mf_offline f, iv_dry_run = dry_run, iv_yes = yes, iv_confirm = confirm,
               iv_plan = plan_command cmd \<and> (dry_run \<or> confirm),
               iv_capabilities = wpm_set_readonly (readonly_command cmd args) (wpm_set_readonly dry_run all_capabilities)\<rparr>"
    using assms(1)
    unfolding main_command_def Let_def cmd_def [symmetric] args_def [symmetric] confirm_def [symmetric] yes_def [symmetric]
      args'_def [symmetric]
    by (cases "validate_command_actions cmd args"; cases "the (validate_command_actions cmd args)")
      (simp_all split: if_split_asm)
  then show "iv_command iv = cmd" "cmd \<noteq> CMD_UNKNOWN" "validate_command_options cmd args" "validate_command_operands cmd args"
    "validate_command_actions cmd args = Some True" "iv_index iv = index"
    "iv_argv iv = take (index + 1) argv
      @ (if plan_command cmd then filter (\<lambda>a. a \<noteq> ''--dry-run'') (filter (\<lambda>a. a \<notin> consent_flags) args) else args)"
    "iv_dry_run iv = dry_run" "dry_run \<longrightarrow> plan_command cmd \<or> repository_dry_run cmd args"
    "iv_plan iv \<longleftrightarrow> plan_command cmd \<and> (dry_run \<or> iv_confirm iv)"
    "iv_yes iv \<longleftrightarrow> plan_command cmd \<and> (command_has_option args ''--yes'' \<or> command_has_option args ''-y'')"
    "iv_confirm iv \<longleftrightarrow> plan_command cmd \<and> command_has_option args ''--confirm''"
    "\<not> (dry_run \<and> (iv_yes iv \<or> iv_confirm iv)) \<and> \<not> (iv_confirm iv \<and> iv_yes iv)"
    "iv_capabilities iv = wpm_set_readonly (readonly_command cmd args) (wpm_set_readonly dry_run all_capabilities)"
    by (simp_all add: confirm_def yes_def args'_def)
qed

text \<open>The flags of consent are removed as whole arguments, so that the rest stays as it was understood.\<close>

definition removed_flags :: "string set" where
  "removed_flags = insert ''--dry-run'' consent_flags"

fun kept_argument :: "argument \<Rightarrow> bool" where
  "kept_argument (Flag a) \<longleftrightarrow> a \<notin> removed_flags"
| "kept_argument i \<longleftrightarrow> True"

lemma filter_tokens:
  assumes "arguments_ok cmd items" "plan_command cmd"
  shows "filter (\<lambda>a. a \<noteq> ''--dry-run'') (filter (\<lambda>a. a \<notin> consent_flags) (argument_tokens items)) = argument_tokens (filter kept_argument items)"
  using assms(1)
proof (induction items)
  case (Cons i items)
  have "v \<notin> removed_flags" if "\<not> dash v" for v using that by (auto simp: removed_flags_def consent_flags_def)
  moreover have "a \<notin> removed_flags" if "command_option_takes_value cmd a" for a
    using that assms(2) by (auto simp: removed_flags_def consent_flags_def command_option_takes_value_def plan_command_def)
  moreover have "\<not> negative_priority cmd a v" for a v using assms(2) by (auto simp: negative_priority_def plan_command_def)
  ultimately show ?case using Cons by (cases i) (auto simp: removed_flags_def)
qed simp

definition main_items :: "invocation \<Rightarrow> argument list \<Rightarrow> bool" where
  "main_items iv items \<longleftrightarrow> arguments_ok (iv_command iv) items \<and> iv_args iv = argument_tokens items
     \<and> (\<forall>i \<in> set items. plan_command (iv_command iv) \<longrightarrow> kept_argument i) \<and> Flag ''--verbose'' \<notin> set items"

text \<open>What every accepted invocation looks like: the arguments the user gave, and those that are left for the dispatch.\<close>

lemma main_run_items:
  assumes "wpm_main argv = Main_run iv"
  obtains given items where "arguments_ok (iv_command iv) given" "main_items iv items"
    "items = (if plan_command (iv_command iv) then filter kept_argument given else given)"
    "validate_command_operands (iv_command iv) (argument_tokens given)"
    "validate_command_actions (iv_command iv) (argument_tokens given) = Some True" "iv_command iv \<noteq> CMD_UNKNOWN"
    "iv_capabilities iv = wpm_set_readonly (readonly_command (iv_command iv) (argument_tokens given))
        (wpm_set_readonly (iv_dry_run iv) all_capabilities)"
    "iv_dry_run iv = command_has_option argv ''--dry-run''" "iv_plan iv \<longleftrightarrow> plan_command (iv_command iv) \<and> (iv_dry_run iv \<or> iv_confirm iv)"
    "\<not> (iv_dry_run iv \<and> (iv_yes iv \<or> iv_confirm iv)) \<and> \<not> (iv_confirm iv \<and> iv_yes iv)"
    "iv_dry_run iv \<longrightarrow> plan_command (iv_command iv) \<or> repository_dry_run (iv_command iv) (argument_tokens given)"
    "iv_index iv = 0 \<longrightarrow> drop 1 (iv_argv iv) = iv_args iv"
proof -
  obtain f argv' index where main: "main_command (command_has_option argv ''--dry-run'') f argv' index = Main_run iv"
    "index < length argv'" "''--verbose'' \<notin> set argv'"
    by (rule main_run_command [OF assms])
  note run = main_command_run [OF main(1)]
  define args where "args = drop (index + 1) argv'"
  obtain given where given: "args = argument_tokens given" "arguments_ok (iv_command iv) given"
    using tokens_of_validated [of "iv_command iv" args] run(1,3) by (auto simp: args_def)
  define items where "items = (if plan_command (iv_command iv) then filter kept_argument given else given)"
  have "iv_args iv = (if plan_command (iv_command iv)
      then filter (\<lambda>a. a \<noteq> ''--dry-run'') (filter (\<lambda>a. a \<notin> consent_flags) args) else args)"
    using run(1,6,7) main(2) by (simp add: iv_args_def args_def)
  then have tokens: "iv_args iv = argument_tokens items"
    using filter_tokens [OF given(2)] given(1) by (simp add: items_def)
  have "Flag ''--verbose'' \<notin> set given"
  proof
    assume "Flag ''--verbose'' \<in> set given"
    then have "''--verbose'' \<in> set args" using given(1) by (force simp: argument_tokens_def)
    then show False using main(3) set_drop_subset [of "index + 1" argv'] by (auto simp: args_def)
  qed
  then have "main_items iv items"
    using tokens given(2) by (auto simp: main_items_def items_def list_all_iff)
  moreover have "iv_index iv = 0 \<longrightarrow> drop 1 (iv_argv iv) = iv_args iv" by (simp add: iv_args_def)
  ultimately show thesis
    using that [OF given(2), of items] run main(2) given(1) unfolding items_def args_def [symmetric] by simp
qed

subsection \<open>What is dispatched\<close>

abbreviation operands_of :: "argument list \<Rightarrow> string list" where
  "operands_of items \<equiv> [a. Operand a \<leftarrow> items]"

definition or_last :: "'a option \<Rightarrow> 'a list \<Rightarrow> 'a option" where
  "or_last x vs = (if vs = [] then x else Some (last vs))"

lemma or_last_simps [simp]: "or_last x [] = x" "or_last x (v # vs) = or_last (Some v) vs"
  by (auto simp: or_last_def)

lemma install_flag:
  "argument_ok CMD_INSTALL (Flag a) \<Longrightarrow> kept_argument (Flag a) \<Longrightarrow> a = ''--allow-unsigned'' \<or> a = ''--offline'' \<or> a = ''--verbose''"
  by (auto simp: command_option_is_known_def removed_flags_def consent_flags_def)

lemma install_value: "argument_ok CMD_INSTALL (Valued a v) \<Longrightarrow> a = ''--arch'' \<or> a = ''--version''"
  by (auto simp: command_option_takes_value_def)

lemma install_tokens:
  assumes "arguments_ok CMD_INSTALL items" "\<forall>i \<in> set items. kept_argument i"
  shows "install_scan i (argument_tokens items) = \<lparr>ia_allow = ia_allow i \<or> Flag ''--allow-unsigned'' \<in> set items,
      ia_arch = or_last (ia_arch i) (option_values ''--arch'' items), ia_version = or_last (ia_version i) (option_values ''--version'' items),
      ia_count = ia_count i + length (operands_of items)\<rparr>
    \<and> install_packages (argument_tokens items) = operands_of items"
  using assms
proof (induction items arbitrary: i)
  case (Cons j items)
  show ?case
  proof (cases j)
    case (Operand a)
    then have "a \<noteq> ''--allow-unsigned'' \<and> a \<noteq> ''--arch'' \<and> a \<noteq> ''--version'' \<and> a \<noteq> ''--verbose'' \<and> a \<noteq> ''--offline''"
      using Cons.prems(1) by auto
    then show ?thesis using Cons Operand by simp
  next
    case (Flag a)
    then show ?thesis using Cons install_flag [of a] by auto
  next
    case (Valued a v)
    then show ?thesis using Cons install_value [of a v] by auto
  qed
qed simp

lemma verify_packages:
  assumes "arguments_ok CMD_VERIFY items"
  shows "filter (\<lambda>a. a \<noteq> ''--verbose'' \<and> a \<noteq> ''--read-only'' \<and> a \<noteq> ''--allow-unsigned'') (argument_tokens items) = operands_of items"
  using assms
proof (induction items)
  case (Cons j items)
  then show ?case
    by (cases j) (auto simp: command_option_is_known_def command_option_takes_value_def)
qed simp

lemma remove_tokens:
  "arguments_ok CMD_REMOVE items \<Longrightarrow> \<forall>i \<in> set items. kept_argument i \<Longrightarrow> Flag ''--verbose'' \<notin> set items
    \<Longrightarrow> argument_tokens items = operands_of items"
proof (induction items)
  case (Cons j items)
  then show ?case
    by (cases j) (auto simp: command_option_is_known_def command_option_takes_value_def removed_flags_def consent_flags_def)
qed simp

lemma upgrade_flag:
  "argument_ok CMD_UPGRADE (Flag a) \<Longrightarrow> kept_argument (Flag a) \<Longrightarrow>
    a = ''--allow-unsigned'' \<or> a = ''--offline'' \<or> a = ''--verbose'' \<or> a = ''--all''"
  by (auto simp: command_option_is_known_def removed_flags_def consent_flags_def)

lemma upgrade_value: "argument_ok CMD_UPGRADE (Valued a v) \<Longrightarrow> a = ''--arch'' \<or> a = ''--version''"
  by (auto simp: command_option_takes_value_def)

lemma upgrade_loop_tokens:
  assumes "arguments_ok CMD_UPGRADE items" "\<forall>i \<in> set items. kept_argument i"
  shows "upgrade_loop u (argument_tokens items) = \<lparr>ua_names = ua_names u @ take (128 - length (ua_names u)) (operands_of items),
      ua_all = ua_all u \<or> Flag ''--all'' \<in> set items, ua_allow = ua_allow u \<or> Flag ''--allow-unsigned'' \<in> set items, ua_yes = ua_yes u,
      ua_arch = or_last (ua_arch u) (option_values ''--arch'' items),
      ua_version = or_last (ua_version u) (option_values ''--version'' items)\<rparr>"
  using assms
proof (induction items arbitrary: u)
  case (Cons j items)
  have IH: "upgrade_loop w (argument_tokens items) = \<lparr>ua_names = ua_names w @ take (128 - length (ua_names w)) (operands_of items),
      ua_all = ua_all w \<or> Flag ''--all'' \<in> set items, ua_allow = ua_allow w \<or> Flag ''--allow-unsigned'' \<in> set items, ua_yes = ua_yes w,
      ua_arch = or_last (ua_arch w) (option_values ''--arch'' items),
      ua_version = or_last (ua_version w) (option_values ''--version'' items)\<rparr>" for w
    using Cons by simp
  show ?case
  proof (cases j)
    case (Operand a)
    then have "a \<noteq> ''--allow-unsigned'' \<and> a \<noteq> ''--arch'' \<and> a \<noteq> ''--version'' \<and> a \<noteq> ''--verbose'' \<and> a \<noteq> ''--offline''
        \<and> a \<noteq> ''--all'' \<and> a \<noteq> ''--yes'' \<and> a \<noteq> ''-y''"
      using Cons.prems(1) by auto
    then show ?thesis
      using IH Operand by (cases "length (ua_names u) < 128") (simp_all add: take_Cons')
  next
    case (Flag a)
    then consider "a = ''--allow-unsigned''" | "a = ''--offline''" | "a = ''--verbose''" | "a = ''--all''"
      using upgrade_flag [of a] Cons.prems by auto
    then show ?thesis by cases (simp_all add: IH Flag)
  next
    case (Valued a v)
    then consider "a = ''--arch''" | "a = ''--version''" using upgrade_value [of a v] Cons.prems(1) by auto
    then show ?thesis by cases (simp_all add: IH Valued)
  qed
qed simp

lemma last_value_tokens:
  assumes "arguments_ok cmd items" "\<forall>a \<in> set wanted. command_option_takes_value cmd a" "option \<in> set wanted"
  shows "last_value option (scan_values wanted (argument_tokens items)) = or_last None (option_values option items)"
proof -
  have "map snd (filter (\<lambda>f. fst f = option) [(a, Some v). Valued a v \<leftarrow> items, a \<in> set wanted]) = map Some (option_values option items)"
    using assms(3) by (induction items) (auto split: argument.splits)
  moreover have "last_value option l = (case map snd (filter (\<lambda>f. fst f = option) l) of [] \<Rightarrow> None | vs \<Rightarrow> last vs)" for l
    by (auto simp: last_value_def last_map split: list.splits)
  ultimately show ?thesis
    using scan_values_tokens [OF assms(1,2)] by (auto simp: or_last_def last_map split: list.splits)
qed

end
