(* ===== verification/Command_Main.thy ===== *)
theory Command_Main
  imports Command_Dispatch
begin

text \<open>
  What an accepted command line makes \<open>main\<close> of \<open>wpm/wpm.c\<close> do: the packages, permissions and capabilities of the calls,
  and the two passes of a confirmed plan.
\<close>

subsection \<open>The operands reach the calls\<close>

fun call_packages :: "call \<Rightarrow> string list" where
  "call_packages (Do_verify p) = [p]"
| "call_packages (Do_verify_readonly p _) = [p]"
| "call_packages (Do_archive_install p _) = [p]"
| "call_packages (Do_repo_install p _ _ _ _) = [p]"
| "call_packages (Do_remove p) = [p]"
| "call_packages (Do_upgrade names _ _ _ _ _ _) = names"
| "call_packages _ = []"

lemma install_calls_packages: "install_calls offline i ps = (calls, True) \<Longrightarrow> concat (map call_packages calls) = ps"
  by (induction ps arbitrary: calls) (auto simp: apfst_def map_prod_def split: if_splits prod.splits)

lemma map_call_packages [simp]:
  "concat (map (call_packages \<circ> Do_verify) ps) = ps" "concat (map (call_packages \<circ> (\<lambda>p. Do_verify_readonly p u)) ps) = ps"
  "concat (map (call_packages \<circ> Do_remove) ps) = ps"
  by (induction ps) auto

lemma items_of_run:
  assumes "wpm_main argv = Main_run iv"
  obtains items where "main_items iv items"
  by (rule main_run_items [OF assms])

lemma main_itemsD:
  assumes "main_items iv items"
  shows "arguments_ok (iv_command iv) items" "iv_args iv = argument_tokens items"
    "plan_command (iv_command iv) \<Longrightarrow> \<forall>i \<in> set items. kept_argument i" "Flag ''--verbose'' \<notin> set items"
    "collect_command_operands (iv_command iv) (iv_args iv) = operands_of items"
  using assms collect_tokens by (auto simp: main_items_def)


subsection \<open>Permissions need their flag\<close>

text \<open>The flags without which a call must not be made.\<close>

fun call_permissions :: "call \<Rightarrow> string list" where
  "call_permissions (Do_verify_readonly _ u) = ''--read-only'' # (if u then [''--allow-unsigned''] else [])"
| "call_permissions (Do_archive_install _ u) = (if u then [''--allow-unsigned''] else [])"
| "call_permissions (Do_repo_install _ _ _ _ u) = (if u then [''--allow-unsigned''] else [])"
| "call_permissions (Do_repo_add_package _ _ u _) = (if u then [''--allow-unsigned''] else [])"
| "call_permissions (Do_repo_index _ u _) = (if u then [''--allow-unsigned''] else [])"
| "call_permissions (Do_repo_sign _ _ _ r u _) = (if r then [''--replace-signature''] else []) @ (if u then [''--allow-unsigned''] else [])"
| "call_permissions (Do_repo_verify_index _ u _) = (if u then [''--allow-unsigned''] else [])"
| "call_permissions (Do_repo_add _ _ h) = (if h then [''--allow-insecure-http''] else [])"
| "call_permissions (Do_recovery_records _ _ _ _ u _ _) = (if u then [''--allow-unsigned''] else [])"
| "call_permissions (Do_upgrade _ _ _ _ _ u _) = (if u then [''--allow-unsigned''] else [])"
| "call_permissions (Do_keygen _ _ d) = (if d then [''--default''] else [])"
| "call_permissions Do_clear_default_key = [''--clear'']"
| "call_permissions _ = []"

lemma install_calls_permissions:
  "c \<in> set (fst (install_calls offline i ps)) \<Longrightarrow> p \<in> set (call_permissions c) \<Longrightarrow> p = ''--allow-unsigned'' \<and> ia_allow i"
  by (induction ps) (auto split: if_splits)

lemma repo_add_loop_http: "repo_add_loop (prio, h) args = Some (prio', True) \<Longrightarrow> h \<or> ''--allow-insecure-http'' \<in> set args"
proof (induction "(prio, h)" args arbitrary: prio h rule: repo_add_loop.induct)
  case (2 prio h a rest)
  then show ?case by (auto split: if_splits dest: list.set_sel(2))
qed auto

lemma dispatch_permission_given:
  assumes "dispatch default_key directory iv = Some (calls, ok)" "c \<in> set calls" "p \<in> set (call_permissions c)"
    "main_items iv items"
  shows "p \<in> set (iv_args iv)"
proof (cases "iv_command iv")
  case CMD_INSTALL
  note it = main_itemsD [OF assms(4)]
  have "c \<in> set (fst (install_calls (iv_offline iv) \<lparr>ia_allow = Flag ''--allow-unsigned'' \<in> set items,
      ia_arch = or_last None (option_values ''--arch'' items), ia_version = or_last None (option_values ''--version'' items),
      ia_count = length (operands_of items)\<rparr> (operands_of items)))"
    using assms(1,2) CMD_INSTALL it(1,2,3) install_tokens [of items]
    by (auto simp: dispatch_def dispatch_install_def Let_def plan_command_def split: if_splits)
  from install_calls_permissions [OF this assms(3)] show ?thesis
    using it(2) by (force simp: argument_tokens_def)
next
  case CMD_UPGRADE
  note it = main_itemsD [OF assms(4)]
  have "p = ''--allow-unsigned'' \<and> Flag ''--allow-unsigned'' \<in> set items"
    using assms(1-3) CMD_UPGRADE it(1,2,3) upgrade_loop_tokens [of items]
    by (auto simp: dispatch_def dispatch_upgrade_def Let_def plan_command_def split: if_splits)
  then show ?thesis using it(2) by (force simp: argument_tokens_def)
next
  case CMD_REPO
  then show ?thesis
    using assms(1-3) repo_add_loop_http [of 0 False "drop 2 (iv_args iv)"]
    by (auto simp: dispatch_def dispatch_repo_def Let_def with_operand_def command_has_option_def
        split: if_splits option.splits dest: in_set_dropD)
next
  case CMD_VERIFY
  then show ?thesis
    using assms(1-3) by (auto simp: dispatch_def dispatch_verify_def Let_def command_has_option_def split: if_splits)
next
  case CMD_RECOVERY
  then show ?thesis
    using assms(1-3) by (auto simp: dispatch_def dispatch_recovery_def Let_def command_has_option_def split: if_splits)
next
  case CMD_KEY
  then show ?thesis
    using assms(1-3) by (auto simp: dispatch_def dispatch_key_def split: if_splits list.splits)
next
  case CMD_KEYGEN
  then show ?thesis
    using assms(1-3) by (auto simp: dispatch_def dispatch_keygen_def split: if_splits list.splits)
qed (use assms(1-3) in \<open>auto simp: dispatch_def dispatch_build_def dispatch_remove_def dispatch_trust_def dispatch_list_def
    dispatch_config_def dispatch_init_def Let_def with_operand_def split: if_splits option.splits list.splits\<close>)

text \<open>C37: a call that accepts unsigned packages, replaces a signature, permits plain HTTP, verifies without trust decisions,
  or changes the default key is made only when the user gave exactly that option, as an option of the command and not as
  a value or an operand.\<close>

theorem permissions_need_flag:
  assumes "wpm_main argv = Main_run iv" "dispatch default_key directory iv = Some (calls, ok)" "c \<in> set calls"
    "flag \<in> set (call_permissions c)"
  shows "\<exists>items. main_items iv items \<and> Flag flag \<in> set items"
proof -
  obtain items where items: "main_items iv items" by (rule items_of_run [OF assms(1)])
  have "option_name flag \<and> (\<forall>cmd. \<not> command_option_takes_value cmd flag)"
    using assms(4) by (cases c) (auto simp: option_name_def command_option_takes_value_def is_digit_def split: if_splits)
  moreover have "Flag flag \<in> set items \<or> (\<exists>v. Valued flag v \<in> set items)"
    using has_option_tokens [of "iv_command iv" items flag] main_itemsD(1,2) [OF items]
      dispatch_permission_given [OF assms(2-4) items] calculation by (simp add: command_has_option_def)
  ultimately show ?thesis
    using items main_itemsD(1) [OF items] by (force simp: list_all_iff)
qed

subsection \<open>Reading commands\<close>

fun call_reads :: "call \<Rightarrow> bool" where
  "call_reads (Do_verify_readonly _ _) = True"
| "call_reads (Do_repo_verify_index _ _ _) = True"
| "call_reads (Do_repo_diagnose _ _) = True"
| "call_reads (Do_query_json _ _ _ _ _ _) = True"
| "call_reads (Do_show _ _ _ _) = True"
| "call_reads (Do_list_available _ _ _ _) = True"
| "call_reads (Do_list_installed _ _ _) = True"
| "call_reads (Do_recovery_records _ _ _ _ _ _ _) = True"
| "call_reads (Do_recovery_list _ _ _ _) = True"
| "call_reads _ = False"

lemma install_calls_write: "c \<in> set (fst (install_calls offline i ps)) \<Longrightarrow> \<not> call_reads c"
  by (induction ps) (auto split: if_splits)

text \<open>The action of a repository command is its first operand.\<close>

lemma first_operand:
  assumes "arguments_ok cmd items" "argument_tokens items = a # rest" "\<not> dash a"
  shows "\<exists>more. operands_of items = a # more"
proof (cases items)
  case (Cons i js)
  then show ?thesis using assms by (cases i) (auto dest: known_option_dash takes_value_dash)
qed (use assms in simp)

lemma repo_action_operand:
  assumes "arguments_ok CMD_REPO items" "args = argument_tokens items" "\<not> dash (repo_action args)" "repo_action args \<noteq> ''list''"
  shows "\<exists>more. collect_command_operands CMD_REPO args = repo_action args # more"
proof -
  note collect = collect_tokens [OF assms(1)]
  show ?thesis
  proof (cases "collect_command_operands CMD_REPO args")
    case Nil
    then obtain a rest where "args = a # rest" "repo_action args = a" using assms(4) by (cases args) (auto simp: repo_action_def)
    then show ?thesis using first_operand [OF assms(1), of a rest] assms(2,3) collect Nil by auto
  next
    case (Cons b more)
    show ?thesis
    proof (cases "repo_action args = b")
      case False
      then obtain a rest where a: "args = a # rest" "repo_action args = a"
        using Cons assms(4) by (cases args) (auto simp: repo_action_def Let_def split: if_splits)
      then obtain others where "operands_of items = a # others" using first_operand [OF assms(1), of a rest] assms(2,3) by auto
      then show ?thesis using a(2) collect assms(2) by simp
    qed (use Cons in simp)
  qed
qed

lemma repo_dispatch_reads:
  assumes "main_items iv items" "iv_command iv = CMD_REPO" "dispatch default_key directory iv = Some (calls, ok)" "c \<in> set calls"
    "call_reads c"
  shows "readonly_command CMD_REPO (iv_args iv)"
proof -
  have "repo_action (iv_args iv) = ''verify'' \<or> repo_action (iv_args iv) = ''diagnose''"
    using assms(2-5) by (auto simp: dispatch_def dispatch_repo_def with_operand_def Let_def split: if_splits option.splits)
  then show ?thesis
    using repo_action_operand [of items "iv_args iv"] main_itemsD(1,2) [OF assms(1)] assms(2)
    by (auto simp: readonly_command_def)
qed

lemma dispatch_reads:
  assumes "main_items iv items" "dispatch default_key directory iv = Some (calls, ok)" "c \<in> set calls" "call_reads c"
  shows "readonly_command (iv_command iv) (iv_args iv)"
proof (cases "iv_command iv")
  case CMD_REPO
  then show ?thesis using repo_dispatch_reads [OF assms(1) _ assms(2-4)] by simp
next
  case CMD_INSTALL
  have "c \<in> set (fst (install_calls (iv_offline iv) i ps)) \<Longrightarrow> ?thesis" for i ps using install_calls_write assms(4) by blast
  then show ?thesis
    using assms(2-4) CMD_INSTALL by (auto simp: dispatch_def dispatch_install_def Let_def split: if_splits) (metis fst_conv)
next
  case CMD_VERIFY
  then show ?thesis
    using assms(2-4) by (auto simp: dispatch_def dispatch_verify_def Let_def readonly_command_def split: if_splits)
qed (use assms(2-4) in \<open>auto simp: dispatch_def dispatch_build_def dispatch_remove_def dispatch_trust_def dispatch_list_def
    dispatch_key_def dispatch_keygen_def dispatch_upgrade_def readonly_command_def
    dispatch_config_def dispatch_init_def Let_def with_operand_def split: if_splits option.splits list.splits\<close>)

text \<open>C38: a run with \<open>--dry-run\<close> anywhere among the arguments, and every call of a command that only reads, happens without any
  capability, so that no write, script, network access or handoff can be authorised; every other run has them all.\<close>

theorem reading_calls_without_capabilities:
  assumes "wpm_main argv = Main_run iv" "dispatch default_key directory iv = Some (calls, ok)"
  shows "(''--dry-run'' \<in> set argv \<or> (\<exists>c \<in> set calls. call_reads c) \<longrightarrow>
        (\<forall>required. required \<noteq> 0 \<longrightarrow> \<not> wpm_require_capability required (iv_capabilities iv)))
    \<and> (iv_capabilities iv = 0 \<or> iv_capabilities iv = all_capabilities)"
proof -
  obtain given items where items: "main_items iv items" "items = (if plan_command (iv_command iv) then filter kept_argument given else given)"
    and caps: "iv_capabilities iv = wpm_set_readonly (readonly_command (iv_command iv) (argument_tokens given))
        (wpm_set_readonly (iv_dry_run iv) all_capabilities)" "iv_dry_run iv = command_has_option argv ''--dry-run''"
    by (rule main_run_items [OF assms(1)])
  have "readonly_command (iv_command iv) (argument_tokens given)" if "c \<in> set calls" "call_reads c" for c
  proof -
    have "readonly_command (iv_command iv) (iv_args iv)" by (rule dispatch_reads [OF items(1) assms(2) that])
    moreover from this have "\<not> plan_command (iv_command iv)" by (auto simp: readonly_command_def plan_command_def)
    ultimately show ?thesis using items main_itemsD(2) [OF items(1)] by simp
  qed
  then have "iv_capabilities iv = 0" if "''--dry-run'' \<in> set argv \<or> (\<exists>c \<in> set calls. call_reads c)"
    using that caps by (auto simp: wpm_set_readonly_def command_has_option_def)
  moreover have "iv_capabilities iv = 0 \<or> iv_capabilities iv = all_capabilities" using caps(1) by (simp add: wpm_set_readonly_def)
  ultimately show ?thesis by auto
qed

subsection \<open>Every command line is handled\<close>

lemma main_defined: "wpm_main argv \<noteq> Main_undefined"
proof
  assume undefined: "wpm_main argv = Main_undefined"
  have "main_command dry f args index \<noteq> Main_undefined" for dry f args index
  proof -
    define cmd where "cmd = parse_command (args ! index)"
    define tail where "tail = drop (index + 1) args"
    show ?thesis
      using actions_defined [of cmd tail]
      unfolding main_command_def Let_def cmd_def [symmetric] tail_def [symmetric]
      by (cases "validate_command_actions cmd tail"; cases "the (validate_command_actions cmd tail)") (auto split: if_split_asm)
  qed
  then show False
    using undefined
    by (auto simp: wpm_main_def main_flagged_def main_help_def main_complete_def Let_def split: if_splits option.splits list.splits)
qed

lemma repo_actions_count:
  assumes "repo_actions (action # others) args"
  shows "action \<in> {''init'', ''index'', ''sign'', ''verify''} \<longrightarrow> length others = 1" "action = ''add-package'' \<longrightarrow> length others = 2"
  using assms by (auto simp: repo_actions_def Let_def split: if_splits)

lemma dispatch_defined:
  assumes "wpm_main argv = Main_run iv"
  shows "dispatch default_key directory iv \<noteq> None"
proof -
  obtain given items where given: "main_items iv items" "items = (if plan_command (iv_command iv) then filter kept_argument given else given)"
      "validate_command_operands (iv_command iv) (argument_tokens given)"
      "validate_command_actions (iv_command iv) (argument_tokens given) = Some True"
    by (rule main_run_items [OF assms])
  note it = main_itemsD(1,2,5) [OF given(1)]
  show ?thesis
  proof (cases "iv_command iv")
    case CMD_SHOW
    then have "length (collect_command_operands CMD_SHOW (iv_args iv)) = 1"
      using given(2,3) it(2) by (simp add: plan_command_def validate_command_operands_def Let_def)
    then show ?thesis using CMD_SHOW by (auto simp: dispatch_def dispatch_list_def with_operand_def Let_def)
  next
    case CMD_REPO
    define operands where "operands = collect_command_operands CMD_REPO (iv_args iv)"
    have actions: "repo_actions operands (iv_args iv)"
      using given(2,4) it(2) CMD_REPO by (simp add: plan_command_def validate_command_actions_def operands_def Let_def)
    have count: "(repo_action (iv_args iv) \<in> {''init'', ''index'', ''sign'', ''verify''} \<longrightarrow> length operands = 2)
        \<and> (repo_action (iv_args iv) = ''add-package'' \<longrightarrow> length operands = 3)"
    proof (cases "repo_action (iv_args iv) \<in> {''init'', ''index'', ''sign'', ''verify'', ''add-package''}")
      case True
      then obtain others where "operands = repo_action (iv_args iv) # others"
        using repo_action_operand [of items "iv_args iv"] it(1,2) CMD_REPO by (auto simp: operands_def)
      then show ?thesis using repo_actions_count [of "repo_action (iv_args iv)" others "iv_args iv"] actions by auto
    qed simp
    show ?thesis
    proof
      assume "dispatch default_key directory iv = None"
      then show False
        using count CMD_REPO
        by (simp add: dispatch_def dispatch_repo_def Let_def operands_def [symmetric] with_operand_def
            split: if_split_asm option.split_asm prod.split_asm)
    qed
  qed (auto simp: dispatch_def dispatch_build_def dispatch_verify_def dispatch_install_def dispatch_remove_def dispatch_trust_def
      dispatch_list_def dispatch_key_def dispatch_keygen_def dispatch_upgrade_def dispatch_config_def dispatch_init_def
      dispatch_recovery_def Let_def split: if_splits option.splits list.splits)
qed

end
