(* ===== verification/Command_Plan.thy ===== *)
theory Command_Plan
  imports Command_Main Operation_Sample
begin

text \<open>
  The two passes of \<open>main\<close> in \<open>wpm/wpm.c\<close> over a plan, with the collection and the confirmation of \<open>operation.c\<close>, and
  sample command lines.
\<close>

subsection \<open>Two passes\<close>

text \<open>What every call keeps of the plan: only \<open>wpm_operation_begin\<close>, \<open>wpm_operation_confirm\<close> and \<open>wpm_operation_close\<close>
  change whether it is collected and how it is confirmed, and \<open>main\<close> alone calls them.\<close>

definition plan_kept :: "main_env \<Rightarrow> bool" where
  "plan_kept me \<longleftrightarrow> (\<forall>n c st. op_collecting (fst (me_call me n c st)) = op_collecting st
      \<and> op_assume_yes (fst (me_call me n c st)) = op_assume_yes st)"

lemma run_calls_kept:
  assumes "plan_kept me" "run_calls (me_call me) n cs st = (trace, st', ok)"
  shows "op_collecting st' = op_collecting st \<and> op_assume_yes st' = op_assume_yes st
    \<and> (\<forall>(m, c) \<in> set trace. m = op_collecting st) \<and> (\<exists>rest. cs = map snd trace @ rest) \<and> (ok \<longrightarrow> map snd trace = cs)"
  using assms(2)
proof (induction cs arbitrary: n st trace)
  case (Cons c cs)
  obtain st1 k where step: "me_call me n c st = (st1, k)" by force
  have kept: "op_collecting st1 = op_collecting st" "op_assume_yes st1 = op_assume_yes st"
    using assms(1) step unfolding plan_kept_def by (metis fst_conv)+
  show ?case
  proof (cases k)
    case True
    obtain tr st2 ok2 where later: "run_calls (me_call me) (n + 1) cs st1 = (tr, st2, ok2)" by (metis prod_cases3)
    then have trace: "trace = (op_collecting st, c) # tr" "st2 = st'" "ok2 = ok" using Cons.prems step True by auto
    from Cons.IH [OF later [unfolded trace(2,3)]] show ?thesis using trace(1) kept by auto
  next
    case False
    then show ?thesis using Cons.prems step kept by auto
  qed
qed auto

text \<open>The state after the first pass over the calls of a collected plan.\<close>

definition collected_state :: "main_env \<Rightarrow> invocation \<Rightarrow> call list \<Rightarrow> op_state" where
  "collected_state me iv cs =
     fst (snd (run_calls (me_call me) 0 cs
       (wpm_operation_begin (iv_yes iv) ((me_begin me)\<lparr>w_capabilities := iv_capabilities iv\<rparr>) op_start)))"

lemma executing_pass:
  assumes "plan_kept me" "\<not> op_collecting st" "run_passes fuel me caps (cs, succeeds) i st = Some (trace, exit_code)"
  shows "(\<forall>(m, c) \<in> set trace. \<not> m) \<and> (\<exists>rest. cs = map snd trace @ rest) \<and> (exit_code = 0 \<longrightarrow> map snd trace = cs)"
proof (cases fuel)
  case (Suc n)
  obtain tr st' ok where r: "run_calls (me_call me) 0 cs st = (tr, st', ok)" by (metis prod_cases3)
  note kept = run_calls_kept [OF assms(1) r]
  have "trace = tr" "exit_code = 0 \<longrightarrow> ok" using assms(2,3) Suc r kept by (auto split: if_splits)
  then show ?thesis using kept assms(2) by auto
qed (use assms(3) in simp)

lemma executing_pass_ends:
  assumes "plan_kept me" "\<not> op_collecting st"
  shows "run_passes (Suc fuel) me caps (cs, succeeds) i st \<noteq> None"
proof -
  obtain tr st' ok where r: "run_calls (me_call me) 0 cs st = (tr, st', ok)" by (metis prod_cases3)
  then show ?thesis using run_calls_kept [OF assms(1) r] assms(2) by simp
qed

lemma collecting_pass:
  assumes kept: "plan_kept me" and st: "op_collecting st" and run: "run_passes (Suc fuel) me caps (cs, succeeds) i st = Some (trace, exit_code)"
  shows "\<exists>first second. trace = first @ second \<and> (\<forall>(m, c) \<in> set first. m) \<and> (\<forall>(m, c) \<in> set second. \<not> m)
    \<and> (\<exists>rest. cs = map snd first @ rest)
    \<and> (second \<noteq> [] \<longrightarrow> map snd first = cs \<and> (\<exists>rest. cs = map snd second @ rest)
        \<and> snd (wpm_operation_confirm ((me_confirm me)\<lparr>w_capabilities := caps\<rparr>) (fst (snd (run_calls (me_call me) 0 cs st)))) = 1)"
proof -
  obtain tr st' ok where r: "run_calls (me_call me) 0 cs st = (tr, st', ok)" by (metis prod_cases3)
  note k = run_calls_kept [OF kept r]
  obtain st2 n where confirm: "wpm_operation_confirm ((me_confirm me)\<lparr>w_capabilities := caps\<rparr>) st' = (st2, n)" by force
  show ?thesis
  proof (cases "\<not> ok \<or> \<not> succeeds \<or> n \<le> 0 \<or> \<not> me_directories me (i + 1)")
    case True
    then have "trace = tr" using run r confirm by (simp split: if_split_asm)
    moreover have "\<forall>(m, c) \<in> set tr. m" using k st by auto
    ultimately show ?thesis
      using k by - (rule exI [of _ tr], rule exI [of _ "[]"], simp)
  next
    case False
    have "op_collecting st'" using k st by simp
    then have "map_option (apfst ((@) tr)) (run_passes fuel me caps (cs, succeeds) (i + 1) st2) = Some (trace, exit_code)"
      using run r confirm False by simp
    then obtain second where second: "run_passes fuel me caps (cs, succeeds) (i + 1) st2 = Some (second, exit_code)" "trace = tr @ second"
      by (cases "run_passes fuel me caps (cs, succeeds) (i + 1) st2") auto
    have one: "n = 1" "\<not> op_collecting st2"
      using confirm False by (auto simp: wpm_operation_confirm_def Let_def split: if_splits option.splits)
    note later = executing_pass [OF kept one(2) second(1)]
    have calls: "map snd tr = cs" "\<forall>(m, c) \<in> set tr. m" using k st False by auto
    have approved: "snd (wpm_operation_confirm ((me_confirm me)\<lparr>w_capabilities := caps\<rparr>) (fst (snd (run_calls (me_call me) 0 cs st)))) = 1"
      using r confirm one(1) by simp
    show ?thesis
      using later calls approved second(2) by - (rule exI [of _ tr], rule exI [of _ second], simp)
  qed
qed

lemma begin_collecting:
  "op_collecting (wpm_operation_begin yes w st)" "op_assume_yes (wpm_operation_begin yes w st) = yes" "op_active (wpm_operation_begin yes w st)"
  by (simp_all add: wpm_operation_begin_def)

lemma approved_plan:
  assumes "plan_kept me" "\<not> iv_yes iv"
    "snd (wpm_operation_confirm ((me_confirm me)\<lparr>w_capabilities := iv_capabilities iv\<rparr>) (collected_state me iv calls)) = 1"
  shows "\<not> wpm_is_readonly (iv_capabilities iv)
    \<and> (op_items (collected_state me iv calls) = [] \<or> answer_yes (w_answer (me_confirm me)))"
proof -
  let ?st = "wpm_operation_begin (iv_yes iv) ((me_begin me)\<lparr>w_capabilities := iv_capabilities iv\<rparr>) op_start"
  obtain tr st ok where r: "run_calls (me_call me) 0 calls ?st = (tr, st, ok)" by (metis prod_cases3)
  have "\<not> op_assume_yes (collected_state me iv calls)"
    using run_calls_kept [OF assms(1) r] r assms(2) begin_collecting(2) by (simp add: collected_state_def)
  then show ?thesis
    using assms(3) by (auto simp: wpm_operation_confirm_def Let_def split: if_splits option.splits)
qed

text \<open>C39: with a plan every call first runs while the plan is only collected. A call is made outside of the collection only
  after all of them ended well, the option \<open>--confirm\<close> was given and not \<open>--dry-run\<close>, and the confirmation of
  \<open>operation.c\<close> approved the collected plan, which is either empty or was answered with yes by the user; the second
  pass repeats the same calls in their order. Without a plan there is one pass and nothing is collected.\<close>

theorem plan_confirmed_before_execution:
  assumes "wpm_main argv = Main_run iv" "dispatch default_key directory iv = Some (calls, ok)" "plan_kept me"
    "run_main fuel me default_key directory iv = Some (trace, exit_code)"
  shows "(\<not> iv_plan iv \<longrightarrow> (\<forall>(m, c) \<in> set trace. \<not> m) \<and> (\<exists>rest. calls = map snd trace @ rest))
    \<and> (iv_plan iv \<longrightarrow>
        (\<exists>first second. trace = first @ second \<and> (\<forall>(m, c) \<in> set first. m) \<and> (\<forall>(m, c) \<in> set second. \<not> m)
          \<and> (\<exists>rest. calls = map snd first @ rest)
          \<and> (second \<noteq> [] \<longrightarrow> map snd first = calls \<and> (\<exists>rest. calls = map snd second @ rest)
              \<and> iv_confirm iv \<and> ''--dry-run'' \<notin> set argv
              \<and> (op_items (collected_state me iv calls) = [] \<or> answer_yes (w_answer (me_confirm me))))))"
proof -
  obtain given items where iv: "iv_dry_run iv = command_has_option argv ''--dry-run''"
      "iv_plan iv \<longleftrightarrow> plan_command (iv_command iv) \<and> (iv_dry_run iv \<or> iv_confirm iv)"
      "\<not> (iv_dry_run iv \<and> (iv_yes iv \<or> iv_confirm iv)) \<and> \<not> (iv_confirm iv \<and> iv_yes iv)"
      "iv_capabilities iv = wpm_set_readonly (readonly_command (iv_command iv) (argument_tokens given))
        (wpm_set_readonly (iv_dry_run iv) all_capabilities)"
    by (rule main_run_items [OF assms(1)])
  show ?thesis
  proof (cases "iv_plan iv")
    case False
    have none: "\<not> op_collecting op_start" by (simp add: op_start_def)
    have "trace = [] \<or> run_passes fuel me (iv_capabilities iv) (calls, ok) 0 op_start = Some (trace, exit_code)"
      using assms(2,4) False by (auto simp: run_main_def Let_def split: if_splits)
    then show ?thesis
    proof
      assume "run_passes fuel me (iv_capabilities iv) (calls, ok) 0 op_start = Some (trace, exit_code)"
      from executing_pass [OF assms(3) none this] show ?thesis using False by blast
    qed (use False in simp)
  next
    case True
    let ?w = "(me_begin me)\<lparr>w_capabilities := iv_capabilities iv\<rparr>"
    let ?c = "(me_confirm me)\<lparr>w_capabilities := iv_capabilities iv\<rparr>"
    let ?st = "wpm_operation_begin (iv_yes iv) ?w op_start"
    have run: "run_passes fuel me (iv_capabilities iv) (calls, ok) 0 ?st = Some (trace, exit_code)"
      using assms(2,4) True begin_collecting(3) by (auto simp: run_main_def Let_def split: if_splits)
    then obtain n where "fuel = Suc n" by (cases fuel) auto
    from collecting_pass [OF assms(3) begin_collecting(1) run [unfolded this]]
    obtain first second where two: "trace = first @ second" "\<forall>(m, c) \<in> set first. m" "\<forall>(m, c) \<in> set second. \<not> m"
        "\<exists>rest. calls = map snd first @ rest"
        "second \<noteq> [] \<longrightarrow> map snd first = calls \<and> (\<exists>rest. calls = map snd second @ rest)
          \<and> snd (wpm_operation_confirm ?c (collected_state me iv calls)) = 1"
      unfolding collected_state_def by blast
    have approved: "\<not> wpm_is_readonly (iv_capabilities iv)
        \<and> (op_items (collected_state me iv calls) = [] \<or> answer_yes (w_answer (me_confirm me)))" if "second \<noteq> []"
      using approved_plan [OF assms(3)] two(5) that iv(2,3) True by blast
    have "iv_confirm iv \<and> ''--dry-run'' \<notin> set argv" if "second \<noteq> []"
    proof -
      have "\<not> iv_dry_run iv" using approved [OF that] iv(4) by (cases "iv_dry_run iv") (simp_all add: wpm_set_readonly_def wpm_is_readonly_def)
      then show ?thesis using iv(1,2) True by (simp add: command_has_option_def)
    qed
    then show ?thesis using True two approved by blast
  qed
qed

text \<open>C40: every command line is handled: the tests never read behind the arguments, an accepted command finds every operand it
  uses, and its calls end after at most two passes.\<close>

theorem command_line_handled:
  "wpm_main argv \<noteq> Main_undefined
   \<and> (wpm_main argv = Main_run iv \<and> plan_kept me \<longrightarrow> (\<exists>trace exit_code. run_main 2 me default_key directory iv = Some (trace, exit_code)))"
proof -
  have "run_main 2 me default_key directory iv \<noteq> None" if run: "wpm_main argv = Main_run iv" and kept: "plan_kept me"
  proof -
    obtain cs ok where d: "dispatch default_key directory iv = Some (cs, ok)" 
      using dispatch_defined [OF run, of default_key directory] by (cases "dispatch default_key directory iv") auto
    have "run_passes (Suc (Suc 0)) me caps (cs, ok) 0 st \<noteq> None" for caps st
    proof -
      obtain tr st' k where r: "run_calls (me_call me) 0 cs st = (tr, st', k)" by (metis prod_cases3)
      obtain st2 n where c: "wpm_operation_confirm ((me_confirm me)\<lparr>w_capabilities := caps\<rparr>) st' = (st2, n)" by force
      have "\<not> op_collecting st2" if "\<not> n \<le> 0"
        using c that by (auto simp: wpm_operation_confirm_def Let_def split: if_splits option.splits)
      then show ?thesis
        using r c executing_pass_ends [OF kept, of st2 0 caps cs ok 1]
        by (cases ok; cases "n \<le> 0") (auto simp del: run_passes.simps(2) simp: run_passes.simps(2) [of "Suc 0"])
    qed
    then show ?thesis using d by (simp add: run_main_def Let_def numeral_2_eq_2 del: run_passes.simps)
  qed
  then show ?thesis using main_defined by fastforce
qed

subsection \<open>Samples\<close>

definition sample_argv :: "string list" where
  "sample_argv = [''install'', ''--confirm'', ''p.zip'', ''--allow-unsigned'']"

definition sample_iv :: invocation where
  "sample_iv = \<lparr>iv_command = CMD_INSTALL, iv_argv = [''install'', ''p.zip'', ''--allow-unsigned''], iv_index = 0, iv_verbose = False,
     iv_offline = False, iv_dry_run = False, iv_yes = False, iv_confirm = True, iv_plan = True, iv_capabilities = all_capabilities\<rparr>"

lemma sample_main: "wpm_main sample_argv = Main_run sample_iv"
  by (simp add: wpm_main_def sample_argv_def sample_iv_def main_flagged_def main_command_def parse_command_def Let_def
      command_has_option_def output_option_def complete_self_upgrade_def plan_command_def command_option_is_known_def
      command_option_takes_value_def validate_command_operands_def validate_command_actions_def consent_flags_def
      readonly_command_def wpm_set_readonly_def)

lemma sample_dispatch:
  "dispatch (0, []) None sample_iv = Some ([Do_archive_install ''p.zip'' True], True)"
  by (simp add: dispatch_def sample_iv_def iv_args_def dispatch_install_def Let_def zip_path_def strieq_def)

definition command_env :: main_env where
  "command_env = \<lparr>me_directories = (\<lambda>i. True), me_call = (\<lambda>n c st. (st, True)), me_begin = sample_world True,
     me_confirm = sample_world True\<rparr>"

lemma sample_kept: "plan_kept command_env"
  by (simp add: plan_kept_def command_env_def)

lemma sample_trace:
  "run_main 2 command_env (0, []) None sample_iv
     = Some ([(True, Do_archive_install ''p.zip'' True), (False, Do_archive_install ''p.zip'' True)], 0)"
proof -
  have "iv_plan sample_iv" "iv_capabilities sample_iv = all_capabilities" "iv_dry_run sample_iv = False" by (simp_all add: sample_iv_def)
  moreover have "all_capabilities \<noteq> 0" by (simp add: all_capabilities_def capability_defs)
  ultimately show ?thesis
    by (simp add: run_main_def Let_def sample_dispatch numeral_2_eq_2 command_env_def wpm_operation_begin_def
        wpm_operation_close_def wpm_operation_confirm_def sample_world_def wpm_is_readonly_def op_start_def)
qed

definition query_iv :: invocation where
  "query_iv = \<lparr>iv_command = CMD_RECOVERY, iv_argv = [''recovery'', ''--limit'', ''20''], iv_index = 0, iv_verbose = False,
     iv_offline = False, iv_dry_run = False, iv_yes = False, iv_confirm = False, iv_plan = False, iv_capabilities = 0\<rparr>"

lemma query_main: "wpm_main [''recovery'', ''--limit'', ''20''] = Main_run query_iv"
  by (simp add: wpm_main_def query_iv_def main_flagged_def main_command_def parse_command_def Let_def option_count_def
      command_has_option_def output_option_def complete_self_upgrade_def plan_command_def command_option_is_known_def
      command_option_takes_value_def validate_command_operands_def validate_command_actions_def recovery_actions_def
      command_bounded_option_def is_digit_def digit_val_def wpm_recovery_filters_valid_def readonly_command_def wpm_set_readonly_def)

lemma query_dispatch: "dispatch (0, []) None query_iv = Some ([Do_recovery_list 20 False None None], True)"
  by (simp add: dispatch_def query_iv_def iv_args_def dispatch_recovery_def Let_def command_option_is_known_def
      command_option_takes_value_def last_value_def atoi_digits dec_value_def is_digit_def digit_val_def LONG_MAX_def command_has_option_def)

theorem reading_calls_without_capabilities_witness: "\<not> wpm_require_capability WPM_CAP_WRITE (iv_capabilities query_iv)"
  using reading_calls_without_capabilities [OF query_main query_dispatch] by (simp add: WPM_CAP_WRITE_def)

theorem validated_arguments_read_witness:
  "collect_command_operands CMD_INSTALL [''p.zip'', ''--allow-unsigned'', ''--arch'', ''x64''] = [''p.zip'']
   \<and> scan_values [''--arch''] [''p.zip'', ''--allow-unsigned'', ''--arch'', ''x64''] = [(''--arch'', Some ''x64'')]"
proof -
  have ok: "arguments_ok CMD_INSTALL [Operand ''p.zip'', Flag ''--allow-unsigned'', Valued ''--arch'' ''x64'']"
    by (simp add: command_option_is_known_def command_option_takes_value_def supported_arch_def)
  have "[''p.zip'', ''--allow-unsigned'', ''--arch'', ''x64'']
      = argument_tokens [Operand ''p.zip'', Flag ''--allow-unsigned'', Valued ''--arch'' ''x64'']" by simp
  from validated_arguments_read [OF ok this] show ?thesis by (simp add: command_option_takes_value_def)
qed

theorem bounded_option_iff_witness:
  "command_bounded_option [''--limit'', ''20''] ''--limit'' 4096 = Some (Some (Some 20)) \<and> atoi ''20'' = 20"
proof -
  have ok: "arguments_ok CMD_RECOVERY [Valued ''--limit'' ''20'']" "command_option_takes_value CMD_RECOVERY ''--limit''"
    by (simp_all add: command_option_takes_value_def)
  have "dec_value ''20'' = 20" "list_all is_digit ''20''" by (simp_all add: dec_value_def digit_val_def is_digit_def)
  moreover from this have "atoi ''20'' = 20" using atoi_digits [of "''20''"] by (simp add: LONG_MAX_def)
  ultimately show ?thesis using bounded_option_iff [OF ok, of 4096 "Some 20"] by (simp add: LONG_MAX_def)
qed


theorem permissions_need_flag_witness: "\<exists>items. main_items sample_iv items \<and> Flag ''--allow-unsigned'' \<in> set items"
  using permissions_need_flag [OF sample_main sample_dispatch, of "Do_archive_install ''p.zip'' True" "''--allow-unsigned''"] by simp

theorem plan_confirmed_before_execution_witness: "iv_confirm sample_iv \<and> ''--dry-run'' \<notin> set sample_argv"
proof -
  have "iv_plan sample_iv" by (simp add: sample_iv_def)
  from plan_confirmed_before_execution [OF sample_main sample_dispatch sample_kept sample_trace, THEN conjunct2, rule_format, OF this]
  obtain first second where two: "[(True, Do_archive_install ''p.zip'' True), (False, Do_archive_install ''p.zip'' True)] = first @ second"
      "\<forall>(m, c) \<in> set first. m" "second \<noteq> [] \<longrightarrow> iv_confirm sample_iv \<and> ''--dry-run'' \<notin> set sample_argv" by blast
  from two(1,2) have "second \<noteq> []" by auto
  then show ?thesis using two(3) by simp
qed

theorem command_line_handled_witness: "\<exists>trace exit_code. run_main 2 command_env (0, []) None sample_iv = Some (trace, exit_code)"
  using command_line_handled sample_main sample_kept by blast

end
