(* ===== verification/Spec2Isabelle.thy ===== *)
theory Spec2Isabelle
  imports Json_Grammar Json_Output Redact Candidates Repo_Config Prerelease Repo_Index Recovery_Audit Operation_Sample State_Digest Signature_Sample Transaction_Sample
    Https_Download Command_Plan
begin

text \<open>
  \<^bold>\<open>The Windows package manager wpm.\<close> The program \<open>src/wpm\<close> builds, signs, publishes, verifies, installs, upgrades and
  removes packages. A package is a ZIP archive with a directory \<open>.wpm\<close> that holds \<open>package.txt\<close>, the index of all files with
  sizes and digests (\<open>index.csv\<close>), its signature (\<open>index.sig\<close>) and scripts. A command of \<open>wpm.c\<close> is validated and dispatched
  into \<open>repository.c\<close> (configured repositories, their indexes, the resolver), \<open>archive.c\<close> (packages), \<open>signing.c\<close> (keys,
  trust, signatures) and \<open>recovery.c\<close> / \<open>recovery_record.c\<close> (what failed operations left behind). A change can be planned:
  \<open>operation.c\<close> collects the items, asks for the approval of exactly these, and journals each step, and \<open>path_guard.c\<close> opens
  the recovery records without following links. \<open>https.c\<close> downloads, \<open>capability.c\<close> holds what the process may do,
  \<open>json_input.c\<close>, \<open>json_output.c\<close> and \<open>logging.c\<close> read and write text.

  \<^bold>\<open>Theories.\<close>
  \<^item> \<open>Prelude\<close>: C strings, character classes, searching, decimal numbers. \<open>Comparison\<close>: the locale \<open>comparator\<close> of three-way
    comparisons with sorting and searching, interpreted by \<open>strcmp\<close>, versions, index paths, recovery files and the resolver.
  \<^item> \<open>Json_Input\<close>, \<open>Json_Grammar\<close>, \<open>Json_Object\<close> (\<open>json_input.c\<close>): the bounded readers, the iterative validator and its
    equivalence with the grammar of RFC 8259. \<open>Json_Output\<close> (\<open>json_output.c\<close>): escaping, events, and the round trip with the
    reader. \<open>Redact\<close> (\<open>wpm_redact_text\<close> of \<open>logging.c\<close>): terminal escapes, protected fields and web credentials.
  \<^item> \<open>Semver\<close>, \<open>Candidates\<close> (\<open>repository.c\<close>): versions with their precedence, the choice of a candidate, upgrades.
    \<open>Locator\<close>: locators, origins, the graph of linked repositories. \<open>Config_Text\<close>, \<open>Repo_Config\<close>, \<open>Prerelease\<close>: the two
    configuration files, instances of the locale \<open>line_format\<close>. \<open>Repo_Index\<close>: admission and parsing of indexes.
  \<^item> \<open>Signing\<close>, \<open>Signature_Document\<close> (\<open>signing.c\<close>, \<open>index.sig\<close> of \<open>repository.c\<close>): the trust store and the signatures.
  \<^item> \<open>Capability\<close>, \<open>Path_Guard\<close>: the capability mask and the guarded directories.
  \<^item> \<open>Journal\<close>, \<open>Operation\<close>, \<open>Operation_Plan\<close>, \<open>State_Digest\<close> (\<open>operation.c\<close>): journal documents, the plan as a state with one
    function per call, its invariant over every sequence of calls, and the digest of the controlled state.
    \<open>Recovery_Audit\<close>, \<open>Recovery_Record\<close>: the readers of audits and records.
  \<^item> \<open>Zip_Entry\<close>, \<open>Package_Metadata\<close>, \<open>Archive_Paths\<close>, \<open>Archive_Validation\<close>, \<open>Package_Build\<close>, \<open>Staged_Verification\<close>,
    \<open>Package_Transaction\<close> (\<open>archive.c\<close>): entries, metadata, safe paths, the read-only validation, building, extraction with
    the verification of the staged files, and the transactions as chains of steps over a record of effects.
  \<^item> \<open>Https_Message\<close>, \<open>Https_Download\<close> (\<open>https.c\<close>): addresses, lines, headers, bodies, redirects and the download.
  \<^item> \<open>Command_Line\<close>, \<open>Command_Dispatch\<close>, \<open>Command_Main\<close>, \<open>Command_Plan\<close> (\<open>wpm.c\<close>): validation, \<open>main\<close>, the switch over the
    commands as a list of calls, and the two passes of a plan over the state of \<open>Operation\<close>.
  \<^item> \<open>Archive_Sample\<close>, \<open>Signature_Sample\<close>, \<open>Operation_Sample\<close>, \<open>Transaction_Sample\<close>: concrete inputs.

  \<^bold>\<open>Conventions.\<close> Definitions carry the names of the C functions; parts of long functions have names of their own. A C string is
  the list of its bytes, a pointer into it the remaining suffix, a null pointer or a failure \<open>None\<close>, an error code a value of a
  sum or a datatype. A buffer of size \<open>n\<close> refuses what does not fit as the code does. \<open>unsigned long long\<close> is a natural number
  with the overflow test of the code, \<open>long\<close> has 32 bits, \<open>size_t\<close> has 64, capabilities are words. Loops are structural
  recursions or terminate by a measure; the explicit stack of the JSON validator, the eleven hops of a download (\<open>11\<close> is the
  bound in the code) and the two passes of a plan are the only bounds, and \<open>command_line_handled\<close> shows that two passes
  are enough. File contents are lists of bytes without zero bytes where the code reads text.

  \<^bold>\<open>Parameters.\<close> Windows (files, directories, attributes, full paths, processes, the clock), minizip, zlib, libsodium (digests,
  signatures, random numbers) and Mbed TLS are arguments of the definitions; digests and keys are hexadecimal text. What a
  proof needs of them is a named hypothesis (a hash is a function, a signature verifies what was signed, the order of \<open>qsort\<close> among
  equals is unspecified), and each such property has a sample for which it holds. Allocation succeeds, except where
  the code recovers in a visible way. Messages, progress and the colours of the console are not modelled.

  \<^bold>\<open>What is shown.\<close> Readers: the JSON validator, the HTTP body and the arguments of a command accept exactly their grammars,
  versions are ordered as specified, what is written is read back (JSON, configuration, journal, audits, signatures, built packages). Bounds: entries, headers, numbers and indexes never exceed
  their limits. Trust: a revoked key stays revoked, a validated signed archive has exactly the files of its signed index, a
  script runs only after the staged files, the signature and the metadata were verified, and inside a plan only for an
  approved, unchanged and recorded item. Confinement: extraction stays below its directory, guards follow exactly the
  canonical components, a redirect without a host stays on its host and nothing in an
  address can add a line to a request, dry runs and queries have no capability.
  Failure: a journal that cannot be written stops the plan, a failed upgrade script leaves an audit that the query reports, a failed
  download leaves the destination untouched. Progress: plans run out, and a package that was built verifies.

  \<^bold>\<open>Not modelled.\<close> In \<open>wpm.c\<close>: usage texts, version and runtime reports, the JSON envelope \<open>machine_query\<close>. In \<open>archive.c\<close>:
  the compression of entries, directories and their removal, the terminal filter of script output, the scheduling of a
  self-upgrade, all process handling. In \<open>repository.c\<close>: the download through URLMon and WinINet, copying and publishing of
  cached indexes, the author commands (\<open>init\<close>, \<open>index\<close>, \<open>add-package\<close>, \<open>sign\<close>), health diagnosis, and the
  listing queries. In \<open>signing.c\<close>: the listing of keys and the access list of private keys. In \<open>logging.c\<close>: sinks and
  styles. \<open>hashing.c\<close>, \<open>helpers.c\<close> and \<open>progress.c\<close> are wrappers around libsodium, the C library and the console, and
  \<open>init.c\<close> writes fixed texts. These parts are file, process and console calls in a row, or build their text from parts
  that are modelled; the build files, the probes and the tests are outside of the program.
\<close>

end
